(* ===== verification/Masque_Prelude.thy ===== *)
theory Masque_Prelude
  imports Main "HOL-Library.Word" "HOL-Library.AList"
begin

text \<open>
  Shared vocabulary of the MasqueCat development: byte strings, the big-endian
  integers of Go's \<^verbatim>\<open>encoding/binary\<close>, Go maps as association lists, the
  few \<^verbatim>\<open>bytes\<close> and \<^verbatim>\<open>strings\<close> functions the sources call, and the
  generic lemmas the component theories use.

  A Go map is an association list with distinct keys: reading, storing and deleting
  are \<open>map_of\<close>, \<open>AList.update\<close> and \<open>AList.delete\<close>, \<^verbatim>\<open>len\<close> is
  \<open>length\<close> and \<^verbatim>\<open>range\<close> visits the entries in list order. Go leaves the
  iteration order unspecified; every theorem about a map operation is stated for an
  arbitrary well-formed list, hence for every order. A nil map reads as the empty map
  and every source function that stores into one allocates it first, so nil and empty
  are not distinguished unless the source tests for nil.

  Times are integers, in nanoseconds, and a function that reads the clock takes the
  reading as an argument.
\<close>

section \<open>Types\<close>

type_synonym byte = "8 word"
type_synonym bytes = "byte list"
type_synonym u16 = "16 word"
type_synonym u32 = "32 word"
type_synonym u64 = "64 word"
type_synonym time = int
type_synonym ('k, 'v) gomap = "('k \<times> 'v) list"

text \<open>Collections: the constants of the sources, facts about well-formed Go maps, and the
  facts every operation of a component keeps its invariant by.\<close>

named_theorems go_consts \<open>numeric constants of the sources\<close>
named_theorems gomap_simps \<open>rewriting of Go map operations\<close>
named_theorems inv_intros \<open>preservation of the component invariants\<close>

definition seconds :: "int \<Rightarrow> time" where
  "seconds n = n * 1000000000"

definition milliseconds :: "int \<Rightarrow> time" where
  "milliseconds n = n * 1000000"

section \<open>Go maps\<close>

definition gomap_ok :: "('k, 'v) gomap \<Rightarrow> bool" where
  "gomap_ok m \<longleftrightarrow> distinct (map fst m)"

lemma gomap_ok_Nil [simp]: "gomap_ok []"
  by (simp add: gomap_ok_def)

lemma gomap_ok_update [simp, intro]: "gomap_ok m \<Longrightarrow> gomap_ok (AList.update k v m)"
  by (simp add: gomap_ok_def distinct_update)

lemma gomap_ok_delete [simp, intro]: "gomap_ok m \<Longrightarrow> gomap_ok (AList.delete k m)"
  by (simp add: gomap_ok_def distinct_delete)

lemma gomap_ok_filter [simp, intro]: "gomap_ok m \<Longrightarrow> gomap_ok (filter P m)"
  by (simp add: gomap_ok_def distinct_map_filter)

lemma map_of_update [gomap_simps]:
  "map_of (AList.update k v m) k' = (if k' = k then Some v else map_of m k')"
  by (simp add: update_conv')

lemma map_of_delete_iff [gomap_simps]:
  "map_of (AList.delete k m) k' = (if k' = k then None else map_of m k')"
  by (simp add: delete_conv')

lemma gomap_in_set: "gomap_ok m \<Longrightarrow> (k, v) \<in> set m \<longleftrightarrow> map_of m k = Some v"
  by (simp add: gomap_ok_def)

lemma map_of_filter_ok:
  assumes "gomap_ok m"
  shows "map_of (filter P m) k =
    (case map_of m k of None \<Rightarrow> None | Some v \<Rightarrow> if P (k, v) then Some v else None)"
proof (cases "map_of (filter P m) k")
  case None
  then have no: "\<And>v. (k, v) \<notin> set (filter P m)"
    by (metis weak_map_of_SomeI option.distinct(1))
  show ?thesis
  proof (cases "map_of m k")
    case (Some v)
    then have "(k, v) \<in> set m" by (rule map_of_SomeD)
    with no [of v] None Some show ?thesis by simp
  qed (simp add: None)
next
  case (Some v)
  then have "(k, v) \<in> set (filter P m)" by (rule map_of_SomeD)
  with Some assms show ?thesis by (simp add: gomap_in_set)
qed

lemma map_of_filter_SomeD:
  "gomap_ok m \<Longrightarrow> map_of (filter P m) k = Some v \<Longrightarrow> map_of m k = Some v \<and> P (k, v)"
  by (simp add: map_of_filter_ok split: option.splits if_splits)

lemma update_absent: "k \<notin> fst ` set m \<Longrightarrow> AList.update k v m = m @ [(k, v)]"
  by (induction m) auto

lemma update_present_keys: "k \<in> fst ` set m \<Longrightarrow> map fst (AList.update k v m) = map fst m"
  by (simp add: update_keys)

lemma set_update_subset: "set (AList.update k v m) \<subseteq> insert (k, v) (set m)"
  by (induction m) auto

lemma delete_as_filter: "AList.delete k m = filter (\<lambda>e. fst e \<noteq> k) m"
  by (induction m) auto

lemma set_delete: "set (AList.delete k m) = {e \<in> set m. fst e \<noteq> k}"
  by (simp add: delete_as_filter)

lemma length_filter_delete: "length (filter Q (AList.delete k m)) \<le> length (filter Q m)"
  by (induction m) auto

text \<open>The number of keys that satisfy a predicate, as the counting loops compute it.\<close>

definition key_count :: "('k \<Rightarrow> bool) \<Rightarrow> ('k, 'v) gomap \<Rightarrow> nat" where
  "key_count P m = length (filter P (map fst m))"

lemma key_count_Nil [simp]: "key_count P [] = 0"
  by (simp add: key_count_def)

lemma key_count_le_length: "key_count P m \<le> length m"
  unfolding key_count_def by (metis length_filter_le length_map)

lemma key_count_filter: "key_count P (filter Q m) \<le> key_count P m"
  by (induction m) (auto simp: key_count_def)

lemma key_count_delete: "key_count P (AList.delete k m) \<le> key_count P m"
  by (simp add: delete_as_filter key_count_filter)

lemma key_count_update_absent:
  "k \<notin> fst ` set m \<Longrightarrow> key_count P (AList.update k v m) = key_count P m + (if P k then 1 else 0)"
  by (simp add: update_absent key_count_def)

lemma key_count_update_present:
  "k \<in> fst ` set m \<Longrightarrow> key_count P (AList.update k v m) = key_count P m"
  by (simp add: key_count_def update_present_keys)

lemma length_update_absent: "k \<notin> fst ` set m \<Longrightarrow> length (AList.update k v m) = Suc (length m)"
  by (simp add: update_absent)

lemma length_update_present: "k \<in> fst ` set m \<Longrightarrow> length (AList.update k v m) = length m"
  by (metis length_map update_present_keys)

section \<open>Byte slices\<close>

definition HasPrefix :: "'a list \<Rightarrow> 'a list \<Rightarrow> bool" where
  "HasPrefix s p \<longleftrightarrow> length p \<le> length s \<and> take (length p) s = p"

lemma HasPrefix_append [simp]: "HasPrefix (p @ s) p"
  by (simp add: HasPrefix_def)

lemma HasPrefix_iff: "HasPrefix s p \<longleftrightarrow> (\<exists>t. s = p @ t)"
  unfolding HasPrefix_def by (metis append_take_drop_id append_eq_conv_conj length_append le_add1)

text \<open>The slice expression \<^verbatim>\<open>b[i:j]\<close>, for bounds in range.\<close>

definition slice :: "nat \<Rightarrow> nat \<Rightarrow> 'a list \<Rightarrow> 'a list" where
  "slice i j b = take (j - i) (drop i b)"

lemma length_slice [simp]: "j \<le> length b \<Longrightarrow> length (slice i j b) = j - i"
  by (simp add: slice_def)

lemma drop_slice: "i \<le> j \<Longrightarrow> drop i b = slice i j b @ drop j b"
  unfolding slice_def by (metis append_take_drop_id drop_drop le_add_diff_inverse2)

text \<open>
  \<^verbatim>\<open>append([]byte(nil), chunk...)\<close>: a copy of the slice, which stays nil when there is
  nothing to append. A slice that the source compares with nil is an \<open>option\<close>.
\<close>

definition append_nil :: "'a list \<Rightarrow> 'a list option" where
  "append_nil chunk = (if chunk = [] then None else Some chunk)"

lemma append_nil_nonempty [simp]: "chunk \<noteq> [] \<Longrightarrow> append_nil chunk = Some chunk"
  by (simp add: append_nil_def)

section \<open>Big-endian integers\<close>

fun be_put :: "nat \<Rightarrow> nat \<Rightarrow> bytes" where
  "be_put 0 v = []"
| "be_put (Suc n) v = be_put n (v div 256) @ [word_of_nat v]"

definition be_get :: "bytes \<Rightarrow> nat" where
  "be_get bs = foldl (\<lambda>a b. a * 256 + unat b) 0 bs"

lemma length_be_put [simp]: "length (be_put n v) = n"
  by (induction n arbitrary: v) auto

lemma be_get_Nil [simp]: "be_get [] = 0"
  by (simp add: be_get_def)

lemma be_get_snoc [simp]: "be_get (bs @ [b]) = be_get bs * 256 + unat b"
  by (simp add: be_get_def)

lemma unat_byte_of_nat: "unat (word_of_nat v :: byte) = v mod 256"
  by (simp add: unat_of_nat)

lemma be_get_put: "be_get (be_put n v) = v mod 256 ^ n"
proof (induction n arbitrary: v)
  case 0
  then show ?case by simp
next
  case (Suc n)
  have "v mod (256 * 256 ^ n) = 256 * (v div 256 mod 256 ^ n) + v mod 256"
    by (rule mod_mult2_eq)
  with Suc.IH [of "v div 256"] show ?case
    by (simp add: unat_byte_of_nat mult.commute)
qed

lemma be_get_put_small [simp]: "v < 256 ^ n \<Longrightarrow> be_get (be_put n v) = v"
  by (simp add: be_get_put)

lemma be_get_bound: "be_get bs < 256 ^ length bs"
proof (induction bs rule: rev_induct)
  case Nil
  then show ?case by simp
next
  case (snoc b bs)
  have "unat b < 256" using unsigned_less [of b, where 'a = nat] by simp
  with snoc show ?case by simp
qed

definition PutUint16 :: "u16 \<Rightarrow> bytes" where "PutUint16 v = be_put 2 (unat v)"
definition PutUint32 :: "u32 \<Rightarrow> bytes" where "PutUint32 v = be_put 4 (unat v)"
definition PutUint64 :: "u64 \<Rightarrow> bytes" where "PutUint64 v = be_put 8 (unat v)"
definition Uint16 :: "bytes \<Rightarrow> u16" where "Uint16 bs = word_of_nat (be_get bs)"
definition Uint32 :: "bytes \<Rightarrow> u32" where "Uint32 bs = word_of_nat (be_get bs)"
definition Uint64 :: "bytes \<Rightarrow> u64" where "Uint64 bs = word_of_nat (be_get bs)"

lemma length_PutUint [simp]:
  "length (PutUint16 a) = 2" "length (PutUint32 b) = 4" "length (PutUint64 c) = 8"
  by (simp_all add: PutUint16_def PutUint32_def PutUint64_def)

lemma Uint16_PutUint16 [simp]: "Uint16 (PutUint16 v) = v"
  using unsigned_less [of v, where 'a = nat] by (simp add: Uint16_def PutUint16_def)

lemma Uint32_PutUint32 [simp]: "Uint32 (PutUint32 v) = v"
  using unsigned_less [of v, where 'a = nat] by (simp add: Uint32_def PutUint32_def)

lemma Uint64_PutUint64 [simp]: "Uint64 (PutUint64 v) = v"
  using unsigned_less [of v, where 'a = nat] by (simp add: Uint64_def PutUint64_def)

section \<open>Lists of optional values\<close>

definition count_some :: "'a option list \<Rightarrow> nat" where
  "count_some xs = length (filter (\<lambda>x. x \<noteq> None) xs)"

lemma count_some_simps [simp]:
  "count_some [] = 0" "count_some (None # xs) = count_some xs"
  "count_some (Some b # xs) = Suc (count_some xs)"
  "count_some (replicate n None) = 0"
  by (simp_all add: count_some_def)

lemma count_some_le: "count_some xs \<le> length xs"
  by (simp add: count_some_def)

lemma count_some_lt: "None \<in> set xs \<Longrightarrow> count_some xs < length xs"
  unfolding count_some_def by (rule length_filter_less) auto

lemma count_some_update:
  "i < length xs \<Longrightarrow> xs ! i = None \<Longrightarrow> count_some (xs[i := Some b]) = Suc (count_some xs)"
proof (induction xs arbitrary: i)
  case (Cons x xs)
  then show ?case by (cases i; cases x) auto
qed simp

lemma all_some:
  assumes "count_some xs = length xs"
  shows "xs = map Some (map the xs)"
proof -
  have "None \<notin> set xs" using count_some_lt [of xs] assms by auto
  then show ?thesis by (induction xs) auto
qed

end
