(* ===== verification/Go_Std.thy ===== *)
theory Go_Std
  imports Masque_Prelude
begin

text \<open>
  The functions of Go's standard library that the sources call on strings, addresses and
  encodings: \<^verbatim>\<open>strings\<close>, \<^verbatim>\<open>net.SplitHostPort\<close>, \<^verbatim>\<open>encoding/hex\<close>,
  \<^verbatim>\<open>encoding/base64\<close> (RawURLEncoding) and the header map of \<^verbatim>\<open>net/http\<close>.
  A Go string is a sequence of bytes, here a list of characters.
\<close>

section \<open>strings\<close>

definition CutPrefix :: "'a list \<Rightarrow> 'a list \<Rightarrow> 'a list \<times> bool" where
  "CutPrefix s p = (if HasPrefix s p then (drop (length p) s, True) else (s, False))"

definition TrimPrefix :: "'a list \<Rightarrow> 'a list \<Rightarrow> 'a list" where
  "TrimPrefix s p = fst (CutPrefix s p)"

definition HasSuffix :: "'a list \<Rightarrow> 'a list \<Rightarrow> bool" where
  "HasSuffix s p \<longleftrightarrow> length p \<le> length s \<and> drop (length s - length p) s = p"

definition CutSuffix :: "'a list \<Rightarrow> 'a list \<Rightarrow> 'a list \<times> bool" where
  "CutSuffix s p = (if HasSuffix s p then (take (length s - length p) s, True) else (s, False))"

definition TrimSuffix :: "'a list \<Rightarrow> 'a list \<Rightarrow> 'a list" where
  "TrimSuffix s p = fst (CutSuffix s p)"

lemma HasSuffix_append [simp]: "HasSuffix (s @ p) p"
  by (simp add: HasSuffix_def)

lemma HasSuffix_iff: "HasSuffix s p \<longleftrightarrow> (\<exists>t. s = t @ p)"
  unfolding HasSuffix_def by (metis append_take_drop_id append_eq_conv_conj diff_add_inverse2
      length_append le_add2)

lemma CutPrefix_append [simp]: "CutPrefix (p @ s) p = (s, True)"
  by (simp add: CutPrefix_def)

lemma TrimPrefix_append [simp]: "TrimPrefix (p @ s) p = s"
  by (simp add: TrimPrefix_def)

lemma CutSuffix_append [simp]: "CutSuffix (s @ p) p = (s, True)"
  by (simp add: CutSuffix_def)

lemma CutPrefix_True: "CutPrefix s p = (r, True) \<longleftrightarrow> s = p @ r"
  by (auto simp: CutPrefix_def HasPrefix_iff split: if_splits)

lemma CutSuffix_True: "CutSuffix s p = (r, True) \<longleftrightarrow> s = r @ p"
  by (auto simp: CutSuffix_def HasSuffix_iff split: if_splits)

text \<open>\<open>IndexByte\<close> and \<open>LastIndexByte\<close>; \<open>None\<close> is -1.\<close>

fun IndexByte :: "'a list \<Rightarrow> 'a \<Rightarrow> nat option" where
  "IndexByte [] c = None"
| "IndexByte (x # xs) c = (if x = c then Some 0 else map_option Suc (IndexByte xs c))"

fun LastIndexByte :: "'a list \<Rightarrow> 'a \<Rightarrow> nat option" where
  "LastIndexByte [] c = None"
| "LastIndexByte (x # xs) c =
     (case LastIndexByte xs c of Some i \<Rightarrow> Some (Suc i)
      | None \<Rightarrow> if x = c then Some 0 else None)"

lemma IndexByte_None [simp]: "IndexByte s c = None \<longleftrightarrow> c \<notin> set s"
  by (induction s) auto

lemma LastIndexByte_None [simp]: "LastIndexByte s c = None \<longleftrightarrow> c \<notin> set s"
  by (induction s) (auto split: option.splits)

lemma LastIndexByte_split: "c \<notin> set t \<Longrightarrow> LastIndexByte (s @ c # t) c = Some (length s)"
  by (induction s) (auto simp: LastIndexByte_None [THEN iffD2] split: option.splits)

lemma LastIndexByte_SomeD:
  "LastIndexByte s c = Some i \<Longrightarrow> i < length s \<and> s = take i s @ c # drop (Suc i) s \<and> c \<notin> set (drop (Suc i) s)"
  by (induction s arbitrary: i) (auto split: option.splits if_splits)

definition lower :: "char \<Rightarrow> char" where
  "lower c = (if 65 \<le> (of_char c :: nat) \<and> (of_char c :: nat) \<le> 90
              then char_of (of_char c + 32 :: nat) else c)"

definition upper :: "char \<Rightarrow> char" where
  "upper c = (if 97 \<le> (of_char c :: nat) \<and> (of_char c :: nat) \<le> 122
              then char_of (of_char c - 32 :: nat) else c)"

definition ToLower :: "string \<Rightarrow> string" where
  "ToLower s = map lower s"

section \<open>net.SplitHostPort and net.JoinHostPort\<close>

datatype addr_error = MissingPort | TooManyColons | MissingBracket | UnexpectedOpen | UnexpectedClose

definition SplitHostPort :: "string \<Rightarrow> addr_error + (string \<times> string)" where
  "SplitHostPort hostport =
     (case LastIndexByte hostport CHR '':'' of
        None \<Rightarrow> Inl MissingPort
      | Some i \<Rightarrow>
          let finish = (\<lambda>host j k.
                if CHR ''['' \<in> set (drop j hostport) then Inl UnexpectedOpen
                else if CHR '']'' \<in> set (drop k hostport) then Inl UnexpectedClose
                else Inr (host, drop (i + 1) hostport))
          in if hd hostport = CHR ''['' then
               (case IndexByte hostport CHR '']'' of
                  None \<Rightarrow> Inl MissingBracket
                | Some e \<Rightarrow>
                    if e + 1 = length hostport then Inl MissingPort
                    else if e + 1 = i then finish (slice 1 e hostport) 1 (e + 1)
                    else if hostport ! (e + 1) = CHR '':'' then Inl TooManyColons
                    else Inl MissingPort)
             else if CHR '':'' \<in> set (take i hostport) then Inl TooManyColons
             else finish (take i hostport) 0 0)"

definition JoinHostPort :: "string \<Rightarrow> string \<Rightarrow> string" where
  "JoinHostPort host port =
     (if CHR '':'' \<in> set host then ''['' @ host @ '']:'' @ port else host @ '':'' @ port)"

lemma SplitHostPort_plain:
  assumes "CHR '':'' \<notin> set host" "CHR '':'' \<notin> set port"
    "CHR ''['' \<notin> set host" "CHR '']'' \<notin> set host" "CHR ''['' \<notin> set port" "CHR '']'' \<notin> set port"
  shows "SplitHostPort (host @ CHR '':'' # port) = Inr (host, port)"
proof -
  have "hd (host @ CHR '':'' # port) \<noteq> CHR ''[''" using assms by (cases host) auto
  with assms show ?thesis by (auto simp: SplitHostPort_def LastIndexByte_split Let_def)
qed

lemma SplitHostPort_plainD:
  assumes "SplitHostPort s = Inr (host, port)" "hd s \<noteq> CHR ''[''"
  shows "s = host @ CHR '':'' # port"
  using assms LastIndexByte_SomeD [of s "CHR '':''"]
  by (auto simp: SplitHostPort_def Let_def split: option.splits if_splits)

lemma IndexByte_SomeD: "IndexByte s c = Some i \<Longrightarrow> i < length s \<and> s = take i s @ c # drop (Suc i) s"
  by (induction s arbitrary: i) (auto split: if_splits)

lemma SplitHostPort_bracketD:
  assumes "SplitHostPort s = Inr (host, port)" "hd s = CHR ''[''"
  shows "s = ''['' @ host @ '']:'' @ port"
proof -
  from assms obtain i e where i: "LastIndexByte s CHR '':'' = Some i"
    and e: "IndexByte s CHR '']'' = Some e" and ei: "e + 1 = i"
    and h: "host = slice 1 e s" and p: "port = drop (i + 1) s"
    by (auto simp: SplitHostPort_def Let_def split: option.splits if_splits)
  note i' = LastIndexByte_SomeD [OF i] and e' = IndexByte_SomeD [OF e]
  have "e \<noteq> 0" using e assms(2) by (cases s) (auto split: if_splits)
  moreover have "s \<noteq> []" using i' by auto
  ultimately have "take e s = CHR ''['' # slice 1 e s"
    using assms(2) by (cases s; cases e) (auto simp: slice_def)
  moreover have "drop (Suc e) s = CHR '':'' # drop (i + 1) s"
    using i' ei by (metis Cons_nth_drop_Suc Suc_eq_plus1 append_eq_conv_conj length_take
        min.absorb4 nth_append_length)
  ultimately show ?thesis using e' h p by (metis append_Cons append_Nil)
qed

section \<open>encoding/hex\<close>

definition hex_digit :: "nat \<Rightarrow> char" where
  "hex_digit n = ''0123456789abcdef'' ! n"

definition hex_value :: "char \<Rightarrow> nat option" where
  "hex_value c =
     (let n = (of_char c :: nat) in
      if 48 \<le> n \<and> n \<le> 57 then Some (n - 48)
      else if 97 \<le> n \<and> n \<le> 102 then Some (n - 87)
      else if 65 \<le> n \<and> n \<le> 70 then Some (n - 55)
      else None)"

definition hex_encode :: "bytes \<Rightarrow> string" where
  "hex_encode bs = concat (map (\<lambda>b. [hex_digit (unat b div 16), hex_digit (unat b mod 16)]) bs)"

fun hex_decode :: "string \<Rightarrow> bytes option" where
  "hex_decode [] = Some []"
| "hex_decode [c] = None"
| "hex_decode (a # b # s) =
     (case (hex_value a, hex_value b) of
        (Some x, Some y) \<Rightarrow> map_option (\<lambda>bs. word_of_nat (16 * x + y) # bs) (hex_decode s)
      | _ \<Rightarrow> None)"

lemma nat16_cases: "n < 16 \<Longrightarrow> n \<in> {0,1,2,3,4,5,6,7,8,9,10,11,12,13,14,15::nat}"
  by (simp, arith)

lemma hex_value_digit: "n < 16 \<Longrightarrow> hex_value (hex_digit n) = Some n"
  by (drule nat16_cases) (auto simp: hex_value_def hex_digit_def)

lemma unat_byte_less: "unat (b :: byte) < 256"
  using unsigned_less [of b, where 'a = nat] by simp

lemma hex_decode_encode [simp]: "hex_decode (hex_encode bs) = Some bs"
proof (induction bs)
  case (Cons b bs)
  have "unat b div 16 < 16" "unat b mod 16 < 16" using unat_byte_less [of b] by auto
  with Cons show ?case by (simp add: hex_encode_def hex_value_digit)
qed (simp add: hex_encode_def)

lemma length_hex_encode [simp]: "length (hex_encode bs) = 2 * length bs"
  by (induction bs) (auto simp: hex_encode_def)

lemma set_hex_encode: "c \<in> set (hex_encode bs) \<Longrightarrow> hex_value c \<noteq> None"
proof (induction bs)
  case (Cons b bs)
  have "unat b div 16 < 16" "unat b mod 16 < 16" using unat_byte_less [of b] by auto
  with Cons show ?case unfolding hex_encode_def by (auto simp: hex_value_digit)
qed (simp add: hex_encode_def)

section \<open>encoding/base64: RawURLEncoding\<close>

text \<open>
  The URL alphabet without padding. The decoder is not strict: it skips carriage returns and
  newlines and ignores the unused bits of the last character.
\<close>

definition b64_digit :: "nat \<Rightarrow> char" where
  "b64_digit n =
     char_of (if n < 26 then n + 65 else if n < 52 then n + 71 else if n < 62 then n - 4
              else if n = 62 then 45 else 95)"

definition b64_value :: "char \<Rightarrow> nat option" where
  "b64_value c =
     (let n = (of_char c :: nat) in
      if 65 \<le> n \<and> n \<le> 90 then Some (n - 65)
      else if 97 \<le> n \<and> n \<le> 122 then Some (n - 71)
      else if 48 \<le> n \<and> n \<le> 57 then Some (n + 4)
      else if n = 45 then Some 62
      else if n = 95 then Some 63
      else None)"

fun b64_encode :: "bytes \<Rightarrow> string" where
  "b64_encode [] = []"
| "b64_encode [a] =
     (let v = unat a * 65536 in [b64_digit (v div 262144), b64_digit (v div 4096 mod 64)])"
| "b64_encode [a, b] =
     (let v = unat a * 65536 + unat b * 256
      in [b64_digit (v div 262144), b64_digit (v div 4096 mod 64), b64_digit (v div 64 mod 64)])"
| "b64_encode (a # b # c # r) =
     (let v = unat a * 65536 + unat b * 256 + unat c
      in b64_digit (v div 262144) # b64_digit (v div 4096 mod 64) # b64_digit (v div 64 mod 64)
         # b64_digit (v mod 64) # b64_encode r)"

fun b64_quanta :: "nat list \<Rightarrow> bytes option" where
  "b64_quanta [] = Some []"
| "b64_quanta [w] = None"
| "b64_quanta [w, x] = (let v = w * 262144 + x * 4096 in Some [word_of_nat (v div 65536)])"
| "b64_quanta [w, x, y] =
     (let v = w * 262144 + x * 4096 + y * 64
      in Some [word_of_nat (v div 65536), word_of_nat (v div 256)])"
| "b64_quanta (w # x # y # z # r) =
     (let v = w * 262144 + x * 4096 + y * 64 + z
      in map_option (\<lambda>bs. word_of_nat (v div 65536) # word_of_nat (v div 256) # word_of_nat v # bs)
           (b64_quanta r))"

fun b64_values :: "string \<Rightarrow> nat list option" where
  "b64_values [] = Some []"
| "b64_values (c # s) =
     (if c = CHR 0x0A \<or> c = CHR 0x0D then b64_values s
      else case (b64_value c, b64_values s) of
             (Some v, Some vs) \<Rightarrow> Some (v # vs)
           | _ \<Rightarrow> None)"

definition b64_decode :: "string \<Rightarrow> bytes option" where
  "b64_decode s = Option.bind (b64_values s) b64_quanta"

lemma b64_value_digit: "n < 64 \<Longrightarrow> b64_value (b64_digit n) = Some n"
  by (auto simp: b64_value_def b64_digit_def Let_def)

lemma b64_value_newline [simp]: "b64_value CHR 0x0A = None" "b64_value CHR 0x0D = None"
  by (simp_all add: b64_value_def)

lemma b64_digit_newline: "n < 64 \<Longrightarrow> b64_digit n \<noteq> CHR 0x0A \<and> b64_digit n \<noteq> CHR 0x0D"
  using b64_value_digit [of n] by auto

lemma b64_values_digits:
  "\<forall>n\<in>set ns. n < 64 \<Longrightarrow> b64_values (map b64_digit ns) = Some ns"
  by (induction ns) (auto simp: b64_value_digit b64_digit_newline)

text \<open>The digits of an encoding, and that decoding them gives the bytes back.\<close>

fun b64_digits :: "bytes \<Rightarrow> nat list" where
  "b64_digits [] = []"
| "b64_digits [a] = (let v = unat a * 65536 in [v div 262144, v div 4096 mod 64])"
| "b64_digits [a, b] =
     (let v = unat a * 65536 + unat b * 256 in [v div 262144, v div 4096 mod 64, v div 64 mod 64])"
| "b64_digits (a # b # c # r) =
     (let v = unat a * 65536 + unat b * 256 + unat c
      in v div 262144 # v div 4096 mod 64 # v div 64 mod 64 # v mod 64 # b64_digits r)"

lemma b64_encode_digits: "b64_encode bs = map b64_digit (b64_digits bs)"
  by (induction bs rule: b64_encode.induct) (simp_all add: Let_def)

lemma b64_top_digit: "(v::nat) < 16777216 \<Longrightarrow> v div 262144 < 64"
  by (rule less_mult_imp_div_less) simp

lemma b64_digits_bound: "\<forall>n\<in>set (b64_digits bs). n < 64"
proof (induction bs rule: b64_digits.induct)
  case (2 a)
  show ?case unfolding b64_digits.simps Let_def
    using unat_byte_less [of a] b64_top_digit [of "unat a * 65536"] by simp
next
  case (3 a b)
  show ?case unfolding b64_digits.simps Let_def
    using unat_byte_less [of a] unat_byte_less [of b]
      b64_top_digit [of "unat a * 65536 + unat b * 256"] by simp
next
  case (4 a b c r)
  then show ?case unfolding b64_digits.simps Let_def
    using unat_byte_less [of a] unat_byte_less [of b] unat_byte_less [of c]
      b64_top_digit [of "unat a * 65536 + unat b * 256 + unat c"] by simp
qed simp

lemma b64_regroup:
  "(v::nat) div 262144 * 262144 + v div 4096 mod 64 * 4096 + v div 64 mod 64 * 64 + v mod 64 = v"
proof -
  define q1 where "q1 = v div 64"
  define q2 where "q2 = q1 div 64"
  define q3 where "q3 = q2 div 64"
  have q: "v div 4096 = q2" "v div 262144 = q3"
    by (simp_all add: q1_def q2_def q3_def div_mult2_eq [symmetric])
  have "64 * q3 + q2 mod 64 = q2" "64 * q2 + q1 mod 64 = q1" "64 * q1 + v mod 64 = v"
    by (simp_all add: q1_def q2_def q3_def)
  then show ?thesis unfolding q q1_def [symmetric] by linarith
qed

lemma word_of_nat_byte: "(word_of_nat (unat b) :: byte) = b"
  by simp

lemma byte_eqI: "n mod 256 = unat (b :: byte) \<Longrightarrow> (word_of_nat n :: byte) = b"
  by (metis unat_byte_of_nat word_unat_eq_iff)

lemma three_bytes:
  fixes a b c :: nat
  assumes "a < 256" "b < 256" "c < 256"
  shows "(a * 65536 + b * 256 + c) div 65536 = a"
    "(a * 65536 + b * 256 + c) div 256 mod 256 = b"
    "(a * 65536 + b * 256 + c) mod 256 = c"
proof -
  have v: "a * 65536 + b * 256 + c = (a * 256 + b) * 256 + c" by simp
  have d: "((a * 256 + b) * 256 + c) div 256 = a * 256 + b" using assms by simp
  have "((a * 256 + b) * 256 + c) div 65536 = ((a * 256 + b) * 256 + c) div 256 div 256"
    by (simp add: div_mult2_eq [symmetric])
  with assms show "(a * 65536 + b * 256 + c) div 65536 = a" unfolding v d by simp
  show "(a * 65536 + b * 256 + c) div 256 mod 256 = b" unfolding v d using assms by simp
  show "(a * 65536 + b * 256 + c) mod 256 = c" unfolding v using assms by (metis mod_less mod_mult_self3)
qed

lemma b64_quanta_digits: "b64_quanta (b64_digits bs) = Some bs"
proof (induction bs rule: b64_digits.induct)
  case (2 a)
  let ?v = "unat a * 65536"
  have "?v mod 64 = 0" "?v div 64 mod 64 = 0" by simp_all
  with b64_regroup [of ?v] have *: "?v div 262144 * 262144 + ?v div 4096 mod 64 * 4096 = ?v" by simp
  show ?case unfolding b64_digits.simps Let_def b64_quanta.simps * by simp
next
  case (3 a b)
  let ?v = "unat a * 65536 + unat b * 256"
  have "?v mod 64 = 0" by (simp add: mod_eq_0_iff_dvd)
  with b64_regroup [of ?v]
  have *: "?v div 262144 * 262144 + ?v div 4096 mod 64 * 4096 + ?v div 64 mod 64 * 64 = ?v" by simp
  have "?v div 65536 = unat a" "?v div 256 mod 256 = unat b"
    using three_bytes [of "unat a" "unat b" 0] unat_byte_less [of a] unat_byte_less [of b] by simp_all
  then have "(word_of_nat (?v div 65536) :: byte) = a" "(word_of_nat (?v div 256) :: byte) = b"
    by (simp, blast intro: byte_eqI)
  then show ?case unfolding b64_digits.simps Let_def b64_quanta.simps * by simp
next
  case (4 a b c r)
  let ?v = "unat a * 65536 + unat b * 256 + unat c"
  note * = b64_regroup [of ?v]
  have "?v div 65536 = unat a" "?v div 256 mod 256 = unat b" "?v mod 256 = unat c"
    using unat_byte_less [of a] unat_byte_less [of b] unat_byte_less [of c]
    by (blast intro: three_bytes)+
  then have "(word_of_nat (?v div 65536) :: byte) = a" "(word_of_nat (?v div 256) :: byte) = b"
    "(word_of_nat ?v :: byte) = c" by (simp, blast intro: byte_eqI, blast intro: byte_eqI)
  with 4 show ?case unfolding b64_digits.simps Let_def b64_quanta.simps * by simp
qed simp

lemma b64_decode_encode [simp]: "b64_decode (b64_encode bs) = Some bs"
  by (simp add: b64_decode_def b64_encode_digits b64_values_digits b64_digits_bound b64_quanta_digits)

lemma set_b64_encode: "c \<in> set (b64_encode bs) \<Longrightarrow> b64_value c \<noteq> None"
  using b64_digits_bound [of bs] by (auto simp: b64_encode_digits b64_value_digit)

section \<open>The header map of net/http\<close>

type_synonym header = "(string, string list) gomap"

definition token_char :: "char \<Rightarrow> bool" where
  "token_char c =
     (let n = (of_char c :: nat) in
      (48 \<le> n \<and> n \<le> 57) \<or> (65 \<le> n \<and> n \<le> 90) \<or> (97 \<le> n \<and> n \<le> 122)
      \<or> c \<in> set ''!#$%&*+-.^_`|~'' \<or> n = 39)"

fun canonical_from :: "bool \<Rightarrow> string \<Rightarrow> string" where
  "canonical_from up [] = []"
| "canonical_from up (c # s) = (if up then upper c else lower c) # canonical_from (c = CHR ''-'') s"

definition CanonicalHeaderKey :: "string \<Rightarrow> string" where
  "CanonicalHeaderKey k = (if list_all token_char k then canonical_from True k else k)"

definition header_values :: "header \<Rightarrow> string \<Rightarrow> string list" where
  "header_values h k = (case map_of h (CanonicalHeaderKey k) of None \<Rightarrow> [] | Some vs \<Rightarrow> vs)"

definition header_get :: "header \<Rightarrow> string \<Rightarrow> string" where
  "header_get h k = (case header_values h k of [] \<Rightarrow> [] | v # _ \<Rightarrow> v)"

definition header_set :: "string \<Rightarrow> string \<Rightarrow> header \<Rightarrow> header" where
  "header_set k v h = AList.update (CanonicalHeaderKey k) [v] h"

definition header_del :: "string \<Rightarrow> header \<Rightarrow> header" where
  "header_del k h = AList.delete (CanonicalHeaderKey k) h"

lemma header_get_set [simp]:
  "header_get (header_set k v h) k' =
     (if CanonicalHeaderKey k' = CanonicalHeaderKey k then v else header_get h k')"
  by (simp add: header_get_def header_values_def header_set_def map_of_update)

lemma header_get_Nil [simp]: "header_get [] k = []"
  by (simp add: header_get_def header_values_def)

text \<open>
  A response writer: the header map, the status once it is written, and the body. A second
  \<^verbatim>\<open>WriteHeader\<close> is ignored, as net/http does.
\<close>

record response =
  rw_header :: header
  rw_status :: "nat option"
  rw_body :: string

definition new_response :: response where
  "new_response = \<lparr>rw_header = [], rw_status = None, rw_body = []\<rparr>"

definition WriteHeader :: "nat \<Rightarrow> response \<Rightarrow> response" where
  "WriteHeader code w = (if rw_status w = None then w\<lparr>rw_status := Some code\<rparr> else w)"

definition set_header :: "string \<Rightarrow> string \<Rightarrow> response \<Rightarrow> response" where
  "set_header k v w = w\<lparr>rw_header := header_set k v (rw_header w)\<rparr>"

definition http_Error :: "response \<Rightarrow> string \<Rightarrow> nat \<Rightarrow> response" where
  "http_Error w msg code =
     (let w = w\<lparr>rw_header := header_del ''Content-Length'' (rw_header w)\<rparr>;
          w = set_header ''Content-Type'' ''text/plain; charset=utf-8'' w;
          w = set_header ''X-Content-Type-Options'' ''nosniff'' w;
          w = WriteHeader code w
      in w\<lparr>rw_body := rw_body w @ msg @ [CHR 0x0A]\<rparr>)"

lemma header_get_del [simp]:
  "header_get (header_del k h) k' =
     (if CanonicalHeaderKey k' = CanonicalHeaderKey k then [] else header_get h k')"
  by (simp add: header_get_def header_values_def header_del_def map_of_delete_iff)

lemma http_Error_status [simp]:
  "rw_status (http_Error w msg code) = (case rw_status w of None \<Rightarrow> Some code | Some c \<Rightarrow> Some c)"
  by (simp add: http_Error_def Let_def set_header_def WriteHeader_def split: option.splits)

lemma http_Error_get:
  assumes "CanonicalHeaderKey k \<notin> {CanonicalHeaderKey ''Content-Length'',
     CanonicalHeaderKey ''Content-Type'', CanonicalHeaderKey ''X-Content-Type-Options''}"
  shows "header_get (rw_header (http_Error w msg code)) k = header_get (rw_header w) k"
  using assms by (simp add: http_Error_def Let_def set_header_def WriteHeader_def)

lemma set_header_simps [simp]:
  "rw_status (set_header k v w) = rw_status w"
  "rw_header (set_header k v w) = header_set k v (rw_header w)"
  by (simp_all add: set_header_def)

section \<open>Conversions between strings and bytes\<close>

definition string_bytes :: "string \<Rightarrow> bytes" where
  "string_bytes s = map of_char s"

definition bytes_string :: "bytes \<Rightarrow> string" where
  "bytes_string b = map (\<lambda>w. char_of (unat w)) b"

lemma unat_of_char: "unat (of_char c :: byte) = of_char c"
proof -
  have "(of_char c :: byte) = word_of_nat (of_char c)" by (simp add: of_nat_of_char)
  then show ?thesis by (simp add: unat_byte_of_nat)
qed

lemma bytes_string_bytes [simp]: "bytes_string (string_bytes s) = s"
  by (induction s) (simp_all add: string_bytes_def bytes_string_def unat_of_char)

section \<open>strings.TrimSpace\<close>

definition spaces :: "string list" where
  "spaces = map (\<lambda>n. [char_of n]) [9, 10, 11, 12, 13, 32 :: nat] @
     map (map char_of) [[0xC2, 0x85], [0xC2, 0xA0 :: nat], [0xE1, 0x9A, 0x80], [0xE2, 0x80, 0xA8], [0xE2, 0x80, 0xA9], [0xE2, 0x80, 0xAF],
       [0xE2, 0x81, 0x9F], [0xE3, 0x80, 0x80]] @ map (\<lambda>n. map char_of [0xE2, 0x80, 0x80 + n :: nat]) [0..<11]"

lemma spaces_nonempty: "p \<in> set spaces \<Longrightarrow> p \<noteq> []"
  by (auto simp: spaces_def)

function TrimLeft :: "string \<Rightarrow> string" where
  "TrimLeft s =
     (case find (\<lambda>p. HasPrefix s p) spaces of
        None \<Rightarrow> s
      | Some p \<Rightarrow> TrimLeft (drop (length p) s))"
  by pat_completeness auto
termination
proof (relation "measure length")
  fix s p assume "find (\<lambda>p. HasPrefix s p) spaces = Some p"
  then have "p \<in> set spaces" "HasPrefix s p" by (auto simp: find_Some_iff)
  then have "p \<noteq> []" "s = p @ drop (length p) s" using spaces_nonempty by (auto simp: HasPrefix_iff)
  then show "(drop (length p) s, s) \<in> measure length" by (cases s) auto
qed simp

function TrimRight :: "string \<Rightarrow> string" where
  "TrimRight s =
     (case find (\<lambda>p. HasSuffix s p) spaces of
        None \<Rightarrow> s
      | Some p \<Rightarrow> TrimRight (take (length s - length p) s))"
  by pat_completeness auto
termination
proof (relation "measure length")
  fix s p assume "find (\<lambda>p. HasSuffix s p) spaces = Some p"
  then have "p \<in> set spaces" "HasSuffix s p" by (auto simp: find_Some_iff)
  then have "p \<noteq> []" "length p \<le> length s" using spaces_nonempty by (auto simp: HasSuffix_def)
  then show "(take (length s - length p) s, s) \<in> measure length" by (cases p) auto
qed simp

declare TrimLeft.simps [simp del] TrimRight.simps [simp del]

definition TrimSpace :: "string \<Rightarrow> string" where
  "TrimSpace s = TrimRight (TrimLeft s)"

end
