(* ===== verification/Go_Url.thy ===== *)
theory Go_Url
  imports Go_Std
begin

text \<open>
  The parts of \<^verbatim>\<open>net/url\<close> and \<^verbatim>\<open>net/netip\<close> the sources use: parsing of a URL
  into scheme, authority, path, query and fragment, with the percent-decoding rules of each part,
  and the textual form of IP addresses, which a bracketed host must be.
\<close>

section \<open>Cutting strings\<close>

definition Cut :: "string \<Rightarrow> char \<Rightarrow> string \<times> string" where
  "Cut s c = (case IndexByte s c of None \<Rightarrow> (s, []) | Some i \<Rightarrow> (take i s, drop (Suc i) s))"

lemma Cut_append: "c \<notin> set s \<Longrightarrow> Cut (s @ c # t) c = (s, t)"
proof -
  assume "c \<notin> set s"
  then have "IndexByte (s @ c # t) c = Some (length s)" by (induction s) auto
  then show ?thesis by (simp add: Cut_def)
qed

lemma Cut_absent: "c \<notin> set s \<Longrightarrow> Cut s c = (s, [])"
  by (simp add: Cut_def split: option.splits) (metis IndexByte_None option.distinct(1))

definition is_digit :: "char \<Rightarrow> bool" where
  "is_digit c = (let n = (of_char c :: nat) in 48 \<le> n \<and> n \<le> 57)"

definition is_alpha :: "char \<Rightarrow> bool" where
  "is_alpha c = (let n = (of_char c :: nat) in (65 \<le> n \<and> n \<le> 90) \<or> (97 \<le> n \<and> n \<le> 122))"

section \<open>netip.ParseAddr\<close>

text \<open>An address is its 4 or 16 bytes, and its zone.\<close>

definition digits_value :: "string \<Rightarrow> nat" where
  "digits_value s = foldl (\<lambda>v c. 10 * v + (of_char c - 48)) 0 s"

text \<open>One field of a dotted address: 1 to 3 digits, no leading zero, at most 255.\<close>

definition ipv4_field :: "string \<Rightarrow> byte option" where
  "ipv4_field s =
     (if s \<noteq> [] \<and> list_all is_digit s \<and> (length s = 1 \<or> hd s \<noteq> CHR ''0'') \<and>
         length s \<le> 3 \<and> digits_value s \<le> 255
      then Some (word_of_nat (digits_value s)) else None)"

fun split_on :: "char \<Rightarrow> string \<Rightarrow> string list" where
  "split_on c [] = [[]]"
| "split_on c (x # s) =
     (if x = c then [] # split_on c s
      else case split_on c s of [] \<Rightarrow> [[x]] | w # ws \<Rightarrow> (x # w) # ws)"

fun opt_list :: "'a option list \<Rightarrow> 'a list option" where
  "opt_list [] = Some []"
| "opt_list (None # xs) = None"
| "opt_list (Some x # xs) = map_option ((#) x) (opt_list xs)"

definition parseIPv4 :: "string \<Rightarrow> bytes option" where
  "parseIPv4 s = (let fs = split_on CHR ''.'' s in
     if length fs = 4 then opt_list (map ipv4_field fs) else None)"

fun hex_run :: "string \<Rightarrow> nat \<Rightarrow> nat \<Rightarrow> nat \<times> nat \<times> string" where
  "hex_run [] acc off = (acc, off, [])"
| "hex_run (c # s) acc off =
     (case hex_value c of None \<Rightarrow> (acc, off, c # s) | Some v \<Rightarrow> hex_run s (16 * acc + v) (Suc off))"

lemma hex_run_length: "hex_run s acc off = (acc', off', r) \<Longrightarrow> length r + off' = length s + off"
proof (induction s arbitrary: acc off)
  case (Cons c s)
  then show ?case by (cases "hex_value c") auto
qed simp

text \<open>
  The fields of an IPv6 address from byte \<open>length ip\<close> on: the bytes read so far, the position of
  the ellipsis, and the rest of the string. The result is the final bytes, or \<open>None\<close>.
\<close>

definition expand6 :: "bytes \<Rightarrow> nat option \<Rightarrow> string \<Rightarrow> bytes option" where
  "expand6 ip ellipsis s =
     (if s \<noteq> [] then None
      else if length ip < 16
           then (case ellipsis of None \<Rightarrow> None
                 | Some e \<Rightarrow> Some (take e ip @ replicate (16 - length ip) 0 @ drop e ip))
           else if ellipsis \<noteq> None then None else Some ip)"

function parse6_fields :: "bytes \<Rightarrow> nat option \<Rightarrow> string \<Rightarrow> bytes option" where
  "parse6_fields ip ellipsis s =
     (if 16 \<le> length ip then expand6 ip ellipsis s
      else case hex_run s 0 0 of
        (acc, off, r) \<Rightarrow>
          if off = 0 \<or> off > 4 then None
          else if r \<noteq> [] \<and> hd r = CHR ''.'' then
            (if ellipsis = None \<and> length ip \<noteq> 12 then None
             else if length ip + 4 > 16 then None
             else case parseIPv4 s of None \<Rightarrow> None | Some v4 \<Rightarrow> expand6 (ip @ v4) ellipsis [])
          else let ip = ip @ be_put 2 acc in
               if r = [] then expand6 ip ellipsis []
               else if hd r \<noteq> CHR '':'' then None
               else if length r = 1 then None
               else if hd (tl r) = CHR '':'' then
                 (if ellipsis \<noteq> None then None
                  else if tl (tl r) = [] then expand6 ip (Some (length ip)) []
                  else parse6_fields ip (Some (length ip)) (tl (tl r)))
               else parse6_fields ip ellipsis (tl r))"
  by pat_completeness auto
termination
  by (relation "measure (\<lambda>(ip, e, s). length s)") (auto dest!: sym [THEN hex_run_length])

definition parseIPv6 :: "string \<Rightarrow> (bytes \<times> string) option" where
  "parseIPv6 s =
     (case IndexByte s CHR ''%'' of
        Some i \<Rightarrow>
          if drop (Suc i) s = [] then None
          else let a = take i s; zone = drop (Suc i) s in
               map_option (\<lambda>b. (b, zone))
                 (if HasPrefix a ''::'' then (if length a = 2 then Some (replicate 16 0)
                     else parse6_fields [] (Some 0) (drop 2 a)) else parse6_fields [] None a)
      | None \<Rightarrow>
          map_option (\<lambda>b. (b, []))
            (if HasPrefix s ''::'' then (if length s = 2 then Some (replicate 16 0)
                else parse6_fields [] (Some 0) (drop 2 s)) else parse6_fields [] None s))"

definition ParseAddr :: "string \<Rightarrow> (bytes \<times> string) option" where
  "ParseAddr s =
     (case filter (\<lambda>c. c \<in> {CHR ''.'', CHR '':'', CHR ''%''}) s of
        [] \<Rightarrow> None
      | c # _ \<Rightarrow> if c = CHR ''.'' then map_option (\<lambda>b. (b, [])) (parseIPv4 s)
                 else if c = CHR '':'' then parseIPv6 s else None)"

section \<open>Percent-encoding\<close>

datatype encode_mode = encodePath | encodeHost | encodeZone | encodeUserPassword | encodeFragment

definition unreserved :: "char \<Rightarrow> bool" where
  "unreserved c \<longleftrightarrow> is_alpha c \<or> is_digit c \<or> c \<in> set ''-_.~''"

definition shouldEscape :: "char \<Rightarrow> encode_mode \<Rightarrow> bool" where
  "shouldEscape c mode =
     (if is_alpha c \<or> is_digit c then False
      else if mode \<in> {encodeHost, encodeZone} \<and> (c \<in> set ''!$&()*+,;=:[]<>'' \<or> c = CHR 0x27 \<or> c = CHR 0x22)
        then False
      else if c \<in> set ''-_.~'' then False
      else if c \<in> set ''$&+,/:;=?@'' then
        (case mode of
           encodePath \<Rightarrow> c = CHR ''?''
         | encodeUserPassword \<Rightarrow> c \<in> set ''@/?:''
         | encodeFragment \<Rightarrow> False
         | _ \<Rightarrow> True)
      else if mode = encodeFragment \<and> c \<in> set ''!()*'' then False
      else True)"

fun unescape :: "encode_mode \<Rightarrow> string \<Rightarrow> string option" where
  "unescape mode [] = Some []"
| "unescape mode (c # s) =
     (if c = CHR ''%'' then
        (case s of
           h # l # r \<Rightarrow>
             (case (hex_value h, hex_value l) of
                (Some x, Some y) \<Rightarrow>
                  let v = char_of (16 * x + y) in
                  if mode = encodeHost \<and> x < 8 \<and> \<not> (h = CHR ''2'' \<and> l = CHR ''5'') then None
                  else if mode = encodeZone \<and> \<not> (h = CHR ''2'' \<and> l = CHR ''5'') \<and> v \<noteq> CHR '' ''
                          \<and> shouldEscape v encodeHost then None
                  else map_option ((#) v) (unescape mode r)
              | _ \<Rightarrow> None)
         | _ \<Rightarrow> None)
      else if mode \<in> {encodeHost, encodeZone} \<and> (of_char c :: nat) < 128 \<and> shouldEscape c mode then None
      else map_option ((#) c) (unescape mode s))"

definition upper_hex :: "nat \<Rightarrow> char" where
  "upper_hex n = char_of (if n < 10 then 48 + n else 55 + n)"

definition escape :: "encode_mode \<Rightarrow> string \<Rightarrow> string" where
  "escape mode s =
     concat (map (\<lambda>c. if shouldEscape c mode
                      then [CHR ''%'', upper_hex (of_char c div 16), upper_hex (of_char c mod 16)]
                      else [c]) s)"

definition validEncoded :: "encode_mode \<Rightarrow> string \<Rightarrow> bool" where
  "validEncoded mode s =
     list_all (\<lambda>c. c \<in> set ''!$&()*+,;=:@[]%'' \<or> c = CHR 0x27 \<or> \<not> shouldEscape c mode) s"

section \<open>url.Parse\<close>

record url =
  u_Scheme :: string
  u_Opaque :: string
  u_User :: "(string \<times> string option) option"
  u_Host :: string
  u_Path :: string
  u_RawPath :: string
  u_RawQuery :: string
  u_Fragment :: string

definition empty_url :: url where
  "empty_url = \<lparr>u_Scheme = [], u_Opaque = [], u_User = None, u_Host = [], u_Path = [],
     u_RawPath = [], u_RawQuery = [], u_Fragment = []\<rparr>"

definition validOptionalPort :: "string \<Rightarrow> bool" where
  "validOptionalPort p = (p = [] \<or> (hd p = CHR '':'' \<and> list_all is_digit (tl p)))"

text \<open>\<open>None\<close> is the error for a missing scheme; \<open>seen\<close> is the reversed prefix.\<close>

fun getScheme_from :: "string \<Rightarrow> string \<Rightarrow> string \<Rightarrow> (string \<times> string) option" where
  "getScheme_from raw seen [] = Some ([], raw)"
| "getScheme_from raw seen (c # s) =
     (if is_alpha c then getScheme_from raw (c # seen) s
      else if is_digit c \<or> c \<in> set ''+-.'' then
        (if seen = [] then Some ([], raw) else getScheme_from raw (c # seen) s)
      else if c = CHR '':'' then (if seen = [] then None else Some (rev seen, s))
      else Some ([], raw))"

definition getScheme :: "string \<Rightarrow> (string \<times> string) option" where
  "getScheme raw = getScheme_from raw [] raw"

definition find_25 :: "string \<Rightarrow> nat option" where
  "find_25 s = (case filter (\<lambda>i. HasPrefix (drop i s) ''%25'') [0..<length s] of [] \<Rightarrow> None | i # _ \<Rightarrow> Some i)"

definition parseHost :: "string \<Rightarrow> string option" where
  "parseHost host =
     (case LastIndexByte host CHR ''['' of
        Some (Suc _) \<Rightarrow> None
      | Some 0 \<Rightarrow>
          (case LastIndexByte host CHR '']'' of
             None \<Rightarrow> None
           | Some e \<Rightarrow>
               let colonPort = drop (Suc e) host; hostname = slice 1 e host in
               if \<not> validOptionalPort colonPort then None
               else let unescaped =
                      (case find_25 hostname of
                         Some z \<Rightarrow> (case (unescape encodeHost (take z hostname), unescape encodeZone (drop z hostname)) of
                             (Some a, Some b) \<Rightarrow> Some (a @ b) | _ \<Rightarrow> None)
                       | None \<Rightarrow> unescape encodeHost hostname)
                    in case (unescape encodeHost colonPort, unescaped) of
                         (Some p, Some h) \<Rightarrow>
                           (case ParseAddr h of
                              Some (b, _) \<Rightarrow> if length b = 4 then None else Some (''['' @ h @ '']'' @ p)
                            | None \<Rightarrow> None)
                       | _ \<Rightarrow> None)
      | None \<Rightarrow>
          (case LastIndexByte host CHR '':'' of
             Some i \<Rightarrow> if validOptionalPort (drop i host) then unescape encodeHost host else None
           | None \<Rightarrow> unescape encodeHost host))"

definition validUserinfo :: "string \<Rightarrow> bool" where
  "validUserinfo s =
     list_all (\<lambda>c. is_alpha c \<or> is_digit c \<or> c \<in> set ''-._:~!$&()*+,;=%@'' \<or> c = CHR 0x27) s"

definition parseAuthority :: "string \<Rightarrow> ((string \<times> string option) option \<times> string) option" where
  "parseAuthority authority =
     (case LastIndexByte authority CHR ''@'' of
        None \<Rightarrow> map_option (\<lambda>h. (None, h)) (parseHost authority)
      | Some i \<Rightarrow>
          (case parseHost (drop (Suc i) authority) of
             None \<Rightarrow> None
           | Some host \<Rightarrow>
               let userinfo = take i authority in
               if \<not> validUserinfo userinfo then None
               else if CHR '':'' \<notin> set userinfo
                    then map_option (\<lambda>u. (Some (u, None), host)) (unescape encodeUserPassword userinfo)
                    else case Cut userinfo CHR '':'' of (name, pw) \<Rightarrow>
                      (case (unescape encodeUserPassword name, unescape encodeUserPassword pw) of
                         (Some n, Some p) \<Rightarrow> Some (Some (n, Some p), host)
                       | _ \<Rightarrow> None)))"

definition setPath :: "string \<Rightarrow> url \<Rightarrow> url option" where
  "setPath p u = map_option (\<lambda>path. u\<lparr>u_Path := path,
      u_RawPath := (if p = escape encodePath path then [] else p)\<rparr>) (unescape encodePath p)"

definition EscapedPath :: "url \<Rightarrow> string" where
  "EscapedPath u =
     (if u_RawPath u \<noteq> [] \<and> validEncoded encodePath (u_RawPath u) \<and>
         unescape encodePath (u_RawPath u) = Some (u_Path u)
      then u_RawPath u
      else if u_Path u = ''*'' then ''*'' else escape encodePath (u_Path u))"

definition ctl_byte :: "char \<Rightarrow> bool" where
  "ctl_byte c = (let n = (of_char c :: nat) in n < 32 \<or> n = 127)"

definition cut_query :: "string \<Rightarrow> string \<times> string" where
  "cut_query rest =
     (if HasSuffix rest ''?'' \<and> length (filter (\<lambda>c. c = CHR ''?'') rest) = 1
      then (take (length rest - 1) rest, []) else Cut rest CHR ''?'')"

definition parse :: "string \<Rightarrow> bool \<Rightarrow> url option" where
  "parse raw viaRequest =
     (if list_ex ctl_byte raw then None
      else if raw = [] \<and> viaRequest then None
      else if raw = ''*'' then Some (empty_url\<lparr>u_Path := ''*''\<rparr>)
      else case getScheme raw of
        None \<Rightarrow> None
      | Some (scheme, rest) \<Rightarrow>
          let u = empty_url\<lparr>u_Scheme := ToLower scheme\<rparr>;
              (rest, query) = cut_query rest;
              u = u\<lparr>u_RawQuery := query\<rparr>
          in if \<not> HasPrefix rest ''/'' \<and> scheme \<noteq> [] then Some (u\<lparr>u_Opaque := rest\<rparr>)
             else if \<not> HasPrefix rest ''/'' \<and> (viaRequest \<or> CHR '':'' \<in> set (fst (Cut rest CHR ''/''))) then None
             else if (scheme \<noteq> [] \<or> (\<not> viaRequest \<and> \<not> HasPrefix rest ''///'')) \<and> HasPrefix rest ''//''
             then let a = drop 2 rest;
                      (authority, path) = (case IndexByte a CHR ''/'' of
                          None \<Rightarrow> (a, []) | Some i \<Rightarrow> (take i a, drop i a))
                  in case parseAuthority authority of
                       None \<Rightarrow> None
                     | Some (user, host) \<Rightarrow> setPath path (u\<lparr>u_User := user, u_Host := host\<rparr>)
             else setPath rest u)"

definition url_Parse :: "string \<Rightarrow> url option" where
  "url_Parse raw =
     (case Cut raw CHR ''#'' of (base, frag) \<Rightarrow>
        case parse base False of
          None \<Rightarrow> None
        | Some u \<Rightarrow> if frag = [] then Some u
                    else map_option (\<lambda>f. u\<lparr>u_Fragment := f\<rparr>) (unescape encodeFragment frag))"

definition ParseRequestURI :: "string \<Rightarrow> url option" where
  "ParseRequestURI raw = parse raw True"

definition splitHostPort_url :: "string \<Rightarrow> string \<times> string" where
  "splitHostPort_url hostPort =
     (let (host, port) = (case LastIndexByte hostPort CHR '':'' of
            Some i \<Rightarrow> if validOptionalPort (drop i hostPort) then (take i hostPort, drop (Suc i) hostPort)
                      else (hostPort, [])
          | None \<Rightarrow> (hostPort, []));
          host = (if HasPrefix host ''['' \<and> HasSuffix host '']'' then slice 1 (length host - 1) host else host)
      in (host, port))"

definition Hostname :: "url \<Rightarrow> string" where
  "Hostname u = fst (splitHostPort_url (u_Host u))"

definition Port :: "url \<Rightarrow> string" where
  "Port u = snd (splitHostPort_url (u_Host u))"

section \<open>Requests of net/http\<close>

record http_request =
  rq_method :: string
  rq_protoMajor :: nat
  rq_proto :: string
  rq_host :: string
  rq_url :: url
  rq_header :: header
  rq_remoteAddr :: string

definition blank_request :: http_request where
  "blank_request = \<lparr>rq_method = ''CONNECT'', rq_protoMajor = 3, rq_proto = ''connect-udp'',
     rq_host = [], rq_url = empty_url, rq_header = [], rq_remoteAddr = []\<rparr>"

lemma rq_header_blank [simp]: "rq_header blank_request = []"
  by (simp add: blank_request_def)

section \<open>Facts\<close>

lemma split_on_append: "c \<notin> set s \<Longrightarrow> split_on c (s @ c # t) = s # split_on c t"
  by (induction s) auto

lemma split_on_absent: "c \<notin> set s \<Longrightarrow> split_on c s = [s]"
  by (induction s) auto

lemma url_Parse_fragment:
  assumes "CHR ''#'' \<notin> set base" "frag \<noteq> []" "unescape encodeFragment frag = Some f"
  shows "url_Parse (base @ CHR ''#'' # frag) = map_option (\<lambda>u. u\<lparr>u_Fragment := f\<rparr>) (url_Parse base)"
  using assms by (simp add: url_Parse_def Cut_append Cut_absent split: option.splits)

lemma parse_no_fragment: "parse raw v = Some u \<Longrightarrow> u_Fragment u = []"
  by (auto simp: parse_def empty_url_def setPath_def Let_def split: if_splits option.splits prod.splits)

lemma unescape_plain: "CHR ''%'' \<notin> set s \<Longrightarrow> mode \<notin> {encodeHost, encodeZone} \<Longrightarrow> unescape mode s = Some s"
  by (induction s) auto

section \<open>strconv\<close>

function itoa :: "nat \<Rightarrow> string" where
  "itoa n = (if n < 10 then [char_of (48 + n)] else itoa (n div 10) @ [char_of (48 + n mod 10)])"
  by pat_completeness auto
termination by (relation "measure (\<lambda>n. n)") auto

declare itoa.simps [simp del]

definition Atoi :: "string \<Rightarrow> int option" where
  "Atoi s =
     (let (neg, ds) = (case s of
            c # r \<Rightarrow> if c = CHR ''-'' then (True, r) else if c = CHR ''+'' then (False, r) else (False, s)
          | [] \<Rightarrow> (False, []))
      in if ds = [] \<or> \<not> list_all is_digit ds then None
         else let v = int (digits_value ds); v = (if neg then - v else v) in
              if - (2 ^ 63) \<le> v \<and> v < 2 ^ 63 then Some v else None)"

lemma is_digit_char: "(d :: nat) < 10 \<Longrightarrow> is_digit (char_of (48 + d))"
  by (simp add: is_digit_def Let_def)

lemma itoa_digits: "list_all is_digit (itoa n) \<and> itoa n \<noteq> []"
  by (induction n rule: itoa.induct) (subst (1 2) itoa.simps, simp add: is_digit_char)

lemma digits_value_itoa: "digits_value (itoa n) = n"
  by (induction n rule: itoa.induct)
     (subst itoa.simps, simp add: digits_value_def)

lemma Atoi_itoa:
  assumes "n < 2 ^ 63"
  shows "Atoi (itoa n) = Some (int n)"
proof -
  obtain c r where c: "itoa n = c # r" using itoa_digits [of n] by (cases "itoa n") auto
  then have "is_digit c" using itoa_digits [of n] by simp
  then have "c \<noteq> CHR ''-''" "c \<noteq> CHR ''+''" by (auto simp: is_digit_def)
  moreover have "int n < 2 ^ 63" using assms by (metis of_nat_less_iff of_nat_numeral of_nat_power)
  ultimately show ?thesis
    using c itoa_digits [of n] digits_value_itoa [of n] by (simp add: Atoi_def Let_def)
qed

end
