(* ===== verification/Packet.thy ===== *)
theory Packet
  imports Go_Url
begin

text \<open>
  The datagram format of the MASQUE carrier and the names by which peers are addressed:
  the framing, target and source functions, the stream adapters and the reconnect backoff of
  \<^verbatim>\<open>masquecat_transport.go\<close>.

  The Tailscale key package is not part of the repository. Its node keys are a type parameter
  with the operations the sources call, collected in \<open>node_key_api\<close>; \<open>key_laws\<close> is what the
  sources rely on: 32 raw bytes that determine the key, and a text form of 64 hex digits after
  \<^verbatim>\<open>nodekey:\<close> that parses back. \<open>raw_keys\<close> is an instance for which the laws hold. The
  QUIC variable-length integers of quic-go are the parameter \<open>quicvarint_api\<close>, with the round
  trip and the length prefix of RFC 9000 as its laws, and \<open>rfc9000\<close> is the instance.
\<close>

section \<open>Node keys\<close>

record 'k node_key_api =
  AppendTo :: "'k \<Rightarrow> bytes"
  FromRaw32 :: "bytes \<Rightarrow> 'k"
  IsZero :: "'k \<Rightarrow> bool"
  KeyString :: "'k \<Rightarrow> string"
  UnmarshalText :: "string \<Rightarrow> 'k option"

definition NodePublicRawLen :: nat where [go_consts]: "NodePublicRawLen = 32"

definition nodePublicTextPrefix :: string where
  "nodePublicTextPrefix = ''nodekey:''"

definition key_laws :: "'k node_key_api \<Rightarrow> bool" where
  "key_laws K \<longleftrightarrow>
     (\<forall>k. length (AppendTo K k) = NodePublicRawLen \<and> FromRaw32 K (AppendTo K k) = k) \<and>
     (\<forall>b. length b = NodePublicRawLen \<longrightarrow> AppendTo K (FromRaw32 K b) = b) \<and>
     (\<forall>k. KeyString K k = nodePublicTextPrefix @ hex_encode (AppendTo K k)) \<and>
     (\<forall>k. UnmarshalText K (KeyString K k) = Some k)"

lemma key_lawsD:
  assumes "key_laws K"
  shows "length (AppendTo K k) = NodePublicRawLen" "FromRaw32 K (AppendTo K k) = k"
    "length b = NodePublicRawLen \<Longrightarrow> AppendTo K (FromRaw32 K b) = b"
    "KeyString K k = nodePublicTextPrefix @ hex_encode (AppendTo K k)"
    "UnmarshalText K (KeyString K k) = Some k"
  using assms by (auto simp: key_laws_def)

type_synonym raw_key = "256 word"

definition raw_keys :: "raw_key node_key_api" where
  "raw_keys =
     \<lparr>AppendTo = (\<lambda>k. be_put 32 (unat k)),
      FromRaw32 = (\<lambda>b. word_of_nat (be_get b)),
      IsZero = (\<lambda>k. k = 0),
      KeyString = (\<lambda>k. nodePublicTextPrefix @ hex_encode (be_put 32 (unat k))),
      UnmarshalText = (\<lambda>s. case CutPrefix s nodePublicTextPrefix of
          (h, True) \<Rightarrow> (case hex_decode h of
             Some b \<Rightarrow> if length b = 32 then Some (word_of_nat (be_get b)) else None
           | None \<Rightarrow> None)
        | (h, False) \<Rightarrow> None)\<rparr>"

lemma be_put_get: "length b = n \<Longrightarrow> be_put n (be_get b) = b"
proof (induction n arbitrary: b)
  case (Suc n)
  then obtain c x where b: "b = c @ [x]" "length c = n" by (metis length_Suc_conv_rev)
  have "(be_get c * 256 + unat x) div 256 = be_get c" using unat_byte_less [of x] by simp
  moreover have "(word_of_nat (be_get c * 256 + unat x) :: byte) = x"
    by (rule byte_eqI) (simp add: unat_byte_less)
  ultimately show ?case using Suc.IH [of c] b by simp
qed simp

lemma raw_key_bound: "unat (k :: raw_key) < 256 ^ 32"
  using unsigned_less [of k, where 'a = nat] by simp

lemma raw_key_of_bytes: "(word_of_nat (be_get (be_put 32 (unat k))) :: raw_key) = k"
  using raw_key_bound [of k] be_get_put_small [of "unat k" 32] by simp

lemma raw_key_to_bytes:
  assumes "length b = 32"
  shows "be_put 32 (unat (word_of_nat (be_get b) :: raw_key)) = b"
proof -
  have "be_get b < 256 ^ 32" using be_get_bound [of b] assms by simp
  then have "unat (word_of_nat (be_get b) :: raw_key) = be_get b"
    by (simp add: unat_of_nat)
  with be_put_get [OF assms] show ?thesis by simp
qed

lemma key_laws_raw_keys: "key_laws raw_keys"
  unfolding key_laws_def raw_keys_def go_consts
  by (simp add: raw_key_of_bytes raw_key_to_bytes del: be_put.simps)

section \<open>Datagrams\<close>

record 'k masquePacket =
  p_src :: 'k
  p_dst :: 'k
  p_payload :: bytes

datatype packet_error = ShortDatagram nat | UnsupportedVersion byte

definition masquePacketVersion :: byte where [go_consts]: "masquePacketVersion = 1"

definition encodeMasquePacket :: "'k node_key_api \<Rightarrow> 'k \<Rightarrow> 'k \<Rightarrow> bytes \<Rightarrow> bytes" where
  "encodeMasquePacket K src dst payload =
     [masquePacketVersion] @ AppendTo K src @ AppendTo K dst @ payload"

definition headerLen :: nat where [go_consts]: "headerLen = 1 + 2 * NodePublicRawLen"

definition decodeMasquePacket :: "'k node_key_api \<Rightarrow> bytes \<Rightarrow> packet_error + 'k masquePacket" where
  "decodeMasquePacket K b =
     (if length b < headerLen then Inl (ShortDatagram (length b))
      else if b ! 0 \<noteq> masquePacketVersion then Inl (UnsupportedVersion (b ! 0))
      else Inr \<lparr>p_src = FromRaw32 K (slice 1 (1 + NodePublicRawLen) b),
                p_dst = FromRaw32 K (slice (1 + NodePublicRawLen) headerLen b),
                p_payload = drop headerLen b\<rparr>)"

lemma decode_encode:
  assumes "key_laws K"
  shows "decodeMasquePacket K (encodeMasquePacket K src dst payload) =
           Inr \<lparr>p_src = src, p_dst = dst, p_payload = payload\<rparr>"
  using key_lawsD [OF assms]
  by (simp add: decodeMasquePacket_def encodeMasquePacket_def go_consts slice_def)

lemma encode_decode:
  assumes "key_laws K" "decodeMasquePacket K b = Inr p"
  shows "b = encodeMasquePacket K (p_src p) (p_dst p) (p_payload p)"
proof -
  from assms(2) have len: "65 \<le> length b" and v: "b ! 0 = 1"
    and p: "p = \<lparr>p_src = FromRaw32 K (slice 1 33 b), p_dst = FromRaw32 K (slice 33 65 b),
                p_payload = drop 65 b\<rparr>"
    by (auto simp: decodeMasquePacket_def go_consts split: if_splits)
  have "AppendTo K (FromRaw32 K (slice 1 33 b)) = slice 1 33 b"
    "AppendTo K (FromRaw32 K (slice 33 65 b)) = slice 33 65 b"
    using len by (intro key_lawsD(3) [OF assms(1)]; simp add: go_consts)+
  moreover have "b = [b ! 0] @ drop 1 b" using len by (cases b) auto
  then have "b = [b ! 0] @ slice 1 33 b @ slice 33 65 b @ drop 65 b"
    using drop_slice [of 1 33 b] drop_slice [of 33 65 b] by simp
  ultimately show ?thesis using v by (simp add: p encodeMasquePacket_def go_consts)
qed

section \<open>Peer names\<close>

datatype target_error = BadHostPort addr_error | BadVirtualPort string | BadTargetHost string | BadPeerKey

definition masqueVirtualPort :: string where "masqueVirtualPort = ''1''"
definition masquePeerSuffix :: string where "masquePeerSuffix = ''.peer.masquecat.invalid''"
definition masqueSourceHeader :: string where "masqueSourceHeader = ''Masquecat-Source''"
definition masqueModeHeader :: string where "masqueModeHeader = ''Masquecat-Mode''"

lemmas name_consts = masqueVirtualPort_def masquePeerSuffix_def nodePublicTextPrefix_def

definition masqueTarget :: "'k node_key_api \<Rightarrow> 'k \<Rightarrow> string" where
  "masqueTarget K k =
     TrimPrefix (KeyString K k) nodePublicTextPrefix @ masquePeerSuffix @ '':'' @ masqueVirtualPort"

definition parseMasqueTarget :: "'k node_key_api \<Rightarrow> string \<Rightarrow> target_error + 'k" where
  "parseMasqueTarget K target =
     (case SplitHostPort target of
        Inl e \<Rightarrow> Inl (BadHostPort e)
      | Inr (host, port) \<Rightarrow>
          if port \<noteq> masqueVirtualPort then Inl (BadVirtualPort port)
          else case CutSuffix host masquePeerSuffix of
                 (hexKey, False) \<Rightarrow> Inl (BadTargetHost host)
               | (hexKey, True) \<Rightarrow>
                   (case UnmarshalText K (nodePublicTextPrefix @ hexKey) of
                      None \<Rightarrow> Inl BadPeerKey
                    | Some k \<Rightarrow> Inr k))"

lemma hex_encode_no_punctuation:
  "CHR '':'' \<notin> set (hex_encode b)" "CHR ''['' \<notin> set (hex_encode b)" "CHR '']'' \<notin> set (hex_encode b)"
  by (auto dest: set_hex_encode simp: hex_value_def)

lemma parse_target:
  assumes "key_laws K"
  shows "parseMasqueTarget K (masqueTarget K k) = Inr k"
proof -
  define h where "h = hex_encode (AppendTo K k)"
  have h: "KeyString K k = nodePublicTextPrefix @ h" unfolding h_def by (rule key_lawsD(4) [OF assms])
  have "SplitHostPort ((h @ masquePeerSuffix) @ CHR '':'' # masqueVirtualPort)
          = Inr (h @ masquePeerSuffix, masqueVirtualPort)"
    by (rule SplitHostPort_plain)
       (simp_all add: h_def hex_encode_no_punctuation masquePeerSuffix_def masqueVirtualPort_def)
  moreover have "masqueTarget K k = (h @ masquePeerSuffix) @ CHR '':'' # masqueVirtualPort"
    by (simp add: masqueTarget_def h)
  ultimately show ?thesis
    using key_lawsD(5) [OF assms, of k] by (simp add: parseMasqueTarget_def h)
qed

lemma parse_target_sound:
  assumes "parseMasqueTarget K t = Inr k"
  obtains h where "UnmarshalText K (nodePublicTextPrefix @ h) = Some k"
    "t = h @ masquePeerSuffix @ '':1'' \<or> t = ''['' @ h @ masquePeerSuffix @ '']:1''"
proof -
  from assms obtain h where s: "SplitHostPort t = Inr (h @ masquePeerSuffix, ''1'')"
    and u: "UnmarshalText K (nodePublicTextPrefix @ h) = Some k"
    by (auto simp: parseMasqueTarget_def CutSuffix_True masqueVirtualPort_def
        split: sum.splits prod.splits if_splits option.splits bool.splits)
  show ?thesis
    using that [OF u] SplitHostPort_plainD [OF s] SplitHostPort_bracketD [OF s]
    by (cases "hd t = CHR ''[''") simp_all
qed

datatype source_error = MissingSource | InvalidSource

definition parseMasqueSource :: "'k node_key_api \<Rightarrow> header \<Rightarrow> source_error + 'k" where
  "parseMasqueSource K h =
     (let s = header_get h masqueSourceHeader in
      if s = [] then Inl MissingSource
      else case UnmarshalText K s of None \<Rightarrow> Inl InvalidSource | Some k \<Rightarrow> Inr k)"

section \<open>QUIC variable-length integers\<close>

record quicvarint_api =
  vi_append :: "nat \<Rightarrow> bytes"
  vi_parse :: "bytes \<Rightarrow> (nat \<times> nat) option"

definition varint_laws :: "quicvarint_api \<Rightarrow> bool" where
  "varint_laws V \<longleftrightarrow>
     (\<forall>v r. v < 2 ^ 62 \<longrightarrow> vi_parse V (vi_append V v @ r) = Some (v, length (vi_append V v))) \<and>
     (\<forall>b v n. vi_parse V b = Some (v, n) \<longrightarrow> 0 < n \<and> n \<le> length b \<and> n \<le> 8) \<and>
     (\<forall>v. v < 2 ^ 62 \<longrightarrow> length (vi_append V v) = 2 ^ (unat (hd (vi_append V v)) div 64))"

lemma varint_lawsD:
  assumes "varint_laws V"
  shows "v < 2 ^ 62 \<Longrightarrow> vi_parse V (vi_append V v @ r) = Some (v, length (vi_append V v))"
    "vi_parse V b = Some (w, n) \<Longrightarrow> 0 < n \<and> n \<le> length b \<and> n \<le> 8"
    "v < 2 ^ 62 \<Longrightarrow> length (vi_append V v) = 2 ^ (unat (hd (vi_append V v)) div 64)"
  using assms by (auto simp: varint_laws_def)

definition rfc9000 :: quicvarint_api where
  "rfc9000 =
     \<lparr>vi_append = (\<lambda>v. if v < 2 ^ 6 then be_put 1 v
                       else if v < 2 ^ 14 then be_put 2 (v + 2 ^ 14)
                       else if v < 2 ^ 30 then be_put 4 (v + 2 * 2 ^ 30)
                       else be_put 8 (v + 3 * 2 ^ 62)),
      vi_parse = (\<lambda>b. if b = [] then None
                      else let l = 2 ^ (unat (hd b) div 64) in
                           if length b < l then None
                           else Some (be_get (take l b) mod 2 ^ (8 * l - 2), l))\<rparr>"

lemma hd_be_put: "hd (be_put (Suc n) v @ r) = word_of_nat (v div 256 ^ n)"
proof (induction n arbitrary: v r)
  case (Suc n)
  have "hd (be_put (Suc (Suc n)) v @ r) = hd (be_put (Suc n) (v div 256) @ word_of_nat v # r)" by simp
  also have "\<dots> = word_of_nat (v div 256 div 256 ^ n)" by (rule Suc.IH)
  also have "v div 256 div 256 ^ n = v div 256 ^ Suc n" by (simp add: div_mult2_eq)
  finally show ?case .
qed simp

lemma rfc9000_parse:
  assumes "v < M" "c < 4" "Suc n = 2 ^ c" "M = 2 ^ (8 * Suc n - 2)" "x = v + c * M"
  shows "vi_parse rfc9000 (be_put (Suc n) x @ r) = Some (v, Suc n)"
proof -
  have "8 * Suc n - 2 = 8 * n + 6" by simp
  with assms(4) have M: "M = 256 ^ n * 64" by (simp add: power_add power_mult del: mult_Suc_right)
  have "x div M = c" using assms(1,5) by simp
  then have c: "x div 256 ^ n div 64 = c" by (simp add: M div_mult2_eq)
  have "x < Suc c * M" using assms(1,5) by simp
  also have "\<dots> \<le> 4 * M" using assms(2) by (intro mult_le_mono1) simp
  finally have lt: "x < 256 ^ Suc n" by (simp add: M)
  then have "x div 256 ^ n < 256" by (simp add: less_mult_imp_div_less)
  with c have h: "unat (hd (be_put (Suc n) x @ r)) div 64 = c"
    unfolding hd_be_put by (simp add: unat_byte_of_nat)
  have g: "be_get (be_put (Suc n) x) mod M = v"
    using lt assms(1,5) by (simp add: be_get_put_small del: be_put.simps)
  have "be_put (Suc n) x @ r \<noteq> []" by simp
  with h g assms(3,4) show ?thesis unfolding rfc9000_def
    by (simp add: Let_def del: be_put.simps mult_Suc_right)
qed

lemma rfc9000_parse_len:
  assumes "N = Suc n" "v < M" "c < 4" "N = 2 ^ c" "M = 2 ^ (8 * N - 2)"
  shows "vi_parse rfc9000 (be_put N (v + c * M) @ r) = Some (v, N)"
  using rfc9000_parse [of v M c n "v + c * M" r] assms by simp

lemma rfc9000_roundtrip:
  assumes v: "v < 2 ^ 62"
  shows "vi_parse rfc9000 (vi_append rfc9000 v @ r) = Some (v, length (vi_append rfc9000 v))"
proof -
  have app: "vi_append rfc9000 v = (if v < 2 ^ 6 then be_put 1 v else if v < 2 ^ 14 then be_put 2 (v + 2 ^ 14)
     else if v < 2 ^ 30 then be_put 4 (v + 2 * 2 ^ 30) else be_put 8 (v + 3 * 2 ^ 62))"
    by (simp only: rfc9000_def quicvarint_api.simps)
  consider "v < 2 ^ 6" | "\<not> v < 2 ^ 6" "v < 2 ^ 14" | "\<not> v < 2 ^ 6" "\<not> v < 2 ^ 14" "v < 2 ^ 30"
    | "\<not> v < 2 ^ 6" "\<not> v < 2 ^ 14" "\<not> v < 2 ^ 30" by blast
  then show ?thesis
  proof cases
    case 1
    then have "vi_append rfc9000 v = be_put 1 (v + 0 * 2 ^ 6)"
      by (simp only: app if_True if_False mult_0 mult_1 add_0_right)
    moreover have "vi_parse rfc9000 (be_put 1 (v + 0 * 2 ^ 6) @ r) = Some (v, 1)"
      by (rule rfc9000_parse_len [of 1 0 v "2 ^ 6" 0]) (use 1 in simp_all)
    ultimately show ?thesis by (simp only: length_be_put)
  next
    case 2
    then have "vi_append rfc9000 v = be_put 2 (v + 1 * 2 ^ 14)"
      by (simp only: app if_True if_False mult_0 mult_1 add_0_right)
    moreover have "vi_parse rfc9000 (be_put 2 (v + 1 * 2 ^ 14) @ r) = Some (v, 2)"
      by (rule rfc9000_parse_len [of 2 1 v "2 ^ 14" 1]) (use 2 in simp_all)
    ultimately show ?thesis by (simp only: length_be_put)
  next
    case 3
    then have "vi_append rfc9000 v = be_put 4 (v + 2 * 2 ^ 30)"
      by (simp only: app if_True if_False mult_0 mult_1 add_0_right)
    moreover have "vi_parse rfc9000 (be_put 4 (v + 2 * 2 ^ 30) @ r) = Some (v, 4)"
      by (rule rfc9000_parse_len [of 4 3 v "2 ^ 30" 2]) (use 3 in simp_all)
    ultimately show ?thesis by (simp only: length_be_put)
  next
    case 4
    then have "vi_append rfc9000 v = be_put 8 (v + 3 * 2 ^ 62)"
      by (simp only: app if_True if_False mult_0 mult_1 add_0_right)
    moreover have "vi_parse rfc9000 (be_put 8 (v + 3 * 2 ^ 62) @ r) = Some (v, 8)"
      by (rule rfc9000_parse_len [of 8 7 v "2 ^ 62" 3]) (use v in simp_all)
    ultimately show ?thesis by (simp only: length_be_put)
  qed
qed

lemma varint_laws_rfc9000: "varint_laws rfc9000"
  unfolding varint_laws_def
proof (intro conjI allI impI)
  fix v :: nat and r :: bytes
  assume v: "v < 2 ^ 62"
  show "vi_parse rfc9000 (vi_append rfc9000 v @ r) = Some (v, length (vi_append rfc9000 v))"
    by (rule rfc9000_roundtrip [OF v])
  show "length (vi_append rfc9000 v) = 2 ^ (unat (hd (vi_append rfc9000 v)) div 64)"
    using rfc9000_roundtrip [OF v, of "[]"] by (auto simp: rfc9000_def Let_def split: if_splits)
next
  fix b v n assume "vi_parse rfc9000 b = Some (v, n)"
  then have n: "n = 2 ^ (unat (hd b) div 64)" "n \<le> length b"
    by (auto simp: rfc9000_def Let_def split: if_splits)
  have "unat (hd b) div 64 \<le> 3" using unat_byte_less [of "hd b"] by simp
  then have "n \<le> 2 ^ 3" unfolding n(1) by (intro power_increasing) simp_all
  with n show "0 < n" "n \<le> length b" "n \<le> 8" by simp_all
qed

section \<open>Server-side streams\<close>

text \<open>
  A stream is a parameter: \<open>send\<close> is its \<^verbatim>\<open>SendDatagram\<close>, which updates the stream and
  may fail, and the results of its \<^verbatim>\<open>ReceiveDatagram\<close> calls are a list; a receive loop that
  has used up the list is still waiting, which is \<open>None\<close>. \<open>discoMagic\<close> stands for
  \<^verbatim>\<open>disco.Magic\<close> of the Tailscale module.
\<close>

definition contextIDZero :: "quicvarint_api \<Rightarrow> bytes" where
  "contextIDZero V = vi_append V 0"

definition streamForwarder_ForwardPacket ::
  "'k node_key_api \<Rightarrow> quicvarint_api \<Rightarrow> bytes \<Rightarrow> ('s \<Rightarrow> bytes \<Rightarrow> 's \<times> 'e option) \<Rightarrow>
   's \<Rightarrow> 'k \<Rightarrow> 'k \<Rightarrow> bytes \<Rightarrow> 's \<times> 'e option" where
  "streamForwarder_ForwardPacket K V discoMagic send str src dst payload =
     (if HasPrefix payload discoMagic then (str, None)
      else send str (contextIDZero V @ encodeMasquePacket K src dst payload))"

datatype 'e receive_error = ReceiveFailed 'e | MalformedHTTPDatagram

fun receiveStreamDatagram ::
  "quicvarint_api \<Rightarrow> ('e + bytes) list \<Rightarrow> (('e receive_error + bytes) \<times> ('e + bytes) list) option" where
  "receiveStreamDatagram V [] = None"
| "receiveStreamDatagram V (Inl e # ds) = Some (Inl (ReceiveFailed e), ds)"
| "receiveStreamDatagram V (Inr b # ds) =
     (case vi_parse V b of
        None \<Rightarrow> Some (Inl MalformedHTTPDatagram, ds)
      | Some (contextID, n) \<Rightarrow>
          if contextID \<noteq> 0 then receiveStreamDatagram V ds else Some (Inr (drop n b), ds))"

definition other_context :: "quicvarint_api \<Rightarrow> 'e + bytes \<Rightarrow> bool" where
  "other_context V d = (case d of Inr b \<Rightarrow> (case vi_parse V b of Some (c, n) \<Rightarrow> c \<noteq> 0 | None \<Rightarrow> False) | Inl e \<Rightarrow> False)"

lemma receive_skips: "list_all (other_context V) skipped \<Longrightarrow>
  receiveStreamDatagram V (skipped @ ds) = receiveStreamDatagram V ds"
proof (induction skipped)
  case (Cons d skipped)
  then show ?case by (cases d) (auto simp: other_context_def split: option.splits)
qed simp

section \<open>Reconnect backoff\<close>

definition masqueReconnectInitialBackoff :: time where
  "masqueReconnectInitialBackoff = milliseconds 250"

definition masqueReconnectMaxBackoff :: time where
  "masqueReconnectMaxBackoff = seconds 10"

text \<open>The loop, with the number of iterations that remain before \<open>i\<close> reaches \<open>attempt\<close>.\<close>

fun backoff_loop :: "nat \<Rightarrow> time \<Rightarrow> time" where
  "backoff_loop 0 d = d"
| "backoff_loop (Suc n) d =
     (if d < masqueReconnectMaxBackoff
      then let d' = d * 2 in
           if d' \<ge> masqueReconnectMaxBackoff then masqueReconnectMaxBackoff else backoff_loop n d'
      else d)"

definition masqueReconnectBackoff :: "int \<Rightarrow> time" where
  "masqueReconnectBackoff attempt =
     (if attempt \<le> 0 then 0 else backoff_loop (nat (attempt - 1)) masqueReconnectInitialBackoff)"

lemma backoff_loop_closed:
  "0 < d \<Longrightarrow> d \<le> masqueReconnectMaxBackoff \<Longrightarrow>
   backoff_loop n d = min (d * 2 ^ n) masqueReconnectMaxBackoff"
proof (induction n arbitrary: d)
  case (Suc n)
  have p: "d * 2 ^ Suc n = d * 2 * 2 ^ n" by simp
  have "d * 2 * 1 \<le> d * 2 * 2 ^ n" using Suc.prems(1) by (intro mult_left_mono) simp_all
  moreover have "d < d * 2" using Suc.prems(1) by simp
  ultimately have le: "d * 2 \<le> d * 2 ^ Suc n" "d \<le> d * 2 ^ Suc n" unfolding p by linarith+
  consider "d = masqueReconnectMaxBackoff" | "d < masqueReconnectMaxBackoff" "masqueReconnectMaxBackoff \<le> d * 2"
    | "d * 2 < masqueReconnectMaxBackoff" using Suc.prems by linarith
  then show ?case
  proof cases
    case 3
    with Suc show ?thesis unfolding p by (simp add: Let_def)
  next
    case 2
    with le have "masqueReconnectMaxBackoff \<le> d * 2 ^ Suc n" by linarith
    with 2 show ?thesis by (simp add: Let_def min_absorb2 del: power_Suc)
  qed (use le in \<open>simp add: Let_def min_def del: power_Suc\<close>)
qed simp

section \<open>Properties\<close>

text \<open>
  The datagram codec is exact in both directions. Decoding a byte string succeeds with
  packet \<open>p\<close> precisely when the string is the encoding of \<open>p\<close>; a string that is shorter than the
  65-byte header, or whose version byte is not 1, is refused with the error that says so.
\<close>
theorem masque_packet_codec:
  assumes "key_laws K"
  shows "(decodeMasquePacket K b = Inr p
            \<longleftrightarrow> b = encodeMasquePacket K (p_src p) (p_dst p) (p_payload p)) \<and>
         (decodeMasquePacket K b = Inl e \<longleftrightarrow>
            (length b < 65 \<and> e = ShortDatagram (length b)) \<or>
            (65 \<le> length b \<and> b ! 0 \<noteq> 1 \<and> e = UnsupportedVersion (b ! 0)))"
proof -
  have "decodeMasquePacket K (encodeMasquePacket K (p_src p) (p_dst p) (p_payload p)) = Inr p"
    by (simp add: decode_encode [OF assms])
  then have "decodeMasquePacket K b = Inr p
      \<longleftrightarrow> b = encodeMasquePacket K (p_src p) (p_dst p) (p_payload p)"
    using encode_decode [OF assms] by metis
  moreover have "decodeMasquePacket K b = Inl e \<longleftrightarrow>
      (length b < 65 \<and> e = ShortDatagram (length b)) \<or>
      (65 \<le> length b \<and> b ! 0 \<noteq> 1 \<and> e = UnsupportedVersion (b ! 0))"
    by (auto simp: decodeMasquePacket_def go_consts)
  ultimately show ?thesis by blast
qed

theorem masque_packet_codec_witness:
  "decodeMasquePacket raw_keys (encodeMasquePacket raw_keys 7 9 [1, 2, 3]) =
     Inr \<lparr>p_src = 7, p_dst = 9, p_payload = [1, 2, 3]\<rparr>"
  using masque_packet_codec [OF key_laws_raw_keys, of "encodeMasquePacket raw_keys 7 9 [1, 2, 3]"
      "\<lparr>p_src = 7, p_dst = 9, p_payload = [1, 2, 3]\<rparr>"] by simp

text \<open>
  Peer names. The CONNECT-UDP target built for a node key parses back to that key, so the
  targets of different keys differ; and a target is accepted only in the form
  \<^verbatim>\<open><hex>.peer.masquecat.invalid:1\<close>, possibly with the host in brackets, where
  \<^verbatim>\<open>nodekey:<hex>\<close> is a text form of the key that is returned. No other host or port is taken
  for a peer.
\<close>
theorem masque_target_names:
  assumes "key_laws K"
  shows "parseMasqueTarget K (masqueTarget K k) = Inr k \<and>
         (masqueTarget K k = masqueTarget K k' \<longrightarrow> k = k') \<and>
         (parseMasqueTarget K t = Inr k \<longrightarrow>
            (\<exists>h. UnmarshalText K (nodePublicTextPrefix @ h) = Some k \<and>
                 (t = h @ masquePeerSuffix @ '':1'' \<or> t = ''['' @ h @ masquePeerSuffix @ '']:1'')))"
proof (intro conjI impI)
  show "parseMasqueTarget K (masqueTarget K k) = Inr k" by (rule parse_target [OF assms])
  show "k = k'" if "masqueTarget K k = masqueTarget K k'"
    using parse_target [OF assms, of k] parse_target [OF assms, of k'] that by (metis sum.inject(2))
  show "\<exists>h. UnmarshalText K (nodePublicTextPrefix @ h) = Some k \<and>
      (t = h @ masquePeerSuffix @ '':1'' \<or> t = ''['' @ h @ masquePeerSuffix @ '']:1'')"
    if "parseMasqueTarget K t = Inr k"
    using parse_target_sound [OF that] by blast
qed

theorem masque_target_names_witness:
  "parseMasqueTarget raw_keys (masqueTarget raw_keys 5) = Inr 5"
  using masque_target_names [OF key_laws_raw_keys, of 5] by simp

text \<open>
  Carriage over a server-side stream. A Tailscale disco packet is dropped without touching the
  stream. Any other payload is handed to \<^verbatim>\<open>SendDatagram\<close> as one HTTP datagram, and a
  receiver that first sees any number of datagrams of other contexts skips exactly those and then
  obtains a packet that decodes to the same source, destination and payload.
\<close>
theorem stream_carriage:
  assumes "key_laws K" "varint_laws V" "list_all (other_context V) skipped"
  shows "(HasPrefix payload magic \<longrightarrow>
            streamForwarder_ForwardPacket K V magic send str src dst payload = (str, None)) \<and>
         (\<not> HasPrefix payload magic \<longrightarrow>
            (\<exists>d. streamForwarder_ForwardPacket K V magic send str src dst payload = send str d \<and>
                 (\<exists>b. receiveStreamDatagram V (skipped @ Inr d # rest) = Some (Inr b, rest) \<and>
                      decodeMasquePacket K b = Inr \<lparr>p_src = src, p_dst = dst, p_payload = payload\<rparr>)))"
proof -
  have "vi_parse V (contextIDZero V @ r) = Some (0, length (contextIDZero V))" for r
    unfolding contextIDZero_def by (rule varint_lawsD(1) [OF assms(2)]) simp
  then show ?thesis
    by (auto simp: streamForwarder_ForwardPacket_def receive_skips [OF assms(3)]
        decode_encode [OF assms(1)] intro: exI [of _ "contextIDZero V @ encodeMasquePacket K src dst payload"])
qed

theorem stream_carriage_witness:
  "\<exists>d b. streamForwarder_ForwardPacket raw_keys rfc9000 [84, 83] (\<lambda>s d. (s @ [d], None)) [] 7 9 [1, 2]
           = ([d], None :: unit option) \<and>
         receiveStreamDatagram rfc9000 [Inr [5, 1], Inr d] = Some (Inr b, [] :: (unit + bytes) list) \<and>
         decodeMasquePacket raw_keys b = Inr \<lparr>p_src = 7, p_dst = 9, p_payload = [1, 2]\<rparr>"
proof -
  have skip: "list_all (other_context rfc9000) [Inr [5, 1] :: unit + bytes]"
    by (simp add: other_context_def rfc9000_def Let_def be_get_def)
  have "\<not> HasPrefix [1, 2] [84, 83 :: byte]" by (simp add: HasPrefix_def)
  then show ?thesis
    using stream_carriage [OF key_laws_raw_keys varint_laws_rfc9000 skip, of "[1, 2]" "[84, 83]"
        "\<lambda>s d. (s @ [d], None :: unit option)" "[]" 7 9 "[]"] by fastforce
qed

text \<open>
  The reconnect delay is 0 before the first retry and then doubles from 250 milliseconds up to
  the ceiling of 10 seconds: attempt \<open>n\<close> waits the smaller of the two, for every \<open>n\<close>.
\<close>
theorem reconnect_backoff_closed_form:
  "masqueReconnectBackoff attempt =
     (if attempt \<le> 0 then 0 else min (milliseconds 250 * 2 ^ nat (attempt - 1)) (seconds 10))"
  unfolding masqueReconnectBackoff_def
  by (subst backoff_loop_closed)
     (simp_all add: masqueReconnectInitialBackoff_def masqueReconnectMaxBackoff_def milliseconds_def
        seconds_def)

end
