(* ===== verification/Capsule.thy ===== *)
theory Capsule
  imports Packet
begin

text \<open>
  Datagrams over an HTTP/2 stream (\<^verbatim>\<open>masquecat_h2.go\<close>): the capsule framing of
  \<^verbatim>\<open>masqueCapsuleStream\<close> and the packet connection \<^verbatim>\<open>masqueH2PacketConn\<close> on
  top of it. The receiving side of a stream is the list of bytes that will arrive before the end of
  the stream; a read past it fails with \<open>EOF\<close>.
\<close>

definition masqueDatagramCapsule :: nat where [go_consts]: "masqueDatagramCapsule = 0"
definition maxMasqueCapsuleSize :: nat where [go_consts]: "maxMasqueCapsuleSize = 65536"

datatype capsule_error = EOF | UnexpectedEOF | BadVarint | CapsuleTooLarge nat | DatagramCapsuleTooLarge nat

section \<open>Reading\<close>

text \<open>\<^verbatim>\<open>io.ReadFull\<close> of \<open>n\<close> bytes.\<close>

definition ReadFull :: "nat \<Rightarrow> bytes \<Rightarrow> (capsule_error + bytes) \<times> bytes" where
  "ReadFull n r =
     (if n \<le> length r then (Inr (take n r), drop n r)
      else (Inl (if r = [] then EOF else UnexpectedEOF), []))"

definition readMasqueQUICVarint :: "quicvarint_api \<Rightarrow> bytes \<Rightarrow> (capsule_error + nat) \<times> bytes" where
  "readMasqueQUICVarint V r =
     (case ReadFull 1 r of
        (Inl e, r) \<Rightarrow> (Inl e, r)
      | (Inr first, r) \<Rightarrow>
          let n = 2 ^ (unat (first ! 0) div 64) in
          (case (if n > 1 then ReadFull (n - 1) r else (Inr [], r)) of
             (Inl e, r) \<Rightarrow> (Inl e, r)
           | (Inr tail, r) \<Rightarrow>
               (case vi_parse V (first @ tail) of
                  None \<Rightarrow> (Inl BadVarint, r)
                | Some (v, _) \<Rightarrow> (Inr v, r))))"

text \<open>\<^verbatim>\<open>io.CopyN\<close> to \<^verbatim>\<open>io.Discard\<close>: a short stream is consumed and gives \<open>EOF\<close>.\<close>

definition CopyN_Discard :: "nat \<Rightarrow> bytes \<Rightarrow> capsule_error option \<times> bytes" where
  "CopyN_Discard n r = (if n \<le> length r then (None, drop n r) else (Some EOF, []))"

lemma readMasqueQUICVarint_shrinks:
  "readMasqueQUICVarint V r = (Inr v, r') \<Longrightarrow> length r' < length r"
  by (auto simp: readMasqueQUICVarint_def ReadFull_def Let_def split: if_splits option.splits prod.splits)

text \<open>The receive loop; every capsule it skips takes at least its two varints from the stream.\<close>

function ReceiveDatagram :: "quicvarint_api \<Rightarrow> bytes \<Rightarrow> (capsule_error + bytes) \<times> bytes" where
  "ReceiveDatagram V r =
     (case readMasqueQUICVarint V r of
        (Inl e, r1) \<Rightarrow> (Inl e, r1)
      | (Inr capsuleType, r1) \<Rightarrow>
          (case readMasqueQUICVarint V r1 of
             (Inl e, r2) \<Rightarrow> (Inl e, r2)
           | (Inr capsuleLen, r2) \<Rightarrow>
               if capsuleType \<noteq> masqueDatagramCapsule then
                 (if capsuleLen > maxMasqueCapsuleSize then (Inl (CapsuleTooLarge capsuleLen), r2)
                  else case CopyN_Discard capsuleLen r2 of
                         (Some e, r3) \<Rightarrow> (Inl e, r3)
                       | (None, r3) \<Rightarrow> ReceiveDatagram V r3)
               else if capsuleLen > maxMasqueCapsuleSize then (Inl (DatagramCapsuleTooLarge capsuleLen), r2)
               else ReadFull capsuleLen r2))"
  by pat_completeness auto
termination
proof (relation "measure (\<lambda>(V, r). length r)", goal_cases)
  case (2 V r res r1 ct res2 r2 cl o3 r3)
  then have "readMasqueQUICVarint V r = (Inr ct, r1)" "readMasqueQUICVarint V r1 = (Inr cl, r2)"
    by simp_all
  then have "length r1 < length r" "length r2 < length r1" by (blast intro: readMasqueQUICVarint_shrinks)+
  moreover have "length r3 \<le> length r2" using 2 by (auto simp: CopyN_Discard_def split: if_splits)
  ultimately show ?case by simp
qed simp

declare ReceiveDatagram.simps [simp del]

section \<open>Writing\<close>

text \<open>The bytes \<^verbatim>\<open>SendDatagram\<close> gives to the stream's writer, in one \<^verbatim>\<open>Write\<close>.\<close>

definition capsule :: "quicvarint_api \<Rightarrow> nat \<Rightarrow> bytes \<Rightarrow> bytes" where
  "capsule V t b = vi_append V t @ vi_append V (length b) @ b"

definition SendDatagram :: "quicvarint_api \<Rightarrow> ('s \<Rightarrow> bytes \<Rightarrow> 's \<times> 'e option) \<Rightarrow> 's \<Rightarrow> bytes \<Rightarrow> 's \<times> 'e option" where
  "SendDatagram V write w b = write w (capsule V masqueDatagramCapsule b)"

datatype conn_error = ConnReceive "capsule_error receive_error" | ErrShortBuffer

definition WriteTo :: "quicvarint_api \<Rightarrow> ('s \<Rightarrow> bytes \<Rightarrow> 's \<times> 'e option) \<Rightarrow> 's \<Rightarrow> bytes \<Rightarrow> 's \<times> ('e + nat)" where
  "WriteTo V write w p =
     (case SendDatagram V write w (contextIDZero V @ p) of
        (w', Some e) \<Rightarrow> (w', Inl e)
      | (w', None) \<Rightarrow> (w', Inr (length p)))"

text \<open>
  \<^verbatim>\<open>receiveStreamDatagram\<close> on a capsule stream: datagrams of other contexts are skipped.
\<close>

lemma ReadFull_shrinks: "ReadFull n r = (Inr b, r') \<Longrightarrow> length r' = length r - n"
  by (auto simp: ReadFull_def split: if_splits)

lemma ReceiveDatagram_shrinks:
  "ReceiveDatagram V r = (Inr b, r') \<Longrightarrow> length r' < length r"
proof (induction V r rule: ReceiveDatagram.induct)
  case (1 V r)
  from "1.prems" obtain ct r1 cl r2 where
    v: "readMasqueQUICVarint V r = (Inr ct, r1)" "readMasqueQUICVarint V r1 = (Inr cl, r2)"
    by (subst (asm) ReceiveDatagram.simps) (auto split: prod.splits sum.splits)
  then have l: "length r1 < length r" "length r2 < length r1" by (blast intro: readMasqueQUICVarint_shrinks)+
  show ?case
  proof (cases "ct = masqueDatagramCapsule")
    case True
    with "1.prems" v have "ReadFull cl r2 = (Inr b, r')"
      by (subst (asm) ReceiveDatagram.simps) (auto split: if_splits)
    with l show ?thesis by (auto dest: ReadFull_shrinks)
  next
    case False
    with "1.prems" v obtain r3 where c: "\<not> cl > maxMasqueCapsuleSize" "CopyN_Discard cl r2 = (None, r3)"
      "ReceiveDatagram V r3 = (Inr b, r')"
      by (subst (asm) ReceiveDatagram.simps) (auto split: if_splits prod.splits option.splits)
    have "length r' < length r3" by (rule "1.IH" [OF v(1)[symmetric] refl v(2)[symmetric] refl False c(1) c(2)[symmetric] refl c(3)])
    moreover have "length r3 \<le> length r2" using c(2) by (auto simp: CopyN_Discard_def split: if_splits)
    ultimately show ?thesis using l by simp
  qed
qed

function receive_h2 :: "quicvarint_api \<Rightarrow> bytes \<Rightarrow> (capsule_error receive_error + bytes) \<times> bytes" where
  "receive_h2 V r =
     (case ReceiveDatagram V r of
        (Inl e, r') \<Rightarrow> (Inl (ReceiveFailed e), r')
      | (Inr b, r') \<Rightarrow>
          (case vi_parse V b of
             None \<Rightarrow> (Inl MalformedHTTPDatagram, r')
           | Some (contextID, n) \<Rightarrow>
               if contextID \<noteq> 0 then receive_h2 V r' else (Inr (drop n b), r')))"
  by pat_completeness auto
termination
  by (relation "measure (\<lambda>(V, r). length r)")
     (auto dest!: sym [THEN ReceiveDatagram_shrinks])

declare receive_h2.simps [simp del]

definition ReadFrom :: "quicvarint_api \<Rightarrow> nat \<Rightarrow> bytes \<Rightarrow> (conn_error + bytes) \<times> bytes" where
  "ReadFrom V len_p r =
     (case receive_h2 V r of
        (Inl e, r') \<Rightarrow> (Inl (ConnReceive e), r')
      | (Inr b, r') \<Rightarrow> if length b > len_p then (Inl ErrShortBuffer, r') else (Inr b, r'))"

section \<open>Round trips\<close>

lemma read_varint_append:
  assumes "varint_laws V" "v < 2 ^ 62"
  shows "readMasqueQUICVarint V (vi_append V v @ r) = (Inr v, r)"
proof -
  obtain x t where a: "vi_append V v = x # t"
    using varint_lawsD(3) [OF assms] by (cases "vi_append V v") auto
  have n: "2 ^ (unat x div 64) = Suc (length t)" using varint_lawsD(3) [OF assms] a by simp
  have "vi_parse V (x # t) = Some (v, Suc (length t))"
    using varint_lawsD(1) [OF assms, of "[]"] a by simp
  then show ?thesis
    by (cases t) (simp_all add: readMasqueQUICVarint_def a ReadFull_def Let_def n)
qed

lemma read_varint_capsule:
  assumes "varint_laws V" "t < 2 ^ 62" "length b < 2 ^ 62"
  shows "readMasqueQUICVarint V (capsule V t b @ r) = (Inr t, vi_append V (length b) @ b @ r)"
    "readMasqueQUICVarint V (vi_append V (length b) @ b @ r) = (Inr (length b), b @ r)"
  using read_varint_append [OF assms(1,2), of "vi_append V (length b) @ b @ r"]
    read_varint_append [OF assms(1,3), of "b @ r"]
  by (simp_all add: capsule_def)

lemma receive_datagram_capsule:
  assumes "varint_laws V" "length b \<le> maxMasqueCapsuleSize"
  shows "ReceiveDatagram V (capsule V masqueDatagramCapsule b @ r) = (Inr b, r)"
proof -
  have "length b < 2 ^ 62" using assms(2) by (simp add: go_consts)
  then show ?thesis
    using read_varint_capsule [OF assms(1), of masqueDatagramCapsule b r] assms(2)
    by (subst ReceiveDatagram.simps) (simp add: ReadFull_def go_consts)
qed

lemma receive_foreign_capsule:
  assumes "varint_laws V" "t \<noteq> masqueDatagramCapsule" "t < 2 ^ 62" "length b \<le> maxMasqueCapsuleSize"
  shows "ReceiveDatagram V (capsule V t b @ r) = ReceiveDatagram V r"
proof -
  have "length b < 2 ^ 62" using assms(4) by (simp add: go_consts)
  then show ?thesis
    using read_varint_capsule [OF assms(1,3), of b r] assms(2,4)
    by (subst ReceiveDatagram.simps) (simp add: CopyN_Discard_def)
qed

lemma receive_oversized:
  assumes "varint_laws V" "maxMasqueCapsuleSize < length b" "length b < 2 ^ 62"
  shows "ReceiveDatagram V (capsule V masqueDatagramCapsule b @ r) = (Inl (DatagramCapsuleTooLarge (length b)), b @ r)"
  using read_varint_capsule [OF assms(1) _ assms(3), of masqueDatagramCapsule r] assms(2)
  by (subst ReceiveDatagram.simps) (simp add: go_consts)

definition foreign_capsules :: "quicvarint_api \<Rightarrow> (nat \<times> bytes) list \<Rightarrow> bytes" where
  "foreign_capsules V skipped = concat (map (\<lambda>(t, b). capsule V t b) skipped)"

lemma receive_after_foreign:
  assumes "varint_laws V"
    "\<forall>(t, b) \<in> set skipped. t \<noteq> masqueDatagramCapsule \<and> t < 2 ^ 62 \<and> length b \<le> maxMasqueCapsuleSize"
  shows "ReceiveDatagram V (foreign_capsules V skipped @ r) = ReceiveDatagram V r"
  using assms(2)
  by (induction skipped) (auto simp: foreign_capsules_def receive_foreign_capsule [OF assms(1)])

section \<open>Properties\<close>

text \<open>
  C15: a packet written to an HTTP/2 packet connection arrives. The bytes \<^verbatim>\<open>WriteTo\<close> puts
  on the stream, after any number of capsules of other types up to the size limit, make the peer's
  \<^verbatim>\<open>ReadFrom\<close> return exactly the packet and leave the rest of the stream for the next read;
  a buffer that is too small gives \<^verbatim>\<open>ErrShortBuffer\<close>. The writer does not check the size: a
  datagram over 64 KiB is written and makes the receiver fail.
\<close>
theorem h2_packet_roundtrip:
  assumes "varint_laws V"
    "\<forall>(t, b) \<in> set skipped. t \<noteq> masqueDatagramCapsule \<and> t < 2 ^ 62 \<and> length b \<le> maxMasqueCapsuleSize"
    "length (contextIDZero V @ p) < 2 ^ 62"
  shows "\<exists>out. WriteTo V (\<lambda>w b. (w @ b, None)) [] p = (out, Inr (length p) :: unit + nat) \<and>
           ReadFrom V n (foreign_capsules V skipped @ out @ rest) =
             (if length (contextIDZero V @ p) > maxMasqueCapsuleSize
              then (Inl (ConnReceive (ReceiveFailed (DatagramCapsuleTooLarge (length (contextIDZero V @ p))))),
                    contextIDZero V @ p @ rest)
              else if length p > n then (Inl ErrShortBuffer, rest)
              else (Inr p, rest))"
proof -
  let ?d = "contextIDZero V @ p"
  have out: "WriteTo V (\<lambda>w b. (w @ b, None :: unit option)) [] p
      = (capsule V masqueDatagramCapsule ?d, Inr (length p))"
    by (simp add: WriteTo_def SendDatagram_def)
  have ctx: "vi_parse V ?d = Some (0, length (contextIDZero V))"
    unfolding contextIDZero_def by (rule varint_lawsD(1) [OF assms(1)]) simp
  have recv: "ReceiveDatagram V (foreign_capsules V skipped @ capsule V masqueDatagramCapsule ?d @ rest) =
      (if length ?d > maxMasqueCapsuleSize then (Inl (DatagramCapsuleTooLarge (length ?d)), ?d @ rest)
       else (Inr ?d, rest))"
    using receive_after_foreign [OF assms(1,2), of "capsule V masqueDatagramCapsule ?d @ rest"]
      receive_oversized [OF assms(1) _ assms(3), of rest] receive_datagram_capsule [OF assms(1), of ?d rest]
    by (cases "length ?d > maxMasqueCapsuleSize") (simp_all del: append_assoc)
  then have "ReadFrom V n (foreign_capsules V skipped @ capsule V masqueDatagramCapsule ?d @ rest) =
      (if length ?d > maxMasqueCapsuleSize
       then (Inl (ConnReceive (ReceiveFailed (DatagramCapsuleTooLarge (length ?d)))), contextIDZero V @ p @ rest)
       else if length p > n then (Inl ErrShortBuffer, rest) else (Inr p, rest))"
    unfolding ReadFrom_def by (subst receive_h2.simps) (simp add: ctx)
  with out show ?thesis by blast
qed

theorem h2_packet_roundtrip_witness:
  "\<exists>out. WriteTo rfc9000 (\<lambda>w b. (w @ b, None)) [] [7, 8] = (out, Inr (length [7, 8 :: byte]) :: unit + nat) \<and>
     ReadFrom rfc9000 100 (foreign_capsules rfc9000 [(5, [1, 1])] @ out @ [9]) = (Inr [7, 8], [9])"
proof -
  have "\<forall>(t, b) \<in> set [(5, [1, 1 :: byte])].
      t \<noteq> masqueDatagramCapsule \<and> t < 2 ^ 62 \<and> length b \<le> maxMasqueCapsuleSize"
    by (simp add: go_consts)
  moreover have "length (contextIDZero rfc9000) = 1" by (simp add: contextIDZero_def rfc9000_def)
  ultimately show ?thesis
    using h2_packet_roundtrip [OF varint_laws_rfc9000, of "[(5, [1, 1])]" "[7, 8]" 100 "[9]"]
    by (simp add: go_consts)
qed

end
