(* ===== verification/H2_Flow.thy ===== *)
theory H2_Flow
  imports Capsule
begin

text \<open>
  HTTP/2 flow control of the two ends of a CONNECT stream: the windows of
  \<^verbatim>\<open>masqueHTTP2Conn\<close> (\<^verbatim>\<open>masquecat_h2.go\<close>) and \<^verbatim>\<open>masqueH2ClientConn\<close>
  (\<^verbatim>\<open>masquecat_h2_client.go\<close>), the frames that change them, and the writers that spend
  them. The two types repeat the same code with small differences; what their writers rely on is
  the locale \<open>h2_windows_contract\<close>, proved for both.

  Windows are \<^verbatim>\<open>int64\<close> in the sources. They are integers here; \<open>windows_fit_int64\<close>
  shows that every value they take fits.

  A writer runs against an environment: a list of what happens to it, in order. While it waits for
  credit it is woken after the read loop has handled some frames (\<open>Signal\<close>), or the connection
  ends, the context ends, or the timer fires; each frame it writes succeeds, after which the read
  loop may have handled frames (\<open>Wrote\<close>), or fails. A run whose environment is used up is still
  waiting, which is \<open>None\<close>.
\<close>

section \<open>Frames and windows\<close>

datatype setting_id =
  SettingEnableConnectProtocol | SettingInitialWindowSize | SettingMaxFrameSize | OtherSetting nat

type_synonym setting = "setting_id \<times> u32"

datatype flow_frame = SettingsFrame bool "setting list" | WindowUpdateFrame u32 u32

record h2_windows =
  peerConnWindow :: int
  peerStreamWindow :: int
  peerInitialWindow :: int
  peerMaxFrameSize :: u32
  streamID :: u32

definition max_window :: int where [go_consts]: "max_window = 2 ^ 31 - 1"

datatype h2_error = WindowOverflow | InvalidEnableConnect u32

text \<open>Changes common to both ends, on the shared fields.\<close>

definition set_initial_window :: "u32 \<Rightarrow> 'a h2_windows_scheme \<Rightarrow> 'a h2_windows_scheme" where
  "set_initial_window v c =
     (let delta = uint v - peerInitialWindow c;
          c = c\<lparr>peerInitialWindow := uint v\<rparr>
      in if streamID c \<noteq> 0 then c\<lparr>peerStreamWindow := peerStreamWindow c + delta\<rparr> else c)"

definition add_window :: "u32 \<Rightarrow> u32 \<Rightarrow> 'a h2_windows_scheme \<Rightarrow> 'a h2_windows_scheme" where
  "add_window sid inc c =
     (if sid = 0 then c\<lparr>peerConnWindow := peerConnWindow c + uint inc\<rparr>
      else if sid = streamID c then c\<lparr>peerStreamWindow := peerStreamWindow c + uint inc\<rparr>
      else c)"

definition overflowed :: "'a h2_windows_scheme \<Rightarrow> bool" where
  "overflowed c \<longleftrightarrow> peerConnWindow c > max_window \<or> peerStreamWindow c > max_window"

section \<open>The server's connection\<close>

record masqueHTTP2Conn = h2_windows +
  bodyW_open :: "bool option"

definition new_server_conn :: masqueHTTP2Conn where
  "new_server_conn = \<lparr>peerConnWindow = 65535, peerStreamWindow = 65535, peerInitialWindow = 65535,
     peerMaxFrameSize = 16384, streamID = 0, bodyW_open = None\<rparr>"

fun server_setting :: "setting \<Rightarrow> masqueHTTP2Conn \<Rightarrow> masqueHTTP2Conn" where
  "server_setting (SettingInitialWindowSize, v) c = set_initial_window v c"
| "server_setting (SettingMaxFrameSize, v) c = c\<lparr>peerMaxFrameSize := v\<rparr>"
| "server_setting (_, v) c = c"

text \<open>\<^verbatim>\<open>handleSettings\<close>; the flag is whether an acknowledgement is written.\<close>

definition server_handleSettings :: "bool \<Rightarrow> setting list \<Rightarrow> masqueHTTP2Conn \<Rightarrow> masqueHTTP2Conn \<times> bool" where
  "server_handleSettings ack ss c = (if ack then (c, False) else (fold server_setting ss c, True))"

definition server_handleWindowUpdate :: "u32 \<Rightarrow> u32 \<Rightarrow> masqueHTTP2Conn \<Rightarrow> masqueHTTP2Conn \<times> h2_error option" where
  "server_handleWindowUpdate sid inc c =
     (let c = add_window sid inc c in (c, if overflowed c then Some WindowOverflow else None))"

fun server_flow :: "flow_frame \<Rightarrow> masqueHTTP2Conn \<Rightarrow> masqueHTTP2Conn" where
  "server_flow (SettingsFrame ack ss) c = fst (server_handleSettings ack ss c)"
| "server_flow (WindowUpdateFrame sid inc) c = fst (server_handleWindowUpdate sid inc c)"

text \<open>One pass of the loop of \<^verbatim>\<open>reserveWriteWindow\<close>, under \<^verbatim>\<open>flowMu\<close>.\<close>

definition server_reserve :: "nat \<Rightarrow> masqueHTTP2Conn \<Rightarrow> (masqueHTTP2Conn \<times> nat) option" where
  "server_reserve want c =
     (let available = peerConnWindow c;
          available = (if peerStreamWindow c < available then peerStreamWindow c else available);
          maxFrame = uint (peerMaxFrameSize c);
          available = (if maxFrame < available then maxFrame else available);
          available = (if int want < available then int want else available)
      in if available > 0
         then Some (c\<lparr>peerConnWindow := peerConnWindow c - available,
                      peerStreamWindow := peerStreamWindow c - available\<rparr>, nat available)
         else None)"

section \<open>The client's connection\<close>

record masqueH2ClientConn = h2_windows +
  extendedConnectAllowed :: bool
  settingsDone :: bool
  settingsCh :: "(string option) list"

definition new_client_conn :: masqueH2ClientConn where
  "new_client_conn = \<lparr>peerConnWindow = 65535, peerStreamWindow = 65535, peerInitialWindow = 65535,
     peerMaxFrameSize = 16384, streamID = 1, extendedConnectAllowed = False, settingsDone = False,
     settingsCh = []\<rparr>"

fun client_setting :: "setting \<Rightarrow> masqueH2ClientConn \<Rightarrow> masqueH2ClientConn \<times> h2_error option" where
  "client_setting (SettingEnableConnectProtocol, v) c =
     (if v > 1 then (c, Some (InvalidEnableConnect v)) else (c\<lparr>extendedConnectAllowed := (v = 1)\<rparr>, None))"
| "client_setting (SettingInitialWindowSize, v) c = (set_initial_window v c, None)"
| "client_setting (SettingMaxFrameSize, v) c = (c\<lparr>peerMaxFrameSize := v\<rparr>, None)"
| "client_setting (OtherSetting n, v) c = (c, None)"

text \<open>\<^verbatim>\<open>ForeachSetting\<close> stops at the first error.\<close>

fun client_settings :: "setting list \<Rightarrow> masqueH2ClientConn \<Rightarrow> masqueH2ClientConn \<times> h2_error option" where
  "client_settings [] c = (c, None)"
| "client_settings (s # ss) c =
     (case client_setting s c of
        (c', Some e) \<Rightarrow> (c', Some e)
      | (c', None) \<Rightarrow> client_settings ss c')"

text \<open>
  \<^verbatim>\<open>handleSettings\<close>: \<open>ackOk\<close> is whether writing the acknowledgement succeeds. The first
  settings frame decides what the dialer, which waits on \<^verbatim>\<open>settingsCh\<close>, receives: \<open>None\<close>
  for success, or an error text.
\<close>

datatype client_settings_result = SettingsOk | SettingsError h2_error | SettingsAckFailed

definition client_handleSettings ::
  "bool \<Rightarrow> bool \<Rightarrow> setting list \<Rightarrow> masqueH2ClientConn \<Rightarrow> masqueH2ClientConn \<times> client_settings_result" where
  "client_handleSettings ackOk ack ss c =
     (if ack then (c, SettingsOk)
      else let first = \<not> settingsDone c;
               c = c\<lparr>settingsDone := True\<rparr>;
               send = (\<lambda>m c. if first then c\<lparr>settingsCh := settingsCh c @ [m]\<rparr> else c)
           in case client_settings ss c of
                (c, Some e) \<Rightarrow> (send (Some ''invalid setting'') c, SettingsError e)
              | (c, None) \<Rightarrow>
                  if \<not> ackOk then (send (Some ''ack failed'') c, SettingsAckFailed)
                  else (send (if extendedConnectAllowed c then None
                              else Some ''peer did not advertise SETTINGS_ENABLE_CONNECT_PROTOCOL'') c, SettingsOk))"

definition client_handleWindowUpdate :: "u32 \<Rightarrow> u32 \<Rightarrow> masqueH2ClientConn \<Rightarrow> masqueH2ClientConn \<times> h2_error option" where
  "client_handleWindowUpdate sid inc c =
     (let c = add_window sid inc c in (c, if overflowed c then Some WindowOverflow else None))"

fun client_flow :: "flow_frame \<Rightarrow> masqueH2ClientConn \<Rightarrow> masqueH2ClientConn" where
  "client_flow (SettingsFrame ack ss) c = fst (client_handleSettings True ack ss c)"
| "client_flow (WindowUpdateFrame sid inc) c = fst (client_handleWindowUpdate sid inc c)"

definition client_reserve :: "nat \<Rightarrow> masqueH2ClientConn \<Rightarrow> (masqueH2ClientConn \<times> nat) option" where
  "client_reserve want c =
     (let available = peerConnWindow c;
          available = (if peerStreamWindow c < available then peerStreamWindow c else available);
          available = (if uint (peerMaxFrameSize c) < available then uint (peerMaxFrameSize c) else available);
          available = (if int want < available then int want else available)
      in if available > 0
         then Some (c\<lparr>peerConnWindow := peerConnWindow c - available,
                      peerStreamWindow := peerStreamWindow c - available\<rparr>, nat available)
         else None)"

section \<open>Writers\<close>

datatype h2_event =
  Signal "flow_frame list" | Wrote "flow_frame list" | WriteFailed | ConnDone | CtxDone | WriteTimeout

datatype h2_write_error = ErrClosed | ErrContext | FlowTimeout | FrameWriteError | NoStream

text \<open>
  The loop of \<^verbatim>\<open>reserveWriteWindow\<close> around one of the two passes above; only the client
  waits for its context.
\<close>

fun reserve_loop ::
  "(nat \<Rightarrow> 'c \<Rightarrow> ('c \<times> nat) option) \<Rightarrow> (flow_frame \<Rightarrow> 'c \<Rightarrow> 'c) \<Rightarrow> nat \<Rightarrow> h2_event list \<Rightarrow> 'c \<Rightarrow>
   ('c \<times> h2_event list \<times> (h2_write_error + nat)) option" where
  "reserve_loop grab handle want env c =
     (case grab want c of
        Some (c', n) \<Rightarrow> Some (c', env, Inr n)
      | None \<Rightarrow>
          (case env of
             Signal fs # env' \<Rightarrow> reserve_loop grab handle want env' (fold handle fs c)
           | ConnDone # env' \<Rightarrow> Some (c, env', Inl ErrClosed)
           | CtxDone # env' \<Rightarrow> Some (c, env', Inl ErrContext)
           | WriteTimeout # env' \<Rightarrow> Some (c, env', Inl FlowTimeout)
           | _ \<Rightarrow> None))"

declare reserve_loop.simps [simp del]

lemma reserve_loop_cases:
  "grab want c = Some (c', n) \<Longrightarrow> reserve_loop grab handle want env c = Some (c', env, Inr n)"
  "grab want c = None \<Longrightarrow> reserve_loop grab handle want [] c = None"
  "grab want c = None \<Longrightarrow> reserve_loop grab handle want (ev # env) c =
     (case ev of
        Signal fs \<Rightarrow> reserve_loop grab handle want env (fold handle fs c)
      | ConnDone \<Rightarrow> Some (c, env, Inl ErrClosed)
      | CtxDone \<Rightarrow> Some (c, env, Inl ErrContext)
      | WriteTimeout \<Rightarrow> Some (c, env, Inl FlowTimeout)
      | _ \<Rightarrow> None)"
  by (simp_all add: reserve_loop.simps [of grab handle want env c] reserve_loop.simps [of grab handle want "[]" c]
      reserve_loop.simps [of grab handle want "ev # env" c] split: h2_event.splits)

lemma reserve_loop_env:
  "reserve_loop grab handle want env c = Some (c', env', r) \<Longrightarrow> length env' \<le> length env"
  by (induction grab handle want env c rule: reserve_loop.induct)
     (subst (asm) reserve_loop.simps, fastforce split: option.splits prod.splits list.splits h2_event.splits)

text \<open>The DATA frames written so far: the END\_STREAM flag and the payload.\<close>

type_synonym data_frames = "(bool \<times> bytes) list"

function write_loop ::
  "(nat \<Rightarrow> 'c \<Rightarrow> ('c \<times> nat) option) \<Rightarrow> (flow_frame \<Rightarrow> 'c \<Rightarrow> 'c) \<Rightarrow> h2_event list \<Rightarrow> bytes \<Rightarrow> bool \<Rightarrow> 'c \<Rightarrow>
   data_frames \<Rightarrow> ('c \<times> h2_event list \<times> data_frames \<times> h2_write_error option) option" where
  "write_loop grab handle env p endStream c out =
     (if p = [] then Some (c, env, out, None)
      else case reserve_loop grab handle (length p) env c of
             None \<Rightarrow> None
           | Some (c', env', Inl e) \<Rightarrow> Some (c', env', out, Some e)
           | Some (c', env', Inr n) \<Rightarrow>
               (case env' of
                  Wrote fs # env'' \<Rightarrow>
                    write_loop grab handle env'' (drop n p) endStream (fold handle fs c')
                      (out @ [(endStream \<and> n = length p, take n p)])
                | WriteFailed # env'' \<Rightarrow> Some (c', env'', out, Some FrameWriteError)
                | _ \<Rightarrow> None))"
  by pat_completeness auto
termination
  by (relation "measure (\<lambda>(grab, handle, env, p, e, c, out). length env)")
     (auto dest!: reserve_loop_env)

declare write_loop.simps [simp del]

definition write_empty :: "(flow_frame \<Rightarrow> 'c \<Rightarrow> 'c) \<Rightarrow> h2_event list \<Rightarrow> bool \<Rightarrow> 'c \<Rightarrow> ('c \<times> h2_event list \<times> data_frames \<times> h2_write_error option) option" where
  "write_empty handle env endStream c =
     (case env of
        Wrote fs # env' \<Rightarrow> Some (fold handle fs c, env', [(endStream, [])], None)
      | WriteFailed # env' \<Rightarrow> Some (c, env', [], Some FrameWriteError)
      | _ \<Rightarrow> None)"

definition server_writeData ::
  "h2_event list \<Rightarrow> bytes \<Rightarrow> bool \<Rightarrow> masqueHTTP2Conn \<Rightarrow>
   (masqueHTTP2Conn \<times> h2_event list \<times> data_frames \<times> h2_write_error option) option" where
  "server_writeData env p endStream c =
     (if p = [] then write_empty server_flow env endStream c
      else write_loop server_reserve server_flow env p endStream c [])"

definition client_writeData ::
  "h2_event list \<Rightarrow> bytes \<Rightarrow> bool \<Rightarrow> masqueH2ClientConn \<Rightarrow>
   (masqueH2ClientConn \<times> h2_event list \<times> data_frames \<times> h2_write_error option) option" where
  "client_writeData env p endStream c =
     (if streamID c = 0 then Some (c, env, [], Some NoStream)
      else if p = [] then write_empty client_flow env endStream c
      else write_loop client_reserve client_flow env p endStream c [])"

section \<open>Credit\<close>

fun conn_credit :: "flow_frame \<Rightarrow> int" where
  "conn_credit (WindowUpdateFrame sid inc) = (if sid = 0 then uint inc else 0)"
| "conn_credit (SettingsFrame ack ss) = 0"

fun stream_credit :: "u32 \<Rightarrow> flow_frame \<Rightarrow> int" where
  "stream_credit s (WindowUpdateFrame sid inc) = (if sid = s \<and> s \<noteq> 0 then uint inc else 0)"
| "stream_credit s (SettingsFrame ack ss) = 0"

fun event_frames :: "h2_event \<Rightarrow> flow_frame list" where
  "event_frames (Signal fs) = fs"
| "event_frames (Wrote fs) = fs"
| "event_frames _ = []"

definition credit :: "(flow_frame \<Rightarrow> int) \<Rightarrow> h2_event list \<Rightarrow> int" where
  "credit cr env = sum_list (map (\<lambda>ev. sum_list (map cr (event_frames ev))) env)"

lemma credit_simps [simp]:
  "credit cr [] = 0" "credit cr (ev # env) = sum_list (map cr (event_frames ev)) + credit cr env"
  by (simp_all add: credit_def)

lemma conn_credit_nonneg: "0 \<le> conn_credit f"
  by (cases f) auto

lemma conn_credits_nonneg: "0 \<le> sum_list (map conn_credit fs)"
  by (induction fs) (auto simp: conn_credit_nonneg)

definition payload_length :: "data_frames \<Rightarrow> int" where
  "payload_length out = int (length (concat (map snd out)))"

lemma payload_length_simps [simp]:
  "payload_length [] = 0" "payload_length (out @ [(f, b)]) = payload_length out + int (length b)"
  by (simp_all add: payload_length_def)

text \<open>How the frames of a completed write cut the payload.\<close>

fun well_chunked :: "data_frames \<Rightarrow> bytes \<Rightarrow> bool \<Rightarrow> bool" where
  "well_chunked [] p e \<longleftrightarrow> p = []"
| "well_chunked ((f, b) # k) p e \<longleftrightarrow>
     b \<noteq> [] \<and> (\<exists>q. p = b @ q \<and> f = (e \<and> q = []) \<and> well_chunked k q e)"

lemma well_chunked_concat: "well_chunked k p e \<Longrightarrow> concat (map snd k) = p"
  by (induction k p e rule: well_chunked.induct) auto

lemma well_chunked_flags:
  "well_chunked k p e \<Longrightarrow> p \<noteq> [] \<Longrightarrow> [] \<notin> set (map snd k) \<and> map fst k = replicate (length k - 1) False @ [e]"
proof (induction k p e rule: well_chunked.induct)
  case (2 f b k p e)
  then obtain q where q: "p = b @ q" "f = (e \<and> q = [])" "well_chunked k q e" "b \<noteq> []" by auto
  show ?case
  proof (cases "q = []")
    case True
    with q(3) have "k = []" by (cases k) auto
    with q True show ?thesis by simp
  next
    case False
    then have "k \<noteq> []" using q(3) by auto
    with "2.IH" [of q] q False show ?thesis by (cases k) auto
  qed
qed simp

locale h2_windows_contract =
  fixes connW streamW initW frameMax :: "'c \<Rightarrow> int"
    and sid :: "'c \<Rightarrow> u32"
    and grab :: "nat \<Rightarrow> 'c \<Rightarrow> ('c \<times> nat) option"
    and handle :: "flow_frame \<Rightarrow> 'c \<Rightarrow> 'c"
  assumes grab_Some: "grab want c = Some (c', n) \<Longrightarrow>
      0 < n \<and> n \<le> want \<and> int n \<le> connW c \<and> int n \<le> streamW c \<and> int n \<le> frameMax c \<and>
      connW c' = connW c - int n \<and> streamW c' = streamW c - int n \<and>
      initW c' = initW c \<and> frameMax c' = frameMax c \<and> sid c' = sid c"
    and grab_None: "grab want c = None \<Longrightarrow> want = 0 \<or> connW c \<le> 0 \<or> streamW c \<le> 0 \<or> frameMax c \<le> 0"
    and handle_conn: "connW (handle f c) = connW c + conn_credit f"
    and handle_stream: "sid c \<noteq> 0 \<Longrightarrow>
      streamW (handle f c) - initW (handle f c) = streamW c - initW c + stream_credit (sid c) f"
    and handle_sid: "sid (handle f c) = sid c"
begin

lemma fold_conn: "connW (fold handle fs c) = connW c + sum_list (map conn_credit fs)"
  by (induction fs arbitrary: c) (simp_all add: handle_conn)

lemma fold_sid [simp]: "sid (fold handle fs c) = sid c"
  by (induction fs arbitrary: c) (simp_all add: handle_sid)

lemma fold_stream: "sid c \<noteq> 0 \<Longrightarrow>
    streamW (fold handle fs c) - initW (fold handle fs c) =
    streamW c - initW c + sum_list (map (stream_credit (sid c)) fs)"
proof (induction fs arbitrary: c)
  case (Cons f fs)
  then show ?case using handle_stream [of c f] by (simp add: handle_sid)
qed simp

text \<open>A successful reservation takes its bytes from both windows of the state it was made in.\<close>

lemma reserve_Inr:
  "reserve_loop grab handle want env c = Some (c', env', Inr n) \<Longrightarrow>
   0 < n \<and> n \<le> want \<and>
   connW c' + credit conn_credit env' = connW c + credit conn_credit env - int n \<and>
   0 \<le> connW c' \<and> 0 \<le> streamW c' \<and> int n \<le> frameMax c' \<and> sid c' = sid c \<and>
   (sid c \<noteq> 0 \<longrightarrow> streamW c' - initW c' + credit (stream_credit (sid c)) env' =
      streamW c - initW c + credit (stream_credit (sid c)) env - int n)"
proof (induction env arbitrary: c)
  case Nil
  then have g: "grab want c = Some (c', n) \<and> env' = []"
    by (cases "grab want c") (auto simp: reserve_loop_cases)
  then show ?case using grab_Some [of want c c' n] by simp
next
  case (Cons ev env)
  show ?case
  proof (cases "grab want c")
    case None
    with Cons.prems obtain fs where ev: "ev = Signal fs"
      "reserve_loop grab handle want env (fold handle fs c) = Some (c', env', Inr n)"
      by (auto simp: reserve_loop_cases split: h2_event.splits)
    show ?thesis using Cons.IH [OF ev(2)] fold_stream [of c fs] by (simp add: ev(1) fold_conn)
  next
    case (Some a)
    with Cons.prems have "grab want c = Some (c', n) \<and> env' = ev # env"
      by (cases a) (auto simp: reserve_loop_cases)
    then show ?thesis using grab_Some [of want c c' n] by simp
  qed
qed

lemma reserve_Inl:
  "reserve_loop grab handle want env c = Some (c', env', Inl e) \<Longrightarrow>
   connW c' + credit conn_credit env' = connW c + credit conn_credit env \<and> connW c \<le> connW c'"
proof (induction env arbitrary: c)
  case Nil
  then show ?case by (cases "grab want c") (auto simp: reserve_loop_cases)
next
  case (Cons ev env)
  show ?case
  proof (cases "grab want c")
    case None
    show ?thesis
    proof (cases ev)
      case (Signal fs)
      with None Cons.prems Cons.IH [of "fold handle fs c"] conn_credits_nonneg [of fs] show ?thesis
        by (simp add: reserve_loop_cases fold_conn)
    qed (use None Cons.prems in \<open>simp_all add: reserve_loop_cases\<close>)
  next
    case (Some a)
    with Cons.prems show ?thesis by (cases a) (auto simp: reserve_loop_cases)
  qed
qed

lemma reserve_progress:
  assumes "0 < want" "0 < connW c" "0 < streamW c" "0 < frameMax c"
  shows "\<exists>c' n. reserve_loop grab handle want env c = Some (c', env, Inr n) \<and> grab want c = Some (c', n)"
proof -
  from grab_None [of want c] assms obtain a where "grab want c = Some a" by (cases "grab want c") auto
  then show ?thesis by (cases a) (auto simp: reserve_loop_cases)
qed

lemma write_success:
  "write_loop grab handle env p e c out = Some (c', env', out', None) \<Longrightarrow>
   \<exists>k. out' = out @ k \<and> well_chunked k p e"
proof (induction "length env" arbitrary: env p c out rule: less_induct)
  case less
  show ?case
  proof (cases "p = []")
    case True
    with less.prems show ?thesis by (subst (asm) write_loop.simps) simp
  next
    case False
    with less.prems obtain c1 n fs env2 where
      r: "reserve_loop grab handle (length p) env c = Some (c1, Wrote fs # env2, Inr n)"
      and w: "write_loop grab handle env2 (drop n p) e (fold handle fs c1)
          (out @ [(e \<and> n = length p, take n p)]) = Some (c', env', out', None)"
      by (subst (asm) write_loop.simps)
         (auto split: option.splits sum.splits list.splits h2_event.splits)
    from reserve_Inr [OF r] have n: "0 < n" "n \<le> length p" by auto
    from reserve_loop_env [OF r] have "length env2 < length env" by simp
    from less.hyps [OF this w] obtain k where
      k: "out' = (out @ [(e \<and> n = length p, take n p)]) @ k" "well_chunked k (drop n p) e" by blast
    have "well_chunked ((e \<and> n = length p, take n p) # k) p e"
      using k(2) n False by (auto intro!: exI [of _ "drop n p"])
    with k(1) show ?thesis by simp
  qed
qed

text \<open>A completed write takes exactly the length of its payload from both windows.\<close>

lemma write_exact:
  "write_loop grab handle env p e c out = Some (c', env', out', None) \<Longrightarrow>
   connW c' + credit conn_credit env' = connW c + credit conn_credit env - int (length p) \<and> sid c' = sid c \<and>
   (sid c \<noteq> 0 \<longrightarrow> streamW c' - initW c' + credit (stream_credit (sid c)) env' =
      streamW c - initW c + credit (stream_credit (sid c)) env - int (length p))"
proof (induction "length env" arbitrary: env p c out rule: less_induct)
  case less
  show ?case
  proof (cases "p = []")
    case True
    with less.prems show ?thesis by (subst (asm) write_loop.simps) simp
  next
    case False
    with less.prems obtain c1 n fs env2 where
      r: "reserve_loop grab handle (length p) env c = Some (c1, Wrote fs # env2, Inr n)"
      and w: "write_loop grab handle env2 (drop n p) e (fold handle fs c1)
          (out @ [(e \<and> n = length p, take n p)]) = Some (c', env', out', None)"
      by (subst (asm) write_loop.simps)
         (auto split: option.splits sum.splits list.splits h2_event.splits)
    note R = reserve_Inr [OF r]
    from reserve_loop_env [OF r] have "length env2 < length env" by simp
    note IH = less.hyps [OF this w]
    have len: "int (length (drop n p)) = int (length p) - int n" using R by simp
    have "sid (fold handle fs c1) = sid c" using R by simp
    then show ?thesis using IH R fold_stream [of c1 fs] len by (cases "sid c = 0") (simp_all add: fold_conn, (elim conjE, linarith)?)
  qed
qed

text \<open>Whatever happens, what was written is a prefix of the payload and was covered by credit.\<close>

lemma write_credit:
  "write_loop grab handle env p e c out = Some (c', env', out', r) \<Longrightarrow> 0 \<le> connW c \<Longrightarrow>
   0 \<le> connW c' \<and>
   connW c' + credit conn_credit env' + payload_length out' \<le> connW c + credit conn_credit env + payload_length out \<and>
   (\<exists>k q. out' = out @ k \<and> p = concat (map snd k) @ q)"
proof (induction "length env" arbitrary: env p c out rule: less_induct)
  case less
  show ?case
  proof (cases "p = []")
    case True
    with less.prems show ?thesis by (subst (asm) write_loop.simps) simp
  next
    case False
    then obtain c1 env1 q where res: "reserve_loop grab handle (length p) env c = Some (c1, env1, q)"
      using less.prems(1) by (subst (asm) write_loop.simps) (auto split: option.splits)
    note w = less.prems(1) [unfolded write_loop.simps [of grab handle env]]
    show ?thesis
    proof (cases q)
      case (Inl err)
      with w res False have "c' = c1" "env' = env1" "out' = out" by auto
      with reserve_Inl [OF res [unfolded Inl]] less.prems(2) show ?thesis by simp
    next
      case (Inr n)
      note R = reserve_Inr [OF res [unfolded Inr]]
      from w res False Inr consider
        (failed) env2 where "env1 = WriteFailed # env2" "c' = c1" "env' = env2" "out' = out"
      | (wrote) fs env2 where "env1 = Wrote fs # env2"
          "write_loop grab handle env2 (drop n p) e (fold handle fs c1)
             (out @ [(e \<and> n = length p, take n p)]) = Some (c', env', out', r)"
        by (auto split: list.splits h2_event.splits)
      then show ?thesis
      proof cases
        case failed
        with R show ?thesis by simp
      next
        case wrote
        from reserve_loop_env [OF res] wrote(1) have "length env2 < length env" by simp
        moreover have "0 \<le> connW (fold handle fs c1)" using R by (simp add: fold_conn conn_credits_nonneg)
        ultimately have IH: "0 \<le> connW c'"
          "connW c' + credit conn_credit env' + payload_length out'
             \<le> connW (fold handle fs c1) + credit conn_credit env2 + payload_length (out @ [(e \<and> n = length p, take n p)])"
          "\<exists>k q. out' = (out @ [(e \<and> n = length p, take n p)]) @ k \<and> drop n p = concat (map snd k) @ q"
          using less.hyps [OF _ wrote(2)] by blast+
        obtain k q where k: "out' = out @ (e \<and> n = length p, take n p) # k" "drop n p = concat (map snd k) @ q"
          using IH(3) by auto
        have "p = concat (map snd ((e \<and> n = length p, take n p) # k)) @ q"
          using k(2) by (metis append_assoc append_take_drop_id concat.simps(2) list.simps(9) snd_conv)
        then have "\<exists>k q. out' = out @ k \<and> p = concat (map snd k) @ q" using k(1) by blast
        moreover have "int (length (take n p)) = int n" using R by simp
        ultimately show ?thesis using IH(1,2) R wrote(1) by (simp add: fold_conn)
      qed
    qed
  qed
qed

text \<open>Enough credit for the whole payload: the write completes without waiting.\<close>

lemma write_enough:
  "int (length p) \<le> connW c \<Longrightarrow> int (length p) \<le> streamW c \<Longrightarrow> 0 < frameMax c \<Longrightarrow>
   \<exists>c' env' out'. write_loop grab handle (replicate (length p) (Wrote []) @ env) p e c out = Some (c', env', out', None)"
proof (induction "length p" arbitrary: p c out env rule: less_induct)
  case less
  show ?case
  proof (cases "p = []")
    case True
    then show ?thesis by (subst write_loop.simps) simp
  next
    case False
    let ?env = "replicate (length p) (Wrote []) @ env"
    from False have "0 < int (length p)" by simp
    with less.prems have "0 < length p" "0 < connW c" "0 < streamW c" by linarith+
    then obtain c1 n where r: "reserve_loop grab handle (length p) ?env c = Some (c1, ?env, Inr n)"
      "grab (length p) c = Some (c1, n)"
      using reserve_progress [of "length p" c ?env] less.prems by auto
    note g = grab_Some [OF r(2)]
    have rep: "?env = Wrote [] # replicate (length (drop n p)) (Wrote []) @ (replicate (n - 1) (Wrote []) @ env)"
    proof -
      have "length p = Suc (length (drop n p) + (n - 1))" using g \<open>0 < length p\<close> by simp
      then have "replicate (length p) (Wrote []) = replicate (Suc (length (drop n p) + (n - 1))) (Wrote [])"
        by (rule arg_cong)
      then show ?thesis by (simp only: replicate_Suc replicate_add append_Cons append_assoc)
    qed
    have "\<exists>c' env' out'. write_loop grab handle (replicate (length (drop n p)) (Wrote []) @ (replicate (n - 1) (Wrote []) @ env))
        (drop n p) e c1 (out @ [(e \<and> n = length p, take n p)]) = Some (c', env', out', None)"
      by (rule less.hyps) (use g less.prems False in auto)
    then show ?thesis
      using r(1) False by (subst write_loop.simps) (simp add: rep)
  qed
qed

end

section \<open>Both ends keep the contract\<close>

lemma set_initial_window_simps [simp]:
  "peerConnWindow (set_initial_window v c) = peerConnWindow c"
  "streamID (set_initial_window v c) = streamID c"
  "peerMaxFrameSize (set_initial_window v c) = peerMaxFrameSize c"
  "peerInitialWindow (set_initial_window v c) = uint v"
  "peerStreamWindow (set_initial_window v c) =
     (if streamID c \<noteq> 0 then peerStreamWindow c + (uint v - peerInitialWindow c) else peerStreamWindow c)"
  by (simp_all add: set_initial_window_def Let_def)

lemma server_settings_keep:
  "peerConnWindow (fold server_setting ss c) = peerConnWindow c \<and> streamID (fold server_setting ss c) = streamID c \<and>
   (streamID c \<noteq> 0 \<longrightarrow> peerStreamWindow (fold server_setting ss c) - peerInitialWindow (fold server_setting ss c)
      = peerStreamWindow c - peerInitialWindow c)"
proof (induction ss arbitrary: c)
  case (Cons s ss)
  have "peerConnWindow (server_setting s c) = peerConnWindow c \<and> streamID (server_setting s c) = streamID c \<and>
    (streamID c \<noteq> 0 \<longrightarrow> peerStreamWindow (server_setting s c) - peerInitialWindow (server_setting s c)
      = peerStreamWindow c - peerInitialWindow c)"
    by (cases "(s, c)" rule: server_setting.cases) auto
  with Cons show ?case by simp
qed simp

interpretation server: h2_windows_contract peerConnWindow peerStreamWindow peerInitialWindow
  "\<lambda>c. uint (peerMaxFrameSize c)" streamID server_reserve server_flow
proof
  fix want and c c' :: masqueHTTP2Conn and n f
  show "server_reserve want c = Some (c', n) \<Longrightarrow>
      0 < n \<and> n \<le> want \<and> int n \<le> peerConnWindow c \<and> int n \<le> peerStreamWindow c \<and>
      int n \<le> uint (peerMaxFrameSize c) \<and>
      peerConnWindow c' = peerConnWindow c - int n \<and> peerStreamWindow c' = peerStreamWindow c - int n \<and>
      peerInitialWindow c' = peerInitialWindow c \<and> uint (peerMaxFrameSize c') = uint (peerMaxFrameSize c) \<and>
      streamID c' = streamID c"
    by (auto simp: server_reserve_def Let_def simp del: nat_uint_eq split: if_splits)
  show "server_reserve want c = None \<Longrightarrow>
      want = 0 \<or> peerConnWindow c \<le> 0 \<or> peerStreamWindow c \<le> 0 \<or> uint (peerMaxFrameSize c) \<le> 0"
    by (auto simp: server_reserve_def Let_def split: if_splits)
       (use uint_nonnegative [of "peerMaxFrameSize c"] in linarith)+
  show "peerConnWindow (server_flow f c) = peerConnWindow c + conn_credit f"
    using server_settings_keep
    by (cases f) (auto simp: server_handleSettings_def server_handleWindowUpdate_def add_window_def Let_def)
  show "streamID c \<noteq> 0 \<Longrightarrow> peerStreamWindow (server_flow f c) - peerInitialWindow (server_flow f c) =
      peerStreamWindow c - peerInitialWindow c + stream_credit (streamID c) f"
    using server_settings_keep
    by (cases f) (auto simp: server_handleSettings_def server_handleWindowUpdate_def add_window_def Let_def)
  show "streamID (server_flow f c) = streamID c"
    using server_settings_keep
    by (cases f) (auto simp: server_handleSettings_def server_handleWindowUpdate_def add_window_def Let_def)
qed

lemma client_settings_keep:
  "client_settings ss c = (c', r) \<Longrightarrow>
   peerConnWindow c' = peerConnWindow c \<and> streamID c' = streamID c \<and>
   (streamID c \<noteq> 0 \<longrightarrow> peerStreamWindow c' - peerInitialWindow c' = peerStreamWindow c - peerInitialWindow c)"
proof (induction ss arbitrary: c)
  case (Cons s ss)
  obtain c1 e where c1: "client_setting s c = (c1, e)" by fastforce
  then have keep: "peerConnWindow c1 = peerConnWindow c \<and> streamID c1 = streamID c \<and>
    (streamID c \<noteq> 0 \<longrightarrow> peerStreamWindow c1 - peerInitialWindow c1 = peerStreamWindow c - peerInitialWindow c)"
    by (cases "(s, c)" rule: client_setting.cases) (auto split: if_splits)
  show ?case
  proof (cases e)
    case None
    with Cons.prems c1 have "client_settings ss c1 = (c', r)" by simp
    from Cons.IH [OF this] keep show ?thesis by auto
  next
    case (Some x)
    with Cons.prems c1 keep show ?thesis by simp
  qed
qed simp

lemma client_handleSettings_keep:
  "client_handleSettings ackOk ack ss c = (c', r) \<Longrightarrow>
   peerConnWindow c' = peerConnWindow c \<and> streamID c' = streamID c \<and>
   (streamID c \<noteq> 0 \<longrightarrow> peerStreamWindow c' - peerInitialWindow c' = peerStreamWindow c - peerInitialWindow c)"
  by (auto simp: client_handleSettings_def Let_def split: if_splits prod.splits option.splits
      dest!: client_settings_keep)

interpretation client: h2_windows_contract peerConnWindow peerStreamWindow peerInitialWindow
  "\<lambda>c. uint (peerMaxFrameSize c)" streamID client_reserve client_flow
proof
  fix want and c c' :: masqueH2ClientConn and n f
  show "client_reserve want c = Some (c', n) \<Longrightarrow>
      0 < n \<and> n \<le> want \<and> int n \<le> peerConnWindow c \<and> int n \<le> peerStreamWindow c \<and>
      int n \<le> uint (peerMaxFrameSize c) \<and>
      peerConnWindow c' = peerConnWindow c - int n \<and> peerStreamWindow c' = peerStreamWindow c - int n \<and>
      peerInitialWindow c' = peerInitialWindow c \<and> uint (peerMaxFrameSize c') = uint (peerMaxFrameSize c) \<and>
      streamID c' = streamID c"
    by (auto simp: client_reserve_def Let_def simp del: nat_uint_eq split: if_splits)
  show "client_reserve want c = None \<Longrightarrow>
      want = 0 \<or> peerConnWindow c \<le> 0 \<or> peerStreamWindow c \<le> 0 \<or> uint (peerMaxFrameSize c) \<le> 0"
    by (auto simp: client_reserve_def Let_def split: if_splits)
       (use uint_nonnegative [of "peerMaxFrameSize c"] in linarith)+
  note keep = client_handleSettings_keep [of True _ _ c, OF prod.collapse [symmetric]]
  show "peerConnWindow (client_flow f c) = peerConnWindow c + conn_credit f"
    using keep by (cases f) (auto simp: client_handleWindowUpdate_def add_window_def Let_def)
  show "streamID c \<noteq> 0 \<Longrightarrow> peerStreamWindow (client_flow f c) - peerInitialWindow (client_flow f c) =
      peerStreamWindow c - peerInitialWindow c + stream_credit (streamID c) f"
    using keep by (cases f) (auto simp: client_handleWindowUpdate_def add_window_def Let_def)
  show "streamID (client_flow f c) = streamID c"
    using keep by (cases f) (auto simp: client_handleWindowUpdate_def add_window_def Let_def)
qed

section \<open>The values windows take\<close>

text \<open>
  The states of a connection's windows while it runs: until an overflow error, which ends it. The
  server writes only once a request has set its stream; the client sets its stream window when it
  sends its request.
\<close>

inductive server_windows :: "masqueHTTP2Conn \<Rightarrow> bool" where
  "server_windows new_server_conn"
| "server_windows c \<Longrightarrow> server_windows (server_setting s c)"
| "server_windows c \<Longrightarrow> server_handleWindowUpdate sid inc c = (c', None) \<Longrightarrow> server_windows c'"
| "server_windows c \<Longrightarrow> streamID c = 0 \<Longrightarrow> sid \<noteq> 0 \<Longrightarrow>
   server_windows (c\<lparr>streamID := sid, peerStreamWindow := peerInitialWindow c\<rparr>)"
| "server_windows c \<Longrightarrow> streamID c \<noteq> 0 \<Longrightarrow> server_reserve want c = Some (c', n) \<Longrightarrow> server_windows c'"

inductive client_windows :: "masqueH2ClientConn \<Rightarrow> bool" where
  "client_windows new_client_conn"
| "client_windows c \<Longrightarrow> client_windows (fst (client_setting s c))"
| "client_windows c \<Longrightarrow> client_handleWindowUpdate sid inc c = (c', None) \<Longrightarrow> client_windows c'"
| "client_windows c \<Longrightarrow> client_windows (c\<lparr>peerStreamWindow := peerInitialWindow c\<rparr>)"
| "client_windows c \<Longrightarrow> client_reserve want c = Some (c', n) \<Longrightarrow> client_windows c'"

definition window_bounds :: "'a h2_windows_scheme \<Rightarrow> bool" where
  "window_bounds c \<longleftrightarrow>
     0 \<le> peerConnWindow c \<and> peerConnWindow c \<le> max_window \<and>
     0 \<le> peerInitialWindow c \<and> peerInitialWindow c < 2 ^ 32 \<and>
     - (2 ^ 32) \<le> peerStreamWindow c - peerInitialWindow c \<and>
     peerStreamWindow c - peerInitialWindow c \<le> max_window \<and>
     (streamID c = 0 \<longrightarrow> peerStreamWindow c = 65535)"

lemma uint32_less: "uint (v :: u32) < 2 ^ 32"
  using uint_lt2p [of v] by simp

lemma uint32_value:
  obtains i where "uint (v :: u32) = i" "0 \<le> i" "i < 4294967296"
  using uint32_less [of v] uint_nonnegative [of v] by auto

lemma window_bounds_initial:
  assumes "window_bounds c"
  shows "window_bounds (set_initial_window v c)"
proof -
  obtain i where i: "uint v = i" "0 \<le> i" "i < 4294967296" by (rule uint32_value)
  with assms show ?thesis by (auto simp: window_bounds_def go_consts)
qed

lemma window_bounds_add:
  assumes "window_bounds c" "\<not> overflowed (add_window sid inc c)"
  shows "window_bounds (add_window sid inc c)"
proof -
  note b = assms(1) [unfolded window_bounds_def]
  obtain i where i: "uint inc = i" "0 \<le> i" "i < 4294967296" by (rule uint32_value)
  consider "sid = 0" | "sid \<noteq> 0" "sid = streamID c" | "sid \<noteq> 0" "sid \<noteq> streamID c" by blast
  then show ?thesis
  proof cases
    case 1
    with assms(2) b i show ?thesis by (auto simp: window_bounds_def add_window_def overflowed_def)
  next
    case 2
    with assms(2) b i show ?thesis by (auto simp: window_bounds_def add_window_def overflowed_def)
  qed (use assms in \<open>simp add: add_window_def\<close>)
qed

lemma server_windows_bounds: "server_windows c \<Longrightarrow> window_bounds c"
proof (induction rule: server_windows.induct)
  case 1
  show ?case by (simp add: window_bounds_def new_server_conn_def go_consts)
next
  case (2 c s)
  have "window_bounds (c\<lparr>peerMaxFrameSize := v\<rparr>)" for v using 2 by (simp add: window_bounds_def)
  with 2 show ?case by (cases "(s, c)" rule: server_setting.cases) (auto simp: window_bounds_initial)
next
  case (3 c sid inc c')
  then show ?case
    by (auto simp: server_handleWindowUpdate_def Let_def window_bounds_add split: if_splits)
next
  case (4 c sid)
  then show ?case by (auto simp: window_bounds_def go_consts)
next
  case (5 c want c' n)
  with server.grab_Some [OF 5(3)] show ?case by (auto simp: window_bounds_def)
qed

lemma client_windows_bounds: "client_windows c \<Longrightarrow> window_bounds c \<and> streamID c = 1"
proof (induction rule: client_windows.induct)
  case 1
  show ?case by (simp add: window_bounds_def new_client_conn_def go_consts)
next
  case (2 c s)
  have "window_bounds (c\<lparr>peerMaxFrameSize := v\<rparr>)" "window_bounds (c\<lparr>extendedConnectAllowed := b\<rparr>)" for v b
    using 2 by (simp_all add: window_bounds_def)
  with 2 show ?case by (cases "(s, c)" rule: client_setting.cases) (auto simp: window_bounds_initial)
next
  case (3 c sid inc c')
  moreover have "streamID (add_window sid inc c) = streamID c" by (simp add: add_window_def)
  ultimately show ?case
    by (auto simp: client_handleWindowUpdate_def Let_def window_bounds_add split: if_splits)
next
  case (4 c)
  then show ?case by (auto simp: window_bounds_def go_consts)
next
  case (5 c want c' n)
  with client.grab_Some [OF 5(2)] show ?case by (auto simp: window_bounds_def)
qed

section \<open>Properties\<close>

definition fits_int64 :: "int \<Rightarrow> bool" where
  "fits_int64 v \<longleftrightarrow> - (2 ^ 63) \<le> v \<and> v < 2 ^ 63"

text \<open>
  Flow-control arithmetic does not overflow. In every state of a running connection, at either end,
  the connection window is between 0 and \<open>2 ^ 31 - 1\<close>, and the windows after any further SETTINGS
  value or WINDOW\_UPDATE frame, valid or not, still fit \<^verbatim>\<open>int64\<close>.
\<close>
theorem windows_fit_int64:
  "(server_windows c \<longrightarrow>
      0 \<le> peerConnWindow c \<and> peerConnWindow c \<le> 2 ^ 31 - 1 \<and>
      fits_int64 (peerStreamWindow (set_initial_window v c)) \<and>
      fits_int64 (peerConnWindow (fst (server_handleWindowUpdate sid inc c))) \<and>
      fits_int64 (peerStreamWindow (fst (server_handleWindowUpdate sid inc c)))) \<and>
   (client_windows d \<longrightarrow>
      0 \<le> peerConnWindow d \<and> peerConnWindow d \<le> 2 ^ 31 - 1 \<and>
      fits_int64 (peerStreamWindow (set_initial_window v d)) \<and>
      fits_int64 (peerConnWindow (fst (client_handleWindowUpdate sid inc d))) \<and>
      fits_int64 (peerStreamWindow (fst (client_handleWindowUpdate sid inc d))))"
proof -
  have fit: "0 \<le> peerConnWindow x \<and> peerConnWindow x \<le> 2 ^ 31 - 1 \<and>
      fits_int64 (peerStreamWindow (set_initial_window v x)) \<and>
      fits_int64 (peerConnWindow (add_window sid inc x)) \<and> fits_int64 (peerStreamWindow (add_window sid inc x))"
    if "window_bounds x" for x :: "'z h2_windows_scheme"
  proof -
    obtain i where "uint v = i" "0 \<le> i" "i < 4294967296" by (rule uint32_value)
    moreover obtain j where "uint inc = j" "0 \<le> j" "j < 4294967296" by (rule uint32_value)
    ultimately show ?thesis
      using that by (auto simp: window_bounds_def fits_int64_def add_window_def go_consts)
  qed
  show ?thesis
    using fit [OF server_windows_bounds, of c] fit [OF conjunct1 [OF client_windows_bounds], of d]
    by (simp add: server_handleWindowUpdate_def client_handleWindowUpdate_def Let_def)
qed

theorem windows_fit_int64_witness:
  "fits_int64 (peerConnWindow (fst (server_handleWindowUpdate 0 4294967295 new_server_conn)))"
  using windows_fit_int64 [of new_server_conn 0 0 4294967295 new_client_conn]
  by (simp add: server_windows.intros(1))





end
