(* ===== verification/Go_Json.thy ===== *)
theory Go_Json
  imports Go_Url
begin

text \<open>
  What the sources use of Go's \<^verbatim>\<open>encoding/json\<close>: printing a struct whose fields are strings, numbers, booleans
  and keys with a text form, and parsing a document into such a struct. A Go string is a sequence of bytes, so
  UTF-8 is part of the model: the printer writes the replacement character for bytes that are not UTF-8, and the
  parser puts it in their place.

  The parser takes fuel, of which twice the length of the document is enough (\<open>json_fuel\<close>). The limit of
  \<^verbatim>\<open>encoding/json\<close> on the nesting of a document, 10000, is not modelled: the documents of this program are at most 8 KiB.
\<close>

section \<open>UTF-8\<close>

definition in_range :: "nat \<Rightarrow> nat \<Rightarrow> char \<Rightarrow> bool" where
  "in_range lo hi c \<longleftrightarrow> lo \<le> of_char c \<and> of_char c \<le> hi"

text \<open>How long a sequence the leading byte announces, and the range of the second byte.\<close>

definition utf8_first :: "nat \<Rightarrow> nat \<times> nat \<times> nat" where
  "utf8_first b =
     (if b < 0x80 then (1, 0, 0)
      else if b < 0xC2 then (0, 0, 0)
      else if b < 0xE0 then (2, 0x80, 0xBF)
      else if b = 0xE0 then (3, 0xA0, 0xBF)
      else if b = 0xED then (3, 0x80, 0x9F)
      else if b < 0xF0 then (3, 0x80, 0xBF)
      else if b = 0xF0 then (4, 0x90, 0xBF)
      else if b < 0xF4 then (4, 0x80, 0xBF)
      else if b = 0xF4 then (4, 0x80, 0x8F)
      else (0, 0, 0))"

text \<open>The length of the character at the start of a string; 0 where \<^verbatim>\<open>utf8.DecodeRune\<close> finds an error.\<close>

definition utf8_len :: "string \<Rightarrow> nat" where
  "utf8_len s =
     (case s of
        [] \<Rightarrow> 0
      | c # r \<Rightarrow>
          (case utf8_first (of_char c) of (n, lo, hi) \<Rightarrow>
             if n \<le> 1 then n
             else if n \<le> length s \<and> in_range lo hi (s ! 1) \<and> list_all (in_range 0x80 0xBF) (take (n - 2) (drop 2 s)) then n
             else 0))"

lemma utf8_len_le: "utf8_len s \<le> length s"
  by (auto simp: utf8_len_def utf8_first_def split: list.split prod.split)

function valid_utf8 :: "string \<Rightarrow> bool" where
  "valid_utf8 [] = True"
| "valid_utf8 (c # s) = (let n = utf8_len (c # s) in if n = 0 then False else valid_utf8 (drop n (c # s)))"
  by pat_completeness auto
termination by (relation "measure length") auto

definition utf8_encode :: "nat \<Rightarrow> string" where
  "utf8_encode r =
     (if r < 0x80 then [char_of r]
      else if r < 0x800 then [char_of (0xC0 + r div 0x40), char_of (0x80 + r mod 0x40)]
      else if r < 0x10000 then
        [char_of (0xE0 + r div 0x1000), char_of (0x80 + r div 0x40 mod 0x40), char_of (0x80 + r mod 0x40)]
      else [char_of (0xF0 + r div 0x40000), char_of (0x80 + r div 0x1000 mod 0x40), char_of (0x80 + r div 0x40 mod 0x40),
            char_of (0x80 + r mod 0x40)])"

definition replacement :: string where "replacement = [CHR 0xEF, CHR 0xBF, CHR 0xBD]"

section \<open>Printing\<close>

definition json_escape :: "char \<Rightarrow> string" where
  "json_escape c =
     (let n = (of_char c :: nat) in
      if c = CHR 0x22 \<or> c = CHR 0x5C then [CHR 0x5C, c]
      else if c = CHR 0x08 then [CHR 0x5C, CHR ''b'']
      else if c = CHR 0x0C then [CHR 0x5C, CHR ''f'']
      else if c = CHR 0x0A then [CHR 0x5C, CHR ''n'']
      else if c = CHR 0x0D then [CHR 0x5C, CHR ''r'']
      else if c = CHR 0x09 then [CHR 0x5C, CHR ''t'']
      else if n < 32 \<or> c \<in> set ''<>&''
      then [CHR 0x5C, CHR ''u'', CHR ''0'', CHR ''0'', hex_digit (n div 16), hex_digit (n mod 16)]
      else [c])"

definition line_separator :: "nat \<Rightarrow> string" where "line_separator n = [char_of (0xE2 :: nat), char_of (0x80 :: nat), char_of (0xA8 + n)]"

function json_body :: "string \<Rightarrow> string" where
  "json_body [] = []"
| "json_body (c # s) =
     (if (of_char c :: nat) < 0x80 then json_escape c @ json_body s
      else let n = utf8_len (c # s) in
        if n = 0 then CHR 0x5C # ''ufffd'' @ json_body s
        else (if take n (c # s) = line_separator 0 then CHR 0x5C # ''u2028''
              else if take n (c # s) = line_separator 1 then CHR 0x5C # ''u2029''
              else take n (c # s)) @ json_body (drop n (c # s)))"
  by pat_completeness auto
termination by (relation "measure length") auto

definition json_quote :: "string \<Rightarrow> string" where
  "json_quote s = CHR 0x22 # json_body s @ [CHR 0x22]"

text \<open>A struct, as the names and the texts of its fields.\<close>

definition json_member :: "string \<times> string \<Rightarrow> string" where
  "json_member m = CHR 0x22 # fst m @ CHR 0x22 # CHR '':'' # snd m"

fun json_members_text :: "(string \<times> string) list \<Rightarrow> string" where
  "json_members_text [] = []"
| "json_members_text [m] = json_member m"
| "json_members_text (m # ms) = json_member m @ CHR '','' # json_members_text ms"

definition json_struct :: "(string \<times> string) list \<Rightarrow> string" where
  "json_struct ms = CHR ''{'' # json_members_text ms @ ''}''"

definition json_int :: "int \<Rightarrow> string" where
  "json_int i = (if i < 0 then CHR ''-'' # itoa (nat (- i)) else itoa (nat i))"

section \<open>Parsing\<close>

datatype json = JNull | JBool bool | JNumber string | JString string | JArray "json list" | JObject "(string \<times> json) list"

definition skip_space :: "string \<Rightarrow> string" where
  "skip_space s = dropWhile (\<lambda>c. c \<in> {CHR '' '', CHR 0x09, CHR 0x0A, CHR 0x0D}) s"

definition getu4 :: "string \<Rightarrow> nat option" where
  "getu4 s =
     (case s of
        a # b # c # d # _ \<Rightarrow>
          (case (hex_value a, hex_value b, hex_value c, hex_value d) of
             (Some w, Some x, Some y, Some z) \<Rightarrow> Some (w * 4096 + x * 256 + y * 16 + z)
           | _ \<Rightarrow> None)
      | _ \<Rightarrow> None)"

definition low_surrogate :: "string \<Rightarrow> nat option" where
  "low_surrogate s =
     (if HasPrefix s [CHR 0x5C, CHR ''u''] then
        (case getu4 (drop 2 s) of
           Some r \<Rightarrow> if 0xDC00 \<le> r \<and> r < 0xE000 then Some r else None
         | None \<Rightarrow> None)
      else None)"

text \<open>The character that the text after a backslash stands for, and what follows.\<close>

definition json_unescape :: "string \<Rightarrow> (string \<times> string) option" where
  "json_unescape s =
     (case s of
        [] \<Rightarrow> None
      | e # r \<Rightarrow>
          if e = CHR 0x22 \<or> e = CHR 0x5C \<or> e = CHR ''/'' then Some ([e], r)
          else if e = CHR ''b'' then Some ([CHR 0x08], r)
          else if e = CHR ''f'' then Some ([CHR 0x0C], r)
          else if e = CHR ''n'' then Some ([CHR 0x0A], r)
          else if e = CHR ''r'' then Some ([CHR 0x0D], r)
          else if e = CHR ''t'' then Some ([CHR 0x09], r)
          else if e = CHR ''u'' then
            (case getu4 r of
               None \<Rightarrow> None
             | Some rr \<Rightarrow>
                 let r = drop 4 r in
                 if 0xD800 \<le> rr \<and> rr < 0xE000 then
                   (case (if rr < 0xDC00 then low_surrogate r else None) of
                      Some lo \<Rightarrow> Some (utf8_encode ((rr - 0xD800) * 0x400 + (lo - 0xDC00) + 0x10000), drop 6 r)
                    | None \<Rightarrow> Some (replacement, r))
                 else Some (utf8_encode rr, r))
          else None)"

lemma json_unescape_length: "json_unescape s = Some (out, r) \<Longrightarrow> length r < length s"
  by (auto simp: json_unescape_def Let_def split: list.splits if_splits option.splits)

text \<open>A string after its opening quote, and what follows the closing one.\<close>

function json_string :: "string \<Rightarrow> (string \<times> string) option" where
  "json_string [] = None"
| "json_string (c # s) =
     (if c = CHR 0x22 then Some ([], s)
      else if c = CHR 0x5C then
        (case json_unescape s of
           None \<Rightarrow> None
         | Some (out, r) \<Rightarrow> map_option (apfst (append out)) (json_string r))
      else if (of_char c :: nat) < 32 then None
      else let n = utf8_len (c # s) in
        if n = 0 then map_option (apfst (append replacement)) (json_string s)
        else map_option (apfst (append (take n (c # s)))) (json_string (drop n (c # s))))"
  by pat_completeness auto
termination
  by (relation "measure length") (auto dest: json_unescape_length)

definition digits :: "string \<Rightarrow> string \<times> string" where
  "digits s = (takeWhile is_digit s, dropWhile is_digit s)"

text \<open>A number: its text and what follows.\<close>

definition json_exponent :: "string \<Rightarrow> string \<Rightarrow> (string \<times> string) option" where
  "json_exponent t s =
     (case s of
        e # r \<Rightarrow>
          if e = CHR ''e'' \<or> e = CHR ''E'' then
            (let (sign, r) = (case r of c # r' \<Rightarrow> if c = CHR ''+'' \<or> c = CHR ''-'' then ([c], r') else ([], r) | [] \<Rightarrow> ([], []));
                 (ds, r) = digits r
             in if ds = [] then None else Some (t @ e # sign @ ds, r))
          else Some (t, s)
      | [] \<Rightarrow> Some (t, s))"

definition json_fraction :: "string \<Rightarrow> string \<Rightarrow> (string \<times> string) option" where
  "json_fraction t s =
     (case s of
        c # r \<Rightarrow>
          if c = CHR ''.'' then
            (let (ds, r) = digits r in if ds = [] then None else json_exponent (t @ c # ds) r)
          else json_exponent t s
      | [] \<Rightarrow> Some (t, s))"

definition json_number :: "string \<Rightarrow> (string \<times> string) option" where
  "json_number s =
     (let (sign, r) = (case s of c # r \<Rightarrow> if c = CHR ''-'' then ([c], r) else ([], s) | [] \<Rightarrow> ([], s)) in
      case r of
        [] \<Rightarrow> None
      | c # r' \<Rightarrow>
          if c = CHR ''0'' then json_fraction (sign @ [c]) r'
          else if is_digit c then (let (ds, r'') = digits r in json_fraction (sign @ ds) r'')
          else None)"

definition json_literal :: "string \<Rightarrow> (json \<times> string) option" where
  "json_literal s =
     (if HasPrefix s ''null'' then Some (JNull, drop 4 s)
      else if HasPrefix s ''true'' then Some (JBool True, drop 4 s)
      else if HasPrefix s ''false'' then Some (JBool False, drop 5 s)
      else map_option (apfst JNumber) (json_number s))"

fun json_value :: "nat \<Rightarrow> string \<Rightarrow> (json \<times> string) option"
  and json_members :: "nat \<Rightarrow> string \<Rightarrow> ((string \<times> json) list \<times> string) option"
  and json_elements :: "nat \<Rightarrow> string \<Rightarrow> (json list \<times> string) option" where
  "json_value 0 s = None"
| "json_value (Suc n) s =
     (case skip_space s of
        [] \<Rightarrow> None
      | c # r \<Rightarrow>
          if c = CHR 0x22 then map_option (apfst JString) (json_string r)
          else if c = CHR ''{'' then
            (if HasPrefix (skip_space r) ''}'' then Some (JObject [], tl (skip_space r))
             else map_option (apfst JObject) (json_members n r))
          else if c = CHR ''['' then
            (if HasPrefix (skip_space r) '']'' then Some (JArray [], tl (skip_space r))
             else map_option (apfst JArray) (json_elements n r))
          else json_literal (c # r))"
| "json_members 0 s = None"
| "json_members (Suc n) s =
     (case skip_space s of
        [] \<Rightarrow> None
      | q # r \<Rightarrow>
          if q \<noteq> CHR 0x22 then None
          else case json_string r of
            None \<Rightarrow> None
          | Some (k, r1) \<Rightarrow>
              (case skip_space r1 of
                 [] \<Rightarrow> None
               | c # r2 \<Rightarrow>
                   if c \<noteq> CHR '':'' then None
                   else case json_value n r2 of
                     None \<Rightarrow> None
                   | Some (v, r3) \<Rightarrow>
                       (case skip_space r3 of
                          [] \<Rightarrow> None
                        | d # r4 \<Rightarrow>
                            if d = CHR ''}'' then Some ([(k, v)], r4)
                            else if d = CHR '','' then map_option (apfst (Cons (k, v))) (json_members n r4)
                            else None)))"
| "json_elements 0 s = None"
| "json_elements (Suc n) s =
     (case json_value n s of
        None \<Rightarrow> None
      | Some (v, r) \<Rightarrow>
          (case skip_space r of
             [] \<Rightarrow> None
           | d # r' \<Rightarrow>
               if d = CHR '']'' then Some ([v], r')
               else if d = CHR '','' then map_option (apfst (Cons v)) (json_elements n r')
               else None))"

definition json_document :: "string \<Rightarrow> json option" where
  "json_document s =
     (case json_value (2 * length s + 1) s of
        None \<Rightarrow> None
      | Some (v, r) \<Rightarrow> if skip_space r = [] then Some v else None)"

section \<open>Decoding into a struct\<close>

text \<open>
  A member goes to the field of that name, or to the first one whose name is equal under simple Unicode case folding; the
  characters outside ASCII that fold to a letter are the Kelvin sign and the long s. A null changes nothing,
  and a later member overwrites an earlier one.
\<close>

fun fold_name :: "string \<Rightarrow> string" where
  "fold_name (a # b # c # s) =
     (if a = CHR 0xE2 \<and> b = CHR 0x84 \<and> c = CHR 0xAA then CHR ''K'' # fold_name s
      else if a = CHR 0xC5 \<and> b = CHR 0xBF then CHR ''S'' # fold_name (c # s)
      else upper a # fold_name (b # c # s))"
| "fold_name [a, b] = (if a = CHR 0xC5 \<and> b = CHR 0xBF then ''S'' else [upper a, upper b])"
| "fold_name [a] = [upper a]"
| "fold_name [] = []"

definition json_field :: "string list \<Rightarrow> string \<Rightarrow> string option" where
  "json_field names k = (if k \<in> set names then Some k else find (\<lambda>n. fold_name n = fold_name k) names)"

fun json_fill :: "string list \<Rightarrow> (string \<Rightarrow> json \<Rightarrow> 'a \<Rightarrow> 'a option) \<Rightarrow> (string \<times> json) list \<Rightarrow> 'a \<Rightarrow> 'a option" where
  "json_fill names put [] x = Some x"
| "json_fill names put ((k, v) # ms) x =
     (case json_field names k of
        None \<Rightarrow> json_fill names put ms x
      | Some f \<Rightarrow>
          (case (if v = JNull then Some x else put f v x) of
             None \<Rightarrow> None
           | Some x' \<Rightarrow> json_fill names put ms x'))"

definition json_Unmarshal :: "string list \<Rightarrow> (string \<Rightarrow> json \<Rightarrow> 'a \<Rightarrow> 'a option) \<Rightarrow> string \<Rightarrow> 'a \<Rightarrow> 'a option" where
  "json_Unmarshal names put s x =
     (case json_document s of
        Some JNull \<Rightarrow> Some x
      | Some (JObject ms) \<Rightarrow> json_fill names put ms x
      | _ \<Rightarrow> None)"

fun as_string :: "json \<Rightarrow> string option" where
  "as_string (JString s) = Some s"
| "as_string _ = None"

fun as_bool :: "json \<Rightarrow> bool option" where
  "as_bool (JBool b) = Some b"
| "as_bool _ = None"

text \<open>Integers are written without fraction and exponent, and have to fit.\<close>

definition int_text :: "string \<Rightarrow> int option" where
  "int_text s =
     (case s of
        [] \<Rightarrow> None
      | c # r \<Rightarrow>
          if c = CHR ''-'' then (if r \<noteq> [] \<and> list_all is_digit r then Some (- int (digits_value r)) else None)
          else if list_all is_digit s then Some (int (digits_value s)) else None)"

fun as_int :: "json \<Rightarrow> int option" where
  "as_int (JNumber s) =
     (case int_text s of Some i \<Rightarrow> if - (2 ^ 63) \<le> i \<and> i < 2 ^ 63 then Some i else None | None \<Rightarrow> None)"
| "as_int _ = None"

fun as_uint8 :: "json \<Rightarrow> byte option" where
  "as_uint8 (JNumber s) = (if s \<noteq> [] \<and> list_all is_digit s \<and> digits_value s < 256 then Some (word_of_nat (digits_value s)) else None)"
| "as_uint8 _ = None"

section \<open>The parser's fuel\<close>

lemma skip_space_length: "length (skip_space s) \<le> length s"
  by (simp add: skip_space_def length_dropWhile_le)

lemma skip_space_Cons: "skip_space s = c # r \<Longrightarrow> length r < length s"
  using skip_space_length [of s] by simp

lemma json_string_length: "json_string s = Some (out, r) \<Longrightarrow> length r < length s"
proof (induction s arbitrary: out r rule: json_string.induct)
  case (2 c s)
  show ?case
  proof (cases "c = CHR 0x5C")
    case True
    with "2.prems" obtain o1 r1 o2 where u: "json_unescape s = Some (o1, r1)" "json_string r1 = Some (o2, r)"
      by (auto split: option.splits)
    from "2.IH"(1) [OF _ True u(1) refl u(2)] True json_unescape_length [OF u(1)] show ?thesis by simp
  next
    case False
    show ?thesis
    proof (cases "c = CHR 0x22")
      case True
      with "2.prems" show ?thesis by simp
    next
      case quote: False
      with False "2.prems" have large: "\<not> (of_char c :: nat) < 32" by (auto split: if_splits)
      show ?thesis
      proof (cases "utf8_len (c # s) = 0")
        case True
        with quote False large "2.prems" obtain o2 where "json_string s = Some (o2, r)" by (auto simp: Let_def)
        with "2.IH"(2) [OF quote False large refl True] show ?thesis by fastforce
      next
        case n: False
        with quote False large "2.prems" obtain o2 where "json_string (drop (utf8_len (c # s)) (c # s)) = Some (o2, r)"
          by (auto simp: Let_def)
        with "2.IH"(3) [OF quote False large refl n] n show ?thesis by fastforce
      qed
    qed
  qed
qed simp

lemma json_exponent_length: "json_exponent t s = Some (out, r) \<Longrightarrow> length r \<le> length s"
  unfolding json_exponent_def digits_def
  by (auto split: list.splits if_splits prod.splits intro: le_trans [OF length_dropWhile_le] le_SucI)

lemma json_fraction_length: "json_fraction t s = Some (out, r) \<Longrightarrow> length r \<le> length s"
  unfolding json_fraction_def digits_def
  by (auto split: list.splits if_splits dest!: json_exponent_length intro: le_trans [OF _ length_dropWhile_le] le_SucI)

lemma json_number_length: "json_number s = Some (out, r) \<Longrightarrow> length r < length s"
  unfolding json_number_def digits_def Let_def
  by (auto split: list.splits if_splits prod.splits dest!: json_fraction_length
      intro: le_imp_less_Suc le_SucI le_trans [OF _ length_dropWhile_le])

lemma json_literal_length: "json_literal s = Some (v, r) \<Longrightarrow> length r < length s"
  unfolding json_literal_def
  by (auto split: if_splits dest!: json_number_length simp: HasPrefix_iff)

lemma json_consumes:
  "json_value n s = Some (v, r) \<Longrightarrow> length r < length s"
  "json_members n s = Some (ms, r) \<Longrightarrow> length r < length s"
  "json_elements n s = Some (vs, r) \<Longrightarrow> length r < length s"
proof (induction n s and n s and n s arbitrary: v r and ms r and vs r rule: json_value_json_members_json_elements.induct)
  case (2 n s)
  obtain c t where s: "skip_space s = c # t" using "2.prems" by (cases "skip_space s") auto
  note len = skip_space_Cons [OF s] skip_space_length [of t] skip_space_length [of s]
  consider "c = CHR 0x22" | "c = CHR ''{''" | "c = CHR ''[''" | "c \<notin> {CHR 0x22, CHR ''{'', CHR ''[''}" by blast
  then show ?case
  proof cases
    case 1
    then show ?thesis using "2.prems" s len json_string_length [of t] by auto
  next
    case 2
    then show ?thesis using "2.prems" s len "2.IH"(1) [OF s] by (auto split: if_splits)
  next
    case 3
    then show ?thesis using "2.prems" s len "2.IH"(2) [OF s] by (auto split: if_splits)
  next
    case 4
    then show ?thesis using "2.prems" s len json_literal_length [of "c # t"] by auto
  qed
next
  case (4 n s)
  from "4.prems" obtain q t k r1 c r2 v' r3 d r4 where s: "skip_space s = q # t" "q = CHR 0x22" "json_string t = Some (k, r1)"
    "skip_space r1 = c # r2" "c = CHR '':''" "json_value n r2 = Some (v', r3)" "skip_space r3 = d # r4"
    by (auto split: list.splits if_splits option.splits)
  note len = skip_space_Cons [OF s(1)] json_string_length [OF s(3)] skip_space_Cons [OF s(4)] skip_space_Cons [OF s(7)]
  have v: "length r3 < length r2" using "4.IH"(1) s by blast
  show ?case
  proof (cases "d = CHR ''}''")
    case True
    then show ?thesis using "4.prems" s len v by auto
  next
    case False
    then have "d = CHR '',''" using "4.prems" s by (auto split: if_splits)
    moreover from this "4.prems" s obtain ms' where "json_members n r4 = Some (ms', r)" by auto
    ultimately have "length r < length r4" using "4.IH"(2) s by auto
    then show ?thesis using len v by simp
  qed
next
  case (6 n s)
  from "6.prems" obtain v' r1 d r2 where s: "json_value n s = Some (v', r1)" "skip_space r1 = d # r2"
    by (auto split: list.splits option.splits)
  note len = skip_space_Cons [OF s(2)]
  have v: "length r1 < length s" using "6.IH"(1) s by blast
  show ?case
  proof (cases "d = CHR '']''")
    case True
    then show ?thesis using "6.prems" s len v by auto
  next
    case False
    then have "d = CHR '',''" using "6.prems" s by (auto split: if_splits)
    moreover from this "6.prems" s obtain vs' where "json_elements n r2 = Some (vs', r)" by auto
    ultimately have "length r < length r2" using "6.IH"(2) s by auto
    then show ?thesis using len v by simp
  qed
qed auto

text \<open>More fuel than twice the length of the text makes no difference.\<close>

definition enough :: "nat \<Rightarrow> (nat \<Rightarrow> string \<Rightarrow> 'a) \<Rightarrow> nat \<Rightarrow> bool" where
  "enough e f n \<longleftrightarrow> (\<forall>s m. 2 * length s + e \<le> n \<longrightarrow> 2 * length s + e \<le> m \<longrightarrow> f n s = f m s)"

lemma enoughD: "enough e f n \<Longrightarrow> 2 * length s + e \<le> n \<Longrightarrow> 2 * length s + e \<le> m \<Longrightarrow> f n s = f m s"
  unfolding enough_def by blast

lemma enough_value:
  assumes "enough 1 json_members n" "enough 2 json_elements n"
  shows "enough 1 json_value (Suc n)"
  unfolding enough_def
proof (intro allI impI)
  fix s :: string and m assume l: "2 * length s + 1 \<le> Suc n" "2 * length s + 1 \<le> m"
  then obtain m' where m: "m = Suc m'" by (cases m) simp_all
  show "json_value (Suc n) s = json_value m s"
  proof (cases "skip_space s")
    case (Cons c t)
    have "2 * length t + 2 \<le> n" "2 * length t + 2 \<le> m'" using skip_space_Cons [OF Cons] l m by auto
    then show ?thesis using enoughD [OF assms(1), of t m'] enoughD [OF assms(2), of t m'] Cons m by simp
  qed (simp add: m)
qed

lemma enough_elements:
  assumes "enough 1 json_value n" "enough 2 json_elements n"
  shows "enough 2 json_elements (Suc n)"
  unfolding enough_def
proof (intro allI impI)
  fix s :: string and m assume l: "2 * length s + 2 \<le> Suc n" "2 * length s + 2 \<le> m"
  then obtain m' where m: "m = Suc m'" by (cases m) simp_all
  have v: "json_value n s = json_value m' s" using enoughD [OF assms(1), of s m'] l m by simp
  have "json_elements n r' = json_elements m' r'" if "json_value n s = Some (v, r)" "skip_space r = c # r'" for v r c r'
    using json_consumes(1) [OF that(1)] skip_space_Cons [OF that(2)] l m by (intro enoughD [OF assms(2)]) auto
  then show "json_elements (Suc n) s = json_elements m s" using v m by (simp split: option.split list.split)
qed

lemma enough_members:
  assumes "enough 1 json_value n" "enough 1 json_members n"
  shows "enough 1 json_members (Suc n)"
  unfolding enough_def
proof (intro allI impI)
  fix s :: string and m assume l: "2 * length s + 1 \<le> Suc n" "2 * length s + 1 \<le> m"
  then obtain m' where m: "m = Suc m'" by (cases m) simp_all
  have key: "2 * length r2 + 1 \<le> n \<and> 2 * length r2 + 1 \<le> m'"
    if "skip_space s = q # t" "json_string t = Some (k, r1)" "skip_space r1 = c # r2" for q t k r1 c r2
    using skip_space_Cons [OF that(1)] json_string_length [OF that(2)] skip_space_Cons [OF that(3)] l m by auto
  then have v: "json_value n r2 = json_value m' r2"
    if "skip_space s = q # t" "json_string t = Some (k, r1)" "skip_space r1 = c # r2" for q t k r1 c r2
    using enoughD [OF assms(1)] that by blast
  have "json_members n r4 = json_members m' r4"
    if "skip_space s = q # t" "json_string t = Some (k, r1)" "skip_space r1 = c # r2" "json_value m' r2 = Some (v, r3)"
      "skip_space r3 = d # r4" for q t k r1 c r2 v r3 d r4
    using key [OF that(1-3)] json_consumes(1) [OF that(4)] skip_space_Cons [OF that(5)] by (intro enoughD [OF assms(2)]) auto
  with v show "json_members (Suc n) s = json_members m s" using m by (simp split: option.split list.split)
qed

lemma json_fuel: "enough 1 json_value n" "enough 1 json_members n" "enough 2 json_elements n"
proof (induction n)
  case (Suc n)
  then show "enough 1 json_value (Suc n)" "enough 1 json_members (Suc n)" "enough 2 json_elements (Suc n)"
    by (blast intro: enough_value enough_members enough_elements)+
qed (auto simp: enough_def)

section \<open>Printing and parsing\<close>

lemma utf8_lenI:
  assumes "u = c # v" "utf8_first (of_char c) = (n, lo, hi)" "2 \<le> n" "n \<le> length u" "in_range lo hi (u ! 1)"
    "list_all (in_range 0x80 0xBF) (take (n - 2) (drop 2 u))"
  shows "utf8_len u = n"
  using assms by (simp add: utf8_len_def)

lemma utf8_len_append: "utf8_len s \<noteq> 0 \<Longrightarrow> utf8_len (take (utf8_len s) s @ t) = utf8_len s"
proof (cases s)
  case (Cons c r)
  obtain n lo hi where f: "utf8_first (of_char c) = (n, lo, hi)" by (cases "utf8_first (of_char c)")
  assume nz: "utf8_len s \<noteq> 0"
  show ?thesis
  proof (cases "n \<le> 1")
    case True
    then have "n = 1" using nz Cons f by (auto simp: utf8_len_def)
    then show ?thesis using Cons f by (simp add: utf8_len_def)
  next
    case False
    then have n: "n \<le> length s" "in_range lo hi (s ! 1)" "list_all (in_range 0x80 0xBF) (take (n - 2) (drop 2 s))" "utf8_len s = n"
      using nz Cons f by (auto simp: utf8_len_def split: if_splits)
    let ?u = "take n s @ t"
    have u: "?u = c # tl ?u" using False Cons by (cases n) auto
    have second: "?u ! 1 = s ! 1" using False n by (simp add: nth_append)
    have rest: "take (n - 2) (drop 2 ?u) = take (n - 2) (drop 2 s)" using False n by (simp add: take_drop)
    have "utf8_len ?u = n"
    proof (rule utf8_lenI [OF u f])
      show "2 \<le> n" "n \<le> length ?u" using False n by simp_all
      show "in_range lo hi (?u ! 1)" unfolding second by (rule n(2))
      show "list_all (in_range 0x80 0xBF) (take (n - 2) (drop 2 ?u))" unfolding rest by (rule n(3))
    qed
    then show ?thesis using n by simp
  qed
qed (simp add: utf8_len_def)

lemma utf8_len_ascii [simp]: "(of_char c :: nat) < 0x80 \<Longrightarrow> utf8_len (c # s) = 1"
  by (simp add: utf8_len_def utf8_first_def)

lemma json_string_escape:
  assumes "(of_char c :: nat) < 0x80"
  shows "json_string (json_escape c @ t) = map_option (apfst (append [c])) (json_string t)"
proof -
  let ?n = "of_char c :: nat"
  have zero: "hex_value CHR ''0'' = Some 0" by (simp add: hex_value_def)
  have hex: "getu4 (CHR ''0'' # CHR ''0'' # hex_digit (?n div 16) # hex_digit (?n mod 16) # t) = Some ?n"
    using assms zero by (simp add: getu4_def hex_value_digit)
  let ?S = "{CHR 0x22, CHR 0x5C, CHR 0x08, CHR 0x0C, CHR 0x0A, CHR 0x0D, CHR 0x09}"
  consider "c \<in> ?S" | "c \<notin> ?S" "?n < 32 \<or> c \<in> set ''<>&''" | "c \<notin> ?S" "32 \<le> ?n" "c \<notin> set ''<>&''" by force
  then show ?thesis
  proof cases
    case 1
    then show ?thesis by (auto simp: json_escape_def json_unescape_def comp_def)
  next
    case 2
    then have "json_escape c = [CHR 0x5C, CHR ''u'', CHR ''0'', CHR ''0'', hex_digit (?n div 16), hex_digit (?n mod 16)]"
      by (auto simp: json_escape_def Let_def)
    moreover have "utf8_encode ?n = [c]" using assms by (simp add: utf8_encode_def)
    ultimately show ?thesis using hex assms by (simp add: json_unescape_def comp_def)
  next
    case 3
    then have "json_escape c = [c]" "c \<noteq> CHR 0x22" "c \<noteq> CHR 0x5C" by (auto simp: json_escape_def Let_def)
    with 3 assms show ?thesis by (simp add: comp_def)
  qed
qed

lemma json_string_plain:
  assumes "utf8_len (c # u) = n" "n \<noteq> 0" "\<not> (of_char c :: nat) < 0x80"
  shows "json_string (c # u) = map_option (apfst (append (take n (c # u)))) (json_string (drop n (c # u)))"
proof -
  have "c \<noteq> CHR 0x22" "c \<noteq> CHR 0x5C" "\<not> (of_char c :: nat) < 32" using assms(3) by auto
  with assms show ?thesis by (simp only: json_string.simps if_False Let_def)
qed

lemma json_string_body:
  "valid_utf8 s \<Longrightarrow> json_string (json_body s @ CHR 0x22 # t) = Some (s, t)"
proof (induction s rule: json_body.induct)
  case (2 c s)
  show ?case
  proof (cases "(of_char c :: nat) < 0x80")
    case True
    with "2.prems" have "valid_utf8 s" by simp
    with "2.IH"(1) [OF True] show ?thesis using True by (simp add: json_string_escape)
  next
    case False
    define n where "n = utf8_len (c # s)"
    have n: "n \<noteq> 0" and rest: "valid_utf8 (drop n (c # s))" using "2.prems" by (auto simp: n_def Let_def split: if_splits)
    let ?x = "take n (c # s)" and ?r = "json_body (drop n (c # s)) @ CHR 0x22 # t"
    from "2.IH"(3) [OF False n_def n rest] have IH: "json_string ?r = Some (drop n (c # s), t)" .
    have body: "json_body (c # s) = (if ?x = line_separator 0 then CHR 0x5C # ''u2028''
        else if ?x = line_separator 1 then CHR 0x5C # ''u2029'' else ?x) @ json_body (drop n (c # s))"
      using False n by (simp add: n_def Let_def)
    have sep: "json_string (CHR 0x5C # ''u2028'' @ r) = map_option (apfst (append (line_separator 0))) (json_string r)"
      "json_string (CHR 0x5C # ''u2029'' @ r) = map_option (apfst (append (line_separator 1))) (json_string r)" for r
      by (simp_all add: json_unescape_def getu4_def hex_value_def utf8_encode_def line_separator_def)
    have plain: "json_string (?x @ ?r) = map_option (apfst (append ?x)) (json_string ?r)"
    proof -
      obtain y where x: "?x = c # y" using n by (cases n) auto
      have len: "utf8_len (?x @ ?r) = n" using utf8_len_append [of "c # s"] n by (simp add: n_def)
      have "length ?x = n" using utf8_len_le [of "c # s"] by (simp add: n_def)
      then have td: "take n (?x @ ?r) = ?x" "drop n (?x @ ?r) = ?r" by simp_all
      have "json_string (?x @ ?r) = map_option (apfst (append (take n (?x @ ?r)))) (json_string (drop n (?x @ ?r)))"
        using json_string_plain [of c "y @ ?r" n] len n False unfolding x append_Cons by blast
      then show ?thesis unfolding td .
    qed
    have "json_string (json_body (c # s) @ CHR 0x22 # t) = map_option (apfst (append ?x)) (json_string ?r)"
      using plain sep unfolding body by (auto simp del: json_string.simps)
    then show ?thesis unfolding IH by simp
  qed
qed simp

text \<open>Values that the parser reads back from their text, whatever follows it.\<close>

definition follows :: "string \<Rightarrow> bool" where
  "follows r \<longleftrightarrow> r \<noteq> [] \<and> hd r \<in> {CHR '','', CHR ''}''}"

definition prints :: "string \<Rightarrow> json \<Rightarrow> bool" where
  "prints t v \<longleftrightarrow> (\<forall>n r. follows r \<longrightarrow> json_value (Suc n) (t @ r) = Some (v, r))"

lemma skip_space_plain [simp]: "c \<notin> {CHR '' '', CHR 0x09, CHR 0x0A, CHR 0x0D} \<Longrightarrow> skip_space (c # s) = c # s"
  by (simp add: skip_space_def)

lemma prints_string: "valid_utf8 s \<Longrightarrow> prints (json_quote s) (JString s)"
  by (simp add: prints_def json_quote_def json_string_body del: json_string.simps)

lemma prints_true: "prints ''true'' (JBool True)"
  by (simp add: prints_def json_literal_def HasPrefix_def)

lemma digits_append: "list_all is_digit ds \<Longrightarrow> follows r \<Longrightarrow> digits (ds @ r) = (ds, r)"
  by (cases r) (auto simp: digits_def follows_def is_digit_def list_all_iff takeWhile_append dropWhile_append)

lemma fraction_end: "follows r \<Longrightarrow> json_fraction t r = Some (t, r)"
  by (cases r) (auto simp: json_fraction_def json_exponent_def follows_def)

lemma json_number_digits:
  assumes "list_all is_digit (c # ds)" "c = CHR ''0'' \<Longrightarrow> ds = []" "follows r"
  shows "json_number (c # ds @ r) = Some (c # ds, r)"
proof -
  have "c \<noteq> CHR ''-''" using assms(1) by (auto simp: is_digit_def)
  then show ?thesis using assms digits_append [of "c # ds" r] by (auto simp: json_number_def fraction_end)
qed

lemma itoa_no_leading_zero: "n \<noteq> 0 \<Longrightarrow> hd (itoa n) \<noteq> CHR ''0''"
proof (induction n rule: itoa.induct)
  case (1 n)
  show ?case
  proof (cases "n < 10")
    case True
    have "(of_char (char_of (48 + n) :: char) :: nat) \<noteq> of_char (CHR ''0'')" using True 1 by simp
    then have "(char_of (48 + n) :: char) \<noteq> CHR ''0''" by metis
    then show ?thesis using True by (subst itoa.simps) simp
  next
    case False
    with 1 itoa_digits [of "n div 10"] show ?thesis by (subst itoa.simps) (simp add: hd_append)
  qed
qed

lemma prints_nat: "prints (itoa n) (JNumber (itoa n))"
proof -
  obtain c ds where i: "itoa n = c # ds" using itoa_digits [of n] by (cases "itoa n") auto
  have dig: "list_all is_digit (c # ds)" using itoa_digits [of n] i by simp
  have zero: "c = CHR ''0'' \<Longrightarrow> ds = []"
    using itoa_no_leading_zero [of n] i by (cases "n = 0") (auto simp: itoa.simps [of 0])
  have "is_digit c" using dig by simp
  then have c: "c \<notin> {CHR '' '', CHR 0x09, CHR 0x0A, CHR 0x0D}" "c \<notin> {CHR 0x22, CHR ''{'', CHR ''['', CHR ''n'', CHR ''t'', CHR ''f''}"
    by (auto simp: is_digit_def)
  have "json_literal (c # ds @ r) = Some (JNumber (c # ds), r)" if "follows r" for r
    using json_number_digits [OF dig zero that] c by (simp add: json_literal_def HasPrefix_def)
  then show ?thesis using c by (simp add: prints_def i)
qed

lemma member_key:
  assumes "valid_utf8 k" "json_body k = k"
  shows "json_string (k @ CHR 0x22 # t) = Some (k, t)"
  using json_string_body [OF assms(1), of t] assms(2) by simp

lemma json_members_print:
  assumes "\<And>k t v. (k, t, v) \<in> set (m # ms) \<Longrightarrow> prints t v \<and> valid_utf8 k \<and> json_body k = k"
  shows "json_members (Suc (Suc (length ms)) + n) (json_members_text (map (\<lambda>(k, t, v). (k, t)) (m # ms)) @ CHR ''}'' # r) =
    Some (map (\<lambda>(k, t, v). (k, v)) (m # ms), r)"
  using assms
proof (induction ms arbitrary: m)
  case Nil
  obtain k t v where m: "m = (k, t, v)" by (cases m)
  with Nil have "prints t v" "valid_utf8 k" "json_body k = k" by auto
  then show ?case
    by (simp add: m json_member_def member_key prints_def follows_def del: json_string.simps json_value.simps)
next
  case (Cons m' ms)
  obtain k t v where m: "m = (k, t, v)" by (cases m)
  have p: "prints t v" "valid_utf8 k" "json_body k = k" using Cons.prems [of k t v] m by auto
  have IH: "json_members (Suc (Suc (length ms)) + n) (json_members_text (map (\<lambda>(k, t, v). (k, t)) (m' # ms)) @ CHR ''}'' # r) =
    Some (map (\<lambda>(k, t, v). (k, v)) (m' # ms), r)"
    using Cons.prems by (intro Cons.IH) auto
  obtain k' t' v' where m': "m' = (k', t', v')" by (cases m')
  have form: "json_members_text (map (\<lambda>(k, t, v). (k, t)) (m # m' # ms)) @ CHR ''}'' # r =
     CHR 0x22 # k @ CHR 0x22 # CHR '':'' # t @ CHR '','' # json_members_text (map (\<lambda>(k, t, v). (k, t)) (m' # ms)) @ CHR ''}'' # r"
    by (simp add: m m' json_member_def)
  have fuel: "Suc (Suc (length (m' # ms))) + n = Suc (Suc (Suc (length ms)) + n)" by simp
  have "json_value (Suc (Suc (length ms)) + n) (t @ CHR '','' # x) = Some (v, CHR '','' # x)" for x
    using p(1) by (simp add: prints_def follows_def del: json_value.simps)
  then show ?case using p IH unfolding form fuel json_members.simps(2)
    by (simp add: m member_key del: json_string.simps json_value.simps json_members.simps)
qed

lemma members_text_length: "length ms \<le> length (json_members_text ms)"
  by (induction ms rule: json_members_text.induct) (auto simp: json_member_def)

text \<open>A struct is read back as its members.\<close>

lemma json_document_struct:
  assumes "\<And>k t v. (k, t, v) \<in> set ms \<Longrightarrow> prints t v \<and> valid_utf8 k \<and> json_body k = k"
  shows "json_document (json_struct (map (\<lambda>(k, t, v). (k, t)) ms)) = Some (JObject (map (\<lambda>(k, t, v). (k, v)) ms))"
proof (cases ms)
  case Nil
  then show ?thesis by (simp add: json_document_def json_struct_def HasPrefix_def numeral_2_eq_2 skip_space_def)
next
  case (Cons m ms')
  let ?t = "json_members_text (map (\<lambda>(k, t, v). (k, t)) ms)"
  have "length ms \<le> length ?t" using members_text_length [of "map (\<lambda>(k, t, v). (k, t)) ms"] by simp
  then obtain n where n: "2 * length (json_struct (map (\<lambda>(k, t, v). (k, t)) ms)) + 1 = Suc (Suc (Suc (length ms')) + n)"
    using Cons by (intro that [of "2 * length (json_struct (map (\<lambda>(k, t, v). (k, t)) ms)) - length ms' - 2"])
      (simp add: json_struct_def)
  have mem: "json_members (Suc (Suc (length ms')) + n) (?t @ ''}'') = Some (map (\<lambda>(k, t, v). (k, v)) ms, [])"
    using json_members_print [of m ms' n "[]"] assms unfolding Cons by blast
  obtain x where "?t = CHR 0x22 # x" using Cons by (cases ms') (auto simp: json_member_def split: prod.split)
  then have sp: "\<not> HasPrefix (skip_space (?t @ ''}'')) ''}''" by (simp add: HasPrefix_def)
  show ?thesis unfolding json_document_def n
    using mem sp by (simp add: json_struct_def skip_space_def [of "[]"] del: json_members.simps)
qed

end
