(* ===== verification/Token.thy ===== *)
theory Token
  imports Packet Go_Json
begin

text \<open>
  \<^verbatim>\<open>masquecat_token.go\<close>: what a MasqueCat connection token may contain, and the TLS
  certificate pin in the fragment of a direct endpoint, and the token's text: the JSON of the connection
  information in base64 after \<^verbatim>\<open>mc\<close>. The disco keys of the Tailscale module are the parameter
  \<open>disco_key_api\<close>; \<open>disco_laws\<close> is that their text, hex digits after \<^verbatim>\<open>discokey:\<close>, parses back.
\<close>

section \<open>Certificate pins\<close>

definition masqueTLSCertPinFragmentPrefix :: string where
  "masqueTLSCertPinFragmentPrefix = ''sha256=''"

text \<open>A pin is the \<^verbatim>\<open>sha256.Size\<close> bytes of a digest; \<open>sha256\<close> is the hash function.\<close>

type_synonym masqueTLSCertPin = bytes

definition sha256_Size :: nat where [go_consts]: "sha256_Size = 32"

definition matchesCertificate :: "(bytes \<Rightarrow> bytes) \<Rightarrow> masqueTLSCertPin \<Rightarrow> bytes \<Rightarrow> bool" where
  "matchesCertificate sha256 pin raw \<longleftrightarrow> sha256 raw = pin"

datatype pin_error = PinURL | PinFragment | PinBase64 | PinLength nat

definition masqueTLSCertPinFromURL :: "string \<Rightarrow> pin_error + masqueTLSCertPin option" where
  "masqueTLSCertPinFromURL raw =
     (case url_Parse raw of
        None \<Rightarrow> Inl PinURL
      | Some u \<Rightarrow>
          if u_Fragment u = [] then Inr None
          else case CutPrefix (u_Fragment u) masqueTLSCertPinFragmentPrefix of (encoded, found) \<Rightarrow>
            if \<not> found \<or> encoded = [] then Inl PinFragment
            else case b64_decode encoded of
                   None \<Rightarrow> Inl PinBase64
                 | Some decoded \<Rightarrow>
                     if length decoded \<noteq> sha256_Size then Inl (PinLength (length decoded))
                     else Inr (Some decoded))"

section \<open>Connection information\<close>

record ('k, 'd) MasqueConnInfo =
  ci_Version :: byte
  ci_ServerPublic :: 'k
  ci_ServerDiscoPublic :: 'd
  ci_DirectURL :: string
  ci_RelayURL :: string
  ci_AutomaticDirect :: bool

datatype url_kind = DirectKind | RelayKind

datatype token_error =
  BadVersion byte | NoServerKey | NoDiscoKey | NoEndpoint | AutoNotDirectOnly
| InvalidURL url_kind | NotHttps url_kind | NoHostname url_kind | HasUserinfo url_kind
| HasQuery url_kind | HasFragment url_kind | BadPin pin_error | NotAPin | AutoPin pin_error | AutoUnpinned

definition validateMasqueURL :: "url_kind \<Rightarrow> string \<Rightarrow> token_error option" where
  "validateMasqueURL kind raw =
     (case url_Parse raw of
        None \<Rightarrow> Some (InvalidURL kind)
      | Some u \<Rightarrow>
          if u_Scheme u \<noteq> ''https'' then Some (NotHttps kind)
          else if u_Host u = [] \<or> Hostname u = [] then Some (NoHostname kind)
          else if u_User u \<noteq> None then Some (HasUserinfo kind)
          else if u_RawQuery u \<noteq> [] then Some (HasQuery kind)
          else if u_Fragment u \<noteq> [] then
            (if kind \<noteq> DirectKind then Some (HasFragment kind)
             else case masqueTLSCertPinFromURL raw of
                    Inl e \<Rightarrow> Some (BadPin e)
                  | Inr None \<Rightarrow> Some NotAPin
                  | Inr (Some _) \<Rightarrow> None)
          else None)"

definition orElse :: "'e option \<Rightarrow> 'e option \<Rightarrow> 'e option" where
  "orElse a b = (case a of Some e \<Rightarrow> Some e | None \<Rightarrow> b)"

text \<open>\<open>discoZero\<close> is \<^verbatim>\<open>IsZero\<close> of the disco keys.\<close>

definition validate :: "'k node_key_api \<Rightarrow> ('d \<Rightarrow> bool) \<Rightarrow> ('k, 'd) MasqueConnInfo \<Rightarrow> token_error option" where
  "validate K discoZero ci =
     (if ci_Version ci \<noteq> 1 then Some (BadVersion (ci_Version ci))
      else if IsZero K (ci_ServerPublic ci) then Some NoServerKey
      else if discoZero (ci_ServerDiscoPublic ci) then Some NoDiscoKey
      else if ci_DirectURL ci = [] \<and> ci_RelayURL ci = [] then Some NoEndpoint
      else if ci_AutomaticDirect ci \<and> (ci_DirectURL ci = [] \<or> ci_RelayURL ci \<noteq> []) then Some AutoNotDirectOnly
      else orElse (if ci_DirectURL ci \<noteq> [] then validateMasqueURL DirectKind (ci_DirectURL ci) else None)
          (orElse (if ci_RelayURL ci \<noteq> [] then validateMasqueURL RelayKind (ci_RelayURL ci) else None)
            (if ci_AutomaticDirect ci
             then (case masqueTLSCertPinFromURL (ci_DirectURL ci) of
                     Inl e \<Rightarrow> Some (AutoPin e)
                   | Inr None \<Rightarrow> Some AutoUnpinned
                   | Inr (Some _) \<Rightarrow> None)
             else None)))"

section \<open>The token's text\<close>

record 'd disco_key_api =
  DiscoIsZero :: "'d \<Rightarrow> bool"
  DiscoString :: "'d \<Rightarrow> string"
  DiscoUnmarshalText :: "string \<Rightarrow> 'd option"

definition masqueConnBlobPrefix :: string where "masqueConnBlobPrefix = ''mc''"
definition maxMasqueConnBlobLen :: nat where [go_consts]: "maxMasqueConnBlobLen = 8 * 1024"

definition wire_names :: "string list" where "wire_names = [''v'', ''k'', ''d'', ''p'', ''r'', ''a'']"

text \<open>The members of \<^verbatim>\<open>masqueWireConnInfo\<close>, with the value that each of their texts stands for.\<close>

definition wire_members ::
  "'k node_key_api \<Rightarrow> 'd disco_key_api \<Rightarrow> ('k, 'd) MasqueConnInfo \<Rightarrow> (string \<times> string \<times> json) list" where
  "wire_members K D ci =
     (let str = (\<lambda>s. (json_quote s, JString s)); v = itoa (unat (ci_Version ci)) in
      [(''v'', v, JNumber v), (''k'', str (KeyString K (ci_ServerPublic ci))), (''d'', str (DiscoString D (ci_ServerDiscoPublic ci)))] @
      (if ci_DirectURL ci \<noteq> [] then [(''p'', str (ci_DirectURL ci))] else []) @
      (if ci_RelayURL ci \<noteq> [] then [(''r'', str (ci_RelayURL ci))] else []) @
      (if ci_AutomaticDirect ci then [(''a'', ''true'', JBool True)] else []))"

definition wire_Marshal :: "'k node_key_api \<Rightarrow> 'd disco_key_api \<Rightarrow> ('k, 'd) MasqueConnInfo \<Rightarrow> string" where
  "wire_Marshal K D ci = json_struct (map (\<lambda>(k, t, v). (k, t)) (wire_members K D ci))"

text \<open>Setting the field of a member.\<close>

definition wire_put ::
  "'k node_key_api \<Rightarrow> 'd disco_key_api \<Rightarrow> string \<Rightarrow> json \<Rightarrow> ('k, 'd) MasqueConnInfo \<Rightarrow> ('k, 'd) MasqueConnInfo option" where
  "wire_put K D f j ci =
     (if f = ''v'' then map_option (\<lambda>v. ci\<lparr>ci_Version := v\<rparr>) (as_uint8 j)
      else if f = ''k'' then map_option (\<lambda>k. ci\<lparr>ci_ServerPublic := k\<rparr>) (Option.bind (as_string j) (UnmarshalText K))
      else if f = ''d'' then map_option (\<lambda>d. ci\<lparr>ci_ServerDiscoPublic := d\<rparr>) (Option.bind (as_string j) (DiscoUnmarshalText D))
      else if f = ''p'' then map_option (\<lambda>s. ci\<lparr>ci_DirectURL := s\<rparr>) (as_string j)
      else if f = ''r'' then map_option (\<lambda>s. ci\<lparr>ci_RelayURL := s\<rparr>) (as_string j)
      else map_option (\<lambda>b. ci\<lparr>ci_AutomaticDirect := b\<rparr>) (as_bool j))"

datatype blob_error = BlobTooLong | TailcatToken | NotMasqueToken | BlobBase64 | BlobJSON | BlobInvalid token_error

definition ConnBlob :: "'k node_key_api \<Rightarrow> 'd disco_key_api \<Rightarrow> ('k, 'd) MasqueConnInfo \<Rightarrow> blob_error + string" where
  "ConnBlob K D ci0 =
     (let ci = (if ci_Version ci0 = 0 then ci0\<lparr>ci_Version := 1\<rparr> else ci0) in
      case validate K (DiscoIsZero D) ci of
        Some e \<Rightarrow> Inl (BlobInvalid e)
      | None \<Rightarrow>
          let blob = masqueConnBlobPrefix @ b64_encode (string_bytes (wire_Marshal K D ci)) in
          if length blob > maxMasqueConnBlobLen then Inl BlobTooLong else Inr blob)"

text \<open>\<open>zero\<close> is the connection information all of whose fields are zero.\<close>

definition ParseMasqueConnBlob ::
  "'k node_key_api \<Rightarrow> 'd disco_key_api \<Rightarrow> ('k, 'd) MasqueConnInfo \<Rightarrow> string \<Rightarrow> blob_error + ('k, 'd) MasqueConnInfo" where
  "ParseMasqueConnBlob K D zero blob =
     (if length blob > maxMasqueConnBlobLen then Inl BlobTooLong
      else case CutPrefix blob masqueConnBlobPrefix of
        (_, False) \<Rightarrow> Inl (if HasPrefix blob ''tc'' then TailcatToken else NotMasqueToken)
      | (rest, True) \<Rightarrow>
          (case b64_decode rest of
             None \<Rightarrow> Inl BlobBase64
           | Some b \<Rightarrow>
               (case json_Unmarshal wire_names (wire_put K D) (bytes_string b) zero of
                  None \<Rightarrow> Inl BlobJSON
                | Some ci \<Rightarrow>
                    (case validate K (DiscoIsZero D) ci of
                       Some e \<Rightarrow> Inl (BlobInvalid e)
                     | None \<Rightarrow> Inr ci))))"

definition zero_info :: "'k \<Rightarrow> 'd \<Rightarrow> ('k, 'd) MasqueConnInfo" where
  "zero_info k d = \<lparr>ci_Version = 0, ci_ServerPublic = k, ci_ServerDiscoPublic = d, ci_DirectURL = [], ci_RelayURL = [],
     ci_AutomaticDirect = False\<rparr>"

definition disco_laws :: "'d disco_key_api \<Rightarrow> bool" where
  "disco_laws D \<longleftrightarrow>
     (\<forall>d. (\<exists>b. DiscoString D d = ''discokey:'' @ hex_encode b) \<and> DiscoUnmarshalText D (DiscoString D d) = Some d)"

definition raw_discos :: "raw_key disco_key_api" where
  "raw_discos =
     \<lparr>DiscoIsZero = (\<lambda>d. d = 0),
      DiscoString = (\<lambda>d. ''discokey:'' @ hex_encode (be_put 32 (unat d))),
      DiscoUnmarshalText = (\<lambda>s. case CutPrefix s ''discokey:'' of
          (h, True) \<Rightarrow> (case hex_decode h of
             Some b \<Rightarrow> if length b = 32 then Some (word_of_nat (be_get b)) else None
           | None \<Rightarrow> None)
        | (h, False) \<Rightarrow> None)\<rparr>"

section \<open>Facts\<close>

lemma orElse_None [simp]: "orElse a b = None \<longleftrightarrow> a = None \<and> b = None"
  by (auto simp: orElse_def split: option.splits)

lemma validateMasqueURL_ok:
  assumes "validateMasqueURL kind raw = None"
  obtains u where "url_Parse raw = Some u" "u_Scheme u = ''https''" "u_Host u \<noteq> []" "Hostname u \<noteq> []"
    "u_User u = None" "u_RawQuery u = []"
    "u_Fragment u \<noteq> [] \<Longrightarrow> kind = DirectKind \<and> (\<exists>pin. masqueTLSCertPinFromURL raw = Inr (Some pin))"
  using assms
  by (cases "url_Parse raw")
     (auto simp: validateMasqueURL_def simp del: not_None_eq split: if_splits sum.splits option.splits)

lemma pin_from_url_cases:
  assumes "masqueTLSCertPinFromURL raw = Inr p"
  obtains (unpinned) u where "url_Parse raw = Some u" "u_Fragment u = []" "p = None"
  | (pinned) u pin where "url_Parse raw = Some u" "u_Fragment u \<noteq> []" "p = Some pin" "length pin = 32"
proof (cases "url_Parse raw")
  case None
  with assms show ?thesis by (simp add: masqueTLSCertPinFromURL_def)
next
  case (Some u)
  show ?thesis
  proof (cases "u_Fragment u = []")
    case True
    with assms Some unpinned show ?thesis by (simp add: masqueTLSCertPinFromURL_def)
  next
    case False
    obtain encoded found where cut: "CutPrefix (u_Fragment u) masqueTLSCertPinFragmentPrefix = (encoded, found)"
      by fastforce
    show ?thesis
    proof (cases "b64_decode encoded")
      case (Some pin)
      with assms \<open>url_Parse raw = Some u\<close> False cut have "p = Some pin" "length pin = 32"
        by (auto simp: masqueTLSCertPinFromURL_def go_consts split: if_splits)
      with \<open>url_Parse raw = Some u\<close> False pinned show ?thesis by blast
    qed (use assms \<open>url_Parse raw = Some u\<close> False cut in \<open>auto simp: masqueTLSCertPinFromURL_def split: if_splits\<close>)
  qed
qed

lemma b64_char_plain: "b64_value c \<noteq> None \<Longrightarrow> c \<noteq> CHR ''%'' \<and> c \<noteq> CHR ''#''"
  by (auto simp: b64_value_def)

lemma b64_encode_nonempty: "bs \<noteq> [] \<Longrightarrow> b64_encode bs \<noteq> []"
  by (cases bs rule: b64_encode.cases) (simp_all add: Let_def)

lemma pin_from_pinned_url:
  assumes "CHR ''#'' \<notin> set base" "url_Parse base = Some u" "length pin = 32"
  shows "masqueTLSCertPinFromURL (base @ ''#'' @ masqueTLSCertPinFragmentPrefix @ b64_encode pin) = Inr (Some pin)"
proof -
  let ?f = "masqueTLSCertPinFragmentPrefix @ b64_encode pin"
  have "CHR ''%'' \<notin> set ?f"
    using set_b64_encode [of _ pin] b64_char_plain by (auto simp: masqueTLSCertPinFragmentPrefix_def)
  then have un: "unescape encodeFragment ?f = Some ?f" by (intro unescape_plain) simp_all
  have ne: "?f \<noteq> []" by (simp add: masqueTLSCertPinFragmentPrefix_def)
  have "pin \<noteq> []" using assms(3) by auto
  then show ?thesis
    using url_Parse_fragment [OF assms(1) ne un] assms(2,3) ne
    by (simp add: masqueTLSCertPinFromURL_def go_consts b64_encode_nonempty)
qed

section \<open>Tokens survive their text\<close>

lemma disco_laws_raw: "disco_laws raw_discos"
  unfolding disco_laws_def raw_discos_def
  using raw_key_of_bytes by (auto simp: CutPrefix_append [of "''discokey:''", simplified] simp del: be_put.simps append_Cons append_Nil)

lemma valid_utf8_ascii: "list_all (\<lambda>c. (of_char c :: nat) < 0x80) s \<Longrightarrow> valid_utf8 s"
  by (induction s) auto

lemma hex_ascii: "list_all (\<lambda>c. (of_char c :: nat) < 0x80) (hex_encode b)"
  using set_hex_encode [of _ b] by (force simp: list_all_iff hex_value_def Let_def split: if_splits)

lemma wire_members_print:
  assumes "key_laws K" "disco_laws D" "valid_utf8 (ci_DirectURL ci)" "valid_utf8 (ci_RelayURL ci)" "(k, t, v) \<in> set (wire_members K D ci)"
  shows "prints t v \<and> valid_utf8 k \<and> json_body k = k"
proof -
  have "valid_utf8 (KeyString K x)" for x
    using key_lawsD(4) [OF assms(1), of x] hex_ascii by (auto intro!: valid_utf8_ascii simp: nodePublicTextPrefix_def)
  moreover have "valid_utf8 (DiscoString D x)" for x
  proof -
    obtain b where "DiscoString D x = ''discokey:'' @ hex_encode b" using assms(2) by (auto simp: disco_laws_def)
    then show ?thesis using hex_ascii [of b] by (auto intro!: valid_utf8_ascii)
  qed
  moreover have "k \<in> set wire_names"
    using assms(5) by (auto simp: wire_members_def wire_names_def Let_def split: if_splits)
  then have "valid_utf8 k \<and> json_body k = k" by (auto simp: wire_names_def json_escape_def)
  ultimately show ?thesis using assms(3-5)
    by (auto simp: wire_members_def Let_def intro: prints_nat prints_string prints_true split: if_splits)
qed

lemma json_field_exact: "k \<in> set names \<Longrightarrow> json_field names k = Some k"
  by (simp add: json_field_def)

lemma as_uint8_itoa: "as_uint8 (JNumber (itoa (unat (v :: byte)))) = Some v"
  using itoa_digits [of "unat v"] unat_byte_less [of v] by (simp add: digits_value_itoa)

lemma json_fill_append:
  "json_fill names put (xs @ ys) x = Option.bind (json_fill names put xs x) (json_fill names put ys)"
  by (induction names put xs x rule: json_fill.induct) (auto split: option.split)

lemma wire_fill:
  assumes "key_laws K" "disco_laws D"
  shows "json_fill wire_names (wire_put K D) (map (\<lambda>(k, t, v). (k, v)) (wire_members K D ci)) (zero_info k0 d0) = Some ci"
proof -
  have d: "DiscoUnmarshalText D (DiscoString D x) = Some x" for x using assms(2) by (simp add: disco_laws_def)
  have f: "json_field wire_names f = Some f" if "f \<in> set wire_names" for f using that by (rule json_field_exact)
  show ?thesis
    by (cases ci)
       (simp add: wire_members_def Let_def json_fill_append f wire_names_def [THEN arg_cong, of set] wire_put_def
         as_uint8_itoa key_lawsD(5) [OF assms(1)] d zero_info_def del: as_uint8.simps)
qed

lemma wire_Unmarshal:
  assumes "key_laws K" "disco_laws D" "valid_utf8 (ci_DirectURL ci)" "valid_utf8 (ci_RelayURL ci)"
  shows "json_Unmarshal wire_names (wire_put K D) (wire_Marshal K D ci) (zero_info k0 d0) = Some ci"
  using json_document_struct [of "wire_members K D ci"] wire_members_print [OF assms] wire_fill [OF assms(1,2)]
  by (simp add: json_Unmarshal_def wire_Marshal_def)

text \<open>
  C12: a token survives its text. If the server can encode its connection information, the text starts with
  \<^verbatim>\<open>mc\<close>, is at most 8 KiB long, and a client that parses it gets the same information (with version 1, which is what
  a missing version means). The two URLs have to be UTF-8, which JSON cannot help requiring: any other byte
  is replaced.
\<close>
theorem token_roundtrip:
  assumes "key_laws K" "disco_laws D" "valid_utf8 (ci_DirectURL ci)" "valid_utf8 (ci_RelayURL ci)" "ConnBlob K D ci = Inr blob"
  shows "ParseMasqueConnBlob K D (zero_info k0 d0) blob = Inr (ci\<lparr>ci_Version := 1\<rparr>) \<and>
         HasPrefix blob masqueConnBlobPrefix \<and> length blob \<le> maxMasqueConnBlobLen"
proof -
  let ?ci = "if ci_Version ci = 0 then ci\<lparr>ci_Version := 1\<rparr> else ci"
  from assms(5) have ok: "validate K (DiscoIsZero D) ?ci = None" and len: "length blob \<le> maxMasqueConnBlobLen"
    and blob: "blob = masqueConnBlobPrefix @ b64_encode (string_bytes (wire_Marshal K D ?ci))"
    by (auto simp: ConnBlob_def Let_def split: option.splits if_splits)
  from ok have "ci_Version ?ci = 1" by (auto simp: validate_def split: if_splits)
  then have ci: "?ci = ci\<lparr>ci_Version := 1\<rparr>" by (auto split: if_splits)
  have "json_Unmarshal wire_names (wire_put K D) (wire_Marshal K D ?ci) (zero_info k0 d0) = Some ?ci"
    using assms by (intro wire_Unmarshal) auto
  with ok len show ?thesis unfolding ci by (simp add: ParseMasqueConnBlob_def blob ci)
qed

definition roundtrip_token :: "(raw_key, raw_key) MasqueConnInfo" where
  "roundtrip_token = \<lparr>ci_Version = 0, ci_ServerPublic = 5, ci_ServerDiscoPublic = 6, ci_DirectURL = ''https://h:1/a&b'',
     ci_RelayURL = ''https://r'', ci_AutomaticDirect = False\<rparr>"

lemma length_b64_encode: "length (b64_encode bs) \<le> 2 * length bs"
  by (induction bs rule: b64_encode.induct) (auto simp: Let_def)

lemma json_escape_length: "length (json_escape c) \<le> 6"
  by (simp add: json_escape_def Let_def)

lemma json_body_ascii_length: "list_all (\<lambda>c. (of_char c :: nat) < 0x80) s \<Longrightarrow> length (json_body s) \<le> 6 * length s"
proof (induction s)
  case (Cons c s)
  then show ?case using json_escape_length [of c] by simp
qed simp

lemma roundtrip_token_blob: "\<exists>blob. ConnBlob raw_keys raw_discos roundtrip_token = Inr blob"
proof -
  let ?ci = "roundtrip_token\<lparr>ci_Version := 1\<rparr>"
  have urls: "validateMasqueURL DirectKind ''https://h:1/a&b'' = None" "validateMasqueURL RelayKind ''https://r'' = None" by code_simp+
  then have ok: "validate raw_keys (DiscoIsZero raw_discos) ?ci = None"
    by (simp add: validate_def roundtrip_token_def raw_keys_def raw_discos_def)
  have v: "itoa (Suc 0) = ''1''" by code_simp
  have "length (json_body (KeyString raw_keys 5)) \<le> 6 * length (KeyString raw_keys 5)"
    "length (json_body (DiscoString raw_discos 6)) \<le> 6 * length (DiscoString raw_discos 6)"
    by (rule json_body_ascii_length, simp add: raw_keys_def raw_discos_def nodePublicTextPrefix_def hex_ascii)+
  moreover have "length (json_body ''https://h:1/a&b'') \<le> 90" "length (json_body ''https://r'') \<le> 54"
    using json_body_ascii_length [of "''https://h:1/a&b''"] json_body_ascii_length [of "''https://r''"] by simp_all
  moreover have "length (KeyString raw_keys 5) = 72" "length (DiscoString raw_discos 6) = 73"
    by (simp_all add: raw_keys_def raw_discos_def nodePublicTextPrefix_def)
  ultimately have "length (wire_Marshal raw_keys raw_discos ?ci) \<le> 1100"
    by (simp add: wire_Marshal_def wire_members_def json_struct_def json_member_def json_quote_def Let_def v
        del: json_body.simps) (simp add: roundtrip_token_def v json_member_def json_quote_def del: json_body.simps)
  then have "length (b64_encode (string_bytes (wire_Marshal raw_keys raw_discos ?ci))) \<le> 2200"
    using length_b64_encode [of "string_bytes (wire_Marshal raw_keys raw_discos ?ci)"] by (simp add: string_bytes_def)
  with ok show ?thesis by (simp add: ConnBlob_def Let_def go_consts masqueConnBlobPrefix_def roundtrip_token_def)
qed

theorem token_roundtrip_witness:
  "\<exists>blob. ConnBlob raw_keys raw_discos roundtrip_token = Inr blob \<and>
     ParseMasqueConnBlob raw_keys raw_discos (zero_info 0 0) blob = Inr (roundtrip_token\<lparr>ci_Version := 1\<rparr>)"
proof -
  obtain blob where blob: "ConnBlob raw_keys raw_discos roundtrip_token = Inr blob" using roundtrip_token_blob by blast
  have "valid_utf8 (ci_DirectURL roundtrip_token)" "valid_utf8 (ci_RelayURL roundtrip_token)" by code_simp+
  from token_roundtrip [OF key_laws_raw_keys disco_laws_raw this blob] blob show ?thesis by blast
qed

end
