(* ===== verification/Auth.thy ===== *)
theory Auth
  imports Packet
begin

text \<open>
  The node-key challenge and response of \<^verbatim>\<open>masquecat_auth.go\<close>, and the client side of
  it, \<^verbatim>\<open>masqueProofForChallenge\<close> of \<^verbatim>\<open>masquecat_transport.go\<close>.

  The private keys of the Tailscale module are a parameter, \<open>node_private_api\<close>; \<open>seal_laws\<close>
  is the documented behaviour that a box sealed by one key for another opens with that other
  key, and that a box is not empty (it starts with its nonce). Nothing else about the cryptography is assumed. The random nonce of a challenge is an
  argument of the functions that draw it (\<open>None\<close> when the random source fails), and so is
  every reading of the clock.
\<close>

section \<open>Private keys\<close>

record ('p, 'k) node_private_api =
  PrivIsZero :: "'p \<Rightarrow> bool"
  Public :: "'p \<Rightarrow> 'k"
  SealTo :: "'p \<Rightarrow> 'k \<Rightarrow> bytes \<Rightarrow> bytes \<Rightarrow> bytes"
  OpenFrom :: "'p \<Rightarrow> 'k \<Rightarrow> bytes \<Rightarrow> bytes option"

definition seal_laws :: "('p, 'k) node_private_api \<Rightarrow> bool" where
  "seal_laws P \<longleftrightarrow>
     (\<forall>p q nonce m. OpenFrom P q (Public P p) (SealTo P p (Public P q) nonce m) = Some m) \<and>
     (\<forall>p k nonce m. SealTo P p k nonce m \<noteq> [])"

text \<open>An instance in which a box names its two ends; it shows that the laws can hold.\<close>

definition raw_privates :: "(raw_key, raw_key) node_private_api" where
  "raw_privates =
     \<lparr>PrivIsZero = (\<lambda>p. p = 0),
      Public = (\<lambda>p. p),
      SealTo = (\<lambda>p k nonce m. be_put 32 (unat p) @ be_put 32 (unat k) @ m),
      OpenFrom = (\<lambda>q k b. if HasPrefix b (be_put 32 (unat k) @ be_put 32 (unat q))
                          then Some (drop 64 b) else None)\<rparr>"

lemma seal_laws_raw: "seal_laws raw_privates"
proof -
  have "HasPrefix (be_put 32 a @ be_put 32 b @ m) (be_put 32 a @ be_put 32 b)" for a b m
    by (metis HasPrefix_append append_assoc)
  moreover have "be_put 32 a \<noteq> []" for a by (metis length_be_put list.size(3) zero_neq_numeral)
  ultimately show ?thesis by (simp add: seal_laws_def raw_privates_def del: be_put.simps)
qed

section \<open>State\<close>

record 'k masqueChallenge =
  ch_src :: 'k
  ch_target :: 'k
  ch_mode :: string
  ch_clientID :: string
  ch_expires :: time

record ('p, 'k) masqueAuthenticator =
  auth_priv :: 'p
  auth_pending :: "(string, 'k masqueChallenge) gomap"

definition masqueChallengeTTL :: time where "masqueChallengeTTL = seconds 30"
definition masqueMaxPendingChallenges :: nat where [go_consts]: "masqueMaxPendingChallenges = 1024"
definition masqueMaxPendingPerSource :: nat where [go_consts]: "masqueMaxPendingPerSource = 4"
definition masqueMaxPendingPerRemoteAddr :: nat where [go_consts]: "masqueMaxPendingPerRemoteAddr = 64"
definition masqueChallengeHeader :: string where "masqueChallengeHeader = ''Masquecat-Challenge''"
definition masqueVerifierHeader :: string where "masqueVerifierHeader = ''Masquecat-Verifier''"
definition masqueProofHeader :: string where "masqueProofHeader = ''Masquecat-Proof''"
definition masqueModeDirect :: string where "masqueModeDirect = ''direct''"
definition masqueModeRelay :: string where "masqueModeRelay = ''relay''"

text \<open>\<open>fresh\<close> is the key that \<^verbatim>\<open>key.NewNode\<close> would return.\<close>

definition newMasqueAuthenticator ::
  "('p, 'k) node_private_api \<Rightarrow> 'p \<Rightarrow> 'p \<Rightarrow> ('p, 'k) masqueAuthenticator" where
  "newMasqueAuthenticator P fresh priv =
     \<lparr>auth_priv = (if PrivIsZero P priv then fresh else priv), auth_pending = []\<rparr>"

section \<open>Issuing a challenge\<close>

datatype issue_error = ChallengeLimit | NonceFailed | DuplicateChallenge

definition live :: "time \<Rightarrow> 'k masqueChallenge \<Rightarrow> bool" where
  "live now c \<longleftrightarrow> ch_expires c > now"

definition same_request :: "'k \<Rightarrow> 'k \<Rightarrow> string \<Rightarrow> string \<Rightarrow> 'k masqueChallenge \<Rightarrow> bool" where
  "same_request src tgt mode cid c \<longleftrightarrow>
     ch_src c = src \<and> ch_target c = tgt \<and> ch_mode c = mode \<and> ch_clientID c = cid"

text \<open>
  The loop over the pending challenges. It deletes the expired ones it meets, stops at one that
  answers an identical request, and otherwise counts those of the source and of the address.
\<close>

fun issue_scan ::
  "time \<Rightarrow> 'k \<Rightarrow> 'k \<Rightarrow> string \<Rightarrow> string \<Rightarrow> (string, 'k masqueChallenge) gomap \<Rightarrow> nat \<Rightarrow> nat \<Rightarrow>
   (string, 'k masqueChallenge) gomap \<times> (string + (nat \<times> nat))" where
  "issue_scan now src tgt mode cid [] sourcePending addressPending =
     ([], Inr (sourcePending, addressPending))"
| "issue_scan now src tgt mode cid ((token, c) # m) sourcePending addressPending =
     (if \<not> live now c then issue_scan now src tgt mode cid m sourcePending addressPending
      else if same_request src tgt mode cid c then ((token, c) # m, Inl token)
      else let (m', r) = issue_scan now src tgt mode cid m
                 (if ch_src c = src then sourcePending + 1 else sourcePending)
                 (if ch_clientID c = cid then addressPending + 1 else addressPending)
           in ((token, c) # m', r))"

definition issue ::
  "time \<Rightarrow> bytes option \<Rightarrow> 'k \<Rightarrow> 'k \<Rightarrow> string \<Rightarrow> string \<Rightarrow> ('p, 'k) masqueAuthenticator \<Rightarrow>
   ('p, 'k) masqueAuthenticator \<times> (issue_error + string)" where
  "issue now nonce src tgt mode cid a =
     (case issue_scan now src tgt mode cid (auth_pending a) 0 0 of
        (m, Inl token) \<Rightarrow> (a\<lparr>auth_pending := m\<rparr>, Inr token)
      | (m, Inr (sourcePending, addressPending)) \<Rightarrow>
          if sourcePending \<ge> masqueMaxPendingPerSource \<or>
             addressPending \<ge> masqueMaxPendingPerRemoteAddr \<or>
             length m \<ge> masqueMaxPendingChallenges
          then (a\<lparr>auth_pending := m\<rparr>, Inl ChallengeLimit)
          else case nonce of
                 None \<Rightarrow> (a\<lparr>auth_pending := m\<rparr>, Inl NonceFailed)
               | Some n \<Rightarrow>
                   let token = b64_encode n in
                   if map_of m token \<noteq> None then (a\<lparr>auth_pending := m\<rparr>, Inl DuplicateChallenge)
                   else (a\<lparr>auth_pending := AList.update token
                            \<lparr>ch_src = src, ch_target = tgt, ch_mode = mode, ch_clientID = cid,
                             ch_expires = now + masqueChallengeTTL\<rparr> m\<rparr>, Inr token))"

section \<open>Verifying a proof\<close>

definition verify ::
  "'k node_key_api \<Rightarrow> ('p, 'k) node_private_api \<Rightarrow> time \<Rightarrow> string \<Rightarrow> 'k \<Rightarrow> 'k \<Rightarrow> string \<Rightarrow>
   ('p, 'k) masqueAuthenticator \<Rightarrow> ('p, 'k) masqueAuthenticator \<times> bool" where
  "verify K P now encodedProof src tgt mode a =
     (if IsZero K src \<or> IsZero K tgt then (a, False)
      else case b64_decode encodedProof of
        None \<Rightarrow> (a, False)
      | Some proof \<Rightarrow>
          (case OpenFrom P (auth_priv a) src proof of
             None \<Rightarrow> (a, False)
           | Some cleartext \<Rightarrow>
               let token = bytes_string cleartext in
               (case map_of (auth_pending a) token of
                  None \<Rightarrow> (a, False)
                | Some c \<Rightarrow>
                    (a\<lparr>auth_pending := AList.delete token (auth_pending a)\<rparr>,
                     live now c \<and> ch_src c = src \<and> ch_target c = tgt \<and> ch_mode c = mode))))"

section \<open>Authorizing a request\<close>

definition masqueChallengeClientID :: "http_request option \<Rightarrow> string" where
  "masqueChallengeClientID r =
     (case r of
        None \<Rightarrow> ''<unknown>''
      | Some r \<Rightarrow>
          if rq_remoteAddr r = [] then ''<unknown>''
          else case SplitHostPort (rq_remoteAddr r) of
                 Inr (host, _) \<Rightarrow> if host \<noteq> [] then host else rq_remoteAddr r
               | Inl _ \<Rightarrow> rq_remoteAddr r)"

text \<open>\<open>now1\<close> and \<open>now2\<close> are the clock readings of \<^verbatim>\<open>verify\<close> and \<^verbatim>\<open>issue\<close>.\<close>

definition authorize ::
  "'k node_key_api \<Rightarrow> ('p, 'k) node_private_api \<Rightarrow> time \<Rightarrow> time \<Rightarrow> bytes option \<Rightarrow>
   response \<Rightarrow> http_request \<Rightarrow> 'k \<Rightarrow> 'k \<Rightarrow> string \<Rightarrow> ('p, 'k) masqueAuthenticator \<Rightarrow>
   ('p, 'k) masqueAuthenticator \<times> response \<times> bool" where
  "authorize K P now1 now2 nonce w r src tgt mode a =
     (if IsZero K src \<or> IsZero K tgt
      then (a, http_Error w ''invalid MasqueCat node identity'' 401, False)
      else let proof = header_get (rq_header r) masqueProofHeader;
               (a1, verified) = (if proof \<noteq> [] then verify K P now1 proof src tgt mode a else (a, False))
           in if verified then (a1, w, True)
              else case issue now2 nonce src tgt mode (masqueChallengeClientID (Some r)) a1 of
                     (a2, Inl ChallengeLimit) \<Rightarrow>
                       (a2, http_Error (set_header ''Retry-After'' ''1'' w)
                              ''too many pending MasqueCat authentication challenges'' 429, False)
                   | (a2, Inl _) \<Rightarrow>
                       (a2, http_Error w ''failed to create MasqueCat authentication challenge'' 500, False)
                   | (a2, Inr challenge) \<Rightarrow>
                       (a2, http_Error
                              (set_header masqueVerifierHeader (KeyString K (Public P (auth_priv a2)))
                                (set_header masqueChallengeHeader challenge w))
                              ''MasqueCat node-key proof required'' 401, False))"

section \<open>The client's answer\<close>

datatype proof_error = NoChallenge | BadVerifier | ZeroVerifier | VerifierMismatch

definition masqueProofForChallenge ::
  "'k node_key_api \<Rightarrow> ('p, 'k) node_private_api \<Rightarrow> bytes \<Rightarrow> 'p \<Rightarrow> string \<Rightarrow> string \<Rightarrow> 'k \<Rightarrow> string \<Rightarrow>
   proof_error + string" where
  "masqueProofForChallenge K P sealNonce local challenge verifierText requestTarget mode =
     (if challenge = [] \<or> verifierText = [] then Inl NoChallenge
      else case UnmarshalText K verifierText of
             None \<Rightarrow> Inl BadVerifier
           | Some verifier \<Rightarrow>
               if IsZero K verifier then Inl ZeroVerifier
               else if mode = masqueModeDirect \<and> verifier \<noteq> requestTarget then Inl VerifierMismatch
               else Inr (b64_encode (SealTo P local verifier sealNonce (string_bytes challenge))))"

section \<open>The scan of the pending challenges\<close>

lemma issue_scan_filter_le:
  "issue_scan now src tgt mode cid m sp ap = (m', r) \<Longrightarrow> length (filter Q m') \<le> length (filter Q m)"
  by (induction now src tgt mode cid m sp ap arbitrary: m' r rule: issue_scan.induct)
     (fastforce split: if_splits prod.splits simp: Let_def)+

lemma issue_scan_subset:
  "issue_scan now src tgt mode cid m sp ap = (m', r) \<Longrightarrow> set m' \<subseteq> set m"
  by (induction now src tgt mode cid m sp ap arbitrary: m' r rule: issue_scan.induct)
     (fastforce split: if_splits prod.splits simp: Let_def)+

lemma issue_scan_keeps_live:
  "issue_scan now src tgt mode cid m sp ap = (m', r) \<Longrightarrow> (t, c) \<in> set m \<Longrightarrow> live now c \<Longrightarrow> (t, c) \<in> set m'"
  by (induction now src tgt mode cid m sp ap arbitrary: m' r rule: issue_scan.induct)
     (fastforce split: if_splits prod.splits simp: Let_def)+

lemma issue_scan_ok:
  "issue_scan now src tgt mode cid m sp ap = (m', r) \<Longrightarrow> gomap_ok m \<Longrightarrow> gomap_ok m'"
proof (induction now src tgt mode cid m sp ap arbitrary: m' r rule: issue_scan.induct)
  case (2 now src tgt mode cid token c m sp ap)
  show ?case
  proof (cases "live now c \<and> \<not> same_request src tgt mode cid c")
    case True
    then obtain m1 where m1: "issue_scan now src tgt mode cid m (if ch_src c = src then sp + 1 else sp)
        (if ch_clientID c = cid then ap + 1 else ap) = (m1, r)" "m' = (token, c) # m1"
      using "2.prems"(1) by (auto split: prod.splits)
    have "gomap_ok m1" using 2 True m1(1) by (auto simp: gomap_ok_def)
    moreover have "token \<notin> fst ` set m1"
      using issue_scan_subset [OF m1(1)] "2.prems"(2) by (auto simp: gomap_ok_def)
    ultimately show ?thesis using m1(2) by (simp add: gomap_ok_def)
  next
    case False
    with 2 show ?thesis by (auto simp: gomap_ok_def split: if_splits)
  qed
qed simp

lemma issue_scan_reuse:
  "issue_scan now src tgt mode cid m sp ap = (m', Inl t) \<Longrightarrow>
   \<exists>c. (t, c) \<in> set m' \<and> live now c \<and> same_request src tgt mode cid c"
  by (induction now src tgt mode cid m sp ap arbitrary: m' rule: issue_scan.induct)
     (fastforce split: if_splits prod.splits simp: Let_def)+

lemma issue_scan_full:
  "issue_scan now src tgt mode cid m sp ap = (m', Inr (sp', ap')) \<Longrightarrow>
   m' = filter (\<lambda>e. live now (snd e)) m \<and>
   (\<forall>e\<in>set m'. \<not> same_request src tgt mode cid (snd e)) \<and>
   sp' = sp + length (filter (\<lambda>e. ch_src (snd e) = src) m') \<and>
   ap' = ap + length (filter (\<lambda>e. ch_clientID (snd e) = cid) m')"
proof (induction now src tgt mode cid m sp ap arbitrary: m' sp' ap' rule: issue_scan.induct)
  case (2 now src tgt mode cid token c m sp ap)
  show ?case
  proof (cases "live now c")
    case True
    with "2.prems" have ns: "\<not> same_request src tgt mode cid c" by (auto split: if_splits)
    with True "2.prems" obtain m1 where
      m1: "issue_scan now src tgt mode cid m (if ch_src c = src then sp + 1 else sp)
        (if ch_clientID c = cid then ap + 1 else ap) = (m1, Inr (sp', ap'))" "m' = (token, c) # m1"
      by (auto split: prod.splits)
    from "2.IH"(2) [OF _ ns m1(1)] True ns m1(2) show ?thesis by simp
  next
    case False
    with 2 show ?thesis by simp
  qed
qed simp

section \<open>Limits\<close>

definition auth_inv :: "('p, 'k) masqueAuthenticator \<Rightarrow> bool" where
  "auth_inv a \<longleftrightarrow>
     gomap_ok (auth_pending a) \<and>
     length (auth_pending a) \<le> masqueMaxPendingChallenges \<and>
     (\<forall>s. length (filter (\<lambda>e. ch_src (snd e) = s) (auth_pending a)) \<le> masqueMaxPendingPerSource) \<and>
     (\<forall>i. length (filter (\<lambda>e. ch_clientID (snd e) = i) (auth_pending a)) \<le> masqueMaxPendingPerRemoteAddr)"

lemma auth_inv_new [inv_intros]: "auth_inv (newMasqueAuthenticator P fresh priv)"
  by (simp add: auth_inv_def newMasqueAuthenticator_def)

lemma auth_inv_shrink:
  assumes "auth_inv a" "gomap_ok m" "\<And>Q. length (filter Q m) \<le> length (filter Q (auth_pending a))"
  shows "auth_inv (a\<lparr>auth_pending := m\<rparr>)"
proof -
  have "length m \<le> length (auth_pending a)" using assms(3) [of "\<lambda>_. True"] by simp
  with assms show ?thesis unfolding auth_inv_def by (auto intro: order_trans)
qed

lemma auth_inv_issue [inv_intros]:
  assumes "auth_inv a"
  shows "auth_inv (fst (issue now nonce src tgt mode cid a))"
proof -
  obtain m r where scan: "issue_scan now src tgt mode cid (auth_pending a) 0 0 = (m, r)" by fastforce
  have ok: "gomap_ok m" using issue_scan_ok [OF scan] assms by (simp add: auth_inv_def)
  have keep: "auth_inv (a\<lparr>auth_pending := m\<rparr>)"
    using assms ok issue_scan_filter_le [OF scan] by (rule auth_inv_shrink)
  show ?thesis
  proof (cases r)
    case (Inr p)
    obtain sp ap where p: "p = (sp, ap)" by fastforce
    note full = issue_scan_full [OF scan [unfolded Inr p]]
    have "auth_inv (a\<lparr>auth_pending := AList.update t \<lparr>ch_src = src, ch_target = tgt, ch_mode = mode,
        ch_clientID = cid, ch_expires = e\<rparr> m\<rparr>)"
      if "sp < masqueMaxPendingPerSource" "ap < masqueMaxPendingPerRemoteAddr"
        "length m < masqueMaxPendingChallenges" "map_of m t = None" for t e
    proof -
      have "AList.update t c m = m @ [(t, c)]" for c
        using that(4) by (intro update_absent) (simp add: map_of_eq_None_iff)
      with that keep full show ?thesis unfolding auth_inv_def
        by (auto simp: gomap_ok_def map_of_eq_None_iff)
    qed
    with keep show ?thesis
      by (auto simp: issue_def scan Inr p Let_def split: option.splits)
  qed (simp add: issue_def scan keep)
qed

lemma verify_pending:
  "auth_pending (fst (verify K P now proof src tgt mode a)) = auth_pending a \<or>
   (\<exists>t. auth_pending (fst (verify K P now proof src tgt mode a)) = AList.delete t (auth_pending a))"
  by (auto simp: verify_def Let_def split: option.splits)

lemma auth_priv_verify [simp]: "auth_priv (fst (verify K P now proof src tgt mode a)) = auth_priv a"
  by (auto simp: verify_def Let_def split: option.splits)

lemma auth_priv_issue [simp]: "auth_priv (fst (issue now nonce src tgt mode cid a)) = auth_priv a"
  by (auto simp: issue_def Let_def split: option.splits prod.splits sum.splits)

lemma auth_inv_verify [inv_intros]:
  assumes "auth_inv a"
  shows "auth_inv (fst (verify K P now proof src tgt mode a))"
proof -
  have "auth_inv (a\<lparr>auth_pending := AList.delete t (auth_pending a)\<rparr>)" for t
  proof (rule auth_inv_shrink [OF assms])
    show "gomap_ok (AList.delete t (auth_pending a))" using assms by (auto simp: auth_inv_def)
    show "length (filter Q (AList.delete t (auth_pending a))) \<le> length (filter Q (auth_pending a))" for Q
      by (rule length_filter_delete)
  qed
  with assms show ?thesis
    by (auto simp: verify_def Let_def split: option.splits)
qed

section \<open>Sequences of operations\<close>

text \<open>
  The authenticator is shared by the requests of a server: any interleaving of the two operations
  that change it, in the order in which they take its mutex.
\<close>

datatype 'k auth_op =
  IssueOp time "bytes option" 'k 'k string string
| VerifyOp time string 'k 'k string

fun auth_exec :: "'k node_key_api \<Rightarrow> ('p, 'k) node_private_api \<Rightarrow> 'k auth_op \<Rightarrow>
    ('p, 'k) masqueAuthenticator \<Rightarrow> ('p, 'k) masqueAuthenticator" where
  "auth_exec K P (IssueOp now nonce src tgt mode cid) a = fst (issue now nonce src tgt mode cid a)"
| "auth_exec K P (VerifyOp now proof src tgt mode) a = fst (verify K P now proof src tgt mode a)"

definition auth_run :: "'k node_key_api \<Rightarrow> ('p, 'k) node_private_api \<Rightarrow> 'k auth_op list \<Rightarrow>
    ('p, 'k) masqueAuthenticator \<Rightarrow> ('p, 'k) masqueAuthenticator" where
  "auth_run K P ops a = fold (auth_exec K P) ops a"

lemma auth_run_simps [simp]:
  "auth_run K P [] a = a" "auth_run K P (op # ops) a = auth_run K P ops (auth_exec K P op a)"
  by (simp_all add: auth_run_def)

lemma auth_inv_exec [inv_intros]: "auth_inv a \<Longrightarrow> auth_inv (auth_exec K P op a)"
  by (cases op) (simp_all add: inv_intros)

lemma auth_inv_run [inv_intros]: "auth_inv a \<Longrightarrow> auth_inv (auth_run K P ops a)"
  by (induction ops arbitrary: a) (simp_all add: inv_intros)

lemma auth_priv_run [simp]: "auth_priv (auth_run K P ops a) = auth_priv a"
proof (induction ops arbitrary: a)
  case (Cons op ops)
  then show ?case by (cases op) simp_all
qed simp

text \<open>The token a proof opens to, when it opens.\<close>

definition proof_token :: "('p, 'k) node_private_api \<Rightarrow> 'p \<Rightarrow> 'k \<Rightarrow> string \<Rightarrow> string option" where
  "proof_token P priv src encodedProof =
     map_option bytes_string (Option.bind (b64_decode encodedProof) (OpenFrom P priv src))"

lemma verify_eq:
  "verify K P now proof src tgt mode a =
     (if IsZero K src \<or> IsZero K tgt then (a, False)
      else case proof_token P (auth_priv a) src proof of
        None \<Rightarrow> (a, False)
      | Some t \<Rightarrow> (case map_of (auth_pending a) t of
            None \<Rightarrow> (a, False)
          | Some c \<Rightarrow> (a\<lparr>auth_pending := AList.delete t (auth_pending a)\<rparr>,
               live now c \<and> ch_src c = src \<and> ch_target c = tgt \<and> ch_mode c = mode)))"
  by (simp add: verify_def proof_token_def Let_def split: option.splits)

fun op_draws :: "string \<Rightarrow> 'k auth_op \<Rightarrow> bool" where
  "op_draws t (IssueOp now nonce src tgt mode cid) = (map_option b64_encode nonce = Some t)"
| "op_draws t (VerifyOp now proof src tgt mode) = False"

fun op_time :: "'k auth_op \<Rightarrow> time" where
  "op_time (IssueOp now nonce src tgt mode cid) = now"
| "op_time (VerifyOp now proof src tgt mode) = now"

fun op_presents :: "('p, 'k) node_private_api \<Rightarrow> 'p \<Rightarrow> string \<Rightarrow> 'k auth_op \<Rightarrow> bool" where
  "op_presents P priv t (IssueOp now nonce src tgt mode cid) = False"
| "op_presents P priv t (VerifyOp now proof src tgt mode) = (proof_token P priv src proof = Some t)"

lemma issue_pending_subset:
  assumes "issue now nonce src tgt mode cid a = (a', r)" "(t, c) \<in> set (auth_pending a')"
  shows "(t, c) \<in> set (auth_pending a) \<or>
    (\<exists>n. nonce = Some n \<and> t = b64_encode n \<and> same_request src tgt mode cid c \<and>
         ch_expires c = now + masqueChallengeTTL \<and> r = Inr t)"
proof -
  obtain m q where scan: "issue_scan now src tgt mode cid (auth_pending a) 0 0 = (m, q)" by fastforce
  show ?thesis
    using assms issue_scan_subset [OF scan] set_update_subset
    by (fastforce simp: issue_def scan Let_def same_request_def split: sum.splits prod.splits if_splits option.splits)
qed

lemma exec_no_draw:
  assumes "map_of (auth_pending a) t = None" "\<not> op_draws t op"
  shows "map_of (auth_pending (auth_exec K P op a)) t = None"
proof (cases op)
  case (IssueOp now nonce src tgt mode cid)
  obtain a' r where i: "issue now nonce src tgt mode cid a = (a', r)" by fastforce
  have "(t, c) \<notin> set (auth_pending a')" for c
    using issue_pending_subset [OF i, of t c] assms IssueOp weak_map_of_SomeI [of t c "auth_pending a"] by auto
  then show ?thesis using IssueOp i by (auto simp: map_of_eq_None_iff)
next
  case (VerifyOp now ep src tgt mode)
  with assms(1) show ?thesis
    by (auto simp: verify_eq map_of_delete_iff split: option.splits)
qed

lemma run_no_draw:
  "map_of (auth_pending a) t = None \<Longrightarrow> \<forall>op\<in>set ops. \<not> op_draws t op \<Longrightarrow>
   map_of (auth_pending (auth_run K P ops a)) t = None"
  by (induction ops arbitrary: a) (simp_all add: exec_no_draw)

lemma issue_keeps_live:
  assumes "gomap_ok (auth_pending a)" "map_of (auth_pending a) t = Some c" "live now c"
  shows "map_of (auth_pending (fst (issue now nonce src tgt mode cid a))) t = Some c"
proof -
  obtain m q where scan: "issue_scan now src tgt mode cid (auth_pending a) 0 0 = (m, q)" by fastforce
  have ok: "gomap_ok m" using issue_scan_ok [OF scan assms(1)] .
  have m: "map_of m t = Some c"
    using issue_scan_keeps_live [OF scan] assms by (simp add: gomap_in_set ok map_of_SomeD)
  then show ?thesis
    by (auto simp: issue_def scan Let_def map_of_update split: sum.splits prod.splits option.splits)
qed

lemma exec_keeps:
  assumes "auth_inv a" "map_of (auth_pending a) t = Some c" "op_time op < ch_expires c"
    "\<not> op_presents P (auth_priv a) t op"
  shows "map_of (auth_pending (auth_exec K P op a)) t = Some c"
proof (cases op)
  case (IssueOp now nonce src tgt mode cid)
  with assms show ?thesis by (simp add: issue_keeps_live auth_inv_def live_def)
next
  case (VerifyOp now ep src tgt mode)
  with assms show ?thesis
    by (auto simp: verify_eq map_of_delete_iff split: option.splits)
qed

lemma run_keeps:
  "auth_inv a \<Longrightarrow> map_of (auth_pending a) t = Some c \<Longrightarrow>
   \<forall>op\<in>set ops. op_time op < ch_expires c \<and> \<not> op_presents P (auth_priv a) t op \<Longrightarrow>
   map_of (auth_pending (auth_run K P ops a)) t = Some c"
proof (induction ops arbitrary: a)
  case (Cons op ops)
  have "auth_priv (auth_exec K P op a) = auth_priv a" by (cases op) simp_all
  with Cons show ?case by (simp add: exec_keeps auth_inv_exec)
qed simp

lemma issue_success:
  assumes "auth_inv a" "issue now nonce src tgt mode cid a = (a', Inr t)"
  shows "\<exists>c. map_of (auth_pending a') t = Some c \<and> live now c \<and> same_request src tgt mode cid c"
proof -
  obtain m q where scan: "issue_scan now src tgt mode cid (auth_pending a) 0 0 = (m, q)" by fastforce
  have ok: "gomap_ok m" using issue_scan_ok [OF scan] assms(1) by (simp add: auth_inv_def)
  show ?thesis
  proof (cases q)
    case (Inl t')
    with assms scan issue_scan_reuse [OF scan [unfolded Inl]] ok show ?thesis
      by (auto simp: issue_def gomap_in_set)
  next
    case (Inr p)
    with assms scan show ?thesis
      by (auto simp: issue_def Let_def same_request_def live_def map_of_update masqueChallengeTTL_def
          seconds_def split: prod.splits if_splits option.splits)
  qed
qed

section \<open>Requests\<close>

lemma canonical_headers [simp]:
  "CanonicalHeaderKey ''Masquecat-Challenge'' = ''Masquecat-Challenge''"
  "CanonicalHeaderKey ''Masquecat-Verifier'' = ''Masquecat-Verifier''"
  "CanonicalHeaderKey ''Masquecat-Proof'' = ''Masquecat-Proof''"
  "CanonicalHeaderKey ''Masquecat-Source'' = ''Masquecat-Source''"
  "CanonicalHeaderKey ''Masquecat-Mode'' = ''Masquecat-Mode''"
  "CanonicalHeaderKey ''Content-Length'' = ''Content-Length''"
  "CanonicalHeaderKey ''Content-Type'' = ''Content-Type''"
  "CanonicalHeaderKey ''X-Content-Type-Options'' = ''X-Content-Type-Options''"
  "CanonicalHeaderKey ''Retry-After'' = ''Retry-After''"
  by code_simp+

lemmas header_consts = masqueChallengeHeader_def masqueVerifierHeader_def masqueProofHeader_def
  masqueSourceHeader_def masqueModeHeader_def

lemma authorize_401:
  assumes "authorize K P now1 now2 nonce new_response r src tgt mode a = (a', w', ok)"
    "\<not> IsZero K src" "\<not> IsZero K tgt" "header_get (rq_header r) masqueProofHeader = []"
    "rw_status w' = Some 401"
  obtains t where "issue now2 nonce src tgt mode (masqueChallengeClientID (Some r)) a = (a', Inr t)"
    "header_get (rw_header w') masqueChallengeHeader = t"
    "header_get (rw_header w') masqueVerifierHeader = KeyString K (Public P (auth_priv a'))" "\<not> ok"
proof -
  obtain a2 q where i: "issue now2 nonce src tgt mode (masqueChallengeClientID (Some r)) a = (a2, q)"
    by fastforce
  with assms obtain t where q: "q = Inr t" and a2: "a2 = a'" "\<not> ok"
    and w': "w' = http_Error (set_header masqueVerifierHeader (KeyString K (Public P (auth_priv a')))
       (set_header masqueChallengeHeader t new_response)) ''MasqueCat node-key proof required'' 401"
    by (auto simp: authorize_def Let_def new_response_def split: sum.splits issue_error.splits)
  have "header_get (rw_header w') masqueChallengeHeader = t"
    "header_get (rw_header w') masqueVerifierHeader = KeyString K (Public P (auth_priv a'))"
    unfolding w' by (subst http_Error_get; simp add: header_consts)+
  with that i q a2 show ?thesis by blast
qed

section \<open>Properties\<close>

text \<open>
  C9: pending challenges are bounded. Whatever sequence of challenge requests and proofs an
  authenticator serves, it never holds more than 1024 challenges, 4 for one source key and 64 for
  one client address.
\<close>
theorem pending_challenges_bounded:
  fixes ops K P fresh priv
  defines "a \<equiv> auth_run K P ops (newMasqueAuthenticator P fresh priv)"
  shows "length (auth_pending a) \<le> 1024 \<and>
         length (filter (\<lambda>e. ch_src (snd e) = s) (auth_pending a)) \<le> 4 \<and>
         length (filter (\<lambda>e. ch_clientID (snd e) = cid) (auth_pending a)) \<le> 64"
  using auth_inv_run [OF auth_inv_new, of K P ops P fresh priv]
  by (simp add: a_def auth_inv_def go_consts)

text \<open>
  The outcomes of a challenge request. No live challenge is evicted, on any branch. A returned
  token names a live challenge for exactly this source, target, mode and client address, and when
  an identical live challenge was outstanding the answer consumes no capacity. The limit error is
  returned only when the live challenges of the source, of the address or in all reach their cap,
  and the other two errors only when the random source fails or repeats a pending nonce.
\<close>
theorem issue_outcomes:
  assumes "auth_inv a" "issue now nonce src tgt mode cid a = (a', r)"
  defines "alive \<equiv> filter (\<lambda>e. live now (snd e)) (auth_pending a)"
  shows "(\<forall>t c. map_of (auth_pending a) t = Some c \<and> live now c \<longrightarrow> map_of (auth_pending a') t = Some c) \<and>
         (case r of
            Inr t \<Rightarrow> \<exists>c. map_of (auth_pending a') t = Some c \<and> live now c \<and> same_request src tgt mode cid c
          | Inl ChallengeLimit \<Rightarrow>
              length (filter (\<lambda>e. ch_src (snd e) = src) alive) \<ge> 4 \<or>
              length (filter (\<lambda>e. ch_clientID (snd e) = cid) alive) \<ge> 64 \<or> length alive \<ge> 1024
          | Inl NonceFailed \<Rightarrow> nonce = None
          | Inl DuplicateChallenge \<Rightarrow> \<exists>n. nonce = Some n \<and> map_of alive (b64_encode n) \<noteq> None) \<and>
         ((\<exists>e\<in>set alive. same_request src tgt mode cid (snd e)) \<longrightarrow>
            (\<exists>t. r = Inr t) \<and> set (auth_pending a') \<subseteq> set (auth_pending a))"
proof (intro conjI)
  obtain m q where scan: "issue_scan now src tgt mode cid (auth_pending a) 0 0 = (m, q)" by fastforce
  show "\<forall>t c. map_of (auth_pending a) t = Some c \<and> live now c \<longrightarrow> map_of (auth_pending a') t = Some c"
    using issue_keeps_live [of a _ _ now nonce src tgt mode cid] assms by (simp add: auth_inv_def)
  show "case r of
      Inr t \<Rightarrow> \<exists>c. map_of (auth_pending a') t = Some c \<and> live now c \<and> same_request src tgt mode cid c
    | Inl ChallengeLimit \<Rightarrow>
        length (filter (\<lambda>e. ch_src (snd e) = src) alive) \<ge> 4 \<or>
        length (filter (\<lambda>e. ch_clientID (snd e) = cid) alive) \<ge> 64 \<or> length alive \<ge> 1024
    | Inl NonceFailed \<Rightarrow> nonce = None
    | Inl DuplicateChallenge \<Rightarrow> \<exists>n. nonce = Some n \<and> map_of alive (b64_encode n) \<noteq> None"
  proof (cases r)
    case (Inr t)
    with issue_success [OF assms(1)] assms(2) show ?thesis by simp
  next
    case (Inl e)
    with assms(2) obtain sp ap where q: "q = Inr (sp, ap)"
      by (cases q) (auto simp: issue_def scan)
    from issue_scan_full [OF scan [unfolded q]] have
      "m = alive" "sp = length (filter (\<lambda>e. ch_src (snd e) = src) alive)"
      "ap = length (filter (\<lambda>e. ch_clientID (snd e) = cid) alive)"
      by (simp_all add: alive_def)
    with assms(2) Inl show ?thesis
      by (auto simp: issue_def scan q Let_def go_consts split: if_splits option.splits)
  qed
  show "(\<exists>e\<in>set alive. same_request src tgt mode cid (snd e)) \<longrightarrow>
      (\<exists>t. r = Inr t) \<and> set (auth_pending a') \<subseteq> set (auth_pending a)"
  proof (cases q)
    case (Inl t)
    with assms(2) issue_scan_subset [OF scan] show ?thesis by (auto simp: issue_def scan)
  next
    case (Inr p)
    with scan have "\<forall>e\<in>set alive. \<not> same_request src tgt mode cid (snd e)"
      using issue_scan_full by (cases p) (fastforce simp: alive_def)
    then show ?thesis by blast
  qed
qed

theorem issue_outcomes_witness:
  "map_of (auth_pending (fst (issue 0 (Some [1]) 7 9 ''relay'' ''h''
      (newMasqueAuthenticator raw_privates 1 2)))) (b64_encode [1]) \<noteq> (None :: raw_key masqueChallenge option)"
proof -
  let ?a = "newMasqueAuthenticator raw_privates 1 2 :: (raw_key, raw_key) masqueAuthenticator"
  let ?c = "\<lparr>ch_src = 7, ch_target = 9, ch_mode = ''relay'', ch_clientID = ''h'',
     ch_expires = seconds 30\<rparr> :: raw_key masqueChallenge"
  have i: "issue 0 (Some [1]) 7 9 ''relay'' ''h'' ?a
     = (?a\<lparr>auth_pending := [(b64_encode [1], ?c)]\<rparr>, Inr (b64_encode [1]))"
    by (simp add: issue_def newMasqueAuthenticator_def Let_def go_consts masqueChallengeTTL_def)
  from issue_outcomes [OF auth_inv_new i] show ?thesis using i by auto
qed

text \<open>
  C8: a proof authenticates once. An accepted proof opens, under the claimed source key, to the token
  of a challenge that was pending, had not expired and had been issued for exactly this source,
  target and mode. The token is then gone, and the proof is refused in every later state of the
  authenticator that is reached without the random source drawing the same nonce again.
\<close>
theorem proof_accepted_once:
  assumes "verify K P now encodedProof src tgt mode a = (a', True)"
  shows "\<exists>t c. proof_token P (auth_priv a) src encodedProof = Some t \<and>
           map_of (auth_pending a) t = Some c \<and> now < ch_expires c \<and>
           ch_src c = src \<and> ch_target c = tgt \<and> ch_mode c = mode \<and>
           \<not> IsZero K src \<and> \<not> IsZero K tgt \<and>
           (\<forall>ops. (\<forall>op\<in>set ops. \<not> op_draws t op) \<longrightarrow>
              (\<forall>now' src' tgt' mode'. proof_token P (auth_priv a) src' encodedProof = Some t \<longrightarrow>
                 snd (verify K P now' encodedProof src' tgt' mode' (auth_run K P ops a')) = False))"
proof -
  from assms obtain t c where t: "proof_token P (auth_priv a) src encodedProof = Some t"
    "map_of (auth_pending a) t = Some c" "live now c" "ch_src c = src" "ch_target c = tgt" "ch_mode c = mode"
    "\<not> IsZero K src" "\<not> IsZero K tgt" "a' = a\<lparr>auth_pending := AList.delete t (auth_pending a)\<rparr>"
    by (auto simp: verify_eq split: if_splits option.splits)
  have "map_of (auth_pending a') t = None" using t(9) by (simp add: map_of_delete_iff)
  then have gone: "\<forall>op\<in>set ops. \<not> op_draws t op \<Longrightarrow> map_of (auth_pending (auth_run K P ops a')) t = None" for ops
    by (rule run_no_draw)
  show ?thesis
    by (rule exI [of _ t], rule exI [of _ c])
       (use t gone in \<open>auto simp: verify_eq live_def split: option.splits\<close>)
qed

theorem proof_accepted_once_witness:
  "\<exists>proof a' :: (raw_key, raw_key) masqueAuthenticator.
     verify raw_keys raw_privates 5 proof 7 2 ''relay''
       \<lparr>auth_priv = 2, auth_pending = [(''x'', \<lparr>ch_src = 7, ch_target = 2, ch_mode = ''relay'',
          ch_clientID = ''h'', ch_expires = 6\<rparr>)]\<rparr> = (a', True) \<and>
     snd (verify raw_keys raw_privates 5 proof 7 2 ''relay'' a') = False"
proof -
  let ?c = "\<lparr>ch_src = 7, ch_target = 2, ch_mode = ''relay'', ch_clientID = ''h'', ch_expires = 6\<rparr>
     :: raw_key masqueChallenge"
  let ?a = "\<lparr>auth_priv = 2, auth_pending = [(''x'', ?c)]\<rparr> :: (raw_key, raw_key) masqueAuthenticator"
  define p where "p = b64_encode (SealTo raw_privates 7 2 [] (string_bytes ''x''))"
  have "Public raw_privates q = q" for q by (simp add: raw_privates_def)
  then have tok: "proof_token raw_privates 2 7 p = Some ''x''"
    using seal_laws_raw by (simp add: proof_token_def p_def seal_laws_def)
  have v: "verify raw_keys raw_privates 5 p 7 2 ''relay'' ?a = (?a\<lparr>auth_pending := []\<rparr>, True)"
    by (simp add: verify_eq tok live_def raw_keys_def)
  from proof_accepted_once [OF v] tok obtain t where
    "proof_token raw_privates 2 7 p = Some t"
    "\<forall>ops. (\<forall>op\<in>set ops. \<not> op_draws t op) \<longrightarrow>
       snd (verify raw_keys raw_privates 5 p 7 2 ''relay'' (auth_run raw_keys raw_privates ops (?a\<lparr>auth_pending := []\<rparr>))) = False"
    by auto
  from this(2) [rule_format, of "[]"] v show ?thesis by auto
qed

text \<open>
  The handshake completes. A client without a proof is answered 401 with a challenge and the
  verifier's key. The proof it computes from that answer (in direct mode when the verifier is the
  node it asked for) is accepted on the next request, whatever other challenge requests and proofs
  were served in between, provided the challenge has not expired and no other proof was presented
  for it.
\<close>
theorem handshake_completes:
  assumes "key_laws K" "seal_laws P" "auth_inv a"
    "[] \<notin> fst ` set (auth_pending a)" "nonce \<noteq> Some []"
    "\<not> IsZero K (Public P local)" "\<not> IsZero K tgt" "\<not> IsZero K (Public P (auth_priv a))"
    "mode = masqueModeDirect \<longrightarrow> tgt = Public P (auth_priv a)"
    "header_get (rq_header r) masqueProofHeader = []"
    "authorize K P t0 t1 nonce new_response r (Public P local) tgt mode a = (a1, w1, ok1)"
    "rw_status w1 = Some 401"
    "challenge = header_get (rw_header w1) masqueChallengeHeader"
    "map_of (auth_pending a1) challenge = Some c"
    "\<forall>op\<in>set ops. op_time op < ch_expires c \<and> \<not> op_presents P (auth_priv a) challenge op"
    "t2 < ch_expires c"
  shows "\<exists>ep. masqueProofForChallenge K P sealNonce local challenge
             (header_get (rw_header w1) masqueVerifierHeader) tgt mode = Inr ep \<and>
           (\<exists>a3. authorize K P t2 t3 nonce' w
              (r\<lparr>rq_header := header_set masqueProofHeader ep (rq_header r)\<rparr>)
              (Public P local) tgt mode (auth_run K P ops a1) = (a3, w, True))"
proof -
  let ?src = "Public P local" and ?V = "Public P (auth_priv a)"
  from authorize_401 [OF assms(11,6,7,10,12)] assms(13) obtain
    i: "issue t1 nonce ?src tgt mode (masqueChallengeClientID (Some r)) a = (a1, Inr challenge)"
    and vh: "header_get (rw_header w1) masqueVerifierHeader = KeyString K (Public P (auth_priv a1))"
    by metis
  have priv: "auth_priv a1 = auth_priv a" using auth_priv_issue [of t1 nonce ?src tgt mode _ a] i
    by (metis fst_conv)
  obtain c' where c: "map_of (auth_pending a1) challenge = Some c'" "live t1 c'"
    "same_request ?src tgt mode (masqueChallengeClientID (Some r)) c'"
    using issue_success [OF assms(3) i] by blast
  with assms(14) have cc: "c' = c" by simp
  have inv1: "auth_inv a1" using auth_inv_issue [OF assms(3)] i by (metis fst_conv)
  have empty: "b64_encode n = [] \<Longrightarrow> n = []" for n
    by (cases n rule: b64_encode.cases) (simp_all add: Let_def)
  then have ne: "challenge \<noteq> []"
    using issue_pending_subset [OF i map_of_SomeD [OF assms(14)]] assms(4,5) by force
  define ep where "ep = b64_encode (SealTo P local ?V sealNonce (string_bytes challenge))"
  have pc: "masqueProofForChallenge K P sealNonce local challenge
      (header_get (rw_header w1) masqueVerifierHeader) tgt mode = Inr ep"
    using ne assms(8,9) key_lawsD(4,5) [OF assms(1), of ?V]
    by (auto simp: masqueProofForChallenge_def vh priv ep_def nodePublicTextPrefix_def)
  have tok: "proof_token P (auth_priv a) ?src ep = Some challenge"
    using assms(2) by (simp add: proof_token_def ep_def seal_laws_def)
  have pend: "map_of (auth_pending (auth_run K P ops a1)) challenge = Some c"
    by (rule run_keeps [OF inv1 assms(14)]) (use assms(15) priv in simp)
  obtain a3 where "verify K P t2 ep ?src tgt mode (auth_run K P ops a1) = (a3, True)"
    using tok pend assms(6,7,16) c(3) cc by (auto simp: verify_eq priv live_def same_request_def)
  moreover have "ep \<noteq> []" using assms(2) empty [of "SealTo P local ?V sealNonce (string_bytes challenge)"]
    by (auto simp: ep_def seal_laws_def)
  ultimately have "\<exists>a3. authorize K P t2 t3 nonce' w
      (r\<lparr>rq_header := header_set masqueProofHeader ep (rq_header r)\<rparr>) ?src tgt mode (auth_run K P ops a1) = (a3, w, True)"
    using assms(6,7) by (simp add: authorize_def Let_def)
  with pc show ?thesis by blast
qed

theorem handshake_completes_witness:
  "\<exists>a1 w1 ok1 ep a3.
     authorize raw_keys raw_privates 0 0 (Some [1]) new_response
       (blank_request\<lparr>rq_remoteAddr := ''h:1''\<rparr>) 7 2 ''direct''
       (newMasqueAuthenticator raw_privates 1 2) = (a1, w1, ok1) \<and>
     authorize raw_keys raw_privates 5 5 None new_response
       (blank_request\<lparr>rq_remoteAddr := ''h:1'', rq_header := header_set masqueProofHeader ep []\<rparr>)
       7 2 ''direct'' a1 = (a3, new_response, True)"
proof -
  let ?a = "newMasqueAuthenticator raw_privates 1 2 :: (raw_key, raw_key) masqueAuthenticator"
  let ?r = "(blank_request\<lparr>rq_remoteAddr := ''h:1''\<rparr>)"
  let ?t = "b64_encode [1]"
  let ?cid = "masqueChallengeClientID (Some ?r)"
  let ?c = "\<lparr>ch_src = 7, ch_target = 2, ch_mode = ''direct'', ch_clientID = ?cid,
     ch_expires = seconds 30\<rparr> :: raw_key masqueChallenge"
  let ?a1 = "?a\<lparr>auth_pending := [(?t, ?c)]\<rparr>"
  let ?w1 = "http_Error (set_header masqueVerifierHeader (KeyString raw_keys 2)
       (set_header masqueChallengeHeader ?t new_response)) ''MasqueCat node-key proof required'' 401"
  have i: "issue 0 (Some [1]) 7 2 ''direct'' ?cid ?a = (?a1, Inr ?t)"
    by (simp add: issue_def newMasqueAuthenticator_def Let_def go_consts masqueChallengeTTL_def)
  have priv: "auth_priv ?a = 2" by (simp add: newMasqueAuthenticator_def raw_privates_def)
  have pub: "Public raw_privates q = q" for q by (simp add: raw_privates_def)
  have z: "\<not> IsZero raw_keys 7" "\<not> IsZero raw_keys 2" by (simp_all add: raw_keys_def)
  have auth: "authorize raw_keys raw_privates 0 0 (Some [1]) new_response ?r
      (Public raw_privates 7) 2 ''direct'' ?a = (?a1, ?w1, False)"
    by (simp add: authorize_def z Let_def i pub priv del: b64_encode.simps)
  have st: "rw_status ?w1 = Some 401" by (simp add: new_response_def)
  have ch: "?t = header_get (rw_header ?w1) masqueChallengeHeader"
    by (subst http_Error_get) (simp_all add: header_consts)
  have "\<exists>ep. masqueProofForChallenge raw_keys raw_privates [] 7 ?t
      (header_get (rw_header ?w1) masqueVerifierHeader) 2 ''direct'' = Inr ep \<and>
    (\<exists>a3. authorize raw_keys raw_privates 5 5 None new_response
      (?r\<lparr>rq_header := header_set masqueProofHeader ep (rq_header ?r)\<rparr>)
      (Public raw_privates 7) 2 ''direct'' (auth_run raw_keys raw_privates [] ?a1) = (a3, new_response, True))"
    by (rule handshake_completes [OF key_laws_raw_keys seal_laws_raw auth_inv_new [of raw_privates 1 2]
          _ _ _ z(2) _ _ _ auth st ch, where c = ?c])
       (simp_all add: newMasqueAuthenticator_def z pub priv masqueModeDirect_def seconds_def raw_privates_def
          del: b64_encode.simps)
  with auth show ?thesis unfolding pub by (auto simp del: b64_encode.simps)
qed

end
