(* ===== verification/Endpoint.thy ===== *)
theory Endpoint
  imports Token Auth
begin

text \<open>
  How an endpoint URL becomes a CONNECT-UDP template and a TLS configuration, and how a request is
  matched with a template: the functions of \<^verbatim>\<open>masquecat_transport.go\<close>,
  \<^verbatim>\<open>masquecat_h2.go\<close> and \<^verbatim>\<open>masquecat_h2_proxy_request.go\<close> that sit between
  the carriers and the handlers.

  URI templates and the parser of CONNECT-UDP requests belong to the uritemplate and masque-go
  modules; they are the parameter \<open>masque_api\<close>.
\<close>

datatype proxy_error = ProxyRequestParseError nat string | OtherProxyError string

record 't masque_api =
  uritemplate_New :: "string \<Rightarrow> 't option"
  ParseProxyRequest :: "http_request \<Rightarrow> 't \<Rightarrow> proxy_error + string"

section \<open>Templates\<close>

definition masquePathTemplate :: string where
  "masquePathTemplate = ''/.well-known/masque/udp/{target_host}/{target_port}/''"

datatype endpoint_error =
  EndpointURL | EndpointNotHttps | EndpointTemplate | EndpointPin pin_error | RequestNoTemplate | RequestInvalid

definition masqueTemplateURL :: "string \<Rightarrow> endpoint_error + string" where
  "masqueTemplateURL rawBaseURL =
     (case url_Parse rawBaseURL of
        None \<Rightarrow> Inl EndpointURL
      | Some u \<Rightarrow>
          if u_Scheme u \<noteq> ''https'' \<or> u_Host u = [] then Inl EndpointNotHttps
          else Inr (u_Scheme u @ ''://'' @ u_Host u @ TrimSuffix (EscapedPath u) ''/'' @ masquePathTemplate))"

definition masqueTemplateFor :: "'t masque_api \<Rightarrow> string \<Rightarrow> endpoint_error + 't" where
  "masqueTemplateFor A rawBaseURL =
     (case masqueTemplateURL rawBaseURL of
        Inl e \<Rightarrow> Inl e
      | Inr t \<Rightarrow> (case uritemplate_New A t of None \<Rightarrow> Inl EndpointTemplate | Some t \<Rightarrow> Inr t))"

section \<open>TLS configuration of a client\<close>

text \<open>
  The callback \<^verbatim>\<open>VerifyConnection\<close> is represented by the pin it closes over, and
  \<open>verify_connection\<close> is the call of it; the certificates are those of the connection state, the
  leaf first.
\<close>

record tls_config =
  tls_MinVersion :: nat
  tls_ServerName :: string
  tls_NextProtos :: "string list"
  tls_InsecureSkipVerify :: bool
  tls_Pin :: "masqueTLSCertPin option"

definition VersionTLS13 :: nat where "VersionTLS13 = 0x0304"

definition masqueTLSClientConfig :: "string \<Rightarrow> bool \<Rightarrow> endpoint_error + tls_config" where
  "masqueTLSClientConfig rawURL insecureSkipVerify =
     (case url_Parse rawURL of
        None \<Rightarrow> Inl EndpointURL
      | Some u \<Rightarrow>
          if u_Scheme u \<noteq> ''https'' \<or> Hostname u = [] then Inl EndpointNotHttps
          else let cfg = \<lparr>tls_MinVersion = VersionTLS13, tls_ServerName = Hostname u,
                          tls_NextProtos = [''h3''], tls_InsecureSkipVerify = False, tls_Pin = None\<rparr>
               in case masqueTLSCertPinFromURL rawURL of
                    Inl e \<Rightarrow> Inl (EndpointPin e)
                  | Inr (Some pin) \<Rightarrow> Inr (cfg\<lparr>tls_InsecureSkipVerify := True, tls_Pin := Some pin\<rparr>)
                  | Inr None \<Rightarrow> Inr (cfg\<lparr>tls_InsecureSkipVerify := insecureSkipVerify\<rparr>))"

datatype verify_error = NoPeerCertificate | PinMismatch

definition verify_connection :: "(bytes \<Rightarrow> bytes) \<Rightarrow> masqueTLSCertPin \<Rightarrow> bytes list \<Rightarrow> verify_error option" where
  "verify_connection sha256 pin certs =
     (case certs of
        [] \<Rightarrow> Some NoPeerCertificate
      | leaf # _ \<Rightarrow> if \<not> matchesCertificate sha256 pin leaf then Some PinMismatch else None)"

text \<open>
  When crypto/tls accepts a chain under a configuration: the usual verification (\<open>pki\<close>, a
  parameter) unless it is skipped, and the callback if there is one.
\<close>

definition tls_accepts :: "(bytes \<Rightarrow> bytes) \<Rightarrow> (string \<Rightarrow> bytes list \<Rightarrow> bool) \<Rightarrow> tls_config \<Rightarrow> bytes list \<Rightarrow> bool" where
  "tls_accepts sha256 pki cfg certs \<longleftrightarrow>
     (tls_InsecureSkipVerify cfg \<or> pki (tls_ServerName cfg) certs) \<and>
     (case tls_Pin cfg of None \<Rightarrow> True | Some pin \<Rightarrow> verify_connection sha256 pin certs = None)"

section \<open>Requests\<close>

definition wellKnownPrefix :: string where
  "wellKnownPrefix = ''/.well-known/masque/udp/''"

definition LastIndex :: "string \<Rightarrow> string \<Rightarrow> nat option" where
  "LastIndex s sub =
     (case rev (filter (\<lambda>i. HasPrefix (drop i s) sub) [0..<Suc (length s)]) of [] \<Rightarrow> None | i # _ \<Rightarrow> Some i)"

definition masqueTemplateForRequest :: "'t masque_api \<Rightarrow> http_request \<Rightarrow> endpoint_error + 't" where
  "masqueTemplateForRequest A r =
     (if rq_host r = [] then Inl RequestInvalid
      else let escapedPath = EscapedPath (rq_url r) in
           case LastIndex escapedPath wellKnownPrefix of
             None \<Rightarrow> Inl RequestNoTemplate
           | Some idx \<Rightarrow>
               masqueTemplateFor A (''https://'' @ rq_host r @ TrimSuffix (take idx escapedPath) ''/''))"

definition parseConnectUDPRequest ::
  "'t masque_api \<Rightarrow> response \<Rightarrow> http_request \<Rightarrow> 't \<Rightarrow> response \<times> string option" where
  "parseConnectUDPRequest A w r tmpl =
     (let result = (case ParseProxyRequest A r tmpl of
            Inr target \<Rightarrow> Inr target
          | Inl err \<Rightarrow> (case masqueTemplateForRequest A r of
                Inr requestTmpl \<Rightarrow> ParseProxyRequest A r requestTmpl
              | Inl _ \<Rightarrow> Inl err))
      in case result of
           Inr target \<Rightarrow> (w, Some target)
         | Inl (ProxyRequestParseError status msg) \<Rightarrow> (http_Error w msg status, None)
         | Inl (OtherProxyError msg) \<Rightarrow> (http_Error w msg 400, None))"

definition masqueConnectUDPProtocol :: string where
  "masqueConnectUDPProtocol = ''connect-udp''"

definition parseConnectUDPRequestAny ::
  "'t masque_api \<Rightarrow> response \<Rightarrow> http_request \<Rightarrow> 't \<Rightarrow> response \<times> string option" where
  "parseConnectUDPRequestAny A w r tmpl =
     (if rq_protoMajor r \<noteq> 2 then parseConnectUDPRequest A w r tmpl
      else if rq_method r \<noteq> ''CONNECT'' \<or> header_get (rq_header r) '':protocol'' \<noteq> masqueConnectUDPProtocol
      then (http_Error w ''expected HTTP/2 extended CONNECT-UDP'' 501, None)
      else parseConnectUDPRequest A w (r\<lparr>rq_proto := masqueConnectUDPProtocol\<rparr>) tmpl)"

definition masqueProxyRequestForParser :: "http_request \<Rightarrow> http_request" where
  "masqueProxyRequestForParser r =
     (if rq_protoMajor r \<noteq> 2 \<or> rq_host r = [] \<or> u_Host (rq_url r) \<noteq> [] then r
      else r\<lparr>rq_url := (rq_url r)\<lparr>u_Host := rq_host r\<rparr>\<rparr>)"

section \<open>Properties\<close>

text \<open>
  C10: certificate pinning. Whatever the development flag says, an endpoint whose fragment carries a pin
  gets a configuration that accepts a chain exactly when its leaf certificate hashes to the pin; an
  endpoint without one gets a configuration that accepts a chain exactly when the ambient PKI
  accepts it for the host name, unless the flag was set. The minimum version is TLS 1.3 in both
  cases. A pin appended to a URL without a fragment is the pin that is enforced.
\<close>
theorem tls_pinning:
  assumes "masqueTLSClientConfig rawURL insecure = Inr cfg"
  shows "(case masqueTLSCertPinFromURL rawURL of
            Inr (Some pin) \<Rightarrow> tls_accepts sha256 pki cfg certs \<longleftrightarrow> (\<exists>leaf rest. certs = leaf # rest \<and> sha256 leaf = pin)
          | Inr None \<Rightarrow> tls_accepts sha256 pki cfg certs \<longleftrightarrow> insecure \<or> pki (tls_ServerName cfg) certs
          | Inl e \<Rightarrow> False) \<and>
         tls_MinVersion cfg = VersionTLS13 \<and>
         (\<forall>pin. length pin = 32 \<and> CHR ''#'' \<notin> set rawURL \<longrightarrow>
            masqueTLSCertPinFromURL (rawURL @ ''#sha256='' @ b64_encode pin) = Inr (Some pin))"
proof -
  have "masqueTLSCertPinFromURL (rawURL @ ''#sha256='' @ b64_encode pin) = Inr (Some pin)"
    if "length pin = 32" "CHR ''#'' \<notin> set rawURL" for pin
  proof -
    from assms obtain u where "url_Parse rawURL = Some u"
      by (auto simp: masqueTLSClientConfig_def split: option.splits)
    from pin_from_pinned_url [OF that(2) this that(1)] show ?thesis
      by (simp add: masqueTLSCertPinFragmentPrefix_def)
  qed
  then show ?thesis
    using assms
    by (auto simp: masqueTLSClientConfig_def tls_accepts_def verify_connection_def matchesCertificate_def
        Let_def split: option.splits sum.splits if_splits list.splits)
qed

theorem tls_pinning_witness:
  "\<exists>cfg. masqueTLSClientConfig ''https://h:1'' False = Inr cfg \<and>
     \<not> tls_accepts (\<lambda>b. b) (\<lambda>_ _. False) cfg [[1]]"
proof -
  have "(case masqueTLSClientConfig ''https://h:1'' False of
           Inr cfg \<Rightarrow> tls_ServerName cfg = ''h'' | Inl _ \<Rightarrow> False) \<and>
        masqueTLSCertPinFromURL ''https://h:1'' = Inr None" by code_simp
  then obtain cfg where "masqueTLSClientConfig ''https://h:1'' False = Inr cfg"
    "masqueTLSCertPinFromURL ''https://h:1'' = Inr None" by (auto split: sum.splits)
  with tls_pinning [OF this(1), of "\<lambda>b. b" "\<lambda>_ _. False" "[[1]]"] show ?thesis by auto
qed

text \<open>What a token that validates promises.\<close>

lemma validated_token_usable:
  assumes "validate K discoZero ci = None"
  shows "\<not> IsZero K (ci_ServerPublic ci) \<and>
         (\<exists>raw. raw \<in> {ci_DirectURL ci, ci_RelayURL ci} \<and> raw \<noteq> []) \<and>
         (\<forall>raw. raw \<in> {ci_DirectURL ci, ci_RelayURL ci} \<and> raw \<noteq> [] \<longrightarrow>
            (\<exists>u. url_Parse raw = Some u \<and> u_Scheme u = ''https'' \<and> u_User u = None \<and> u_RawQuery u = []) \<and>
            (\<exists>t. masqueTemplateURL raw = Inr t) \<and>
            (\<exists>cfg. masqueTLSClientConfig raw insecure = Inr cfg)) \<and>
         (ci_AutomaticDirect ci \<longrightarrow> ci_RelayURL ci = [] \<and>
            (\<exists>cfg pin. masqueTLSClientConfig (ci_DirectURL ci) insecure = Inr cfg \<and> tls_Pin cfg = Some pin))"
proof -
  have usable: "(\<exists>u. url_Parse raw = Some u \<and> u_Scheme u = ''https'' \<and> u_User u = None \<and> u_RawQuery u = []) \<and>
      (\<exists>t. masqueTemplateURL raw = Inr t) \<and> (\<exists>cfg. masqueTLSClientConfig raw insecure = Inr cfg)"
    if ok: "validateMasqueURL kind raw = None" for kind raw
  proof -
    from ok obtain u where u: "url_Parse raw = Some u" "u_Scheme u = ''https''" "u_Host u \<noteq> []"
      "Hostname u \<noteq> []" "u_User u = None" "u_RawQuery u = []"
      "u_Fragment u \<noteq> [] \<Longrightarrow> \<exists>pin. masqueTLSCertPinFromURL raw = Inr (Some pin)"
      by (rule validateMasqueURL_ok) blast
    have "\<exists>p. masqueTLSCertPinFromURL raw = Inr p"
      using u by (cases "u_Fragment u = []") (auto simp: masqueTLSCertPinFromURL_def)
    with u show ?thesis
      by (auto simp: masqueTemplateURL_def masqueTLSClientConfig_def Let_def split: option.splits)
  qed
  from assms have auto_pin: "\<exists>pin. masqueTLSCertPinFromURL (ci_DirectURL ci) = Inr (Some pin)"
    if "ci_AutomaticDirect ci"
    using that by (auto simp: validate_def split: if_splits sum.splits option.splits)
  have "\<exists>cfg pin. masqueTLSClientConfig (ci_DirectURL ci) insecure = Inr cfg \<and> tls_Pin cfg = Some pin"
    if marked: "ci_AutomaticDirect ci" and direct: "ci_DirectURL ci \<noteq> []"
  proof -
    from assms marked direct have "validateMasqueURL DirectKind (ci_DirectURL ci) = None"
      by (auto simp: validate_def split: if_splits)
    then obtain cfg where cfg: "masqueTLSClientConfig (ci_DirectURL ci) insecure = Inr cfg"
      using usable by blast
    moreover obtain pin where "masqueTLSCertPinFromURL (ci_DirectURL ci) = Inr (Some pin)"
      using auto_pin [OF marked] by blast
    with cfg have "tls_Pin cfg = Some pin"
      by (auto simp: masqueTLSClientConfig_def Let_def split: option.splits if_splits)
    ultimately show ?thesis by blast
  qed
  moreover have "ci_DirectURL ci \<noteq> [] \<Longrightarrow> validateMasqueURL DirectKind (ci_DirectURL ci) = None"
    "ci_RelayURL ci \<noteq> [] \<Longrightarrow> validateMasqueURL RelayKind (ci_RelayURL ci) = None"
    "\<not> IsZero K (ci_ServerPublic ci)" "ci_DirectURL ci \<noteq> [] \<or> ci_RelayURL ci \<noteq> []"
    "ci_AutomaticDirect ci \<Longrightarrow> ci_DirectURL ci \<noteq> [] \<and> ci_RelayURL ci = []"
    using assms by (auto simp: validate_def split: if_splits)
  ultimately show ?thesis using usable by blast
qed

text \<open>
  C11: a token that a client accepts is usable. It has a server key and an endpoint, and every endpoint it names is an https URL
  with a host and without user information or query, from which the client can build both the CONNECT-UDP template
  and the TLS configuration; and an automatic-direct token has a direct endpoint only, whose configuration is pinned
  even if the caller asks to skip verification. This holds for every text, whoever made it.
\<close>
theorem parsed_token_usable:
  assumes "ParseMasqueConnBlob K D zero blob = Inr ci"
  shows "length blob \<le> maxMasqueConnBlobLen \<and> \<not> IsZero K (ci_ServerPublic ci) \<and> \<not> DiscoIsZero D (ci_ServerDiscoPublic ci) \<and>
         (\<exists>raw. raw \<in> {ci_DirectURL ci, ci_RelayURL ci} \<and> raw \<noteq> []) \<and>
         (\<forall>raw. raw \<in> {ci_DirectURL ci, ci_RelayURL ci} \<and> raw \<noteq> [] \<longrightarrow>
            (\<exists>u. url_Parse raw = Some u \<and> u_Scheme u = ''https'' \<and> u_User u = None \<and> u_RawQuery u = []) \<and>
            (\<exists>t. masqueTemplateURL raw = Inr t) \<and>
            (\<exists>cfg. masqueTLSClientConfig raw insecure = Inr cfg)) \<and>
         (ci_AutomaticDirect ci \<longrightarrow> ci_RelayURL ci = [] \<and>
            (\<exists>cfg pin. masqueTLSClientConfig (ci_DirectURL ci) insecure = Inr cfg \<and> tls_Pin cfg = Some pin))"
proof -
  from assms have ok: "validate K (DiscoIsZero D) ci = None" and len: "length blob \<le> maxMasqueConnBlobLen"
    by (auto simp: ParseMasqueConnBlob_def split: if_splits prod.splits bool.splits option.splits)
  from ok have "\<not> DiscoIsZero D (ci_ServerDiscoPublic ci)" by (auto simp: validate_def split: if_splits)
  with validated_token_usable [OF ok] len show ?thesis by blast
qed

theorem parsed_token_usable_witness:
  "\<exists>blob t. ParseMasqueConnBlob raw_keys raw_discos (zero_info 0 0) blob = Inr (roundtrip_token\<lparr>ci_Version := 1\<rparr>) \<and>
     masqueTemplateURL (ci_DirectURL roundtrip_token) = Inr t"
proof -
  obtain blob where blob: "ConnBlob raw_keys raw_discos roundtrip_token = Inr blob" using roundtrip_token_blob by blast
  have "json_Unmarshal wire_names (wire_put raw_keys raw_discos) (wire_Marshal raw_keys raw_discos (roundtrip_token\<lparr>ci_Version := 1\<rparr>))
      (zero_info 0 0) = Some (roundtrip_token\<lparr>ci_Version := 1\<rparr>)"
    by (rule wire_Unmarshal [OF key_laws_raw_keys disco_laws_raw]) code_simp+
  with blob have "ParseMasqueConnBlob raw_keys raw_discos (zero_info 0 0) blob = Inr (roundtrip_token\<lparr>ci_Version := 1\<rparr>)"
    by (auto simp: ParseMasqueConnBlob_def ConnBlob_def Let_def roundtrip_token_def split: option.splits if_splits)
  with parsed_token_usable [OF this] show ?thesis by (auto simp: roundtrip_token_def)
qed

end
