(* ===== verification/H2_Message.thy ===== *)
theory H2_Message
  imports H2_Flow Endpoint "HOL-Library.List_Lexorder" "HOL-Library.Char_ord"
begin

text \<open>
  Requests and responses over the HTTP/2 carrier: the header blocks that
  \<^verbatim>\<open>masquecat_h2_client.go\<close> and \<^verbatim>\<open>masquecat_h2.go\<close> write, and how the other
  end rebuilds a request or a response from the fields. HPACK belongs to golang.org/x/net: a header
  block stands for the list of fields given to its encoder, which is the list the peer's decoder
  returns.
\<close>

type_synonym header_field = "string \<times> string"

section \<open>Header maps\<close>

definition header_add :: "string \<Rightarrow> string \<Rightarrow> header \<Rightarrow> header" where
  "header_add k v h = AList.update (CanonicalHeaderKey k) (header_values h k @ [v]) h"

definition isMasqueH2HopByHopHeader :: "string \<Rightarrow> bool" where
  "isMasqueH2HopByHopHeader name \<longleftrightarrow>
     name \<in> {''connection'', ''keep-alive'', ''proxy-connection'', ''transfer-encoding'', ''upgrade''}"

text \<open>The loop over the sorted keys, in both encoders.\<close>

definition header_fields :: "header \<Rightarrow> header_field list" where
  "header_fields h =
     concat (map (\<lambda>key.
        let name = ToLower key in
        if HasPrefix name '':'' \<or> isMasqueH2HopByHopHeader name then []
        else map (\<lambda>value. (name, value)) (case map_of h key of None \<Rightarrow> [] | Some vs \<Rightarrow> vs))
      (sort (map fst h)))"

section \<open>Requests\<close>

definition encodeMasqueH2RequestHeaders :: "url \<Rightarrow> header \<Rightarrow> header_field list" where
  "encodeMasqueH2RequestHeaders u headers =
     (let path = EscapedPath u;
          path = (if path = [] then ''/'' else path);
          path = (if u_RawQuery u \<noteq> [] then path @ ''?'' @ u_RawQuery u else path)
      in [('':method'', ''CONNECT''), ('':protocol'', masqueConnectUDPProtocol), ('':scheme'', ''https''),
          ('':authority'', u_Host u), ('':path'', path)] @ header_fields headers)"

record h2_pseudo =
  ps_method :: string
  ps_scheme :: string
  ps_authority :: string
  ps_path :: string
  ps_protocol :: string
  ps_header :: header

definition blank_pseudo :: h2_pseudo where
  "blank_pseudo = \<lparr>ps_method = [], ps_scheme = [], ps_authority = [], ps_path = [], ps_protocol = [],
     ps_header = []\<rparr>"

definition request_field :: "header_field \<Rightarrow> h2_pseudo \<Rightarrow> h2_pseudo" where
  "request_field f p =
     (let (name, value) = f in
      if name = '':method'' then p\<lparr>ps_method := value\<rparr>
      else if name = '':scheme'' then p\<lparr>ps_scheme := value\<rparr>
      else if name = '':authority'' then p\<lparr>ps_authority := value\<rparr>
      else if name = '':path'' then p\<lparr>ps_path := value\<rparr>
      else if name = '':protocol'' then p\<lparr>ps_protocol := value\<rparr>
      else if \<not> HasPrefix name '':'' then p\<lparr>ps_header := header_add name value (ps_header p)\<rparr>
      else p)"

datatype h2_request_error = IncompletePseudoHeaders | BadPath

definition masqueH2RequestFromFields :: "string \<Rightarrow> header_field list \<Rightarrow> h2_request_error + http_request" where
  "masqueH2RequestFromFields remoteAddr hfs =
     (let p = fold request_field hfs blank_pseudo in
      if ps_method p = [] \<or> ps_authority p = [] \<or> ps_path p = [] then Inl IncompletePseudoHeaders
      else let hdr = (if ps_protocol p \<noteq> [] then header_set '':protocol'' (ps_protocol p) (ps_header p)
                      else ps_header p)
           in case ParseRequestURI (ps_path p) of
                None \<Rightarrow> Inl BadPath
              | Some u \<Rightarrow>
                  Inr \<lparr>rq_method = ps_method p, rq_protoMajor = 2, rq_proto = ''HTTP/2.0'',
                       rq_host = ps_authority p,
                       rq_url = (if ps_scheme p \<noteq> [] then u\<lparr>u_Scheme := ps_scheme p\<rparr> else u),
                       rq_header = hdr, rq_remoteAddr = remoteAddr\<rparr>)"

section \<open>Responses\<close>

definition encodeMasqueH2ResponseHeaders :: "nat \<Rightarrow> header \<Rightarrow> header_field list" where
  "encodeMasqueH2ResponseHeaders statusCode h = ('':status'', itoa statusCode) # header_fields h"

record h2_response =
  rs_StatusCode :: int
  rs_Header :: header

datatype h2_response_error = InvalidStatus string | MissingStatus

fun response_fields :: "header_field list \<Rightarrow> h2_response \<Rightarrow> h2_response_error + h2_response" where
  "response_fields [] r = Inr r"
| "response_fields ((name, value) # fs) r =
     (if name = '':status'' then
        (case Atoi value of
           None \<Rightarrow> Inl (InvalidStatus value)
         | Some code \<Rightarrow> response_fields fs (r\<lparr>rs_StatusCode := code\<rparr>))
      else if \<not> HasPrefix name '':''
        then response_fields fs (r\<lparr>rs_Header := header_add name value (rs_Header r)\<rparr>)
      else response_fields fs r)"

definition handleResponseHeaders :: "header_field list \<Rightarrow> h2_response_error + h2_response" where
  "handleResponseHeaders hfs =
     (case response_fields hfs \<lparr>rs_StatusCode = 0, rs_Header = []\<rparr> of
        Inl e \<Rightarrow> Inl e
      | Inr r \<Rightarrow> if rs_StatusCode r = 0 then Inl MissingStatus else Inr r)"

section \<open>Header names\<close>

lemma lower_cases:
  obtains (letter) "65 \<le> (of_char c :: nat)" "(of_char c :: nat) \<le> 90" "(of_char (lower c) :: nat) = of_char c + 32"
  | (other) "lower c = c" "\<not> (65 \<le> (of_char c :: nat) \<and> (of_char c :: nat) \<le> 90)"
  by (cases "65 \<le> (of_char c :: nat) \<and> (of_char c :: nat) \<le> 90") (auto simp: lower_def)

lemma upper_lower [simp]: "upper (lower c) = upper c"
  by (cases c rule: lower_cases) (auto simp: upper_def lower_def)

lemma lower_lower [simp]: "lower (lower c) = lower c"
  by (cases c rule: lower_cases) (auto simp: lower_def [of "lower c"])

lemma lower_dash [simp]: "lower c = CHR ''-'' \<longleftrightarrow> c = CHR ''-''"
proof (cases c rule: lower_cases)
  case letter
  then have "lower c \<noteq> CHR ''-''" "c \<noteq> CHR ''-''" by (auto dest: arg_cong [where f = "of_char :: char \<Rightarrow> nat"])
  then show ?thesis by simp
qed simp

lemma token_char_lower [simp]: "token_char (lower c) = token_char c"
proof (cases c rule: lower_cases)
  case letter
  then show ?thesis by (simp add: token_char_def Let_def)
qed simp

lemma canonical_from_lower [simp]: "canonical_from up (map lower s) = canonical_from up s"
  by (induction s arbitrary: up) auto

definition canonical_key :: "string \<Rightarrow> bool" where
  "canonical_key k \<longleftrightarrow> list_all token_char k \<and> CanonicalHeaderKey k = k"

lemma canonical_lower: "canonical_key k \<Longrightarrow> CanonicalHeaderKey (ToLower k) = k"
  by (auto simp: canonical_key_def CanonicalHeaderKey_def ToLower_def list_all_length split: if_splits)

section \<open>Transmission of header maps\<close>

definition raw_values :: "header \<Rightarrow> string \<Rightarrow> string list" where
  "raw_values h k = (case map_of h k of None \<Rightarrow> [] | Some vs \<Rightarrow> vs)"

lemma header_values_raw: "header_values h k = raw_values h (CanonicalHeaderKey k)"
  by (simp add: header_values_def raw_values_def)

text \<open>A header map as the sources build it: canonical names, none of them hop-by-hop.\<close>

definition sendable :: "header \<Rightarrow> bool" where
  "sendable h \<longleftrightarrow> gomap_ok h \<and> (\<forall>k \<in> set (map fst h). canonical_key k \<and> \<not> isMasqueH2HopByHopHeader (ToLower k))"

lemma no_colon_prefix: "canonical_key k \<Longrightarrow> \<not> HasPrefix (ToLower k) '':''"
proof
  assume k: "canonical_key k" and p: "HasPrefix (ToLower k) '':''"
  then obtain c r where c: "k = c # r" "lower c = CHR '':''"
    by (cases k) (auto simp: HasPrefix_def ToLower_def)
  have "token_char c" using k c by (simp add: canonical_key_def)
  then have "token_char CHR '':''" using token_char_lower [of c] c(2) by simp
  then show False by (simp add: token_char_def)
qed

abbreviation add_fields :: "header_field list \<Rightarrow> header \<Rightarrow> header" where
  "add_fields fs h \<equiv> fold (\<lambda>(n, v). header_add n v) fs h"

lemma add_key_fields:
  assumes "canonical_key k"
  shows "raw_values (add_fields (map (\<lambda>v. (ToLower k, v)) vs) h) k' =
     raw_values h k' @ (if k' = k then vs else [])"
proof (induction vs arbitrary: h)
  case (Cons v vs)
  have "raw_values (header_add (ToLower k) v h) k' = raw_values h k' @ (if k' = k then [v] else [])"
    by (simp add: header_add_def canonical_lower [OF assms] raw_values_def header_values_def map_of_update)
  with Cons show ?case by simp
qed simp

definition key_fields :: "header \<Rightarrow> string \<Rightarrow> header_field list" where
  "key_fields h key = map (\<lambda>value. (ToLower key, value)) (raw_values h key)"

lemma add_keys_fields:
  assumes "distinct ks" "\<forall>k\<in>set ks. canonical_key k"
  shows "raw_values (add_fields (concat (map (key_fields h) ks)) h0) k' =
     raw_values h0 k' @ (if k' \<in> set ks then raw_values h k' else [])"
  using assms
proof (induction ks arbitrary: h0)
  case (Cons k ks)
  then show ?case by (auto simp: key_fields_def add_key_fields)
qed simp

lemma header_fields_sendable:
  assumes "sendable h"
  shows "header_fields h = concat (map (key_fields h) (sort (map fst h)))"
    "\<forall>(n, v) \<in> set (header_fields h). \<not> HasPrefix n '':''"
proof -
  have k: "canonical_key k" "\<not> isMasqueH2HopByHopHeader (ToLower k)" if "k \<in> set (sort (map fst h))" for k
    using that assms by (auto simp: sendable_def)
  show eq: "header_fields h = concat (map (key_fields h) (sort (map fst h)))"
    unfolding header_fields_def key_fields_def Let_def
    by (rule arg_cong [where f = concat], rule map_cong [OF refl])
       (use k no_colon_prefix in \<open>simp add: raw_values_def\<close>)
  show "\<forall>(n, v) \<in> set (header_fields h). \<not> HasPrefix n '':''"
    unfolding eq using k no_colon_prefix by (auto simp: key_fields_def)
qed

lemma sent_header_values:
  assumes "sendable h"
  shows "raw_values (add_fields (header_fields h) []) k = raw_values h k"
proof -
  have "distinct (sort (map fst h))" using assms by (simp add: sendable_def gomap_ok_def)
  moreover have "\<forall>k\<in>set (sort (map fst h)). canonical_key k" using assms by (simp add: sendable_def)
  ultimately have "raw_values (add_fields (header_fields h) []) k =
      (if k \<in> set (sort (map fst h)) then raw_values h k else [])"
    by (simp add: header_fields_sendable(1) [OF assms] add_keys_fields raw_values_def [of "[]"])
  moreover have "k \<notin> set (map fst h) \<Longrightarrow> raw_values h k = []"
    by (simp add: raw_values_def map_of_eq_None_iff [THEN iffD2])
  ultimately show ?thesis by auto
qed

lemma pseudo_prefix:
  "HasPrefix '':method'' '':''" "HasPrefix '':scheme'' '':''" "HasPrefix '':authority'' '':''"
  "HasPrefix '':path'' '':''" "HasPrefix '':protocol'' '':''" "HasPrefix '':status'' '':''"
  by (simp_all add: HasPrefix_def)

lemma request_fields_header:
  "\<forall>(n, v) \<in> set fs. \<not> HasPrefix n '':'' \<Longrightarrow>
   fold request_field fs p = p\<lparr>ps_header := add_fields fs (ps_header p)\<rparr>"
proof (induction fs arbitrary: p)
  case (Cons f fs)
  obtain n v where f: "f = (n, v)" by (cases f)
  with Cons.prems have n: "\<not> HasPrefix n '':''" by simp
  then have "n \<noteq> '':method''" "n \<noteq> '':scheme''" "n \<noteq> '':authority''" "n \<noteq> '':path''" "n \<noteq> '':protocol''"
    using pseudo_prefix by blast+
  then have "request_field f p = p\<lparr>ps_header := header_add n v (ps_header p)\<rparr>"
    using n by (simp add: request_field_def f)
  with Cons f show ?case by simp
qed simp

lemma response_fields_header:
  "\<forall>(n, v) \<in> set fs. \<not> HasPrefix n '':'' \<Longrightarrow>
   response_fields fs r = Inr (r\<lparr>rs_Header := add_fields fs (rs_Header r)\<rparr>)"
proof (induction fs arbitrary: r)
  case (Cons f fs)
  obtain n v where f: "f = (n, v)" by (cases f)
  with Cons.prems have "\<not> HasPrefix n '':''" by simp
  moreover from this have "n \<noteq> '':status''" using pseudo_prefix by blast
  ultimately show ?case using Cons f by simp
qed simp

section \<open>Requests and responses survive the carrier\<close>

lemma canonical_protocol [simp]: "CanonicalHeaderKey '':protocol'' = '':protocol''"
  by code_simp

text \<open>
  An extended CONNECT request survives the HTTP/2 carrier. The request that the server rebuilds
  from the fields the client writes is a CONNECT for the same authority with protocol connect-udp,
  and every header the client set has the same values in the same order, so the handlers read the
  source, mode and proof the client sent.
\<close>
lemma request_roundtrip:
  assumes "sendable h" "u_Host u \<noteq> []"
    "ParseRequestURI ((if EscapedPath u = [] then ''/'' else EscapedPath u) @
       (if u_RawQuery u \<noteq> [] then ''?'' @ u_RawQuery u else [])) = Some u'"
  shows "\<exists>req. masqueH2RequestFromFields addr (encodeMasqueH2RequestHeaders u h) = Inr req \<and>
           rq_method req = ''CONNECT'' \<and> rq_protoMajor req = 2 \<and> rq_host req = u_Host u \<and>
           rq_url req = u'\<lparr>u_Scheme := ''https''\<rparr> \<and> rq_remoteAddr req = addr \<and>
           header_get (rq_header req) '':protocol'' = ''connect-udp'' \<and>
           (\<forall>k. CanonicalHeaderKey k \<noteq> '':protocol'' \<longrightarrow> header_values (rq_header req) k = header_values h k)"
proof -
  define path where "path = (if EscapedPath u = [] then ''/'' else EscapedPath u) @
       (if u_RawQuery u \<noteq> [] then ''?'' @ u_RawQuery u else [])"
  have path: "path \<noteq> []" by (auto simp: path_def)
  have enc: "encodeMasqueH2RequestHeaders u h =
      [('':method'', ''CONNECT''), ('':protocol'', ''connect-udp''), ('':scheme'', ''https''),
       ('':authority'', u_Host u), ('':path'', path)] @ header_fields h"
    by (simp add: encodeMasqueH2RequestHeaders_def path_def masqueConnectUDPProtocol_def Let_def)
  let ?p = "\<lparr>ps_method = ''CONNECT'', ps_scheme = ''https'', ps_authority = u_Host u, ps_path = path,
     ps_protocol = ''connect-udp'', ps_header = add_fields (header_fields h) []\<rparr>"
  have fold: "fold request_field (encodeMasqueH2RequestHeaders u h) blank_pseudo = ?p"
    unfolding enc fold_append o_apply request_fields_header [OF header_fields_sendable(2) [OF assms(1)]]
    by (simp add: request_field_def blank_pseudo_def)
  have vals: "header_values (header_set '':protocol'' ''connect-udp'' (add_fields (header_fields h) [])) k
      = header_values h k" if "CanonicalHeaderKey k \<noteq> '':protocol''" for k
    using that sent_header_values [OF assms(1), of "CanonicalHeaderKey k"]
    by (simp add: header_values_raw header_set_def raw_values_def map_of_update)
  show ?thesis
    using assms(2) path assms(3) [folded path_def] vals
    by (simp add: masqueH2RequestFromFields_def fold)
qed

text \<open>
  A response survives the HTTP/2 carrier. The response the client rebuilds from the fields the
  server writes has the same status code and, for every header name, the same values in the same
  order; in particular a 401 arrives with its challenge and verifier.
\<close>
lemma response_roundtrip:
  assumes "sendable h" "0 < code" "code < 2 ^ 63"
  shows "\<exists>r. handleResponseHeaders (encodeMasqueH2ResponseHeaders code h) = Inr r \<and>
           rs_StatusCode r = int code \<and>
           (\<forall>k. header_values (rs_Header r) k = header_values h k)"
  using sent_header_values [OF assms(1)] assms(2)
  by (simp add: handleResponseHeaders_def encodeMasqueH2ResponseHeaders_def Atoi_itoa [OF assms(3)]
      response_fields_header [OF header_fields_sendable(2) [OF assms(1)]] header_values_raw)

end
