(* ===== verification/H2_Read.thy ===== *)
theory H2_Read
  imports H2_Message
begin

text \<open>
  The two HTTP/2 read loops: \<^verbatim>\<open>readLoop\<close> and \<^verbatim>\<open>startRequest\<close> of \<^verbatim>\<open>masqueHTTP2Conn\<close>
  (\<^verbatim>\<open>masquecat_h2.go\<close>), and \<^verbatim>\<open>readLoop\<close> and \<^verbatim>\<open>closeWithError\<close> of
  \<^verbatim>\<open>masqueH2ClientConn\<close> (\<^verbatim>\<open>masquecat_h2_client.go\<close>).

  One pass of a loop runs in an environment: the reading of the clock, whether the deadline can be
  set, what \<^verbatim>\<open>ReadFrame\<close> returns, the random bytes, which frames can be written, and whether
  the reader of the request or response body still takes data. A pass returns the new state, the
  frames it wrote and the error that ends the loop, if any. What the two loops have in common is
  the locale \<open>h2_reader\<close>.
\<close>

section \<open>Frames\<close>

text \<open>A DATA frame carries its payload, the length of the whole frame with its padding, and END\_STREAM.\<close>

datatype h2_frame =
  FlowFrame flow_frame
| PingFrame bool bytes
| MetaHeadersFrame u32 bool bool "header_field list"
| DataFrame u32 bytes u32 bool
| RSTStreamFrame u32 nat
| GoAwayFrame
| OtherFrame

datatype h2_out =
  WriteSettings "setting list"
| WriteSettingsAck
| WritePing bool bytes
| WriteWindowUpdate u32 u32
| WriteRSTStream u32
| WriteHeaders u32 "header_field list"
| WriteData u32 bool bytes

datatype read_outcome = Got h2_frame | TimedOut | ReadFailed

record read_env =
  re_now :: time
  re_deadlineOk :: bool
  re_read :: read_outcome
  re_random :: "bytes option"
  re_write :: "h2_out \<Rightarrow> bool"
  re_body :: bool

datatype h2_read_error =
  DeadlineErr | ReadErr | NoPong | RandErr | WriteErr | FlowErr h2_error | HeadersTooLarge | BadStreamID
| BadRequest h2_request_error | NotConnectUDP | BadResponse h2_response_error | BodyErr | StreamReset nat | PeerGone
| StreamFinished

definition second :: time where [go_consts]: "second = 1000000000"
definition masqueH2InitialWindow :: u32 where [go_consts]: "masqueH2InitialWindow = 1048576"
definition masqueH2MaxHeaderListSize :: u32 where [go_consts]: "masqueH2MaxHeaderListSize = 65536"
definition masqueH2ReadIdleTimeout :: time where [go_consts]: "masqueH2ReadIdleTimeout = 30 * second"
definition masqueH2PingTimeout :: time where [go_consts]: "masqueH2PingTimeout = 15 * second"
definition masqueH2WriteTimeout :: time where [go_consts]: "masqueH2WriteTimeout = 30 * second"

text \<open>Frames written one after the other, until one fails.\<close>

fun write_frames :: "(h2_out \<Rightarrow> bool) \<Rightarrow> h2_out list \<Rightarrow> h2_out list \<times> bool" where
  "write_frames w [] = ([], True)"
| "write_frames w (f # fs) = (if w f then (case write_frames w fs of (out, ok) \<Rightarrow> (f # out, ok)) else ([], False))"

record h2_loop =
  lp_ping :: bool
  lp_deadline :: time
  lp_body :: bytes

text \<open>What both loops do when no frame came: the first time they send a PING, the second time they give up.\<close>

definition probe ::
  "read_env \<Rightarrow> (h2_out \<Rightarrow> bool) \<Rightarrow> 'a h2_loop_scheme \<Rightarrow> 'a h2_loop_scheme \<times> h2_out list \<times> h2_read_error option" where
  "probe env w s =
     (if lp_ping s then (s, [], Some NoPong)
      else case re_random env of
             None \<Rightarrow> (s, [], Some RandErr)
           | Some d \<Rightarrow> if w (WritePing False d) then (s\<lparr>lp_ping := True\<rparr>, [WritePing False d], None)
                       else (s, [], Some WriteErr))"

definition read_timeout :: "'a h2_loop_scheme \<Rightarrow> time" where
  "read_timeout s = (if lp_ping s then masqueH2PingTimeout else masqueH2ReadIdleTimeout)"

section \<open>The server's loop\<close>

record server_loop = h2_loop +
  sl_conn :: masqueHTTP2Conn
  sl_req :: "http_request option"

definition close_body :: "server_loop \<Rightarrow> server_loop" where
  "close_body s = s\<lparr>sl_conn := (sl_conn s)\<lparr>bodyW_open := Some False\<rparr>\<rparr>"

definition startRequest :: "string \<Rightarrow> u32 \<Rightarrow> bool \<Rightarrow> header_field list \<Rightarrow> server_loop \<Rightarrow> server_loop \<times> h2_read_error option" where
  "startRequest remoteAddr sid ended hfs s =
     (if sid = 0 \<or> sid mod 2 = 0 then (s, Some BadStreamID)
      else case masqueH2RequestFromFields remoteAddr hfs of
             Inl e \<Rightarrow> (s, Some (BadRequest e))
           | Inr req \<Rightarrow>
               if rq_method req \<noteq> ''CONNECT'' \<or> header_get (rq_header req) '':protocol'' \<noteq> masqueConnectUDPProtocol
               then (s, Some NotConnectUDP)
               else let c = sl_conn s;
                        c = c\<lparr>streamID := sid, peerStreamWindow := peerInitialWindow c, bodyW_open := Some (\<not> ended)\<rparr>
                    in (s\<lparr>sl_conn := c, sl_req := Some req\<rparr>, None))"

text \<open>The frame of one pass.\<close>

fun server_frame :: "string \<Rightarrow> read_env \<Rightarrow> h2_frame \<Rightarrow> server_loop \<Rightarrow> server_loop \<times> h2_out list \<times> h2_read_error option" where
  "server_frame remoteAddr env (FlowFrame (SettingsFrame ack ss)) s =
     (case server_handleSettings ack ss (sl_conn s) of
        (c, False) \<Rightarrow> (s\<lparr>sl_conn := c\<rparr>, [], None)
      | (c, True) \<Rightarrow>
          if re_write env WriteSettingsAck then (s\<lparr>sl_conn := c\<rparr>, [WriteSettingsAck], None)
          else (s\<lparr>sl_conn := c\<rparr>, [], Some WriteErr))"
| "server_frame remoteAddr env (FlowFrame (WindowUpdateFrame sid inc)) s =
     (case server_handleWindowUpdate sid inc (sl_conn s) of
        (c, e) \<Rightarrow> (s\<lparr>sl_conn := c\<rparr>, [], map_option FlowErr e))"
| "server_frame remoteAddr env (PingFrame ack d) s =
     (if ack then (s, [], None)
      else if re_write env (WritePing True d) then (s, [WritePing True d], None) else (s, [], Some WriteErr))"
| "server_frame remoteAddr env (MetaHeadersFrame sid truncated ended hfs) s =
     (if truncated then (s, [], Some HeadersTooLarge)
      else if streamID (sl_conn s) \<noteq> 0 then
        if sid \<noteq> streamID (sl_conn s)
        then (s, if re_write env (WriteRSTStream sid) then [WriteRSTStream sid] else [], None)
        else (if ended \<and> bodyW_open (sl_conn s) \<noteq> None then close_body s else s, [], None)
      else (case startRequest remoteAddr sid ended hfs s of (s', e) \<Rightarrow> (s', [], e)))"
| "server_frame remoteAddr env (DataFrame sid data len ended) s =
     (if sid \<noteq> streamID (sl_conn s) \<or> bodyW_open (sl_conn s) = None then (s, [], None)
      else if data \<noteq> [] \<and> \<not> (bodyW_open (sl_conn s) = Some True \<and> re_body env) then (s, [], Some BodyErr)
      else let s = s\<lparr>lp_body := lp_body s @ data\<rparr>;
               (out, ok) = (if len \<noteq> 0 then write_frames (re_write env) [WriteWindowUpdate 0 len, WriteWindowUpdate (streamID (sl_conn s)) len]
                            else ([], True))
           in if \<not> ok then (s, out, Some WriteErr) else (if ended then close_body s else s, out, None))"
| "server_frame remoteAddr env (RSTStreamFrame sid code) s =
     (s, [], if sid = streamID (sl_conn s) then Some (StreamReset code) else None)"
| "server_frame remoteAddr env GoAwayFrame s = (s, [], Some PeerGone)"
| "server_frame remoteAddr env OtherFrame s = (s, [], None)"

definition server_pass :: "string \<Rightarrow> read_env \<Rightarrow> server_loop \<Rightarrow> server_loop \<times> h2_out list \<times> h2_read_error option" where
  "server_pass remoteAddr env s =
     (let connected = streamID (sl_conn s) \<noteq> 0 in
      if connected \<and> \<not> re_deadlineOk env then (s, [], Some DeadlineErr)
      else let s = (if connected then s\<lparr>lp_deadline := re_now env + read_timeout s\<rparr> else s) in
           case re_read env of
             ReadFailed \<Rightarrow> (s, [], Some ReadErr)
           | TimedOut \<Rightarrow> if connected then probe env (re_write env) s else (s, [], Some ReadErr)
           | Got f \<Rightarrow> server_frame remoteAddr env f (if connected then s\<lparr>lp_ping := False\<rparr> else s))"

text \<open>The first state of the loop in \<^verbatim>\<open>serveConn\<close>, which set the absolute deadline at the time \<open>now\<close>.\<close>

definition new_server_loop :: "time \<Rightarrow> server_loop" where
  "new_server_loop now = \<lparr>lp_ping = False, lp_deadline = now + masqueH2WriteTimeout, lp_body = [],
     sl_conn = new_server_conn, sl_req = None\<rparr>"

section \<open>The client's loop\<close>

record client_loop = h2_loop +
  cl_conn :: masqueH2ClientConn
  cl_bodyOpen :: bool
  cl_responseDone :: bool
  cl_responseCh :: "(h2_read_error + h2_response) list"
  cl_done :: bool

text \<open>\<^verbatim>\<open>writeFrame\<close> refuses to write once the connection is closed.\<close>

definition client_write :: "read_env \<Rightarrow> client_loop \<Rightarrow> h2_out \<Rightarrow> bool" where
  "client_write env s f \<longleftrightarrow> \<not> cl_done s \<and> re_write env f"

definition closeWithError :: "h2_read_error \<Rightarrow> client_loop \<Rightarrow> client_loop" where
  "closeWithError err s =
     (if cl_done s then s
      else let c = cl_conn s;
               c = (if settingsDone c then c else c\<lparr>settingsDone := True, settingsCh := settingsCh c @ [Some ''closed'']\<rparr>)
           in s\<lparr>cl_done := True, cl_bodyOpen := False, cl_conn := c,
                cl_responseCh := (if cl_responseDone s then cl_responseCh s else cl_responseCh s @ [Inl err]),
                cl_responseDone := True\<rparr>)"

definition client_response :: "bool \<Rightarrow> header_field list \<Rightarrow> client_loop \<Rightarrow> client_loop \<times> h2_read_error option" where
  "client_response ended hfs s =
     (case handleResponseHeaders hfs of
        Inl e \<Rightarrow> (s, Some (BadResponse e))
      | Inr resp \<Rightarrow>
          (s\<lparr>cl_responseCh := (if cl_responseDone s then cl_responseCh s else cl_responseCh s @ [Inr resp]),
             cl_responseDone := True, cl_bodyOpen := (cl_bodyOpen s \<and> \<not> ended)\<rparr>, None))"

fun client_frame :: "read_env \<Rightarrow> h2_frame \<Rightarrow> client_loop \<Rightarrow> client_loop \<times> h2_out list \<times> h2_read_error option" where
  "client_frame env (FlowFrame (SettingsFrame ack ss)) s =
     (case client_handleSettings (client_write env s WriteSettingsAck) ack ss (cl_conn s) of
        (c, SettingsOk) \<Rightarrow> (s\<lparr>cl_conn := c\<rparr>, if ack then [] else [WriteSettingsAck], None)
      | (c, SettingsError e) \<Rightarrow> (s\<lparr>cl_conn := c\<rparr>, [], Some (FlowErr e))
      | (c, SettingsAckFailed) \<Rightarrow> (s\<lparr>cl_conn := c\<rparr>, [], Some WriteErr))"
| "client_frame env (FlowFrame (WindowUpdateFrame sid inc)) s =
     (case client_handleWindowUpdate sid inc (cl_conn s) of
        (c, e) \<Rightarrow> (s\<lparr>cl_conn := c\<rparr>, [], map_option FlowErr e))"
| "client_frame env (PingFrame ack d) s =
     (if ack then (s, [], None)
      else if client_write env s (WritePing True d) then (s, [WritePing True d], None) else (s, [], Some WriteErr))"
| "client_frame env (MetaHeadersFrame sid truncated ended hfs) s =
     (if truncated then (s, [], Some HeadersTooLarge)
      else if sid \<noteq> streamID (cl_conn s) \<or> streamID (cl_conn s) = 0 then (s, [], None)
      else (case client_response ended hfs s of (s', e) \<Rightarrow> (s', [], e)))"
| "client_frame env (DataFrame sid data len ended) s =
     (if sid \<noteq> streamID (cl_conn s) \<or> streamID (cl_conn s) = 0 then (s, [], None)
      else if data \<noteq> [] \<and> \<not> (cl_bodyOpen s \<and> re_body env) then (s, [], Some BodyErr)
      else let s = s\<lparr>lp_body := lp_body s @ data\<rparr>;
               (out, ok) = (if len \<noteq> 0 then write_frames (client_write env s) [WriteWindowUpdate 0 len, WriteWindowUpdate (streamID (cl_conn s)) len]
                            else ([], True))
           in if \<not> ok then (s, out, Some WriteErr)
              else if ended then (s\<lparr>cl_bodyOpen := False\<rparr>, out, Some StreamFinished) else (s, out, None))"
| "client_frame env (RSTStreamFrame sid code) s =
     (s, [], if sid = streamID (cl_conn s) then Some (StreamReset code) else None)"
| "client_frame env GoAwayFrame s = (s, [], Some PeerGone)"
| "client_frame env OtherFrame s = (s, [], None)"

definition client_pass :: "read_env \<Rightarrow> client_loop \<Rightarrow> client_loop \<times> h2_out list \<times> h2_read_error option" where
  "client_pass env s =
     (if \<not> re_deadlineOk env then (s, [], Some DeadlineErr)
      else let s = s\<lparr>lp_deadline := re_now env + read_timeout s\<rparr> in
           case re_read env of
             ReadFailed \<Rightarrow> (s, [], Some ReadErr)
           | TimedOut \<Rightarrow> probe env (client_write env s) s
           | Got f \<Rightarrow> client_frame env f (s\<lparr>lp_ping := False\<rparr>))"

definition new_client_loop :: client_loop where
  "new_client_loop = \<lparr>lp_ping = False, lp_deadline = 0, lp_body = [], cl_conn = new_client_conn, cl_bodyOpen = True,
     cl_responseDone = False, cl_responseCh = [], cl_done = False\<rparr>"

section \<open>Running a loop\<close>

text \<open>The loop over a list of environments: it ends at the first error, or is still running.\<close>

fun read_loop :: "(read_env \<Rightarrow> 's \<Rightarrow> 's \<times> h2_out list \<times> 'e option) \<Rightarrow> read_env list \<Rightarrow> 's \<Rightarrow> 's \<times> h2_out list \<times> 'e option" where
  "read_loop pass [] s = (s, [], None)"
| "read_loop pass (env # envs) s =
     (case pass env s of
        (s', out, Some e) \<Rightarrow> (s', out, Some e)
      | (s', out, None) \<Rightarrow> (case read_loop pass envs s' of (s'', out', r) \<Rightarrow> (s'', out @ out', r)))"

text \<open>The client's loop closes the connection when it ends.\<close>

definition client_readLoop :: "read_env list \<Rightarrow> client_loop \<Rightarrow> client_loop \<times> h2_out list \<times> h2_read_error option" where
  "client_readLoop envs s =
     (case read_loop client_pass envs s of
        (s', out, None) \<Rightarrow> (s', out, None)
      | (s', out, Some e) \<Rightarrow> (closeWithError e s', out, Some e))"

text \<open>What a pass accepts on the stream \<open>sid\<close>, and the window updates among the frames it writes.\<close>

fun accepted_data :: "u32 \<Rightarrow> read_outcome \<Rightarrow> bytes" where
  "accepted_data sid (Got (DataFrame sid' data len ended)) = (if sid' = sid then data else [])"
| "accepted_data sid _ = []"

fun accepted_length :: "u32 \<Rightarrow> read_outcome \<Rightarrow> int" where
  "accepted_length sid (Got (DataFrame sid' data len ended)) = (if sid' = sid then uint len else 0)"
| "accepted_length sid _ = 0"

fun update_credit :: "u32 \<Rightarrow> h2_out \<Rightarrow> int" where
  "update_credit sid (WriteWindowUpdate sid' inc) = (if sid' = sid then uint inc else 0)"
| "update_credit sid _ = 0"

definition total_credit :: "u32 \<Rightarrow> h2_out list \<Rightarrow> int" where
  "total_credit sid out = sum_list (map (update_credit sid) out)"

lemma total_credit_simps [simp]:
  "total_credit sid [] = 0" "total_credit sid (f # out) = update_credit sid f + total_credit sid out"
  "total_credit sid (out @ out') = total_credit sid out + total_credit sid out'"
  by (simp_all add: total_credit_def)

text \<open>The environments in which the DATA frames \<open>ds\<close> arrive in order and nothing fails.\<close>

definition delivers :: "u32 \<Rightarrow> bytes list \<Rightarrow> read_env list \<Rightarrow> bool" where
  "delivers sid ds envs \<longleftrightarrow>
     list_all2 (\<lambda>b env. re_deadlineOk env \<and> re_body env \<and> (\<forall>f. re_write env f) \<and>
       re_read env = Got (DataFrame sid b (word_of_nat (length b)) False)) ds envs"

lemma delivers_totals:
  assumes "delivers sid ds envs" "\<And>b. b \<in> set ds \<Longrightarrow> length b < 2 ^ 32"
  shows "concat (map (\<lambda>env. accepted_data sid (re_read env)) envs) = concat ds"
    "(\<Sum>env\<leftarrow>envs. accepted_length sid (re_read env)) = int (length (concat ds))"
proof -
  have "concat (map (\<lambda>env. accepted_data sid (re_read env)) envs) = concat ds \<and>
    (\<Sum>env\<leftarrow>envs. accepted_length sid (re_read env)) = int (length (concat ds))"
    using assms(1) [unfolded delivers_def] assms(2)
  proof (induction rule: list_all2_induct)
    case (Cons b bs env envs)
    then have "uint (word_of_nat (length b) :: u32) = int (length b)"
      by (simp add: unsigned_of_nat take_bit_nat_eq_self flip: unat_eq_nat_uint)
    with Cons show ?case by simp
  qed simp
  then show "concat (map (\<lambda>env. accepted_data sid (re_read env)) envs) = concat ds"
    "(\<Sum>env\<leftarrow>envs. accepted_length sid (re_read env)) = int (length (concat ds))" by blast+
qed

section \<open>What the two loops have in common\<close>

text \<open>
  \<open>ready\<close> states have a stream; \<open>taking\<close> ones can still hand data over and write.
\<close>

locale h2_reader =
  fixes pass :: "read_env \<Rightarrow> 's \<Rightarrow> 's \<times> h2_out list \<times> h2_read_error option"
    and ping :: "'s \<Rightarrow> bool"
    and deadline :: "'s \<Rightarrow> time"
    and body :: "'s \<Rightarrow> bytes"
    and stream :: "'s \<Rightarrow> u32"
    and ready taking :: "'s \<Rightarrow> bool"
  assumes ready_stream: "ready s \<Longrightarrow> stream s \<noteq> 0"
    and taking_ready: "taking s \<Longrightarrow> ready s"
    and pass_frame: "ready s \<Longrightarrow> pass env s = (s', out, None) \<Longrightarrow>
      ready s' \<and> stream s' = stream s \<and>
      body s' = body s @ accepted_data (stream s) (re_read env) \<and>
      total_credit 0 out = accepted_length (stream s) (re_read env) \<and>
      total_credit (stream s) out = accepted_length (stream s) (re_read env)"
    and pass_silence: "ready s \<Longrightarrow> pass env s = (s', out, None) \<Longrightarrow>
      (ping s' \<longleftrightarrow> re_read env = TimedOut) \<and> (re_read env = TimedOut \<longrightarrow> \<not> ping s) \<and>
      deadline s' = re_now env + (if ping s then masqueH2PingTimeout else masqueH2ReadIdleTimeout)"
    and pass_NoPong: "ready s \<Longrightarrow> pass env s = (s', out, Some NoPong) \<Longrightarrow> ping s \<and> re_read env = TimedOut"
    and pass_data: "taking s \<Longrightarrow> re_deadlineOk env \<Longrightarrow> re_body env \<Longrightarrow> (\<And>f. re_write env f) \<Longrightarrow>
      re_read env = Got (DataFrame (stream s) data len False) \<Longrightarrow>
      \<exists>s' out. pass env s = (s', out, None) \<and> taking s'"
begin

lemma run_continues:
  assumes "ready s" "read_loop pass envs s = (s', out, None)"
  shows "ready s' \<and> stream s' = stream s \<and>
    body s' = body s @ concat (map (\<lambda>env. accepted_data (stream s) (re_read env)) envs) \<and>
    total_credit 0 out = (\<Sum>env\<leftarrow>envs. accepted_length (stream s) (re_read env)) \<and>
    total_credit (stream s) out = (\<Sum>env\<leftarrow>envs. accepted_length (stream s) (re_read env))"
  using assms
proof (induction envs arbitrary: s out)
  case (Cons env envs)
  from Cons.prems(2) obtain s1 o1 o2 where p: "pass env s = (s1, o1, None)" "read_loop pass envs s1 = (s', o2, None)"
    and out: "out = o1 @ o2"
    by (auto split: prod.splits option.splits)
  note a = pass_frame [OF Cons.prems(1) p(1)]
  from Cons.IH [OF _ p(2)] a show ?case by (simp add: out)
qed simp

text \<open>A loop that goes on never met two silent reads in a row.\<close>

lemma run_not_silent:
  assumes "ready s" "read_loop pass (pre @ e1 # e2 # post) s = (s', out, None)"
  shows "\<not> (re_read e1 = TimedOut \<and> re_read e2 = TimedOut)"
  using assms
proof (induction pre arbitrary: s out)
  case Nil
  from Nil.prems(2) obtain s1 o1 s2 o2 where p: "pass e1 s = (s1, o1, None)" "pass e2 s1 = (s2, o2, None)"
    by (auto split: prod.splits option.splits)
  have r: "ready s1" using pass_frame [OF Nil.prems(1) p(1)] by blast
  show ?case using pass_silence [OF Nil.prems(1) p(1)] pass_silence [OF r p(2)] by blast
next
  case (Cons e pre)
  from Cons.prems(2) obtain s1 o1 o2 where p: "pass e s = (s1, o1, None)" "read_loop pass (pre @ e1 # e2 # post) s1 = (s', o2, None)"
    by (auto split: prod.splits option.splits)
  from Cons.IH [OF _ p(2)] pass_frame [OF Cons.prems(1) p(1)] show ?case by blast
qed

text \<open>A loop gives up for silence only after two silent reads in a row.\<close>

lemma run_gave_up:
  assumes "ready s" "read_loop pass envs s = (s', out, Some NoPong)"
  shows "(ping s \<and> envs \<noteq> [] \<and> re_read (hd envs) = TimedOut) \<or>
    (\<exists>pre e1 e2 post. envs = pre @ e1 # e2 # post \<and> re_read e1 = TimedOut \<and> re_read e2 = TimedOut)"
  using assms
proof (induction envs arbitrary: s out)
  case (Cons env envs)
  obtain s1 o1 r where p: "pass env s = (s1, o1, r)" using prod_cases3 by blast
  show ?case
  proof (cases r)
    case (Some e)
    then show ?thesis using Cons.prems p pass_NoPong [OF Cons.prems(1)] by auto
  next
    case None
    then obtain o2 where l: "read_loop pass envs s1 = (s', o2, Some NoPong)" using Cons.prems(2) p by (auto split: prod.splits)
    have r1: "ready s1" "ping s1 \<longleftrightarrow> re_read env = TimedOut"
      using pass_frame [OF Cons.prems(1) p [unfolded None]] pass_silence [OF Cons.prems(1) p [unfolded None]] by auto
    from Cons.IH [OF r1(1) l] show ?thesis
    proof (elim disjE exE conjE)
      assume "ping s1" "envs \<noteq> []" "re_read (hd envs) = TimedOut"
      then have "env # envs = [] @ env # hd envs # tl envs" "re_read env = TimedOut" using r1(2) by simp_all
      then show ?thesis using \<open>re_read (hd envs) = TimedOut\<close> by blast
    next
      fix pre e1 e2 post assume "envs = pre @ e1 # e2 # post" "re_read e1 = TimedOut" "re_read e2 = TimedOut"
      then show ?thesis by (intro disjI2 exI [of _ "env # pre"]) auto
    qed
  qed
qed simp

lemma run_delivers:
  assumes "taking s" "delivers (stream s) ds envs"
  shows "\<exists>s' out. read_loop pass envs s = (s', out, None) \<and> taking s'"
  using assms
proof (induction envs arbitrary: s ds)
  case (Cons env envs)
  from Cons.prems(2) obtain b bs where d: "re_deadlineOk env" "re_body env" "\<And>f. re_write env f"
    "re_read env = Got (DataFrame (stream s) b (word_of_nat (length b)) False)" "delivers (stream s) bs envs"
    by (auto simp: delivers_def list_all2_Cons2)
  from pass_data [OF Cons.prems(1) d(1-4)] obtain s1 o1 where p: "pass env s = (s1, o1, None)" "taking s1" by blast
  have "stream s1 = stream s" using pass_frame [OF taking_ready [OF Cons.prems(1)] p(1)] by blast
  with Cons.IH [OF p(2), of bs] d(5) obtain s2 o2 where "read_loop pass envs s1 = (s2, o2, None)" "taking s2" by auto
  with p(1) show ?case by simp
qed simp

end

section \<open>The server's loop keeps the contract\<close>

definition server_ready :: "server_loop \<Rightarrow> bool" where
  "server_ready s \<longleftrightarrow> streamID (sl_conn s) \<noteq> 0 \<and> bodyW_open (sl_conn s) \<noteq> None"

definition server_taking :: "server_loop \<Rightarrow> bool" where
  "server_taking s \<longleftrightarrow> streamID (sl_conn s) \<noteq> 0 \<and> bodyW_open (sl_conn s) = Some True"

text \<open>What a pass on a connected loop changes.\<close>

definition server_same :: "server_loop \<Rightarrow> server_loop \<Rightarrow> bool" where
  "server_same s s' \<longleftrightarrow> streamID (sl_conn s') = streamID (sl_conn s) \<and>
     (bodyW_open (sl_conn s) \<noteq> None \<longrightarrow> bodyW_open (sl_conn s') \<noteq> None) \<and>
     lp_ping s' = lp_ping s \<and> lp_deadline s' = lp_deadline s"

lemma server_same_simps [simp]:
  "server_same s s" "server_same s (close_body s)" "server_same s (s\<lparr>lp_body := b\<rparr>)"
  "server_same s (close_body (s\<lparr>lp_body := b\<rparr>))"
  by (simp_all add: server_same_def close_body_def)

lemma server_settings_body: "bodyW_open (fold server_setting ss c) = bodyW_open c"
proof (induction ss arbitrary: c)
  case (Cons x ss)
  have "bodyW_open (server_setting x c) = bodyW_open c"
    by (cases "(x, c)" rule: server_setting.cases) (simp_all add: set_initial_window_def Let_def)
  then show ?case using Cons by simp
qed simp

lemma server_flow_same:
  "server_handleSettings ack ss (sl_conn s) = (c, b) \<Longrightarrow> server_same s (s\<lparr>sl_conn := c\<rparr>)"
  "server_handleWindowUpdate sid inc (sl_conn s) = (c, e) \<Longrightarrow> server_same s (s\<lparr>sl_conn := c\<rparr>)"
  using server_settings_keep [of ss "sl_conn s"] server_settings_body [of ss "sl_conn s"]
  by (auto simp: server_same_def server_handleSettings_def server_handleWindowUpdate_def add_window_def Let_def split: if_splits)

lemma close_body_body [simp]: "lp_body (close_body s) = lp_body s"
  by (simp add: close_body_def)

lemma write_frames_updates:
  "write_frames w [WriteWindowUpdate 0 len, WriteWindowUpdate sid len] = (out, ok) \<Longrightarrow> ok \<Longrightarrow> sid \<noteq> 0 \<Longrightarrow>
   total_credit 0 out = uint len \<and> total_credit sid out = uint len"
  by (auto split: if_splits)

definition reads_exactly :: "u32 \<Rightarrow> h2_frame \<Rightarrow> bytes \<Rightarrow> bytes \<Rightarrow> h2_out list \<Rightarrow> bool" where
  "reads_exactly sid f before after out \<longleftrightarrow>
     after = before @ accepted_data sid (Got f) \<and>
     total_credit 0 out = accepted_length sid (Got f) \<and> total_credit sid out = accepted_length sid (Got f)"

lemma server_frame_data:
  assumes "server_frame ra env (DataFrame sid data len ended) s = (s', out, None)" "server_ready s"
  shows "server_same s s' \<and> reads_exactly (streamID (sl_conn s)) (DataFrame sid data len ended) (lp_body s) (lp_body s') out"
proof (cases "sid = streamID (sl_conn s)")
  case False
  then show ?thesis using assms by (simp add: reads_exactly_def)
next
  case True
  let ?w = "if len \<noteq> 0 then write_frames (re_write env) [WriteWindowUpdate 0 len, WriteWindowUpdate sid len] else ([], True)"
  obtain o1 ok where w: "?w = (o1, ok)" by fastforce
  have "ok \<and> out = o1 \<and> s' = (if ended then close_body (s\<lparr>lp_body := lp_body s @ data\<rparr>) else s\<lparr>lp_body := lp_body s @ data\<rparr>)"
    using assms True w by (auto simp: server_ready_def Let_def split: if_splits prod.splits)
  moreover have "ok \<Longrightarrow> total_credit 0 o1 = uint len \<and> total_credit sid o1 = uint len"
    using w assms(2) True write_frames_updates [of "re_write env" len sid o1 ok]
    by (cases "len = 0") (auto simp: server_ready_def)
  ultimately show ?thesis using True by (simp add: reads_exactly_def)
qed

lemma server_frame_ready:
  assumes "server_frame ra env f s = (s', out, None)" "server_ready s"
  shows "server_same s s' \<and> reads_exactly (streamID (sl_conn s)) f (lp_body s) (lp_body s') out"
proof -
  have nz: "streamID (sl_conn s) \<noteq> 0" using assms(2) by (simp add: server_ready_def)
  show ?thesis
  proof (cases f)
    case (FlowFrame g)
    show ?thesis
    proof (cases g)
      case (SettingsFrame ack ss)
      obtain c b where h: "server_handleSettings ack ss (sl_conn s) = (c, b)" by fastforce
      then show ?thesis using assms FlowFrame SettingsFrame server_flow_same(1) [OF h]
        by (cases b) (auto simp: reads_exactly_def split: if_splits)
    next
      case (WindowUpdateFrame sid inc)
      obtain c e where h: "server_handleWindowUpdate sid inc (sl_conn s) = (c, e)" by fastforce
      then show ?thesis using assms FlowFrame WindowUpdateFrame server_flow_same(2) [OF h]
        by (auto simp: reads_exactly_def)
    qed
  next
    case (MetaHeadersFrame sid truncated ended hfs)
    then show ?thesis using assms(1) nz by (auto simp: reads_exactly_def split: if_splits)
  next
    case (DataFrame sid data len ended)
    then show ?thesis using assms server_frame_data by blast
  qed (use assms(1) in \<open>auto simp: reads_exactly_def split: if_splits\<close>)
qed

lemma server_frame_no_NoPong: "server_frame ra env f s \<noteq> (s', out, Some NoPong)"
proof (cases f)
  case (FlowFrame g)
  then show ?thesis by (cases g) (auto split: prod.splits bool.splits if_splits)
next
  case (MetaHeadersFrame sid truncated ended hfs)
  then show ?thesis by (auto simp: startRequest_def Let_def split: prod.splits if_splits sum.splits)
next
  case (DataFrame sid data len ended)
  then show ?thesis by (auto simp: Let_def split: prod.splits if_splits)
qed (auto split: if_splits)

lemma server_pass_None:
  assumes "server_ready s" "server_pass ra env s = (s', out, None)"
  obtains (timeout) d where "re_read env = TimedOut" "\<not> lp_ping s" "out = [WritePing False d]"
      "s' = s\<lparr>lp_deadline := re_now env + read_timeout s, lp_ping := True\<rparr>"
  | (frame) f where "re_read env = Got f"
      "server_frame ra env f (s\<lparr>lp_deadline := re_now env + read_timeout s, lp_ping := False\<rparr>) = (s', out, None)"
proof (cases "re_read env")
  case (Got f)
  then show ?thesis using assms frame by (auto simp: server_pass_def server_ready_def Let_def split: if_splits)
next
  case TimedOut
  then show ?thesis using assms timeout
    by (auto simp: server_pass_def server_ready_def probe_def Let_def split: if_splits option.splits)
next
  case ReadFailed
  then show ?thesis using assms by (auto simp: server_pass_def server_ready_def Let_def split: if_splits)
qed

interpretation server_reader: h2_reader "server_pass ra" lp_ping lp_deadline lp_body "\<lambda>s. streamID (sl_conn s)" server_ready server_taking
proof
  fix s s' :: server_loop and env :: read_env and out data len
  show "server_ready s \<Longrightarrow> streamID (sl_conn s) \<noteq> 0" by (simp add: server_ready_def)
  show "server_taking s \<Longrightarrow> server_ready s" by (simp add: server_taking_def server_ready_def)
  assume r: "server_ready s"
  show "server_ready s' \<and> streamID (sl_conn s') = streamID (sl_conn s) \<and>
      lp_body s' = lp_body s @ accepted_data (streamID (sl_conn s)) (re_read env) \<and>
      total_credit 0 out = accepted_length (streamID (sl_conn s)) (re_read env) \<and>
      total_credit (streamID (sl_conn s)) out = accepted_length (streamID (sl_conn s)) (re_read env)"
    if "server_pass ra env s = (s', out, None)"
    using r that
  proof (cases rule: server_pass_None)
    case (timeout d)
    then show ?thesis using r by (simp add: server_ready_def)
  next
    case (frame f)
    from server_frame_ready [OF frame(2)] r show ?thesis
      by (simp add: frame(1) server_ready_def server_same_def reads_exactly_def)
  qed
  show "(lp_ping s' \<longleftrightarrow> re_read env = TimedOut) \<and> (re_read env = TimedOut \<longrightarrow> \<not> lp_ping s) \<and>
      lp_deadline s' = re_now env + (if lp_ping s then masqueH2PingTimeout else masqueH2ReadIdleTimeout)"
    if "server_pass ra env s = (s', out, None)"
    using r that
  proof (cases rule: server_pass_None)
    case (timeout d)
    then show ?thesis by (simp add: read_timeout_def)
  next
    case (frame f)
    from server_frame_ready [OF frame(2)] r show ?thesis
      by (simp add: frame(1) server_ready_def server_same_def read_timeout_def)
  qed
  show "lp_ping s \<and> re_read env = TimedOut" if "server_pass ra env s = (s', out, Some NoPong)"
    using r that server_frame_no_NoPong
    by (auto simp: server_pass_def server_ready_def probe_def Let_def split: if_splits option.splits read_outcome.splits)
next
  fix s :: server_loop and env :: read_env and data len
  assume "server_taking s" "re_deadlineOk env" "re_body env" and w: "\<And>f. re_write env f"
    and "re_read env = Got (DataFrame (streamID (sl_conn s)) data len False)"
  then show "\<exists>s' out. server_pass ra env s = (s', out, None) \<and> server_taking s'"
    by (simp add: server_pass_def server_taking_def Let_def w split: prod.splits)
qed

section \<open>The client's loop keeps the contract\<close>

definition client_ready :: "client_loop \<Rightarrow> bool" where
  "client_ready s \<longleftrightarrow> streamID (cl_conn s) \<noteq> 0"

definition client_taking :: "client_loop \<Rightarrow> bool" where
  "client_taking s \<longleftrightarrow> streamID (cl_conn s) \<noteq> 0 \<and> cl_bodyOpen s \<and> \<not> cl_done s"

definition client_same :: "client_loop \<Rightarrow> client_loop \<Rightarrow> bool" where
  "client_same s s' \<longleftrightarrow> streamID (cl_conn s') = streamID (cl_conn s) \<and> lp_ping s' = lp_ping s \<and> lp_deadline s' = lp_deadline s"

lemma client_frame_data:
  assumes "client_frame env (DataFrame sid data len ended) s = (s', out, None)" "client_ready s"
  shows "client_same s s' \<and> reads_exactly (streamID (cl_conn s)) (DataFrame sid data len ended) (lp_body s) (lp_body s') out"
proof (cases "sid = streamID (cl_conn s)")
  case False
  then show ?thesis using assms by (simp add: reads_exactly_def client_same_def)
next
  case True
  let ?s = "s\<lparr>lp_body := lp_body s @ data\<rparr>"
  let ?w = "if len \<noteq> 0 then write_frames (client_write env ?s) [WriteWindowUpdate 0 len, WriteWindowUpdate sid len] else ([], True)"
  obtain o1 ok where w: "?w = (o1, ok)" by fastforce
  have "ok \<and> out = o1 \<and> s' = ?s"
    using assms True w by (auto simp: client_ready_def Let_def split: if_splits prod.splits)
  moreover have "ok \<Longrightarrow> total_credit 0 o1 = uint len \<and> total_credit sid o1 = uint len"
    using w assms(2) True write_frames_updates [of "client_write env ?s" len sid o1 ok]
    by (cases "len = 0") (auto simp: client_ready_def)
  ultimately show ?thesis using True by (simp add: reads_exactly_def client_same_def)
qed

lemma client_frame_ready:
  assumes "client_frame env f s = (s', out, None)" "client_ready s"
  shows "client_same s s' \<and> reads_exactly (streamID (cl_conn s)) f (lp_body s) (lp_body s') out"
proof (cases f)
  case (FlowFrame g)
  show ?thesis
  proof (cases g)
    case (SettingsFrame ack ss)
    obtain c b where h: "client_handleSettings (client_write env s WriteSettingsAck) ack ss (cl_conn s) = (c, b)" by fastforce
    then show ?thesis using assms FlowFrame SettingsFrame client_handleSettings_keep [OF h]
      by (cases b) (auto simp: reads_exactly_def client_same_def)
  next
    case (WindowUpdateFrame sid inc)
    then show ?thesis using assms FlowFrame
      by (auto simp: reads_exactly_def client_same_def client_handleWindowUpdate_def add_window_def Let_def split: if_splits)
  qed
next
  case (MetaHeadersFrame sid truncated ended hfs)
  then show ?thesis using assms
    by (auto simp: reads_exactly_def client_same_def client_response_def split: if_splits prod.splits sum.splits)
next
  case (DataFrame sid data len ended)
  then show ?thesis using assms client_frame_data by blast
qed (use assms(1) in \<open>auto simp: reads_exactly_def client_same_def split: if_splits\<close>)

lemma client_frame_no_NoPong: "client_frame env f s \<noteq> (s', out, Some NoPong)"
proof (cases f)
  case (FlowFrame g)
  then show ?thesis by (cases g) (auto split: prod.splits client_settings_result.splits)
next
  case (MetaHeadersFrame sid truncated ended hfs)
  then show ?thesis by (auto simp: client_response_def split: prod.splits if_splits sum.splits)
next
  case (DataFrame sid data len ended)
  then show ?thesis by (auto simp: Let_def split: prod.splits if_splits)
qed (auto split: if_splits)

lemma client_pass_None:
  assumes "client_pass env s = (s', out, None)"
  obtains (timeout) d where "re_read env = TimedOut" "\<not> lp_ping s" "out = [WritePing False d]"
      "s' = s\<lparr>lp_deadline := re_now env + read_timeout s, lp_ping := True\<rparr>"
  | (frame) f where "re_read env = Got f"
      "client_frame env f (s\<lparr>lp_deadline := re_now env + read_timeout s, lp_ping := False\<rparr>) = (s', out, None)"
proof (cases "re_read env")
  case (Got f)
  then show ?thesis using assms frame by (auto simp: client_pass_def Let_def split: if_splits)
next
  case TimedOut
  then show ?thesis using assms timeout
    by (auto simp: client_pass_def probe_def Let_def split: if_splits option.splits)
next
  case ReadFailed
  then show ?thesis using assms by (auto simp: client_pass_def Let_def split: if_splits)
qed

interpretation client_reader: h2_reader client_pass lp_ping lp_deadline lp_body "\<lambda>s. streamID (cl_conn s)" client_ready client_taking
proof
  fix s s' :: client_loop and env :: read_env and out data len
  show "client_ready s \<Longrightarrow> streamID (cl_conn s) \<noteq> 0" by (simp add: client_ready_def)
  show "client_taking s \<Longrightarrow> client_ready s" by (simp add: client_taking_def client_ready_def)
  assume r: "client_ready s"
  show "client_ready s' \<and> streamID (cl_conn s') = streamID (cl_conn s) \<and>
      lp_body s' = lp_body s @ accepted_data (streamID (cl_conn s)) (re_read env) \<and>
      total_credit 0 out = accepted_length (streamID (cl_conn s)) (re_read env) \<and>
      total_credit (streamID (cl_conn s)) out = accepted_length (streamID (cl_conn s)) (re_read env)"
    if "client_pass env s = (s', out, None)"
    using that
  proof (cases rule: client_pass_None)
    case (timeout d)
    then show ?thesis using r by (simp add: client_ready_def)
  next
    case (frame f)
    from client_frame_ready [OF frame(2)] r show ?thesis
      by (simp add: frame(1) client_ready_def client_same_def reads_exactly_def)
  qed
  show "(lp_ping s' \<longleftrightarrow> re_read env = TimedOut) \<and> (re_read env = TimedOut \<longrightarrow> \<not> lp_ping s) \<and>
      lp_deadline s' = re_now env + (if lp_ping s then masqueH2PingTimeout else masqueH2ReadIdleTimeout)"
    if "client_pass env s = (s', out, None)"
    using that
  proof (cases rule: client_pass_None)
    case (timeout d)
    then show ?thesis by (simp add: read_timeout_def)
  next
    case (frame f)
    from client_frame_ready [OF frame(2)] r show ?thesis
      by (simp add: frame(1) client_ready_def client_same_def read_timeout_def)
  qed
  show "lp_ping s \<and> re_read env = TimedOut" if "client_pass env s = (s', out, Some NoPong)"
    using that client_frame_no_NoPong
    by (auto simp: client_pass_def probe_def Let_def split: if_splits option.splits read_outcome.splits)
next
  fix s :: client_loop and env :: read_env and data len
  assume "client_taking s" "re_deadlineOk env" "re_body env" and w: "\<And>f. re_write env f"
    and "re_read env = Got (DataFrame (streamID (cl_conn s)) data len False)"
  then show "\<exists>s' out. client_pass env s = (s', out, None) \<and> client_taking s'"
    by (simp add: client_pass_def client_taking_def client_write_def Let_def w split: prod.splits)
qed

fun updates_of :: "h2_out list \<Rightarrow> flow_frame list" where
  "updates_of [] = []"
| "updates_of (WriteWindowUpdate sid inc # out) = WindowUpdateFrame sid inc # updates_of out"
| "updates_of (_ # out) = updates_of out"

lemma updates_credit:
  "sum_list (map conn_credit (updates_of out)) = total_credit 0 out"
  "sid \<noteq> 0 \<Longrightarrow> sum_list (map (stream_credit sid) (updates_of out)) = total_credit sid out"
  by (induction out rule: updates_of.induct) auto

section \<open>A writer and the reader at the other end\<close>

locale h2_pipe = h2_windows_contract + h2_reader
begin

lemma end_to_end:
  assumes "write_loop grab handle env p False c [] = Some (c', env', out, None)" "length p < 2 ^ 32"
    "taking s" "stream s = sid c" "delivers (sid c) (map snd out) envs"
  shows "\<exists>s' upd. read_loop pass envs s = (s', upd, None) \<and> taking s' \<and> body s' = body s @ p \<and>
    connW (fold handle (updates_of upd) c') + credit conn_credit env' = connW c + credit conn_credit env \<and>
    streamW (fold handle (updates_of upd) c') - initW (fold handle (updates_of upd) c') + credit (stream_credit (sid c)) env' =
      streamW c - initW c + credit (stream_credit (sid c)) env"
proof -
  have nz: "sid c \<noteq> 0" using ready_stream taking_ready assms(3,4) by metis
  have cat: "concat (map snd out) = p" using write_success [OF assms(1)] well_chunked_concat by fastforce
  have small: "length b < 2 ^ 32" if "b \<in> set (map snd out)" for b
  proof -
    have "length b \<le> length (concat (map snd out))" using that by (induction out) (auto intro: trans_le_add2)
    then show ?thesis using cat assms(2) by simp
  qed
  note ex = write_exact [OF assms(1)]
  obtain s' upd where r: "read_loop pass envs s = (s', upd, None)" "taking s'"
    using run_delivers [OF assms(3)] assms(4,5) by metis
  note run = run_continues [OF taking_ready [OF assms(3)] r(1)]
  have cr: "total_credit 0 upd = int (length p)" "total_credit (sid c) upd = int (length p)" "body s' = body s @ p"
    using run delivers_totals [OF assms(5) small] cat assms(4) by simp_all
  have "connW (fold handle (updates_of upd) c') = connW c' + int (length p)"
    "streamW (fold handle (updates_of upd) c') - initW (fold handle (updates_of upd) c') = streamW c' - initW c' + int (length p)"
    using fold_conn [of "updates_of upd" c'] fold_stream [of c' "updates_of upd"] cr updates_credit [where out = upd] ex nz
    by simp_all
  then show ?thesis using r cr(3) ex nz by (intro exI [of _ s'] exI [of _ upd]) simp
qed

end

interpretation to_server: h2_pipe peerConnWindow peerStreamWindow peerInitialWindow "\<lambda>c. uint (peerMaxFrameSize c)" streamID
  client_reserve client_flow "server_pass ra" lp_ping lp_deadline lp_body "\<lambda>s. streamID (sl_conn s)" server_ready server_taking
  by unfold_locales

interpretation to_client: h2_pipe peerConnWindow peerStreamWindow peerInitialWindow "\<lambda>c. uint (peerMaxFrameSize c)" streamID
  server_reserve server_flow client_pass lp_ping lp_deadline lp_body "\<lambda>s. streamID (cl_conn s)" client_ready client_taking
  by unfold_locales

section \<open>Before the request\<close>

lemma server_frame_unconnected:
  assumes "server_frame ra env f s = (s', out, None)" "streamID (sl_conn s) = 0" "bodyW_open (sl_conn s) = None" "\<not> lp_ping s"
  shows "(streamID (sl_conn s') = 0 \<and> bodyW_open (sl_conn s') = None \<and> lp_deadline s' = lp_deadline s \<or> server_ready s') \<and> \<not> lp_ping s'"
proof (cases f)
  case (FlowFrame g)
  show ?thesis
  proof (cases g)
    case (SettingsFrame ack ss)
    then show ?thesis using assms FlowFrame server_settings_keep [of ss "sl_conn s"] server_settings_body [of ss "sl_conn s"]
      by (auto simp: server_handleSettings_def split: if_splits)
  next
    case (WindowUpdateFrame sid inc)
    then show ?thesis using assms FlowFrame
      by (auto simp: server_handleWindowUpdate_def add_window_def Let_def split: if_splits)
  qed
next
  case (MetaHeadersFrame sid truncated ended hfs)
  then show ?thesis using assms
    by (auto simp: startRequest_def server_ready_def Let_def split: if_splits sum.splits)
qed (use assms in \<open>auto split: if_splits\<close>)

lemma server_pass_unconnected:
  assumes "server_pass ra env s = (s', out, None)" "streamID (sl_conn s) = 0" "bodyW_open (sl_conn s) = None" "\<not> lp_ping s"
  shows "(streamID (sl_conn s') = 0 \<and> bodyW_open (sl_conn s') = None \<and> lp_deadline s' = lp_deadline s \<or> server_ready s') \<and> \<not> lp_ping s'"
    "re_read env \<noteq> TimedOut"
  using assms server_frame_unconnected [of ra env _ s s' out]
  by (auto simp: server_pass_def Let_def split: read_outcome.splits)

lemma server_run_unconnected:
  assumes "read_loop (server_pass ra) envs s = (s', out, None)" "streamID (sl_conn s) = 0" "bodyW_open (sl_conn s) = None"
    "\<not> lp_ping s" "streamID (sl_conn s') = 0"
  shows "lp_deadline s' = lp_deadline s \<and> (\<forall>env\<in>set envs. re_read env \<noteq> TimedOut)"
  using assms
proof (induction envs arbitrary: s out)
  case (Cons env envs)
  from Cons.prems(1) obtain s1 o1 o2 where p: "server_pass ra env s = (s1, o1, None)" "read_loop (server_pass ra) envs s1 = (s', o2, None)"
    by (auto split: prod.splits option.splits)
  note a = server_pass_unconnected [OF p(1) Cons.prems(2-4)]
  have "\<not> server_ready s1"
    using server_reader.run_continues [OF _ p(2)] server_reader.ready_stream Cons.prems(5) by metis
  with Cons.IH [OF p(2)] a Cons.prems(5) show ?case by auto
qed simp

section \<open>Properties\<close>

definition quiet_twice :: "read_env list \<Rightarrow> bool" where
  "quiet_twice envs \<longleftrightarrow> (\<exists>pre e1 e2 post. envs = pre @ e1 # e2 # post \<and> re_read e1 = TimedOut \<and> re_read e2 = TimedOut)"

text \<open>
  Dead peers are noticed and live ones are kept. Once a stream exists, both read loops wait 30 seconds for a
  frame and, after a PING, 15 more: a loop that is still running has never seen two silent reads in a
  row, and a loop that gives up for want of an answer has; so a peer that sends any frame in time is
  never dropped for silence. Before a request was accepted, the server never extends the absolute
  deadline of the handshake, and a timeout ends the connection.
\<close>
theorem h2_silent_peer_dropped:
  "(server_ready s \<and> \<not> lp_ping s \<and> read_loop (server_pass ra) envs s = (s', out, r) \<longrightarrow>
      (r = None \<longrightarrow> \<not> quiet_twice envs) \<and> (r = Some NoPong \<longrightarrow> quiet_twice envs)) \<and>
   (client_ready c \<and> \<not> lp_ping c \<and> read_loop client_pass envs c = (c', out, r) \<longrightarrow>
      (r = None \<longrightarrow> \<not> quiet_twice envs) \<and> (r = Some NoPong \<longrightarrow> quiet_twice envs)) \<and>
   (server_ready s \<and> server_pass ra env s = (s', out, None) \<longrightarrow>
      lp_deadline s' = re_now env + (if lp_ping s then 15 else 30) * second) \<and>
   (client_ready c \<and> client_pass env c = (c', out, None) \<longrightarrow>
      lp_deadline c' = re_now env + (if lp_ping c then 15 else 30) * second) \<and>
   (read_loop (server_pass ra) envs (new_server_loop now) = (s', out, None) \<and> streamID (sl_conn s') = 0 \<longrightarrow>
      lp_deadline s' = now + 30 * second \<and> (\<forall>env\<in>set envs. re_read env \<noteq> TimedOut))"
proof (intro conjI impI; (elim conjE)?)
  assume s: "server_ready s" "\<not> lp_ping s" "read_loop (server_pass ra) envs s = (s', out, r)"
  show "\<not> quiet_twice envs" if "r = None"
    using server_reader.run_not_silent s that unfolding quiet_twice_def by metis
  show "quiet_twice envs" if "r = Some NoPong"
    using server_reader.run_gave_up [of s ra envs s' out] s that unfolding quiet_twice_def by blast
next
  assume c: "client_ready c" "\<not> lp_ping c" "read_loop client_pass envs c = (c', out, r)"
  show "\<not> quiet_twice envs" if "r = None"
    using client_reader.run_not_silent c that unfolding quiet_twice_def by metis
  show "quiet_twice envs" if "r = Some NoPong"
    using client_reader.run_gave_up [of c envs c' out] c that unfolding quiet_twice_def by blast
next
  assume "server_ready s" "server_pass ra env s = (s', out, None)"
  from server_reader.pass_silence [OF this] show "lp_deadline s' = re_now env + (if lp_ping s then 15 else 30) * second"
    by (simp add: masqueH2PingTimeout_def masqueH2ReadIdleTimeout_def)
next
  assume "client_ready c" "client_pass env c = (c', out, None)"
  from client_reader.pass_silence [OF this] show "lp_deadline c' = re_now env + (if lp_ping c then 15 else 30) * second"
    by (simp add: masqueH2PingTimeout_def masqueH2ReadIdleTimeout_def)
next
  assume "read_loop (server_pass ra) envs (new_server_loop now) = (s', out, None)" "streamID (sl_conn s') = 0"
  from server_run_unconnected [OF this(1) _ _ _ this(2)]
  show "lp_deadline s' = now + 30 * second" "\<forall>env\<in>set envs. re_read env \<noteq> TimedOut"
    by (simp_all add: new_server_loop_def new_server_conn_def masqueH2WriteTimeout_def)
qed

abbreviation silent_env :: read_env where
  "silent_env \<equiv> \<lparr>re_now = 5, re_deadlineOk = True, re_read = TimedOut, re_random = Some [1], re_write = (\<lambda>_. True), re_body = True\<rparr>"

theorem h2_silent_peer_dropped_witness:
  "\<exists>s' out. read_loop client_pass [silent_env, silent_env] new_client_loop = (s', out, Some NoPong) \<and>
     quiet_twice [silent_env, silent_env]"
proof -
  obtain s' out where l: "read_loop client_pass [silent_env, silent_env] new_client_loop = (s', out, Some NoPong)"
    by (simp add: client_pass_def probe_def new_client_loop_def client_write_def)
  with h2_silent_peer_dropped [of undefined undefined "[silent_env, silent_env]" undefined out "Some NoPong" new_client_loop s']
  show ?thesis by (auto simp: new_client_loop_def new_client_conn_def client_ready_def)
qed

text \<open>
  C25: bytes written at one end arrive at the other, and their credit comes back. When one end has written data
  (as the capsule streams do, without END\_STREAM), and the other end reads the DATA frames in order on the
  same stream and can hand them over, then exactly the data is appended to what its reader sees; and
  when the WINDOW\_UPDATE frames it sends in return have been handled, both windows of the
  writer are what they were before, plus the credit it received meanwhile. So a stream whose reader keeps up
  never runs out of window.
\<close>
theorem h2_bytes_end_to_end:
  assumes "p \<noteq> []" "length p < 2 ^ 32"
  shows "(client_writeData env p False c = Some (c', env', out, None) \<and> server_taking s \<and> streamID (sl_conn s) = streamID c \<and>
           delivers (streamID c) (map snd out) envs \<longrightarrow>
         (\<exists>s' upd. read_loop (server_pass ra) envs s = (s', upd, None) \<and> server_taking s' \<and> lp_body s' = lp_body s @ p \<and>
            (let c'' = fold client_flow (updates_of upd) c' in
             peerConnWindow c'' + credit conn_credit env' = peerConnWindow c + credit conn_credit env \<and>
             peerStreamWindow c'' - peerInitialWindow c'' + credit (stream_credit (streamID c)) env' =
               peerStreamWindow c - peerInitialWindow c + credit (stream_credit (streamID c)) env))) \<and>
         (server_writeData env p False d = Some (d', env', out, None) \<and> client_taking t \<and> streamID (cl_conn t) = streamID d \<and>
           delivers (streamID d) (map snd out) envs \<longrightarrow>
         (\<exists>t' upd. read_loop client_pass envs t = (t', upd, None) \<and> client_taking t' \<and> lp_body t' = lp_body t @ p \<and>
            (let d'' = fold server_flow (updates_of upd) d' in
             peerConnWindow d'' + credit conn_credit env' = peerConnWindow d + credit conn_credit env \<and>
             peerStreamWindow d'' - peerInitialWindow d'' + credit (stream_credit (streamID d)) env' =
               peerStreamWindow d - peerInitialWindow d + credit (stream_credit (streamID d)) env)))"
proof (intro conjI impI; elim conjE)
  assume w0: "client_writeData env p False c = Some (c', env', out, None)"
    and *: "server_taking s" "streamID (sl_conn s) = streamID c" "delivers (streamID c) (map snd out) envs"
  have "streamID c \<noteq> 0" using *(1,2) by (simp add: server_taking_def)
  then have w: "write_loop client_reserve client_flow env p False c [] = Some (c', env', out, None)"
    using w0 assms(1) by (simp add: client_writeData_def)
  show "\<exists>s' upd. read_loop (server_pass ra) envs s = (s', upd, None) \<and> server_taking s' \<and> lp_body s' = lp_body s @ p \<and>
            (let c'' = fold client_flow (updates_of upd) c' in
             peerConnWindow c'' + credit conn_credit env' = peerConnWindow c + credit conn_credit env \<and>
             peerStreamWindow c'' - peerInitialWindow c'' + credit (stream_credit (streamID c)) env' =
               peerStreamWindow c - peerInitialWindow c + credit (stream_credit (streamID c)) env)"
    unfolding Let_def by (rule to_server.end_to_end [OF w assms(2) *])
next
  assume w0: "server_writeData env p False d = Some (d', env', out, None)"
    and *: "client_taking t" "streamID (cl_conn t) = streamID d" "delivers (streamID d) (map snd out) envs"
  have w: "write_loop server_reserve server_flow env p False d [] = Some (d', env', out, None)"
    using w0 assms(1) by (simp add: server_writeData_def)
  show "\<exists>t' upd. read_loop client_pass envs t = (t', upd, None) \<and> client_taking t' \<and> lp_body t' = lp_body t @ p \<and>
            (let d'' = fold server_flow (updates_of upd) d' in
             peerConnWindow d'' + credit conn_credit env' = peerConnWindow d + credit conn_credit env \<and>
             peerStreamWindow d'' - peerInitialWindow d'' + credit (stream_credit (streamID d)) env' =
               peerStreamWindow d - peerInitialWindow d + credit (stream_credit (streamID d)) env)"
    unfolding Let_def by (rule to_client.end_to_end [OF w assms(2) *])
qed

abbreviation sample_read :: "bytes \<Rightarrow> read_env" where
  "sample_read b \<equiv> \<lparr>re_now = 5, re_deadlineOk = True, re_read = Got (DataFrame 1 b (word_of_nat (length b)) False),
     re_random = None, re_write = (\<lambda>_. True), re_body = True\<rparr>"

theorem h2_bytes_end_to_end_witness:
  "\<exists>s' upd. read_loop (server_pass []) [sample_read [1, 2, 3]]
       ((new_server_loop 0)\<lparr>sl_conn := new_server_conn\<lparr>streamID := 1, bodyW_open := Some True\<rparr>\<rparr>) = (s', upd, None) \<and>
     lp_body s' = [1, 2, 3] \<and>
     peerConnWindow (fold client_flow (updates_of upd) (new_client_conn\<lparr>peerConnWindow := 65532, peerStreamWindow := 65532\<rparr>)) = 65535"
proof -
  let ?s = "(new_server_loop 0)\<lparr>sl_conn := new_server_conn\<lparr>streamID := 1, bodyW_open := Some True\<rparr>\<rparr>"
  let ?c' = "new_client_conn\<lparr>peerConnWindow := 65532, peerStreamWindow := 65532\<rparr>"
  have w: "client_writeData [Wrote []] [1, 2, 3] False new_client_conn = Some (?c', [], [(False, [1, 2, 3])], None)"
    by (simp add: client_writeData_def write_loop.simps reserve_loop.simps client_reserve_def new_client_conn_def)
  have d: "delivers (streamID new_client_conn) (map snd [(False, [1, 2, 3])]) [sample_read [1, 2, 3]]"
    by (simp add: delivers_def new_client_conn_def)
  have t: "server_taking ?s" "streamID (sl_conn ?s) = streamID new_client_conn"
    by (simp_all add: server_taking_def new_client_conn_def)
  have "\<exists>s' upd. read_loop (server_pass []) [sample_read [1, 2, 3]] ?s = (s', upd, None) \<and> server_taking s' \<and>
      lp_body s' = lp_body ?s @ [1, 2, 3] \<and>
      (let c'' = fold client_flow (updates_of upd) ?c' in
       peerConnWindow c'' + credit conn_credit [] = peerConnWindow new_client_conn + credit conn_credit [Wrote []] \<and>
       peerStreamWindow c'' - peerInitialWindow c'' + credit (stream_credit (streamID new_client_conn)) [] =
         peerStreamWindow new_client_conn - peerInitialWindow new_client_conn + credit (stream_credit (streamID new_client_conn)) [Wrote []])"
    by (rule mp [OF conjunct1 [OF h2_bytes_end_to_end [where out = "[(False, [1, 2, 3])]"]]]) (use w d t in simp_all)
  then show ?thesis by (auto simp: Let_def new_server_loop_def new_client_conn_def)
qed

end
