(* ===== verification/H2_Dial.thy ===== *)
theory H2_Dial
  imports H2_Read
begin

text \<open>
  Opening and closing the client's HTTP/2 connection (\<^verbatim>\<open>dialMasqueH2ExtendedConnect\<close>,
  \<^verbatim>\<open>writeClientPrefaceAndSettings\<close>, \<^verbatim>\<open>writeExtendedConnectHeaders\<close> and
  \<^verbatim>\<open>closeRequestStream\<close> of \<^verbatim>\<open>masquecat_h2_client.go\<close>).

  The dialer waits twice, on \<^verbatim>\<open>settingsCh\<close> and on \<^verbatim>\<open>responseCh\<close>, while the read
  loop runs. Both channels have room for one message. In the model they hold every message ever sent, so that
  a second message, which would block its sender, is visible.
\<close>

section \<open>Waiting on a channel\<close>

datatype 'a awaited = Waiting | ContextOver | Received 'a

text \<open>The \<^verbatim>\<open>select\<close> between a channel and the context; \<open>pick\<close> is its choice when both are ready.\<close>

definition await :: "'a list \<Rightarrow> bool \<Rightarrow> bool \<Rightarrow> 'a awaited" where
  "await ch over pick =
     (if over \<and> (ch = [] \<or> pick) then ContextOver
      else case ch of [] \<Rightarrow> Waiting | m # _ \<Rightarrow> Received m)"

section \<open>Dialing\<close>

definition client_preface :: "h2_out list" where
  "client_preface =
     [WriteSettings [(SettingInitialWindowSize, masqueH2InitialWindow), (OtherSetting 3, 1),
        (OtherSetting 6, masqueH2MaxHeaderListSize)],
      WriteWindowUpdate 0 (masqueH2InitialWindow - 65535)]"

text \<open>What the network does during a dial: the passes of the read loop before and after the request is sent.\<close>

record dial_h2_calls =
  dh_conn :: "string \<Rightarrow> bool"
  dh_preface :: bool
  dh_reads :: "read_env list"
  dh_over :: bool
  dh_pick :: bool
  dh_headers :: bool
  dh_reads2 :: "read_env list"
  dh_over2 :: bool
  dh_pick2 :: bool

datatype dial_h2_error =
  DialBadURL | DialInvalidURL | DialTCPFailed | DialPreface | DialSettings string | DialContext | DialHeaders
| DialResponse h2_read_error

definition dial_address :: "url \<Rightarrow> string" where
  "dial_address u = (if Port u = [] then JoinHostPort (Hostname u) ''443'' else u_Host u)"

definition writeExtendedConnectHeaders :: "bool \<Rightarrow> url \<Rightarrow> header \<Rightarrow> client_loop \<Rightarrow> client_loop \<times> h2_out list \<times> bool" where
  "writeExtendedConnectHeaders ok u headers s =
     (let c = cl_conn s; s' = s\<lparr>cl_conn := c\<lparr>peerStreamWindow := peerInitialWindow c\<rparr>\<rparr> in
      if \<not> cl_done s \<and> ok then (s', [WriteHeaders (streamID c) (encodeMasqueH2RequestHeaders u headers)], True)
      else (s', [], False))"

text \<open>The second wait, after the request was written; \<open>running\<close> is whether the read loop has not ended yet.\<close>

definition await_response ::
  "dial_h2_calls \<Rightarrow> bool \<Rightarrow> client_loop \<Rightarrow> client_loop \<times> h2_out list \<times> (dial_h2_error + h2_response) option" where
  "await_response d running s =
     (case client_readLoop (if running then dh_reads2 d else []) s of
        (s', out, _) \<Rightarrow>
          (case await (cl_responseCh s') (dh_over2 d) (dh_pick2 d) of
             Waiting \<Rightarrow> (s', out, None)
           | ContextOver \<Rightarrow> (closeWithError ReadErr s', out, Some (Inl DialContext))
           | Received (Inl e) \<Rightarrow> (closeWithError e s', out, Some (Inl (DialResponse e)))
           | Received (Inr resp) \<Rightarrow> (s', out, Some (Inr resp))))"

definition await_settings ::
  "dial_h2_calls \<Rightarrow> url \<Rightarrow> header \<Rightarrow> client_loop \<Rightarrow> client_loop \<times> h2_out list \<times> (dial_h2_error + h2_response) option" where
  "await_settings d u headers s =
     (case client_readLoop (dh_reads d) s of
        (s1, out1, ended) \<Rightarrow>
          (case await (settingsCh (cl_conn s1)) (dh_over d) (dh_pick d) of
             Waiting \<Rightarrow> (s1, out1, None)
           | ContextOver \<Rightarrow> (closeWithError ReadErr s1, out1, Some (Inl DialContext))
           | Received (Some m) \<Rightarrow> (closeWithError ReadErr s1, out1, Some (Inl (DialSettings m)))
           | Received None \<Rightarrow>
               (case writeExtendedConnectHeaders (dh_headers d) u headers s1 of
                  (s2, out2, False) \<Rightarrow> (closeWithError WriteErr s2, out1 @ out2, Some (Inl DialHeaders))
                | (s2, out2, True) \<Rightarrow>
                    (case await_response d (ended = None) s2 of
                       (s3, out3, r) \<Rightarrow> (s3, out1 @ out2 @ out3, r)))))"

text \<open>
  The result: the connection, when one was opened, the frames written, and what the dial returned, if
  it is not still waiting.
\<close>

definition dialMasqueH2ExtendedConnect ::
  "string \<Rightarrow> header \<Rightarrow> dial_h2_calls \<Rightarrow> client_loop option \<times> h2_out list \<times> (dial_h2_error + h2_response) option" where
  "dialMasqueH2ExtendedConnect rawURL headers d =
     (case url_Parse rawURL of
        None \<Rightarrow> (None, [], Some (Inl DialBadURL))
      | Some u \<Rightarrow>
          if u_Scheme u \<noteq> ''https'' \<or> u_Host u = [] then (None, [], Some (Inl DialInvalidURL))
          else if \<not> dh_conn d (dial_address u) then (None, [], Some (Inl DialTCPFailed))
          else if \<not> dh_preface d then (Some (closeWithError WriteErr new_client_loop), [], Some (Inl DialPreface))
          else case await_settings d u headers new_client_loop of
                 (s, out, r) \<Rightarrow> (Some s, client_preface @ out, r))"

text \<open>\<^verbatim>\<open>closeRequestStream\<close>: the END\_STREAM frame, if it can be written, and then the connection.\<close>

definition closeRequestStream :: "bool \<Rightarrow> client_loop \<Rightarrow> client_loop \<times> h2_out list" where
  "closeRequestStream ok s =
     (closeWithError PeerGone s,
      if streamID (cl_conn s) \<noteq> 0 \<and> \<not> cl_done s \<and> ok then [WriteData (streamID (cl_conn s)) True []] else [])"

section \<open>Exactly one message\<close>

text \<open>Each channel got exactly one message if its \<^verbatim>\<open>sync.Once\<close> is used up, and none otherwise.\<close>

definition channels_ok :: "client_loop \<Rightarrow> bool" where
  "channels_ok s \<longleftrightarrow>
     length (settingsCh (cl_conn s)) = (if settingsDone (cl_conn s) then 1 else 0) \<and>
     length (cl_responseCh s) = (if cl_responseDone s then 1 else 0) \<and>
     (cl_done s \<longrightarrow> settingsDone (cl_conn s) \<and> cl_responseDone s)"

lemma channels_ok_new: "channels_ok new_client_loop"
  by (simp add: channels_ok_def new_client_loop_def new_client_conn_def)

lemma channels_ok_close: "channels_ok s \<Longrightarrow> channels_ok (closeWithError e s)"
  by (auto simp: channels_ok_def closeWithError_def Let_def)

lemma closed_after_close: "cl_done (closeWithError e s)"
  by (simp add: closeWithError_def Let_def)

lemma client_setting_channels:
  "client_setting x c = (c', e) \<Longrightarrow> settingsDone c' = settingsDone c \<and> settingsCh c' = settingsCh c"
  by (cases "(x, c)" rule: client_setting.cases) (auto simp: set_initial_window_def Let_def split: if_splits)

lemma client_settings_channels:
  "client_settings ss c = (c', e) \<Longrightarrow> settingsDone c' = settingsDone c \<and> settingsCh c' = settingsCh c"
proof (induction ss arbitrary: c)
  case (Cons x ss)
  obtain c1 e1 where c1: "client_setting x c = (c1, e1)" by fastforce
  show ?case using Cons.prems Cons.IH [of c1] c1 client_setting_channels [OF c1] by (cases e1) auto
qed simp

lemma handleSettings_channels:
  assumes "client_handleSettings ackOk ack ss c = (c', r)"
  shows "if ack \<or> settingsDone c then settingsDone c' = settingsDone c \<and> settingsCh c' = settingsCh c
    else settingsDone c' \<and> (\<exists>m. settingsCh c' = settingsCh c @ [m] \<and> (m = None \<longleftrightarrow> r = SettingsOk \<and> extendedConnectAllowed c'))"
proof (cases ack)
  case True
  then show ?thesis using assms by (simp add: client_handleSettings_def)
next
  case False
  obtain c1 e where s: "client_settings ss (c\<lparr>settingsDone := True\<rparr>) = (c1, e)" by fastforce
  note k = client_settings_channels [OF s]
  show ?thesis using assms False s k by (auto simp: client_handleSettings_def Let_def split: option.splits if_splits)
qed

definition same_channels :: "client_loop \<Rightarrow> client_loop \<Rightarrow> bool" where
  "same_channels s s' \<longleftrightarrow> cl_conn s' = cl_conn s \<and> cl_responseCh s' = cl_responseCh s \<and>
     cl_responseDone s' = cl_responseDone s \<and> cl_done s' = cl_done s"

lemma channels_ok_same: "same_channels s s' \<Longrightarrow> channels_ok s' = channels_ok s \<and> cl_done s' = cl_done s"
  by (simp add: same_channels_def channels_ok_def)

lemma client_data_channels:
  assumes "client_frame env (DataFrame sid data len ended) s = (s', out, r)"
  shows "same_channels s s'"
proof -
  have "s' = s \<or> s' = s\<lparr>lp_body := lp_body s @ data\<rparr> \<or> s' = s\<lparr>lp_body := lp_body s @ data, cl_bodyOpen := False\<rparr>"
    using assms by (auto simp del: write_frames.simps simp: Let_def split: if_splits prod.splits)
  then show ?thesis by (auto simp: same_channels_def)
qed

lemma channels_ok_frame:
  assumes "client_frame env f s = (s', out, r)" "channels_ok s"
  shows "channels_ok s' \<and> (cl_done s' \<longleftrightarrow> cl_done s)"
proof (cases f)
  case (FlowFrame g)
  show ?thesis
  proof (cases g)
    case (SettingsFrame ack ss)
    obtain c b where h: "client_handleSettings (client_write env s WriteSettingsAck) ack ss (cl_conn s) = (c, b)" by fastforce
    then have "s' = s\<lparr>cl_conn := c\<rparr>" using assms(1) FlowFrame SettingsFrame by (cases b) auto
    then show ?thesis using assms(2) handleSettings_channels [OF h] by (auto simp: channels_ok_def split: if_splits)
  next
    case (WindowUpdateFrame sid inc)
    then show ?thesis using assms FlowFrame
      by (auto simp: channels_ok_def client_handleWindowUpdate_def add_window_def Let_def split: if_splits)
  qed
next
  case (MetaHeadersFrame sid truncated ended hfs)
  then show ?thesis using assms
    by (auto simp: channels_ok_def client_response_def split: if_splits prod.splits sum.splits)
next
  case (DataFrame sid data len ended)
  then show ?thesis using assms client_data_channels [of env sid data len ended s s' out r] channels_ok_same by blast
qed (use assms in \<open>auto split: if_splits\<close>)

lemma channels_ok_pass:
  assumes "client_pass env s = (s', out, r)" "channels_ok s"
  shows "channels_ok s' \<and> (cl_done s' \<longleftrightarrow> cl_done s)"
proof (cases "re_read env")
  case (Got f)
  let ?s = "s\<lparr>lp_deadline := re_now env + read_timeout s, lp_ping := False\<rparr>"
  have "channels_ok ?s" "cl_done ?s = cl_done s" using assms(2) by (simp_all add: channels_ok_def)
  then show ?thesis using assms Got channels_ok_frame [of env f ?s s' out r]
    by (auto simp: client_pass_def Let_def split: if_splits)
qed (use assms in \<open>auto simp: client_pass_def probe_def channels_ok_def Let_def split: if_splits option.splits\<close>)

lemma channels_ok_run:
  "read_loop client_pass envs s = (s', out, r) \<Longrightarrow> channels_ok s \<Longrightarrow> channels_ok s' \<and> (cl_done s' \<longleftrightarrow> cl_done s)"
proof (induction envs arbitrary: s out)
  case (Cons env envs)
  obtain s1 o1 r1 where p: "client_pass env s = (s1, o1, r1)" using prod_cases3 by blast
  note a = channels_ok_pass [OF p Cons.prems(2)]
  show ?case
  proof (cases r1)
    case (Some e)
    then show ?thesis using Cons.prems(1) p a by auto
  next
    case None
    then obtain o2 where "read_loop client_pass envs s1 = (s', o2, r)" using Cons.prems(1) p by (auto split: prod.splits)
    from Cons.IH [OF this] a show ?thesis by blast
  qed
qed simp

lemma channels_ok_readLoop:
  assumes "client_readLoop envs s = (s', out, r)" "channels_ok s"
  shows "channels_ok s'" "r \<noteq> None \<Longrightarrow> cl_done s'"
  using assms channels_ok_run [of envs s] channels_ok_close closed_after_close
  by (auto simp: client_readLoop_def split: prod.splits option.splits)

text \<open>The states of a client connection: passes of the loop, its end, closes from elsewhere and the request, in any order.\<close>

inductive client_conn_reachable :: "client_loop \<Rightarrow> bool" where
  "client_conn_reachable new_client_loop"
| "client_conn_reachable s \<Longrightarrow> client_pass env s = (s', out, r) \<Longrightarrow> client_conn_reachable s'"
| "client_conn_reachable s \<Longrightarrow> client_conn_reachable (closeWithError e s)"
| "client_conn_reachable s \<Longrightarrow> writeExtendedConnectHeaders ok u headers s = (s', out, b) \<Longrightarrow> client_conn_reachable s'"
| "client_conn_reachable s \<Longrightarrow> client_reserve want (cl_conn s) = Some (c, n) \<Longrightarrow> client_conn_reachable (s\<lparr>cl_conn := c\<rparr>)"

lemma channels_ok_headers:
  "writeExtendedConnectHeaders ok u headers s = (s', out, b) \<Longrightarrow> channels_ok s \<Longrightarrow> channels_ok s'"
  by (auto simp: writeExtendedConnectHeaders_def channels_ok_def Let_def split: if_splits)

lemma channels_ok_reachable: "client_conn_reachable s \<Longrightarrow> channels_ok s"
proof (induction rule: client_conn_reachable.induct)
  case (5 s want c n)
  then have "settingsDone c = settingsDone (cl_conn s)" "settingsCh c = settingsCh (cl_conn s)"
    by (auto simp: client_reserve_def Let_def split: if_splits)
  with 5 show ?case by (simp add: channels_ok_def)
qed (use channels_ok_new channels_ok_pass channels_ok_close channels_ok_headers in blast)+

section \<open>Properties\<close>

text \<open>
  The dialer is always answered, and never twice. However the passes of the read loop, closes from other goroutines,
  the request and writes interleave, each of the two channels receives at most one message, so that no
  sender ever blocks on them; and once the connection is closed, as it is whenever the read loop ends,
  both have received exactly one, so that a waiting dialer goes on.
\<close>
theorem h2_dialer_answered_once:
  assumes "client_conn_reachable s"
  shows "length (settingsCh (cl_conn s)) \<le> 1 \<and> length (cl_responseCh s) \<le> 1 \<and>
    (cl_done s \<longrightarrow> length (settingsCh (cl_conn s)) = 1 \<and> length (cl_responseCh s) = 1) \<and>
    (client_readLoop envs s = (s', out, Some e) \<longrightarrow> cl_done s' \<and> length (settingsCh (cl_conn s')) = 1 \<and> length (cl_responseCh s') = 1)"
proof -
  note ok = channels_ok_reachable [OF assms]
  have "cl_done s' \<and> channels_ok s'" if "client_readLoop envs s = (s', out, Some e)"
    using channels_ok_readLoop [OF that ok] by simp
  then show ?thesis using ok by (auto simp: channels_ok_def)
qed

theorem h2_dialer_answered_once_witness:
  "length (settingsCh (cl_conn (closeWithError NoPong new_client_loop))) = 1"
proof -
  have "client_conn_reachable (closeWithError NoPong new_client_loop)" by (intro client_conn_reachable.intros(1,3))
  from h2_dialer_answered_once [OF this] closed_after_close show ?thesis by blast
qed

section \<open>What a dial needs from its peer\<close>

lemma settings_allowed:
  "client_settings ss c = (c', e) \<Longrightarrow> extendedConnectAllowed c' \<Longrightarrow>
   extendedConnectAllowed c \<or> (SettingEnableConnectProtocol, 1) \<in> set ss"
proof (induction ss arbitrary: c)
  case (Cons x ss)
  obtain c1 e1 where c1: "client_setting x c = (c1, e1)" by fastforce
  have "extendedConnectAllowed c1 \<Longrightarrow> extendedConnectAllowed c \<or> x = (SettingEnableConnectProtocol, 1)"
    using c1 by (cases "(x, c)" rule: client_setting.cases) (auto simp: set_initial_window_def Let_def split: if_splits)
  then show ?case using Cons.prems Cons.IH [of c1] c1 by (cases e1) auto
qed simp

lemma handleSettings_allowed:
  assumes "client_handleSettings ackOk False ss c = (c', r)" "extendedConnectAllowed c'"
  shows "extendedConnectAllowed c \<or> (SettingEnableConnectProtocol, 1) \<in> set ss"
proof -
  obtain c1 e where s: "client_settings ss (c\<lparr>settingsDone := True\<rparr>) = (c1, e)" by fastforce
  have "extendedConnectAllowed c1" using assms s by (auto simp: client_handleSettings_def Let_def split: option.splits if_splits)
  from settings_allowed [OF s this] show ?thesis by simp
qed

definition same_settings :: "masqueH2ClientConn \<Rightarrow> masqueH2ClientConn \<Rightarrow> bool" where
  "same_settings c c' \<longleftrightarrow> settingsDone c' = settingsDone c \<and> settingsCh c' = settingsCh c \<and>
     extendedConnectAllowed c' = extendedConnectAllowed c"

text \<open>Only a SETTINGS frame changes what the dialer is told.\<close>

lemma frame_settings:
  assumes "client_frame env f s = (s', out, r)"
  shows "same_settings (cl_conn s) (cl_conn s') \<or>
    (\<exists>ss ackOk q. f = FlowFrame (SettingsFrame False ss) \<and> client_handleSettings ackOk False ss (cl_conn s) = (cl_conn s', q))"
proof (cases f)
  case (FlowFrame g)
  show ?thesis
  proof (cases g)
    case (SettingsFrame ack ss)
    obtain c b where h: "client_handleSettings (client_write env s WriteSettingsAck) ack ss (cl_conn s) = (c, b)" by fastforce
    then have "s' = s\<lparr>cl_conn := c\<rparr>" using assms(1) FlowFrame SettingsFrame by (cases b) auto
    then show ?thesis using h FlowFrame SettingsFrame by (cases ack) (auto simp: same_settings_def client_handleSettings_def)
  next
    case (WindowUpdateFrame sid inc)
    then show ?thesis using assms FlowFrame
      by (auto simp: same_settings_def client_handleWindowUpdate_def add_window_def Let_def split: if_splits)
  qed
next
  case (MetaHeadersFrame sid truncated ended hfs)
  then show ?thesis using assms
    by (auto simp: same_settings_def client_response_def split: if_splits prod.splits sum.splits)
next
  case (DataFrame sid data len ended)
  then show ?thesis using assms client_data_channels [of env sid data len ended s s' out r]
    by (simp add: same_channels_def same_settings_def)
qed (use assms in \<open>auto simp: same_settings_def split: if_splits\<close>)

lemma pass_settings:
  assumes "client_pass env s = (s', out, r)"
  shows "same_settings (cl_conn s) (cl_conn s') \<or>
    (\<exists>ss ackOk q. re_read env = Got (FlowFrame (SettingsFrame False ss)) \<and>
       client_handleSettings ackOk False ss (cl_conn s) = (cl_conn s', q))"
proof (cases "re_read env")
  case (Got f)
  then show ?thesis using assms frame_settings [of env f "s\<lparr>lp_deadline := re_now env + read_timeout s, lp_ping := False\<rparr>" s' out r]
    by (auto simp: client_pass_def same_settings_def Let_def split: if_splits)
qed (use assms in \<open>auto simp: client_pass_def probe_def same_settings_def Let_def split: if_splits option.splits\<close>)

lemma settings_kept:
  "read_loop client_pass envs s = (s', out, r) \<Longrightarrow> settingsDone (cl_conn s) \<Longrightarrow>
   settingsCh (cl_conn s') = settingsCh (cl_conn s)"
proof (induction envs arbitrary: s out)
  case (Cons env envs)
  obtain s1 o1 r1 where p: "client_pass env s = (s1, o1, r1)" using prod_cases3 by blast
  have s1: "settingsCh (cl_conn s1) = settingsCh (cl_conn s) \<and> settingsDone (cl_conn s1)"
    using pass_settings [OF p] Cons.prems(2)
    by (auto simp: same_settings_def dest!: handleSettings_channels)
  then show ?case using Cons.prems(1) p Cons.IH [of s1] by (auto split: option.splits prod.splits)
qed simp

lemma success_needs_setting:
  assumes "read_loop client_pass envs s = (s', out, r)" "\<not> settingsDone (cl_conn s)" "settingsCh (cl_conn s) = []"
    "\<not> extendedConnectAllowed (cl_conn s)" "settingsCh (cl_conn s') = [None]"
  shows "\<exists>env\<in>set envs. \<exists>ss. re_read env = Got (FlowFrame (SettingsFrame False ss)) \<and> (SettingEnableConnectProtocol, 1) \<in> set ss"
  using assms
proof (induction envs arbitrary: s out)
  case (Cons env envs)
  obtain s1 o1 r1 where p: "client_pass env s = (s1, o1, r1)" using prod_cases3 by blast
  from pass_settings [OF p] show ?case
  proof (elim disjE exE conjE)
    assume same: "same_settings (cl_conn s) (cl_conn s1)"
    show ?thesis
    proof (cases r1)
      case (Some e)
      then show ?thesis using Cons.prems p same by (auto simp: same_settings_def)
    next
      case None
      then obtain o2 where "read_loop client_pass envs s1 = (s', o2, r)" using Cons.prems(1) p by (auto split: prod.splits)
      from Cons.IH [OF this] Cons.prems same show ?thesis by (auto simp: same_settings_def)
    qed
  next
    fix ss ackOk q
    assume f: "re_read env = Got (FlowFrame (SettingsFrame False ss))"
      and h: "client_handleSettings ackOk False ss (cl_conn s) = (cl_conn s1, q)"
    obtain m where m: "settingsDone (cl_conn s1)" "settingsCh (cl_conn s1) = [m]" "m = None \<longrightarrow> extendedConnectAllowed (cl_conn s1)"
      using handleSettings_channels [OF h] Cons.prems(2,3) by (auto split: if_splits)
    have "settingsCh (cl_conn s') = [m]"
      using Cons.prems(1) p m settings_kept [of envs s1 s'] by (auto split: option.splits prod.splits)
    then have "extendedConnectAllowed (cl_conn s1)" using m(3) Cons.prems(5) by simp
    from handleSettings_allowed [OF h this] Cons.prems(4) f show ?thesis by auto
  qed
qed simp

lemma readLoop_success:
  assumes "client_readLoop envs new_client_loop = (s, out, ended)" "settingsCh (cl_conn s) = [None]"
  shows "\<exists>env\<in>set envs. \<exists>ss. re_read env = Got (FlowFrame (SettingsFrame False ss)) \<and> (SettingEnableConnectProtocol, 1) \<in> set ss"
proof -
  obtain s1 o1 r where l: "read_loop client_pass envs new_client_loop = (s1, o1, r)" using prod_cases3 by blast
  have "s = s1 \<or> s = closeWithError (the r) s1" using assms(1) l by (auto simp: client_readLoop_def split: option.splits)
  then have "settingsCh (cl_conn s1) = [None]" using assms(2) by (auto simp: closeWithError_def Let_def split: if_splits)
  from success_needs_setting [OF l _ _ _ this] show ?thesis by (simp add: new_client_loop_def new_client_conn_def)
qed

lemma client_frame_stream:
  assumes "client_frame env f s = (s', out, r)"
  shows "streamID (cl_conn s') = streamID (cl_conn s)"
proof (cases f)
  case (FlowFrame g)
  show ?thesis
  proof (cases g)
    case (SettingsFrame ack ss)
    obtain c b where h: "client_handleSettings (client_write env s WriteSettingsAck) ack ss (cl_conn s) = (c, b)" by fastforce
    then show ?thesis using assms(1) FlowFrame SettingsFrame client_handleSettings_keep [OF h] by (cases b) auto
  next
    case (WindowUpdateFrame sid inc)
    then show ?thesis using assms FlowFrame
      by (auto simp: client_handleWindowUpdate_def add_window_def Let_def split: if_splits)
  qed
next
  case (MetaHeadersFrame sid truncated ended hfs)
  then show ?thesis using assms by (auto simp: client_response_def split: if_splits prod.splits sum.splits)
next
  case (DataFrame sid data len ended)
  then show ?thesis using assms client_data_channels [of env sid data len ended s s' out r] by (simp add: same_channels_def)
qed (use assms in \<open>auto split: if_splits\<close>)

lemma client_pass_stream:
  assumes "client_pass env s = (s', out, r)"
  shows "streamID (cl_conn s') = streamID (cl_conn s)"
proof (cases "re_read env")
  case (Got f)
  then show ?thesis using assms client_frame_stream [of env f "s\<lparr>lp_deadline := re_now env + read_timeout s, lp_ping := False\<rparr>" s' out r]
    by (auto simp: client_pass_def Let_def split: if_splits)
qed (use assms in \<open>auto simp: client_pass_def probe_def Let_def split: if_splits option.splits\<close>)

lemma client_run_stream:
  "read_loop client_pass envs s = (s', out, r) \<Longrightarrow> streamID (cl_conn s') = streamID (cl_conn s)"
proof (induction envs arbitrary: s out)
  case (Cons env envs)
  obtain s1 o1 r1 where p: "client_pass env s = (s1, o1, r1)" using prod_cases3 by blast
  show ?case using Cons.prems p client_pass_stream [OF p] Cons.IH [of s1] by (auto split: option.splits prod.splits)
qed simp

lemma client_readLoop_stream:
  assumes "client_readLoop envs new_client_loop = (s, out, ended)"
  shows "streamID (cl_conn s) = 1"
proof -
  obtain s1 o1 r where l: "read_loop client_pass envs new_client_loop = (s1, o1, r)" using prod_cases3 by blast
  have "s = s1 \<or> s = closeWithError (the r) s1" using assms l by (auto simp: client_readLoop_def split: option.splits)
  then show ?thesis using client_run_stream [OF l] by (auto simp: closeWithError_def new_client_loop_def new_client_conn_def Let_def)
qed

lemma await_response_outcome:
  assumes "await_response d running s = (s', out, r)" "channels_ok s"
  shows "case r of None \<Rightarrow> cl_responseCh s' = [] \<and> \<not> cl_done s' \<and> \<not> dh_over2 d
    | Some (Inl e) \<Rightarrow> cl_done s' | Some (Inr resp) \<Rightarrow> cl_responseCh s' = [Inr resp]"
proof -
  obtain s1 o1 e1 where l: "client_readLoop (if running then dh_reads2 d else []) s = (s1, o1, e1)" using prod_cases3 by blast
  note ok = channels_ok_readLoop(1) [OF l assms(2)]
  show ?thesis
  proof (cases "await (cl_responseCh s1) (dh_over2 d) (dh_pick2 d)")
    case Waiting
    then show ?thesis using assms(1) l ok by (auto simp: await_response_def await_def channels_ok_def split: if_splits list.splits)
  next
    case ContextOver
    then show ?thesis using assms(1) l closed_after_close by (auto simp: await_response_def)
  next
    case (Received m)
    then have "cl_responseCh s1 = [m]" using ok by (auto simp: await_def channels_ok_def split: if_splits list.splits)
    then show ?thesis using assms(1) l Received closed_after_close by (cases m) (auto simp: await_response_def)
  qed
qed

lemma await_settings_outcome:
  "case await_settings d u headers new_client_loop of
       (s, out, Some (Inl e)) \<Rightarrow> cl_done s
     | (s, out, Some (Inr resp)) \<Rightarrow>
         cl_responseCh s = [Inr resp] \<and> WriteHeaders 1 (encodeMasqueH2RequestHeaders u headers) \<in> set out \<and>
         (\<exists>env ss. env \<in> set (dh_reads d) \<and> re_read env = Got (FlowFrame (SettingsFrame False ss)) \<and>
             (SettingEnableConnectProtocol, 1) \<in> set ss)
     | (s, out, None) \<Rightarrow> \<not> cl_done s \<and>
          (settingsCh (cl_conn s) = [] \<and> \<not> dh_over d \<or> cl_responseCh s = [] \<and> \<not> dh_over2 d)"
proof -
  obtain s1 out1 ended where l: "client_readLoop (dh_reads d) new_client_loop = (s1, out1, ended)" using prod_cases3 by blast
  note ok = channels_ok_readLoop(1) [OF l channels_ok_new]
  show ?thesis
  proof (cases "await (settingsCh (cl_conn s1)) (dh_over d) (dh_pick d)")
    case Waiting
    then show ?thesis using l ok by (auto simp: await_settings_def await_def channels_ok_def split: if_splits list.splits)
  next
    case ContextOver
    then show ?thesis using l closed_after_close by (simp add: await_settings_def)
  next
    case (Received m)
    then have ch: "settingsCh (cl_conn s1) = [m]" using ok by (auto simp: await_def channels_ok_def split: if_splits list.splits)
    show ?thesis
    proof (cases m)
      case (Some t)
      then show ?thesis using l Received closed_after_close by (simp add: await_settings_def)
    next
      case None
      note first = readLoop_success [OF l, unfolded ch None, OF refl]
      obtain s2 out2 b where h: "writeExtendedConnectHeaders (dh_headers d) u headers s1 = (s2, out2, b)" using prod_cases3 by blast
      show ?thesis
      proof (cases b)
        case False
        then show ?thesis using l Received None h closed_after_close by (simp add: await_settings_def)
      next
        case True
        have sid: "streamID (cl_conn s1) = 1"
          using client_readLoop_stream [OF l] by simp
        then have o2: "out2 = [WriteHeaders 1 (encodeMasqueH2RequestHeaders u headers)]"
          using h True by (auto simp: writeExtendedConnectHeaders_def Let_def split: if_splits)
        obtain s3 out3 r where a: "await_response d (ended = None) s2 = (s3, out3, r)" using prod_cases3 by blast
        note ar = await_response_outcome [OF a channels_ok_headers [OF h ok]]
        have eq: "await_settings d u headers new_client_loop = (s3, out1 @ out2 @ out3, r)"
          using l Received None h True a by (simp add: await_settings_def)
        show ?thesis
        proof (cases r)
          case None
          then show ?thesis using ar by (simp add: eq)
        next
          case (Some q)
          then show ?thesis using ar o2 first by (cases q) (auto simp: eq)
        qed
      qed
    qed
  qed
qed

text \<open>
  What a dial over HTTP/2 returns. If it returns an error, no connection was opened or it has been
  closed. If it returns a response, the peer had sent a SETTINGS frame with
  \<^verbatim>\<open>SETTINGS_ENABLE_CONNECT_PROTOCOL = 1\<close>, the request of the given URL was written on the
  stream, and the response is the one the read loop passed on. It waits only while the peer has not
  decided, the connection is open and the context is live.
\<close>
theorem h2_dial_outcomes:
  "case dialMasqueH2ExtendedConnect rawURL headers d of
     (conn, out, Some (Inl e)) \<Rightarrow> conn = None \<or> (\<exists>s. conn = Some s \<and> cl_done s)
   | (conn, out, Some (Inr resp)) \<Rightarrow>
       (\<exists>s u. conn = Some s \<and> url_Parse rawURL = Some u \<and> cl_responseCh s = [Inr resp] \<and>
          WriteHeaders 1 (encodeMasqueH2RequestHeaders u headers) \<in> set out \<and>
          (\<exists>env ss. env \<in> set (dh_reads d) \<and> re_read env = Got (FlowFrame (SettingsFrame False ss)) \<and>
             (SettingEnableConnectProtocol, 1) \<in> set ss))
   | (conn, out, None) \<Rightarrow>
       (\<exists>s. conn = Some s \<and> \<not> cl_done s \<and>
          (settingsCh (cl_conn s) = [] \<and> \<not> dh_over d \<or> cl_responseCh s = [] \<and> \<not> dh_over2 d))"
proof -
  show ?thesis
  proof (cases "url_Parse rawURL")
    case None
    then show ?thesis by (simp add: dialMasqueH2ExtendedConnect_def)
  next
    case (Some u)
    obtain s out r where a: "await_settings d u headers new_client_loop = (s, out, r)" using prod_cases3 by blast
    show ?thesis
    proof (cases "u_Scheme u = ''https'' \<and> u_Host u \<noteq> [] \<and> dh_conn d (dial_address u) \<and> dh_preface d")
      case False
      then show ?thesis using Some closed_after_close by (auto simp: dialMasqueH2ExtendedConnect_def)
    next
      case True
      then have "dialMasqueH2ExtendedConnect rawURL headers d = (Some s, client_preface @ out, r)"
        using Some a by (simp add: dialMasqueH2ExtendedConnect_def)
      then show ?thesis using await_settings_outcome [of d u headers] a Some by (cases r) (auto split: sum.splits)
    qed
  qed
qed

end
