(* ===== verification/H2_Server.thy ===== *)
theory H2_Server
  imports H2_Read
begin

text \<open>
  The server's side of an HTTP/2 connection above the read loop (\<^verbatim>\<open>masquecat_h2.go\<close>): the response writer
  that carries the capsules, \<^verbatim>\<open>acceptMasqueH2Stream\<close>, \<^verbatim>\<open>serveConn\<close>, and the
  server with its listeners, connections and \<^verbatim>\<open>Close\<close>.
\<close>

section \<open>The response writer\<close>

record masqueH2ResponseWriter =
  rw2_streamID :: u32
  rw2_header :: header
  rw2_wroteHeader :: bool
  rw2_ended :: bool

text \<open>\<open>ok\<close> is whether the HEADERS frame can be written. The result: the writer, what was written, and success.\<close>

definition writeHeaderLocked :: "bool \<Rightarrow> nat \<Rightarrow> masqueH2ResponseWriter \<Rightarrow> masqueH2ResponseWriter \<times> h2_out list \<times> bool" where
  "writeHeaderLocked ok statusCode w =
     (if rw2_wroteHeader w \<or> rw2_ended w then (w, [], True)
      else if ok then
        (w\<lparr>rw2_wroteHeader := True\<rparr>, [WriteHeaders (rw2_streamID w) (encodeMasqueH2ResponseHeaders statusCode (rw2_header w))], True)
      else (w, [], False))"

definition data_out :: "u32 \<Rightarrow> data_frames \<Rightarrow> h2_out list" where
  "data_out sid frames = map (\<lambda>(f, b). WriteData sid f b) frames"

text \<open>\<open>env\<close> is what happens to the writer while it sends DATA frames; \<open>None\<close> while it waits for credit.\<close>

definition rw_Write ::
  "bool \<Rightarrow> h2_event list \<Rightarrow> bytes \<Rightarrow> masqueH2ResponseWriter \<Rightarrow> masqueHTTP2Conn \<Rightarrow>
   (masqueH2ResponseWriter \<times> masqueHTTP2Conn \<times> h2_out list \<times> h2_write_error option) option" where
  "rw_Write ok env p w c =
     (if rw2_ended w then Some (w, c, [], Some ErrClosed)
      else case writeHeaderLocked ok 200 w of
             (w', out, False) \<Rightarrow> Some (w', c, out, Some FrameWriteError)
           | (w', out, True) \<Rightarrow>
               if p = [] then Some (w', c, out, None)
               else (case server_writeData env p False c of
                       None \<Rightarrow> None
                     | Some (c', env', frames, r) \<Rightarrow> Some (w', c', out @ data_out (rw2_streamID w') frames, r)))"

definition rw_finish ::
  "bool \<Rightarrow> h2_event list \<Rightarrow> masqueH2ResponseWriter \<Rightarrow> masqueHTTP2Conn \<Rightarrow>
   (masqueH2ResponseWriter \<times> masqueHTTP2Conn \<times> h2_out list \<times> h2_write_error option) option" where
  "rw_finish ok env w c =
     (if rw2_ended w then Some (w, c, [], None)
      else case writeHeaderLocked ok 200 w of
             (w', out, False) \<Rightarrow> Some (w', c, out, Some FrameWriteError)
           | (w', out, True) \<Rightarrow>
               (case server_writeData env [] True c of
                  None \<Rightarrow> None
                | Some (c', env', frames, r) \<Rightarrow>
                    Some (w'\<lparr>rw2_ended := True\<rparr>, c', out @ data_out (rw2_streamID w') frames, r)))"

datatype rw_op = OpHeader nat | OpWrite bytes | OpFlush | OpFinish

fun rw_exec ::
  "rw_op \<Rightarrow> bool \<Rightarrow> h2_event list \<Rightarrow> masqueH2ResponseWriter \<Rightarrow> masqueHTTP2Conn \<Rightarrow>
   (masqueH2ResponseWriter \<times> masqueHTTP2Conn \<times> h2_out list \<times> h2_write_error option) option" where
  "rw_exec (OpHeader code) ok env w c = (case writeHeaderLocked ok code w of (w', out, _) \<Rightarrow> Some (w', c, out, None))"
| "rw_exec OpFlush ok env w c = (case writeHeaderLocked ok 200 w of (w', out, _) \<Rightarrow> Some (w', c, out, None))"
| "rw_exec (OpWrite p) ok env w c = rw_Write ok env p w c"
| "rw_exec OpFinish ok env w c = rw_finish ok env w c"

text \<open>The calls a handler makes, in order, each with its environment; a call that still waits keeps the later ones out.\<close>

fun rw_run ::
  "(rw_op \<times> bool \<times> h2_event list) list \<Rightarrow> masqueH2ResponseWriter \<Rightarrow> masqueHTTP2Conn \<Rightarrow>
   masqueH2ResponseWriter \<times> masqueHTTP2Conn \<times> h2_out list" where
  "rw_run [] w c = (w, c, [])"
| "rw_run ((op, ok, env) # ops) w c =
     (case rw_exec op ok env w c of
        None \<Rightarrow> (w, c, [])
      | Some (w', c', out, _) \<Rightarrow> (case rw_run ops w' c' of (w'', c'', out') \<Rightarrow> (w'', c'', out @ out')))"

definition new_response_writer :: "u32 \<Rightarrow> masqueH2ResponseWriter" where
  "new_response_writer sid = \<lparr>rw2_streamID = sid, rw2_header = [], rw2_wroteHeader = False, rw2_ended = False\<rparr>"

datatype accept_error = NotHTTP2ConnectUDP | NoStreamBody | NoFlusher

text \<open>\<open>hasBody\<close> and \<open>flusher\<close>: the request has a body, the response writer can flush.\<close>

definition acceptMasqueH2Stream ::
  "bool \<Rightarrow> bool \<Rightarrow> bool \<Rightarrow> http_request \<Rightarrow> masqueH2ResponseWriter \<Rightarrow> masqueH2ResponseWriter \<times> h2_out list \<times> accept_error option" where
  "acceptMasqueH2Stream ok hasBody flusher r w =
     (if rq_protoMajor r \<noteq> 2 \<or> header_get (rq_header r) '':protocol'' \<noteq> masqueConnectUDPProtocol
      then (w, [], Some NotHTTP2ConnectUDP)
      else if \<not> hasBody then (w, [], Some NoStreamBody)
      else if \<not> flusher then (w, [], Some NoFlusher)
      else case writeHeaderLocked ok 200 (w\<lparr>rw2_header := header_set ''Capsule-Protocol'' ''?1'' (rw2_header w)\<rparr>) of
             (w', out, _) \<Rightarrow> (case writeHeaderLocked ok 200 w' of (w'', out', _) \<Rightarrow> (w'', out @ out', None)))"

section \<open>Serving a connection\<close>

definition ClientPreface :: string where
  "ClientPreface = ''PRI * HTTP/2.0'' @ [CHR 0x0D, CHR 0x0A, CHR 0x0D, CHR 0x0A] @ ''SM'' @ [CHR 0x0D, CHR 0x0A, CHR 0x0D, CHR 0x0A]"

definition server_settings :: "h2_out list" where
  "server_settings =
     [WriteSettings [(SettingEnableConnectProtocol, 1), (OtherSetting 3, 1), (SettingInitialWindowSize, masqueH2InitialWindow),
        (OtherSetting 6, masqueH2MaxHeaderListSize)],
      WriteWindowUpdate 0 (masqueH2InitialWindow - 65535)]"

datatype serve_conn_error =
  NotTLS | HandshakeFailed | WrongProtocol string | SetDeadlineFailed | PrefaceRead | BadPreface | SettingsWrite | LoopEnded h2_read_error

text \<open>What a new connection offers: whether it is a TLS connection, its handshake, the negotiated protocol and the bytes of the preface.\<close>

record incoming =
  in_tls :: bool
  in_handshake :: bool
  in_protocol :: string
  in_deadline :: bool
  in_preface :: "string option"
  in_remote :: string

text \<open>\<open>None\<close> for the result means that the read loop is still running.\<close>

definition serveConn ::
  "time \<Rightarrow> incoming \<Rightarrow> (h2_out \<Rightarrow> bool) \<Rightarrow> read_env list \<Rightarrow> server_loop option \<times> h2_out list \<times> serve_conn_error option" where
  "serveConn now conn w envs =
     (if \<not> in_tls conn then (None, [], Some NotTLS)
      else if \<not> in_handshake conn then (None, [], Some HandshakeFailed)
      else if in_protocol conn \<noteq> ''h2'' then (None, [], Some (WrongProtocol (in_protocol conn)))
      else if \<not> in_deadline conn then (None, [], Some SetDeadlineFailed)
      else case in_preface conn of
             None \<Rightarrow> (None, [], Some PrefaceRead)
           | Some p \<Rightarrow>
               if p \<noteq> ClientPreface then (None, [], Some BadPreface)
               else case write_frames w server_settings of
                      (out, False) \<Rightarrow> (None, out, Some SettingsWrite)
                    | (out, True) \<Rightarrow>
                        (case read_loop (server_pass (in_remote conn)) envs (new_server_loop now) of
                           (s, out', r) \<Rightarrow> (Some s, out @ out', map_option LoopEnded r)))"

section \<open>The server\<close>

text \<open>
  Listeners and connections are numbers. \<open>hs_l\<close> and \<open>hs_c\<close> say how far the goroutine of each has
  come: serving; its deferred function running (a listener has returned, a connection was closed);
  removed from the server's map; done. \<open>hs_open\<close> are the connections that are open, and
  \<open>hs_snapshot\<close> those \<^verbatim>\<open>Close\<close> has taken from the map to close.
\<close>

datatype goroutine = NotStarted | Serving | Returning | Removed | Finished

record masqueHTTP2Server =
  hs_closed :: bool
  hs_listeners :: "nat set"
  hs_conns :: "nat set"
  hs_wg :: int
  hs_l :: "nat \<Rightarrow> goroutine"
  hs_c :: "nat \<Rightarrow> goroutine"
  hs_open :: "nat set"
  hs_snapshot :: "nat set"

text \<open>
  The TLS configuration of the server, and the one its \<^verbatim>\<open>GetConfigForClient\<close>, if it has one, selects for a hello
  of type \<open>'h\<close>: an error (\<open>None\<close>), no configuration, or another one.
\<close>

record server_tls =
  tls_MinVersion :: nat
  tls_NextProtos :: "string list"

type_synonym 'h config_for_client = "('h \<Rightarrow> server_tls option option) option"

definition VersionTLS13 :: nat where "VersionTLS13 = 772"

definition restrict_selected :: "server_tls \<Rightarrow> server_tls" where
  "restrict_selected c =
     (let c = (if tls_MinVersion c < VersionTLS13 then c\<lparr>tls_MinVersion := VersionTLS13\<rparr> else c) in c\<lparr>tls_NextProtos := [''h2'']\<rparr>)"

definition newMasqueHTTP2Server ::
  "(server_tls \<times> 'h config_for_client) option \<Rightarrow> bool \<Rightarrow> ((server_tls \<times> 'h config_for_client) \<times> masqueHTTP2Server) option" where
  "newMasqueHTTP2Server tlsConfig hasHandler =
     (case tlsConfig of
        None \<Rightarrow> None
      | Some (conf, get) \<Rightarrow>
          if \<not> hasHandler then None
          else Some ((conf\<lparr>tls_MinVersion := VersionTLS13, tls_NextProtos := [''h2'']\<rparr>,
                      map_option (\<lambda>g hello. map_option (map_option restrict_selected) (g hello)) get),
                 \<lparr>hs_closed = False, hs_listeners = {}, hs_conns = {}, hs_wg = 0, hs_l = (\<lambda>_. NotStarted),
                  hs_c = (\<lambda>_. NotStarted), hs_open = {}, hs_snapshot = {}\<rparr>))"

text \<open>The configuration a handshake uses: \<open>None\<close> when the selection fails.\<close>

definition handshake_config :: "server_tls \<times> 'h config_for_client \<Rightarrow> 'h \<Rightarrow> server_tls option" where
  "handshake_config c hello =
     (case snd c of
        None \<Rightarrow> Some (fst c)
      | Some g \<Rightarrow> (case g hello of None \<Rightarrow> None | Some None \<Rightarrow> Some (fst c) | Some (Some c') \<Rightarrow> Some c'))"

definition registerListener :: "nat \<Rightarrow> masqueHTTP2Server \<Rightarrow> masqueHTTP2Server \<times> bool" where
  "registerListener ln s =
     (if hs_closed s then (s, False)
      else (s\<lparr>hs_listeners := insert ln (hs_listeners s), hs_wg := hs_wg s + 1, hs_l := (hs_l s)(ln := Serving)\<rparr>, True))"

text \<open>A connection that was accepted, under the lock of \<^verbatim>\<open>serveRegistered\<close>.\<close>

definition accepted_conn :: "nat \<Rightarrow> nat \<Rightarrow> masqueHTTP2Server \<Rightarrow> masqueHTTP2Server" where
  "accepted_conn ln conn s =
     (if hs_closed s then s\<lparr>hs_l := (hs_l s)(ln := Returning), hs_c := (hs_c s)(conn := Finished)\<rparr>
      else s\<lparr>hs_conns := insert conn (hs_conns s), hs_wg := hs_wg s + 1, hs_c := (hs_c s)(conn := Serving),
             hs_open := insert conn (hs_open s)\<rparr>)"

definition server_begin_close :: "masqueHTTP2Server \<Rightarrow> masqueHTTP2Server" where
  "server_begin_close s = (if hs_closed s then s else s\<lparr>hs_closed := True, hs_snapshot := hs_conns s\<rparr>)"

inductive h2_server_step :: "masqueHTTP2Server \<Rightarrow> masqueHTTP2Server \<Rightarrow> bool" where
  hs_register: "hs_l s ln = NotStarted \<Longrightarrow> h2_server_step s (fst (registerListener ln s))"
| hs_accept: "hs_l s ln = Serving \<Longrightarrow> hs_c s conn = NotStarted \<Longrightarrow> h2_server_step s (accepted_conn ln conn s)"
| hs_accept_error: "hs_l s ln = Serving \<Longrightarrow> h2_server_step s (s\<lparr>hs_l := (hs_l s)(ln := Returning)\<rparr>)"
| hs_l_remove: "hs_l s ln = Returning \<Longrightarrow>
     h2_server_step s (s\<lparr>hs_listeners := hs_listeners s - {ln}, hs_l := (hs_l s)(ln := Removed)\<rparr>)"
| hs_l_done: "hs_l s ln = Removed \<Longrightarrow> h2_server_step s (s\<lparr>hs_wg := hs_wg s - 1, hs_l := (hs_l s)(ln := Finished)\<rparr>)"
| hs_c_end: "hs_c s conn = Serving \<Longrightarrow>
     h2_server_step s (s\<lparr>hs_open := hs_open s - {conn}, hs_c := (hs_c s)(conn := Returning)\<rparr>)"
| hs_c_remove: "hs_c s conn = Returning \<Longrightarrow>
     h2_server_step s (s\<lparr>hs_conns := hs_conns s - {conn}, hs_c := (hs_c s)(conn := Removed)\<rparr>)"
| hs_c_done: "hs_c s conn = Removed \<Longrightarrow> h2_server_step s (s\<lparr>hs_wg := hs_wg s - 1, hs_c := (hs_c s)(conn := Finished)\<rparr>)"
| hs_begin_close: "h2_server_step s (server_begin_close s)"
| hs_close_conn: "conn \<in> hs_snapshot s \<Longrightarrow> h2_server_step s (s\<lparr>hs_open := hs_open s - {conn}\<rparr>)"

inductive h2_server_reachable :: "masqueHTTP2Server \<Rightarrow> bool" where
  hs_new: "newMasqueHTTP2Server (Some (conf, get :: unit config_for_client)) True = Some (c, s) \<Longrightarrow> h2_server_reachable s"
| hs_next: "h2_server_reachable s \<Longrightarrow> h2_server_step s s' \<Longrightarrow> h2_server_reachable s'"

section \<open>Responses\<close>

definition response_shape :: "u32 \<Rightarrow> bool \<Rightarrow> h2_out list \<Rightarrow> bool" where
  "response_shape sid ended out \<longleftrightarrow>
     (\<exists>code h ds. out = WriteHeaders sid (encodeMasqueH2ResponseHeaders code h) # map (WriteData sid False) ds @
        (if ended then [WriteData sid True []] else []))"

text \<open>The frames written so far and the state of the writer.\<close>

definition rw_inv :: "masqueH2ResponseWriter \<Rightarrow> h2_out list \<Rightarrow> bool" where
  "rw_inv w out \<longleftrightarrow>
     (if \<not> rw2_wroteHeader w then out = [] \<and> \<not> rw2_ended w
      else response_shape (rw2_streamID w) False out \<or> rw2_ended w \<and> response_shape (rw2_streamID w) True out)"

lemma rw_inv_header:
  assumes "rw_inv w out" "writeHeaderLocked ok code w = (w', o1, b)"
  shows "rw_inv w' (out @ o1)" "b \<Longrightarrow> rw2_wroteHeader w'" "rw2_ended w' = rw2_ended w" "rw2_streamID w' = rw2_streamID w"
proof -
  show "rw_inv w' (out @ o1)"
  proof (cases "rw2_wroteHeader w \<or> rw2_ended w")
    case True
    then show ?thesis using assms by (simp add: writeHeaderLocked_def)
  next
    case False
    show ?thesis
    proof (cases ok)
      case True
      have "response_shape (rw2_streamID w) False [WriteHeaders (rw2_streamID w) (encodeMasqueH2ResponseHeaders code (rw2_header w))]"
        unfolding response_shape_def by (intro exI [of _ code] exI [of _ "rw2_header w"] exI [of _ "[]"]) simp
      then show ?thesis using assms False True by (auto simp: writeHeaderLocked_def rw_inv_def)
    next
      case False': False
      then show ?thesis using assms False by (simp add: writeHeaderLocked_def rw_inv_def)
    qed
  qed
qed (use assms in \<open>auto simp: writeHeaderLocked_def rw_inv_def split: if_splits\<close>)

lemma shape_data:
  assumes "response_shape sid False out" "\<forall>(f, b)\<in>set frames. \<not> f"
  shows "response_shape sid False (out @ data_out sid frames)"
proof -
  obtain code h ds where o: "out = WriteHeaders sid (encodeMasqueH2ResponseHeaders code h) # map (WriteData sid False) ds"
    using assms(1) by (auto simp: response_shape_def)
  have "data_out sid frames = map (WriteData sid False) (map snd frames)" using assms(2) by (auto simp: data_out_def)
  then show ?thesis unfolding response_shape_def o
    by (intro exI [of _ code] exI [of _ h] exI [of _ "ds @ map snd frames"]) simp
qed

lemma shape_end: "response_shape sid False out \<Longrightarrow> response_shape sid True (out @ [WriteData sid True []])"
  by (fastforce simp: response_shape_def)

lemma write_flags:
  assumes "write_loop grab handle env p False c out = Some (c', env', out', r)" "\<forall>(f, b)\<in>set out. \<not> f"
  shows "\<forall>(f, b)\<in>set out'. \<not> f"
  using assms
proof (induction grab handle env p False c out rule: write_loop.induct)
  case (1 grab handle env p c out)
  show ?case
  proof (cases "p = []")
    case True
    then show ?thesis using 1(2,3) by (subst (asm) write_loop.simps) simp
  next
    case False
    note w = "1"(2) [unfolded write_loop.simps [of grab handle env]]
    obtain c1 env1 q where res: "reserve_loop grab handle (length p) env c = Some (c1, env1, q)"
      using w False by (auto split: option.splits)
    show ?thesis
    proof (cases q)
      case (Inl e)
      then show ?thesis using w False res 1(3) by simp
    next
      case (Inr n)
      show ?thesis
      proof (cases "\<exists>fs env2. env1 = Wrote fs # env2")
        case True
        then obtain fs env2 where e: "env1 = Wrote fs # env2" by blast
        have "write_loop grab handle env2 (drop n p) False (fold handle fs c1) (out @ [(False, take n p)]) = Some (c', env', out', r)"
          using w False res Inr e by simp
        then show ?thesis using "1.hyps" [OF False res _ _ Inr e] 1(3) by auto
      next
        case no: False
        then show ?thesis using w False res Inr 1(3) by (auto split: list.splits h2_event.splits)
      qed
    qed
  qed
qed

lemma rw_inv_exec:
  assumes "rw_inv w out" "rw_exec op ok env w c = Some (w', c', o1, r)"
  shows "rw_inv w' (out @ o1) \<and> rw2_streamID w' = rw2_streamID w \<and> (rw2_ended w \<longrightarrow> o1 = [] \<and> rw2_ended w')"
proof -
  have ended: "rw2_ended w \<Longrightarrow> o1 = [] \<and> w' = w"
    using assms by (cases op) (auto simp: rw_Write_def rw_finish_def writeHeaderLocked_def rw_inv_def split: if_splits)
  show ?thesis
  proof (cases "rw2_ended w")
    case True
    then show ?thesis using ended assms(1) by simp
  next
    case live: False
    define code where "code = (case op of OpHeader n \<Rightarrow> n | _ \<Rightarrow> 200)"
    obtain w1 oh b where h: "writeHeaderLocked ok code w = (w1, oh, b)" using prod_cases3 by blast
    note H = rw_inv_header [OF assms(1) h]
    have shape: "b \<Longrightarrow> response_shape (rw2_streamID w1) False (out @ oh)" using H live by (auto simp: rw_inv_def)
    show ?thesis
    proof (cases op)
      case (OpHeader n)
      then show ?thesis using assms(2) h H live by (auto simp: code_def)
    next
      case OpFlush
      then show ?thesis using assms(2) h H live by (auto simp: code_def)
    next
      case (OpWrite p)
      show ?thesis
      proof (cases "\<not> b \<or> p = []")
        case True
        then show ?thesis using assms(2) OpWrite h H live by (auto simp: code_def rw_Write_def split: bool.splits)
      next
        case False
        then obtain c2 env2 frames where w: "write_loop server_reserve server_flow env p False c [] = Some (c2, env2, frames, r)"
          and eq: "w' = w1" "o1 = oh @ data_out (rw2_streamID w1) frames"
          using assms(2) OpWrite h live by (auto simp: code_def rw_Write_def server_writeData_def split: option.splits)
        have "response_shape (rw2_streamID w1) False ((out @ oh) @ data_out (rw2_streamID w1) frames)"
          by (rule shape_data [OF shape]) (use False write_flags [OF w] in auto)
        then show ?thesis using H False live by (simp add: eq rw_inv_def)
      qed
    next
      case OpFinish
      show ?thesis
      proof (cases b)
        case False
        then show ?thesis using assms(2) OpFinish h H live by (auto simp: code_def rw_finish_def)
      next
        case True
        then obtain frames where eq: "w' = w1\<lparr>rw2_ended := True\<rparr>" "o1 = oh @ data_out (rw2_streamID w1) frames"
          and fr: "frames = [] \<or> frames = [(True, [])]"
          using assms(2) OpFinish h live
          by (auto simp: code_def rw_finish_def server_writeData_def write_empty_def split: option.splits list.splits h2_event.splits)
        from fr show ?thesis
        proof
          assume "frames = []"
          then show ?thesis using shape [OF True] H True live by (simp add: eq rw_inv_def data_out_def)
        next
          assume "frames = [(True, [])]"
          then show ?thesis using shape_end [OF shape [OF True]] H True live by (simp add: eq rw_inv_def data_out_def)
        qed
      qed
    qed
  qed
qed

lemma rw_inv_run:
  "rw_inv w out \<Longrightarrow> rw_run ops w c = (w', c', o1) \<Longrightarrow>
   rw_inv w' (out @ o1) \<and> rw2_streamID w' = rw2_streamID w \<and> (rw2_ended w \<longrightarrow> o1 = [])"
proof (induction ops arbitrary: w c out o1)
  case (Cons x ops)
  obtain op ok env where x: "x = (op, ok, env)" using prod_cases3 by blast
  show ?case
  proof (cases "rw_exec op ok env w c")
    case None
    then show ?thesis using Cons.prems x by simp
  next
    case (Some q)
    obtain w1 c1 oa r where q: "q = (w1, c1, oa, r)" using prod_cases4 by blast
    note a = rw_inv_exec [OF Cons.prems(1) Some [unfolded q]]
    obtain ob where l: "rw_run ops w1 c1 = (w', c', ob)" and "o1 = oa @ ob"
      using Cons.prems(2) x Some q by (auto split: prod.splits)
    then show ?thesis using Cons.IH [OF conjunct1 [OF a] l] a by auto
  qed
qed simp

section \<open>The server's accounts\<close>

definition live :: "goroutine \<Rightarrow> bool" where
  "live g \<longleftrightarrow> g \<in> {Serving, Returning, Removed}"

definition live_set :: "(nat \<Rightarrow> goroutine) \<Rightarrow> nat set" where
  "live_set f = {x. live (f x)}"

lemma live_set_update: "live_set (f(x := g)) = (if live g then insert x (live_set f) else live_set f - {x})"
  by (auto simp: live_set_def)

lemma live_simps [simp]: "live Serving" "live Returning" "live Removed" "\<not> live Finished" "\<not> live NotStarted"
  by (simp_all add: live_def)

definition h2_server_inv :: "masqueHTTP2Server \<Rightarrow> bool" where
  "h2_server_inv s \<longleftrightarrow>
     finite (live_set (hs_l s)) \<and> finite (live_set (hs_c s)) \<and>
     hs_wg s = int (card (live_set (hs_l s))) + int (card (live_set (hs_c s))) \<and>
     hs_listeners s = {l. hs_l s l \<in> {Serving, Returning}} \<and>
     hs_conns s = {c. hs_c s c \<in> {Serving, Returning}} \<and>
     hs_open s \<subseteq> {c. hs_c s c = Serving} \<and>
     (\<not> hs_closed s \<longrightarrow> hs_open s = {c. hs_c s c = Serving} \<and> hs_snapshot s = {}) \<and>
     (hs_closed s \<longrightarrow> {c. hs_c s c = Serving} \<subseteq> hs_snapshot s)"

lemma card_live_start: "finite (live_set f) \<Longrightarrow> f x = NotStarted \<Longrightarrow> int (card (insert x (live_set f))) = int (card (live_set f)) + 1"
  by (subst card_insert_disjoint) (auto simp: live_set_def)

lemma card_live_end: "finite (live_set f) \<Longrightarrow> live (f x) \<Longrightarrow> int (card (live_set f - {x})) = int (card (live_set f)) - 1"
  by (simp add: card_Diff_singleton live_set_def of_nat_diff Suc_leI card_gt_0_iff)
     (metis (mono_tags, lifting) card_gt_0_iff empty_iff mem_Collect_eq of_nat_1 of_nat_diff Suc_leI One_nat_def)

lemma live_insert [simp]: "live (f x) \<Longrightarrow> insert x (live_set f) = live_set f"
  by (auto simp: live_set_def)

lemma live_diff [simp]: "\<not> live (f x) \<Longrightarrow> live_set f - {x} = live_set f"
  by (auto simp: live_set_def)

lemma h2_server_inv_step:
  assumes "h2_server_step s s'" "h2_server_inv s"
  shows "h2_server_inv s'"
  using assms(1)
proof cases
  case (hs_register ln)
  then show ?thesis using assms(2) card_live_start [of "hs_l s" ln]
    by (auto simp: h2_server_inv_def registerListener_def live_set_update)
next
  case (hs_accept ln conn)
  show ?thesis
  proof (cases "hs_closed s")
    case True
    then show ?thesis using assms(2) hs_accept by (auto simp: h2_server_inv_def accepted_conn_def live_set_update)
  next
    case False
    then show ?thesis using assms(2) hs_accept card_live_start [of "hs_c s" conn]
      by (auto simp: h2_server_inv_def accepted_conn_def live_set_update)
  qed
next
  case (hs_accept_error ln)
  then show ?thesis using assms(2) by (auto simp: h2_server_inv_def live_set_update)
next
  case (hs_l_remove ln)
  then show ?thesis using assms(2) by (auto simp: h2_server_inv_def live_set_update)
next
  case (hs_l_done ln)
  then show ?thesis using assms(2) card_live_end [of "hs_l s" ln] by (auto simp: h2_server_inv_def live_set_update)
next
  case (hs_c_end conn)
  then show ?thesis using assms(2) by (auto simp: h2_server_inv_def live_set_update)
next
  case (hs_c_remove conn)
  then show ?thesis using assms(2) by (auto simp: h2_server_inv_def live_set_update)
next
  case (hs_c_done conn)
  then show ?thesis using assms(2) card_live_end [of "hs_c s" conn] by (auto simp: h2_server_inv_def live_set_update)
next
  case hs_begin_close
  then show ?thesis using assms(2) by (auto simp: h2_server_inv_def server_begin_close_def)
next
  case (hs_close_conn conn)
  then show ?thesis using assms(2) by (auto simp: h2_server_inv_def)
qed

lemma h2_server_inv_reachable: "h2_server_reachable s \<Longrightarrow> h2_server_inv s"
proof (induction rule: h2_server_reachable.induct)
  case (hs_new conf get c s)
  then show ?case by (auto simp: newMasqueHTTP2Server_def h2_server_inv_def live_set_def)
next
  case (hs_next s s')
  then show ?case using h2_server_inv_step by blast
qed

section \<open>Properties\<close>

text \<open>
  A response is well formed. Whatever calls a handler makes on the response writer, in whatever order,
  with whatever failures of the connection, and also after it has returned: the frames written are
  nothing, or one HEADERS frame followed by DATA frames without END\_STREAM, followed at most by one empty DATA
  frame with END\_STREAM; and once the response is finished, no later call writes anything.
\<close>
theorem h2_response_wellformed:
  "case rw_run ops (new_response_writer sid) c of
     (w, c', out) \<Rightarrow>
       (out = [] \<or> response_shape sid False out \<or> rw2_ended w \<and> response_shape sid True out) \<and>
       (case rw_run ops' w c' of (w', c'', out') \<Rightarrow> rw2_ended w = False \<or> out' = [])"
proof -
  obtain w c' out where r: "rw_run ops (new_response_writer sid) c = (w, c', out)" using prod_cases3 by blast
  obtain w' c'' out' where r': "rw_run ops' w c' = (w', c'', out')" using prod_cases3 by blast
  have "rw_inv (new_response_writer sid) []" by (simp add: rw_inv_def new_response_writer_def)
  from rw_inv_run [OF this r] have a: "rw_inv w out" "rw2_streamID w = sid" by (simp_all add: new_response_writer_def)
  from rw_inv_run [OF a(1) r'] have "rw2_ended w \<longrightarrow> out' = []" by blast
  then show ?thesis using a by (auto simp: r r' rw_inv_def split: if_splits)
qed

text \<open>
  Closing the HTTP/2 server is complete and final. In every state the wait group counts exactly the listener and
  connection goroutines that have not finished. When a closed server's wait group is at zero, which is what
  \<^verbatim>\<open>Close\<close> waits for, no connection is open, no listener or connection is registered, and
  nothing that happens later serves a connection again; until then every open connection of
  a closed server is one that \<^verbatim>\<open>Close\<close> has taken to close.
\<close>
theorem h2_server_close_complete:
  assumes "h2_server_reachable s"
  shows "hs_wg s = int (card (live_set (hs_l s))) + int (card (live_set (hs_c s))) \<and>
    (hs_closed s \<longrightarrow> hs_open s \<subseteq> hs_snapshot s) \<and>
    (hs_closed s \<and> hs_wg s = 0 \<longrightarrow>
       hs_open s = {} \<and> hs_listeners s = {} \<and> hs_conns s = {} \<and>
       (\<forall>s'. h2_server_step s s' \<longrightarrow> hs_closed s' \<and> hs_wg s' = 0 \<and> hs_open s' = {}))"
proof -
  note inv = h2_server_inv_reachable [OF assms]
  have fin: "finite (live_set (hs_l s))" "finite (live_set (hs_c s))" using inv by (auto simp: h2_server_inv_def)
  have wg: "hs_wg s = int (card (live_set (hs_l s))) + int (card (live_set (hs_c s)))" using inv by (simp add: h2_server_inv_def)
  have snap: "hs_closed s \<longrightarrow> hs_open s \<subseteq> hs_snapshot s" using inv by (auto simp: h2_server_inv_def)
  have rest: "hs_open s = {} \<and> hs_listeners s = {} \<and> hs_conns s = {} \<and>
       (\<forall>s'. h2_server_step s s' \<longrightarrow> hs_closed s' \<and> hs_wg s' = 0 \<and> hs_open s' = {})"
    if c: "hs_closed s" and z: "hs_wg s = 0"
  proof -
    have "card (live_set (hs_l s)) = 0" "card (live_set (hs_c s)) = 0" using wg z by linarith+
    then have "live_set (hs_l s) = {}" "live_set (hs_c s) = {}" using fin by simp_all
    then have no: "\<not> live (hs_l s x)" "\<not> live (hs_c s x)" for x by (auto simp: live_set_def)
    have idle: "hs_l s x \<notin> {Serving, Returning, Removed}" "hs_c s x \<notin> {Serving, Returning, Removed}" for x
      using no [of x] by (simp_all add: live_def)
    have empty: "hs_open s = {}" "hs_listeners s = {}" "hs_conns s = {}" using inv idle by (auto simp: h2_server_inv_def)
    have "hs_closed s' \<and> hs_wg s' = 0 \<and> hs_open s' = {}" if "h2_server_step s s'" for s'
      using that
      by cases (use c z empty idle in \<open>auto simp: registerListener_def server_begin_close_def\<close>)
    with empty show ?thesis by blast
  qed
  show ?thesis using wg snap rest by blast
qed

definition new_h2_server :: masqueHTTP2Server where
  "new_h2_server = \<lparr>hs_closed = False, hs_listeners = {}, hs_conns = {}, hs_wg = 0, hs_l = (\<lambda>_. NotStarted),
     hs_c = (\<lambda>_. NotStarted), hs_open = {}, hs_snapshot = {}\<rparr>"

theorem h2_server_close_complete_witness:
  "h2_server_reachable (server_begin_close new_h2_server) \<and>
   hs_open (server_begin_close new_h2_server) = {} \<and> hs_conns (server_begin_close new_h2_server) = {}"
proof -
  have "h2_server_reachable new_h2_server"
    by (rule hs_new [of "\<lparr>tls_MinVersion = 0, tls_NextProtos = []\<rparr>" None])
       (simp add: newMasqueHTTP2Server_def new_h2_server_def)
  then have r: "h2_server_reachable (server_begin_close new_h2_server)" by (rule hs_next) (rule hs_begin_close)
  from h2_server_close_complete [OF r] r show ?thesis by (simp add: server_begin_close_def new_h2_server_def)
qed

text \<open>
  Only TLS 1.3 connections that speak HTTP/2 are served. Every configuration a handshake of the server can
  use, its own or one that the configuration's callback selects, has TLS 1.3 as its least version (or a later one)
  and offers only the protocol h2; and the read loop starts only on a TLS connection whose handshake succeeded,
  which negotiated h2 and sent the client preface, after the settings that enable extended CONNECT were
  written. In every other case an error is returned and the loop does not start.
\<close>
theorem h2_serves_only_tls13:
  "(case newMasqueHTTP2Server (Some (conf, get)) handler of
      None \<Rightarrow> \<not> handler
    | Some (c, s) \<Rightarrow> handler \<and>
        (case handshake_config c hello of None \<Rightarrow> True
         | Some t \<Rightarrow> VersionTLS13 \<le> tls_MinVersion t \<and> tls_NextProtos t = [''h2''])) \<and>
   (case serveConn now conn w envs of
      (None, out, r) \<Rightarrow> r \<noteq> None \<and> (\<exists>rest. server_settings = out @ rest)
    | (Some s, out, r) \<Rightarrow> in_tls conn \<and> in_handshake conn \<and> in_protocol conn = ''h2'' \<and> in_preface conn = Some ClientPreface \<and>
        (\<exists>out' e. out = server_settings @ out' \<and> read_loop (server_pass (in_remote conn)) envs (new_server_loop now) = (s, out', e) \<and>
           r = map_option LoopEnded e))"
proof
  show "case newMasqueHTTP2Server (Some (conf, get)) handler of
      None \<Rightarrow> \<not> handler
    | Some (c, s) \<Rightarrow> handler \<and>
        (case handshake_config c hello of None \<Rightarrow> True
         | Some t \<Rightarrow> VersionTLS13 \<le> tls_MinVersion t \<and> tls_NextProtos t = [''h2''])"
    by (cases get) (auto simp: newMasqueHTTP2Server_def handshake_config_def restrict_selected_def Let_def split: option.splits)
  have pre: "(\<exists>rest. fs = fst (write_frames w fs) @ rest) \<and> (snd (write_frames w fs) \<longrightarrow> fst (write_frames w fs) = fs)" for fs
    by (induction fs) (auto split: prod.splits)
  obtain out ok where wf: "write_frames w server_settings = (out, ok)" by fastforce
  obtain s out' e where l: "read_loop (server_pass (in_remote conn)) envs (new_server_loop now) = (s, out', e)" using prod_cases3 by blast
  have p: "\<exists>rest. server_settings = out @ rest" "ok \<longrightarrow> out = server_settings" using pre [of server_settings] wf by auto
  show "case serveConn now conn w envs of
      (None, out, r) \<Rightarrow> r \<noteq> None \<and> (\<exists>rest. server_settings = out @ rest)
    | (Some s, out, r) \<Rightarrow> in_tls conn \<and> in_handshake conn \<and> in_protocol conn = ''h2'' \<and> in_preface conn = Some ClientPreface \<and>
        (\<exists>out' e. out = server_settings @ out' \<and> read_loop (server_pass (in_remote conn)) envs (new_server_loop now) = (s, out', e) \<and>
           r = map_option LoopEnded e)"
  proof (cases "in_tls conn \<and> in_handshake conn \<and> in_protocol conn = ''h2'' \<and> in_deadline conn \<and> in_preface conn = Some ClientPreface")
    case True
    then show ?thesis using wf l p by (cases ok) (simp_all add: serveConn_def)
  next
    case False
    then show ?thesis by (auto simp: serveConn_def split: option.splits)
  qed
qed

end
