(* ===== verification/H2_Exchange.thy ===== *)
theory H2_Exchange
  imports H2_Dial H2_Server
begin

text \<open>
  The two ends of the HTTP/2 carrier together: the frames that \<^verbatim>\<open>serveConn\<close> and
  \<^verbatim>\<open>dialMasqueH2ExtendedConnect\<close> write, read by the other end.
\<close>

text \<open>The frame the other end reads for a frame that was written; DATA frames are not padded.\<close>

fun frame_of :: "h2_out \<Rightarrow> h2_frame" where
  "frame_of (WriteSettings ss) = FlowFrame (SettingsFrame False ss)"
| "frame_of WriteSettingsAck = FlowFrame (SettingsFrame True [])"
| "frame_of (WritePing ack d) = PingFrame ack d"
| "frame_of (WriteWindowUpdate sid inc) = FlowFrame (WindowUpdateFrame sid inc)"
| "frame_of (WriteRSTStream sid) = RSTStreamFrame sid 7"
| "frame_of (WriteHeaders sid hfs) = MetaHeadersFrame sid False False hfs"
| "frame_of (WriteData sid e b) = DataFrame sid b (word_of_nat (length b)) e"

definition arriving :: "time \<Rightarrow> h2_out list \<Rightarrow> read_env list" where
  "arriving now out =
     map (\<lambda>f. \<lparr>re_now = now, re_deadlineOk = True, re_read = Got (frame_of f), re_random = None,
               re_write = (\<lambda>_. True), re_body = True\<rparr>) out"

lemma arriving_simps [simp]:
  "arriving now [] = []"
  "arriving now (f # out) = \<lparr>re_now = now, re_deadlineOk = True, re_read = Got (frame_of f), re_random = None,
     re_write = (\<lambda>_. True), re_body = True\<rparr> # arriving now out"
  by (simp_all add: arriving_def)

lemma initial_window_words:
  "uint masqueH2InitialWindow = 1048576" "uint (masqueH2InitialWindow - 65535) = 983041"
  by (simp_all add: masqueH2InitialWindow_def)

text \<open>The server's first frames, read by a client.\<close>

lemma client_reads_settings:
  "\<exists>c. read_loop client_pass (arriving now server_settings) new_client_loop = (c, [WriteSettingsAck], None) \<and>
     settingsCh (cl_conn c) = [None] \<and> streamID (cl_conn c) = 1 \<and> peerInitialWindow (cl_conn c) = 1048576 \<and>
     peerConnWindow (cl_conn c) = 1048576 \<and> cl_bodyOpen c \<and> \<not> cl_done c \<and> \<not> cl_responseDone c \<and> cl_responseCh c = []"
  by (simp add: server_settings_def client_pass_def new_client_loop_def new_client_conn_def client_handleSettings_def
      client_handleWindowUpdate_def set_initial_window_def add_window_def overflowed_def client_write_def Let_def initial_window_words max_window_def)

text \<open>The client's first frames, read by a server.\<close>

lemma server_reads_preface:
  "\<exists>s. read_loop (server_pass addr) (arriving now (client_preface @ [WriteSettingsAck])) (new_server_loop t) = (s, [WriteSettingsAck], None) \<and>
     streamID (sl_conn s) = 0 \<and> peerInitialWindow (sl_conn s) = 1048576 \<and> peerConnWindow (sl_conn s) = 1048576 \<and>
     bodyW_open (sl_conn s) = None"
  by (simp add: client_preface_def server_pass_def new_server_loop_def new_server_conn_def server_handleSettings_def
      server_handleWindowUpdate_def set_initial_window_def add_window_def overflowed_def Let_def initial_window_words max_window_def)

lemma read_loop_append:
  "read_loop pass xs s = (s1, o1, None) \<Longrightarrow> read_loop pass ys s1 = (s2, o2, r) \<Longrightarrow> read_loop pass (xs @ ys) s = (s2, o1 @ o2, r)"
  by (induction xs arbitrary: s o1) (auto split: prod.splits option.splits)

lemma arriving_append [simp]: "arriving now (xs @ ys) = arriving now xs @ arriving now ys"
  by (simp add: arriving_def)

lemma server_accepts_request:
  assumes "masqueH2RequestFromFields addr hfs = Inr req" "rq_method req = ''CONNECT''"
    "header_get (rq_header req) '':protocol'' = ''connect-udp''" "streamID (sl_conn s) = 0" "bodyW_open (sl_conn s) = None"
  shows "\<exists>s'. read_loop (server_pass addr) (arriving now [WriteHeaders 1 hfs]) s = (s', [], None) \<and> sl_req s' = Some req \<and>
    server_taking s' \<and> streamID (sl_conn s') = 1 \<and> peerStreamWindow (sl_conn s') = peerInitialWindow (sl_conn s) \<and>
    peerConnWindow (sl_conn s') = peerConnWindow (sl_conn s)"
  using assms by (simp add: server_pass_def startRequest_def server_taking_def masqueConnectUDPProtocol_def Let_def)

lemma client_reads_response:
  assumes "handleResponseHeaders hfs = Inr resp" "streamID (cl_conn c) = 1" "\<not> cl_responseDone c" "cl_responseCh c = []"
    "cl_bodyOpen c" "\<not> cl_done c"
  shows "\<exists>c'. read_loop client_pass (arriving now [WriteHeaders 1 hfs]) c = (c', [], None) \<and> cl_responseCh c' = [Inr resp] \<and> client_taking c'"
  using assms by (simp add: client_pass_def client_response_def client_taking_def)

section \<open>The handshake over HTTP/2\<close>

text \<open>
  C26: the two ends of the HTTP/2 carrier understand each other. If nothing is lost: the client, reading what the
  server writes first, lets its dialer go on; the server, reading the client's preface, its acknowledgement and its
  request, accepts the stream and rebuilds the request with the same authority and the same header values; and
  the client, reading the server's response to it, passes on a response with the same status and the
  same header values. Both ends then hold one mebibyte of window on the connection and on the stream and can carry
  data both ways.
\<close>
theorem h2_handshake_completes:
  assumes "sendable h" "sendable h'" "u_Host u \<noteq> []" "0 < code" "code < 2 ^ 63"
    "ParseRequestURI ((if EscapedPath u = [] then ''/'' else EscapedPath u) @
       (if u_RawQuery u \<noteq> [] then ''?'' @ u_RawQuery u else [])) = Some u'"
  shows "\<exists>c1 c2 c3 s req w out resp hfs.
    read_loop client_pass (arriving now server_settings) new_client_loop = (c1, [WriteSettingsAck], None) \<and>
    await (settingsCh (cl_conn c1)) over False = Received None \<and>
    writeExtendedConnectHeaders True u h c1 = (c2, [WriteHeaders 1 hfs], True) \<and>
    read_loop (server_pass addr) (arriving now (client_preface @ [WriteSettingsAck, WriteHeaders 1 hfs])) (new_server_loop t) =
      (s, [WriteSettingsAck], None) \<and>
    sl_req s = Some req \<and> rq_host req = u_Host u \<and>
    (\<forall>k. CanonicalHeaderKey k = '':protocol'' \<or> header_values (rq_header req) k = header_values h k) \<and>
    writeHeaderLocked True code ((new_response_writer (streamID (sl_conn s)))\<lparr>rw2_header := h'\<rparr>) = (w, out, True) \<and>
    read_loop client_pass (arriving now out) c2 = (c3, [], None) \<and>
    await (cl_responseCh c3) over False = Received (Inr resp) \<and> rs_StatusCode resp = int code \<and>
    (\<forall>k. header_values (rs_Header resp) k = header_values h' k) \<and>
    server_taking s \<and> client_taking c3 \<and>
    peerConnWindow (sl_conn s) = 1048576 \<and> peerStreamWindow (sl_conn s) = 1048576 \<and>
    peerConnWindow (cl_conn c2) = 1048576 \<and> peerStreamWindow (cl_conn c2) = 1048576"
proof -
  obtain c1 where c1: "read_loop client_pass (arriving now server_settings) new_client_loop = (c1, [WriteSettingsAck], None)"
    "settingsCh (cl_conn c1) = [None]" "streamID (cl_conn c1) = 1" "peerInitialWindow (cl_conn c1) = 1048576"
    "peerConnWindow (cl_conn c1) = 1048576" "cl_bodyOpen c1" "\<not> cl_done c1" "\<not> cl_responseDone c1" "cl_responseCh c1 = []"
    using client_reads_settings by blast
  define hfs where "hfs = encodeMasqueH2RequestHeaders u h"
  define c2 where "c2 = c1\<lparr>cl_conn := (cl_conn c1)\<lparr>peerStreamWindow := peerInitialWindow (cl_conn c1)\<rparr>\<rparr>"
  have hd: "writeExtendedConnectHeaders True u h c1 = (c2, [WriteHeaders 1 hfs], True)"
    using c1 by (simp add: writeExtendedConnectHeaders_def c2_def hfs_def Let_def)
  obtain req where req: "masqueH2RequestFromFields addr hfs = Inr req" "rq_method req = ''CONNECT''" "rq_host req = u_Host u"
    "header_get (rq_header req) '':protocol'' = ''connect-udp''"
    "\<forall>k. CanonicalHeaderKey k \<noteq> '':protocol'' \<longrightarrow> header_values (rq_header req) k = header_values h k"
    using request_roundtrip [OF assms(1,3,6), of addr] hfs_def by blast
  obtain s0 where s0: "read_loop (server_pass addr) (arriving now (client_preface @ [WriteSettingsAck])) (new_server_loop t) = (s0, [WriteSettingsAck], None)"
    "streamID (sl_conn s0) = 0" "peerInitialWindow (sl_conn s0) = 1048576" "peerConnWindow (sl_conn s0) = 1048576" "bodyW_open (sl_conn s0) = None"
    using server_reads_preface by blast
  obtain s where s: "read_loop (server_pass addr) (arriving now [WriteHeaders 1 hfs]) s0 = (s, [], None)" "sl_req s = Some req"
    "server_taking s" "streamID (sl_conn s) = 1" "peerStreamWindow (sl_conn s) = 1048576" "peerConnWindow (sl_conn s) = 1048576"
    using server_accepts_request [OF req(1,2,4) s0(2,5)] s0(3,4) by metis
  have loop: "read_loop (server_pass addr) (arriving now (client_preface @ [WriteSettingsAck, WriteHeaders 1 hfs])) (new_server_loop t) =
      (s, [WriteSettingsAck], None)"
    using read_loop_append [OF s0(1) s(1)] by simp
  define hfs' where "hfs' = encodeMasqueH2ResponseHeaders code h'"
  obtain resp where resp: "handleResponseHeaders hfs' = Inr resp" "rs_StatusCode resp = int code"
    "\<forall>k. header_values (rs_Header resp) k = header_values h' k"
    using response_roundtrip [OF assms(2,4,5)] hfs'_def by blast
  have c2': "streamID (cl_conn c2) = 1" "\<not> cl_responseDone c2" "cl_responseCh c2 = []" "cl_bodyOpen c2" "\<not> cl_done c2"
    "peerConnWindow (cl_conn c2) = 1048576" "peerStreamWindow (cl_conn c2) = 1048576"
    using c1 by (simp_all add: c2_def)
  obtain c3 where c3: "read_loop client_pass (arriving now [WriteHeaders 1 hfs']) c2 = (c3, [], None)" "cl_responseCh c3 = [Inr resp]" "client_taking c3"
    using client_reads_response [OF resp(1) c2'(1-5)] by blast
  let ?w = "(new_response_writer (streamID (sl_conn s)))\<lparr>rw2_header := h'\<rparr>"
  have w: "writeHeaderLocked True code ?w = (?w\<lparr>rw2_wroteHeader := True\<rparr>, [WriteHeaders 1 hfs'], True)"
    by (simp add: writeHeaderLocked_def new_response_writer_def hfs'_def s(4))
  show ?thesis
    by (intro exI [of _ c1] exI [of _ c2] exI [of _ c3] exI [of _ s] exI [of _ req] exI [of _ "?w\<lparr>rw2_wroteHeader := True\<rparr>"]
          exI [of _ "[WriteHeaders 1 hfs']"] exI [of _ resp] exI [of _ hfs] conjI)
       (use c1 hd loop s w c3 resp req c2' in \<open>auto simp: await_def\<close>)
qed

theorem h2_handshake_completes_witness:
  "\<exists>s req addr. read_loop (server_pass addr) (arriving 5 (client_preface @ [WriteSettingsAck, WriteHeaders 1
      (encodeMasqueH2RequestHeaders (empty_url\<lparr>u_Host := ''h''\<rparr>) [(''Masquecat-Mode'', [''relay''])])])) (new_server_loop 0)
        = (s, [WriteSettingsAck], None) \<and>
     sl_req s = Some req \<and> header_values (rq_header req) ''Masquecat-Mode'' = [''relay'']"
proof -
  let ?u = "empty_url\<lparr>u_Host := ''h''\<rparr>"
  let ?h = "[(''Masquecat-Mode'', [''relay''])]"
  have send: "sendable ?h" unfolding sendable_def gomap_ok_def canonical_key_def by code_simp
  have esc: "EscapedPath ?u = []" by code_simp
  have "ParseRequestURI ''/'' \<noteq> None" by code_simp
  then obtain u' where u': "ParseRequestURI ''/'' = Some u'" by blast
  have path: "ParseRequestURI ((if EscapedPath ?u = [] then ''/'' else EscapedPath ?u) @
      (if u_RawQuery ?u \<noteq> [] then ''?'' @ u_RawQuery ?u else [])) = Some u'"
    using u' esc by (simp add: empty_url_def)
  have vals: "header_values ?h ''Masquecat-Mode'' = [''relay'']" by (simp add: header_values_def)
  have no: "CanonicalHeaderKey ''Masquecat-Mode'' \<noteq> '':protocol''" by simp
  from h2_handshake_completes [OF send send _ _ _ path, of 200 5 False "[]" 0]
  obtain c1 c2 s req hfs where e: "writeExtendedConnectHeaders True ?u ?h c1 = (c2, [WriteHeaders 1 hfs], True)"
    "read_loop (server_pass []) (arriving 5 (client_preface @ [WriteSettingsAck, WriteHeaders 1 hfs])) (new_server_loop 0) = (s, [WriteSettingsAck], None)"
    "sl_req s = Some req"
    "\<forall>k. CanonicalHeaderKey k = '':protocol'' \<or> header_values (rq_header req) k = header_values ?h k"
    by auto
  have "hfs = encodeMasqueH2RequestHeaders ?u ?h" using e(1) by (auto simp: writeExtendedConnectHeaders_def Let_def split: if_splits)
  then show ?thesis using e(2,3) e(4) [rule_format, of "''Masquecat-Mode''"] no vals by auto
qed

end
