(* ===== verification/Registry.thy ===== *)
theory Registry
  imports Endpoint
begin

text \<open>
  The two tables of connected peers: the relay's registry of \<^verbatim>\<open>masquecat_h3_server.go\<close>
  and the reservations of the direct handler in \<^verbatim>\<open>masquecat_direct.go\<close>. Both promise the
  handlers the same thing, stated as the locale \<open>key_registry\<close>: a key is held by at most one
  session, a second claim is refused without effect, and only the holder's release frees it.

  A \<^verbatim>\<open>*relayPeer\<close> is an index into the heap of the peers allocated so far; \<^verbatim>\<open>nil\<close>
  is \<open>None\<close>.
\<close>

section \<open>The contract\<close>

locale key_registry =
  fixes inv :: "'r \<Rightarrow> bool"
    and holder :: "'r \<Rightarrow> 'k \<Rightarrow> 'h option"
    and claim :: "'k \<Rightarrow> 'r \<Rightarrow> 'r \<times> 'h option"
    and free :: "'h \<Rightarrow> 'r \<Rightarrow> 'r"
  assumes claim_taken: "inv r \<Longrightarrow> holder r k = Some h \<Longrightarrow> claim k r = (r, None)"
    and claim_free: "inv r \<Longrightarrow> holder r k = None \<Longrightarrow>
      \<exists>r' h. claim k r = (r', Some h) \<and> inv r' \<and> holder r' = (holder r)(k \<mapsto> h)"
    and free_held: "inv r \<Longrightarrow> holder r k = Some h \<Longrightarrow>
      inv (free h r) \<and> holder (free h r) = (holder r)(k := None)"
    and holder_inj: "inv r \<Longrightarrow> holder r k = Some h \<Longrightarrow> holder r k' = Some h \<Longrightarrow> k = k'"
begin

lemma claim_Some:
  assumes "inv r" "claim k r = (r', Some h)"
  shows "holder r k = None" "inv r'" "holder r' = (holder r)(k \<mapsto> h)"
proof -
  show none: "holder r k = None"
    using claim_taken [OF assms(1), of k] assms(2) by (cases "holder r k") auto
  show "inv r'" "holder r' = (holder r)(k \<mapsto> h)"
    using claim_free [OF assms(1) none] assms(2) by auto
qed

lemma claim_None:
  assumes "inv r" "claim k r = (r', None)"
  shows "r' = r" "\<exists>h. holder r k = Some h"
proof -
  show taken: "\<exists>h. holder r k = Some h"
    using claim_free [OF assms(1), of k] assms(2) by (cases "holder r k") auto
  show "r' = r" using taken claim_taken [OF assms(1), of k] assms(2) by auto
qed

lemma second_claim_refused:
  assumes "inv r" "claim k r = (r', Some h)"
  shows "claim k r' = (r', None)"
  using claim_Some [OF assms] claim_taken by simp

lemma free_then_claim:
  assumes "inv r" "holder r k = Some h"
  shows "\<exists>r' h'. claim k (free h r) = (r', Some h') \<and> inv r'"
  using claim_free [of "free h r" k] free_held [OF assms] by auto

lemma other_keys_unaffected:
  assumes "inv r" "k \<noteq> k'"
  shows "holder (fst (claim k r)) k' = holder r k'"
    "holder r k = Some h \<Longrightarrow> holder (free h r) k' = holder r k'"
proof -
  show "holder (fst (claim k r)) k' = holder r k'"
  proof (cases "holder r k")
    case None
    then obtain r' h where "claim k r = (r', Some h)" "holder r' = (holder r)(k \<mapsto> h)"
      using claim_free [OF assms(1)] by blast
    with assms(2) show ?thesis by simp
  next
    case (Some h)
    with claim_taken [OF assms(1)] show ?thesis by simp
  qed
  show "holder r k = Some h \<Longrightarrow> holder (free h r) k' = holder r k'"
    using free_held [OF assms(1)] assms(2) by simp
qed

end

section \<open>The relay's registry\<close>

record ('k, 'f) relayPeer =
  rp_key :: 'k
  rp_fwd :: "'f option"

record ('k, 'f) MasqueRelay =
  relay_peers :: "('k, nat) gomap"
  relay_heap :: "('k, 'f) relayPeer list"

definition empty_relay :: "('k, 'f) MasqueRelay" where
  "empty_relay = \<lparr>relay_peers = [], relay_heap = []\<rparr>"

definition reserve :: "'k \<Rightarrow> ('k, 'f) MasqueRelay \<Rightarrow> ('k, 'f) MasqueRelay \<times> nat option" where
  "reserve k r =
     (if map_of (relay_peers r) k \<noteq> None then (r, None)
      else let p = length (relay_heap r) in
           (r\<lparr>relay_peers := AList.update k p (relay_peers r),
              relay_heap := relay_heap r @ [\<lparr>rp_key = k, rp_fwd = None\<rparr>]\<rparr>, Some p))"

definition activate :: "nat option \<Rightarrow> 'f option \<Rightarrow> ('k, 'f) MasqueRelay \<Rightarrow> ('k, 'f) MasqueRelay \<times> bool" where
  "activate p fwd r =
     (case (p, fwd) of
        (Some i, Some f) \<Rightarrow>
          if map_of (relay_peers r) (rp_key (relay_heap r ! i)) \<noteq> Some i \<or> rp_fwd (relay_heap r ! i) \<noteq> None
          then (r, False)
          else (r\<lparr>relay_heap := (relay_heap r)[i := (relay_heap r ! i)\<lparr>rp_fwd := Some f\<rparr>]\<rparr>, True)
      | _ \<Rightarrow> (r, False))"

definition register :: "nat option \<Rightarrow> ('k, 'f) MasqueRelay \<Rightarrow> ('k, 'f) MasqueRelay \<times> bool" where
  "register p r =
     (case p of
        None \<Rightarrow> (r, False)
      | Some i \<Rightarrow>
          if rp_fwd (relay_heap r ! i) = None then (r, False)
          else case map_of (relay_peers r) (rp_key (relay_heap r ! i)) of
                 Some old \<Rightarrow>
                   if old \<noteq> i then (r, False)
                   else (r\<lparr>relay_peers := AList.update (rp_key (relay_heap r ! i)) i (relay_peers r)\<rparr>, True)
               | None \<Rightarrow> (r\<lparr>relay_peers := AList.update (rp_key (relay_heap r ! i)) i (relay_peers r)\<rparr>, True))"

definition unregister :: "nat option \<Rightarrow> ('k, 'f) MasqueRelay \<Rightarrow> ('k, 'f) MasqueRelay" where
  "unregister p r =
     (case p of
        None \<Rightarrow> r
      | Some i \<Rightarrow>
          let k = rp_key (relay_heap r ! i) in
          if map_of (relay_peers r) k = Some i
          then r\<lparr>relay_peers := AList.delete k (relay_peers r)\<rparr> else r)"

definition lookup :: "'k \<Rightarrow> ('k, 'f) MasqueRelay \<Rightarrow> nat option" where
  "lookup k r =
     (case map_of (relay_peers r) k of
        None \<Rightarrow> None
      | Some i \<Rightarrow> if rp_fwd (relay_heap r ! i) = None then None else Some i)"

definition registry_inv :: "('k, 'f) MasqueRelay \<Rightarrow> bool" where
  "registry_inv r \<longleftrightarrow>
     gomap_ok (relay_peers r) \<and>
     (\<forall>k i. map_of (relay_peers r) k = Some i \<longrightarrow> i < length (relay_heap r) \<and> rp_key (relay_heap r ! i) = k)"

lemma registry_invD:
  assumes "registry_inv r" "map_of (relay_peers r) k = Some i"
  shows "i < length (relay_heap r)" "rp_key (relay_heap r ! i) = k"
  using assms by (auto simp: registry_inv_def)

lemma registry_inv_empty [inv_intros]: "registry_inv empty_relay"
  by (simp add: registry_inv_def empty_relay_def)

lemma registry_inv_reserve [inv_intros]:
  "registry_inv r \<Longrightarrow> registry_inv (fst (reserve k r))"
  by (auto simp: registry_inv_def reserve_def Let_def map_of_update nth_append less_Suc_eq)

lemma registry_inv_unregister [inv_intros]:
  assumes "registry_inv r"
  shows "registry_inv (unregister p r)"
proof (cases p)
  case (Some i)
  have "registry_inv (r\<lparr>relay_peers := AList.delete k (relay_peers r)\<rparr>)" for k
    using assms by (simp add: registry_inv_def map_of_delete_iff gomap_ok_delete)
  with Some assms show ?thesis by (simp add: unregister_def Let_def)
qed (simp add: unregister_def assms)

lemma nth_update_key:
  "rp_key ((h[i := (h ! i)\<lparr>rp_fwd := f\<rparr>]) ! j) = rp_key (h ! j)"
  by (cases "i < length h"; cases "i = j") (auto simp: list_update_beyond)

lemma registry_inv_activate [inv_intros]:
  "registry_inv r \<Longrightarrow> registry_inv (fst (activate p fwd r))"
  by (auto simp: registry_inv_def activate_def nth_update_key split: option.splits)

lemma activate_peers [simp]: "relay_peers (fst (activate p fwd r)) = relay_peers r"
  by (simp add: activate_def split: option.splits)

lemma length_heap_activate [simp]: "length (relay_heap (fst (activate p fwd r))) = length (relay_heap r)"
  by (simp add: activate_def split: option.splits)

interpretation relay_reg: key_registry registry_inv "\<lambda>r. map_of (relay_peers r)" reserve "\<lambda>p. unregister (Some p)"
proof
  fix r :: "('a, 'b) MasqueRelay" and k k' h
  assume inv: "registry_inv r"
  show "reserve k r = (r, None)" if "map_of (relay_peers r) k = Some h"
    using that by (simp add: reserve_def)
  show "\<exists>r' h. reserve k r = (r', Some h) \<and> registry_inv r' \<and>
      map_of (relay_peers r') = (map_of (relay_peers r))(k \<mapsto> h)" if "map_of (relay_peers r) k = None"
    using that registry_inv_reserve [OF inv, of k] by (simp add: reserve_def Let_def update_conv')
  show "registry_inv (unregister (Some h) r) \<and>
      map_of (relay_peers (unregister (Some h) r)) = (map_of (relay_peers r))(k := None)"
    if "map_of (relay_peers r) k = Some h"
    using that registry_invD [OF inv that] registry_inv_unregister [OF inv, of "Some h"]
    by (simp add: unregister_def Let_def delete_conv')
  show "k = k'" if "map_of (relay_peers r) k = Some h" "map_of (relay_peers r) k' = Some h"
    using registry_invD [OF inv that(1)] registry_invD [OF inv that(2)] by simp
qed

section \<open>Direct reservations\<close>

record 'k directMasqueReservations =
  dr_peers :: "('k, unit) gomap"

definition direct_reserve :: "'k \<Rightarrow> 'k directMasqueReservations \<Rightarrow> 'k directMasqueReservations \<times> bool" where
  "direct_reserve peer r =
     (if map_of (dr_peers r) peer \<noteq> None then (r, False)
      else (r\<lparr>dr_peers := AList.update peer () (dr_peers r)\<rparr>, True))"

definition direct_release :: "'k \<Rightarrow> 'k directMasqueReservations \<Rightarrow> 'k directMasqueReservations" where
  "direct_release peer r = r\<lparr>dr_peers := AList.delete peer (dr_peers r)\<rparr>"

text \<open>The handle of a direct reservation is the key itself.\<close>

interpretation direct_reg: key_registry "\<lambda>r. gomap_ok (dr_peers r)"
  "\<lambda>r k. map_option (\<lambda>_. k) (map_of (dr_peers r) k)"
  "\<lambda>k r. (fst (direct_reserve k r), if snd (direct_reserve k r) then Some k else None)"
  direct_release
  by unfold_locales
     (auto simp: direct_reserve_def direct_release_def map_of_update map_of_delete_iff fun_eq_iff)

end
