(* ===== verification/Relay.thy ===== *)
theory Relay
  imports Registry
begin

text \<open>
  The relay: the CONNECT-UDP handler of \<^verbatim>\<open>masquecat_h3_server.go\<close> and the WebTransport
  handler of \<^verbatim>\<open>masquecat_webtransport.go\<close>, as a transition system over all their
  concurrent sessions. A step is one section of a handler that touches shared state (the
  authenticator, the registry, a destination's carrier), so every interleaving of sessions is a
  sequence of steps; the deferred \<^verbatim>\<open>unregister\<close> runs in the step that ends a session.

  A carrier is the stream or WebTransport session that belongs to one relay session. What a
  carrier's \<^verbatim>\<open>SendDatagram\<close> is given is recorded in a log together with the session whose
  handler sent it; a send that fails changes nothing else, because both handlers only log the
  error.
\<close>

section \<open>Admission\<close>

text \<open>The checks of the native handler up to the reservation of the key. The texts of the errors
  that quote a parser's message are not modelled.\<close>

definition relay_admit ::
  "'t masque_api \<Rightarrow> 'k node_key_api \<Rightarrow> ('p, 'k) node_private_api \<Rightarrow> time \<Rightarrow> time \<Rightarrow> bytes option \<Rightarrow>
   http_request \<Rightarrow> ('p, 'k) masqueAuthenticator \<Rightarrow>
   ('p, 'k) masqueAuthenticator \<times> response \<times> 'k option" where
  "relay_admit A K P now1 now2 nonce req a =
     (case masqueTemplateFor A (''https://'' @ rq_host req) of
        Inl e \<Rightarrow> (a, http_Error new_response [] 400, None)
      | Inr tmpl \<Rightarrow>
          (case parseConnectUDPRequestAny A new_response (masqueProxyRequestForParser req) tmpl of
             (w, None) \<Rightarrow> (a, w, None)
           | (w, Some target) \<Rightarrow>
               if header_get (rq_header req) masqueModeHeader \<noteq> masqueModeRelay
               then (a, http_Error w ''expected relay MasqueCat path'' 400, None)
               else case parseMasqueTarget K target of
                      Inl e \<Rightarrow> (a, http_Error w [] 400, None)
                    | Inr registeredKey \<Rightarrow>
                        if parseMasqueSource K (rq_header req) \<noteq> Inr registeredKey
                        then (a, http_Error w ''MasqueCat source does not match registered target'' 401, None)
                        else case authorize K P now1 now2 nonce w req registeredKey registeredKey masqueModeRelay a of
                               (a', w', ok) \<Rightarrow> (a', w', if ok then Some registeredKey else None)))"

record masqueBrowserControl =
  bc_Type :: string
  bc_Version :: int
  bc_Source :: string
  bc_Challenge :: string
  bc_Verifier :: string
  bc_Proof :: string
  bc_Error :: string

definition blank_control :: masqueBrowserControl where
  "blank_control = \<lparr>bc_Type = [], bc_Version = 0, bc_Source = [], bc_Challenge = [], bc_Verifier = [],
     bc_Proof = [], bc_Error = []\<rparr>"

definition browser_error :: "string \<Rightarrow> masqueBrowserControl" where
  "browser_error msg = blank_control\<lparr>bc_Type := ''error'', bc_Error := msg\<rparr>"

definition masqueBrowserProtocolVersion :: int where "masqueBrowserProtocolVersion = 1"

text \<open>
  The control exchange of a browser: the hello (\<open>None\<close> when it cannot be read) and the reply to
  it, then the proof.
\<close>

definition browser_hello ::
  "'k node_key_api \<Rightarrow> ('p, 'k) node_private_api \<Rightarrow> time \<Rightarrow> bytes option \<Rightarrow> string \<Rightarrow>
   masqueBrowserControl option \<Rightarrow> ('p, 'k) masqueAuthenticator \<Rightarrow>
   ('p, 'k) masqueAuthenticator \<times> masqueBrowserControl \<times> 'k option" where
  "browser_hello K P now nonce remoteAddr hello a =
     (case hello of
        None \<Rightarrow> (a, browser_error ''invalid MasqueCat browser hello'', None)
      | Some h \<Rightarrow>
          if bc_Type h \<noteq> ''hello'' \<or> bc_Version h \<noteq> masqueBrowserProtocolVersion
          then (a, browser_error ''invalid MasqueCat browser hello'', None)
          else case UnmarshalText K (bc_Source h) of
                 None \<Rightarrow> (a, browser_error ''invalid MasqueCat node identity'', None)
               | Some src \<Rightarrow>
                   if IsZero K src then (a, browser_error ''invalid MasqueCat node identity'', None)
                   else case issue now nonce src src masqueModeRelay remoteAddr a of
                          (a', Inl e) \<Rightarrow>
                            (a', browser_error ''failed to issue MasqueCat authentication challenge'', None)
                        | (a', Inr challenge) \<Rightarrow>
                            (a', blank_control\<lparr>bc_Type := ''challenge'', bc_Challenge := challenge,
                                   bc_Verifier := KeyString K (Public P (auth_priv a'))\<rparr>, Some src))"

definition browser_proof ::
  "'k node_key_api \<Rightarrow> ('p, 'k) node_private_api \<Rightarrow> time \<Rightarrow> 'k \<Rightarrow> masqueBrowserControl option \<Rightarrow>
   ('p, 'k) masqueAuthenticator \<Rightarrow> ('p, 'k) masqueAuthenticator \<times> masqueBrowserControl option" where
  "browser_proof K P now src msg a =
     (let rejected = Some (browser_error ''MasqueCat node-key proof rejected'') in
      case msg of
        None \<Rightarrow> (a, rejected)
      | Some m \<Rightarrow>
          if bc_Type m \<noteq> ''proof'' then (a, rejected)
          else case verify K P now (bc_Proof m) src src masqueModeRelay a of
                 (a', True) \<Rightarrow> (a', None)
               | (a', False) \<Rightarrow> (a', rejected))"

section \<open>Routing\<close>

datatype drop_reason = DropMalformed packet_error | DropSpoofed | DropDisco | DropNoRoute

text \<open>One iteration of the receive loops, up to the call of \<^verbatim>\<open>ForwardPacket\<close>.\<close>

definition relay_route ::
  "'k node_key_api \<Rightarrow> bytes \<Rightarrow> 'k \<Rightarrow> bytes \<Rightarrow> ('k, 'f) MasqueRelay \<Rightarrow> drop_reason + (nat \<times> 'k masquePacket)" where
  "relay_route K magic peerKey b r =
     (case decodeMasquePacket K b of
        Inl e \<Rightarrow> Inl (DropMalformed e)
      | Inr pkt \<Rightarrow>
          if p_src pkt \<noteq> peerKey then Inl DropSpoofed
          else if HasPrefix (p_payload pkt) magic then Inl DropDisco
          else case lookup (p_dst pkt) r of
                 None \<Rightarrow> Inl DropNoRoute
               | Some dst \<Rightarrow> Inr (dst, pkt))"

datatype carrier = StreamCarrier nat | BrowserCarrier nat

fun carrier_id :: "carrier \<Rightarrow> nat" where
  "carrier_id (StreamCarrier i) = i"
| "carrier_id (BrowserCarrier i) = i"

definition browserWebTransportForwarder_ForwardPacket ::
  "'k node_key_api \<Rightarrow> bytes \<Rightarrow> ('s \<Rightarrow> bytes \<Rightarrow> 's \<times> 'e option) \<Rightarrow> 's \<Rightarrow> 'k \<Rightarrow> 'k \<Rightarrow> bytes \<Rightarrow> 's \<times> 'e option" where
  "browserWebTransportForwarder_ForwardPacket K magic send session src dst payload =
     (if HasPrefix payload magic then (session, None)
      else send session (encodeMasquePacket K src dst payload))"

text \<open>The log of what carriers were given: the sending session, the carrier, the datagram.\<close>

type_synonym sent_log = "(nat \<times> carrier \<times> bytes) list"

definition log_send :: "nat \<Rightarrow> carrier \<Rightarrow> sent_log \<Rightarrow> bytes \<Rightarrow> sent_log \<times> unit option" where
  "log_send sid c log d = (log @ [(sid, c, d)], None)"

definition carrier_ForwardPacket ::
  "'k node_key_api \<Rightarrow> quicvarint_api \<Rightarrow> bytes \<Rightarrow> nat \<Rightarrow> carrier \<Rightarrow> 'k masquePacket \<Rightarrow> sent_log \<Rightarrow> sent_log" where
  "carrier_ForwardPacket K V magic sid c pkt log =
     fst (case c of
        StreamCarrier i \<Rightarrow> streamForwarder_ForwardPacket K V magic (log_send sid c) log
                             (p_src pkt) (p_dst pkt) (p_payload pkt)
      | BrowserCarrier i \<Rightarrow> browserWebTransportForwarder_ForwardPacket K magic (log_send sid c) log
                             (p_src pkt) (p_dst pkt) (p_payload pkt))"

section \<open>Sessions\<close>

text \<open>
  Where a handler is: a browser waiting to prove its key, a session past authentication, one that
  has reserved the key, an active one, one about to call \<^verbatim>\<open>ForwardPacket\<close> on the peer it
  looked up, and one that has returned.
\<close>

datatype 'k session =
  Challenged 'k
| Authorized 'k
| Reserved 'k nat
| Active 'k nat
| Forwarding 'k nat nat "'k masquePacket"
| Ended 'k

fun skey :: "'k session \<Rightarrow> 'k" where
  "skey (Challenged k) = k"
| "skey (Authorized k) = k"
| "skey (Reserved k p) = k"
| "skey (Active k p) = k"
| "skey (Forwarding k p q pkt) = k"
| "skey (Ended k) = k"

fun holding :: "'k session \<Rightarrow> nat option" where
  "holding (Reserved k p) = Some p"
| "holding (Active k p) = Some p"
| "holding (Forwarding k p q pkt) = Some p"
| "holding _ = None"

record ('p, 'k) relay_sys =
  rs_relay :: "('k, carrier) MasqueRelay"
  rs_auth :: "('p, 'k) masqueAuthenticator"
  rs_sessions :: "(nat, carrier \<times> 'k session) gomap"
  rs_sent :: sent_log

definition relay_init :: "'p \<Rightarrow> ('p, 'k) relay_sys" where
  "relay_init priv = \<lparr>rs_relay = empty_relay, rs_auth = \<lparr>auth_priv = priv, auth_pending = []\<rparr>,
     rs_sessions = [], rs_sent = []\<rparr>"

definition set_session :: "nat \<Rightarrow> carrier \<Rightarrow> 'k session \<Rightarrow> ('p, 'k) relay_sys \<Rightarrow> ('p, 'k) relay_sys" where
  "set_session sid c s sys = sys\<lparr>rs_sessions := AList.update sid (c, s) (rs_sessions sys)\<rparr>"

inductive relay_step ::
  "'t masque_api \<Rightarrow> 'k node_key_api \<Rightarrow> ('p, 'k) node_private_api \<Rightarrow> quicvarint_api \<Rightarrow> bytes \<Rightarrow>
   ('p, 'k) relay_sys \<Rightarrow> ('p, 'k) relay_sys \<Rightarrow> bool"
  for A K P V magic where
  admitted:
    "map_of (rs_sessions sys) sid = None \<Longrightarrow>
     relay_admit A K P now1 now2 nonce req (rs_auth sys) = (a', w, Some k) \<Longrightarrow>
     relay_step A K P V magic sys (set_session sid (StreamCarrier sid) (Authorized k) (sys\<lparr>rs_auth := a'\<rparr>))"
| refused:
    "relay_admit A K P now1 now2 nonce req (rs_auth sys) = (a', w, None) \<Longrightarrow>
     relay_step A K P V magic sys (sys\<lparr>rs_auth := a'\<rparr>)"
| hello_ok:
    "map_of (rs_sessions sys) sid = None \<Longrightarrow>
     browser_hello K P now nonce remoteAddr hello (rs_auth sys) = (a', reply, Some k) \<Longrightarrow>
     relay_step A K P V magic sys (set_session sid (BrowserCarrier sid) (Challenged k) (sys\<lparr>rs_auth := a'\<rparr>))"
| hello_refused:
    "browser_hello K P now nonce remoteAddr hello (rs_auth sys) = (a', reply, None) \<Longrightarrow>
     relay_step A K P V magic sys (sys\<lparr>rs_auth := a'\<rparr>)"
| proof_ok:
    "map_of (rs_sessions sys) sid = Some (c, Challenged k) \<Longrightarrow>
     browser_proof K P now k msg (rs_auth sys) = (a', None) \<Longrightarrow>
     relay_step A K P V magic sys (set_session sid c (Authorized k) (sys\<lparr>rs_auth := a'\<rparr>))"
| proof_refused:
    "map_of (rs_sessions sys) sid = Some (c, Challenged k) \<Longrightarrow>
     browser_proof K P now k msg (rs_auth sys) = (a', Some reply) \<Longrightarrow>
     relay_step A K P V magic sys (set_session sid c (Ended k) (sys\<lparr>rs_auth := a'\<rparr>))"
| reserved:
    "map_of (rs_sessions sys) sid = Some (c, Authorized k) \<Longrightarrow>
     reserve k (rs_relay sys) = (r', Some p) \<Longrightarrow>
     relay_step A K P V magic sys (set_session sid c (Reserved k p) (sys\<lparr>rs_relay := r'\<rparr>))"
| conflict:
    "map_of (rs_sessions sys) sid = Some (c, Authorized k) \<Longrightarrow>
     reserve k (rs_relay sys) = (r', None) \<Longrightarrow>
     relay_step A K P V magic sys (set_session sid c (Ended k) (sys\<lparr>rs_relay := r'\<rparr>))"
| accept_failed:
    "map_of (rs_sessions sys) sid = Some (c, Reserved k p) \<Longrightarrow>
     relay_step A K P V magic sys
       (set_session sid c (Ended k) (sys\<lparr>rs_relay := unregister (Some p) (rs_relay sys)\<rparr>))"
| activated:
    "map_of (rs_sessions sys) sid = Some (c, Reserved k p) \<Longrightarrow>
     activate (Some p) (Some c) (rs_relay sys) = (r', True) \<Longrightarrow>
     relay_step A K P V magic sys (set_session sid c (Active k p) (sys\<lparr>rs_relay := r'\<rparr>))"
| activation_failed:
    "map_of (rs_sessions sys) sid = Some (c, Reserved k p) \<Longrightarrow>
     activate (Some p) (Some c) (rs_relay sys) = (r', False) \<Longrightarrow>
     relay_step A K P V magic sys (set_session sid c (Ended k) (sys\<lparr>rs_relay := unregister (Some p) r'\<rparr>))"
| dropped:
    "map_of (rs_sessions sys) sid = Some (c, Active k p) \<Longrightarrow>
     relay_route K magic k b (rs_relay sys) = Inl reason \<Longrightarrow>
     relay_step A K P V magic sys sys"
| routed:
    "map_of (rs_sessions sys) sid = Some (c, Active k p) \<Longrightarrow>
     relay_route K magic k b (rs_relay sys) = Inr (q, pkt) \<Longrightarrow>
     relay_step A K P V magic sys (set_session sid c (Forwarding k p q pkt) sys)"
| forwarded:
    "map_of (rs_sessions sys) sid = Some (c, Forwarding k p q pkt) \<Longrightarrow>
     rp_fwd (relay_heap (rs_relay sys) ! q) = Some d \<Longrightarrow>
     relay_step A K P V magic sys
       (set_session sid c (Active k p) (sys\<lparr>rs_sent := carrier_ForwardPacket K V magic sid d pkt (rs_sent sys)\<rparr>))"
| closed:
    "map_of (rs_sessions sys) sid = Some (c, Active k p) \<Longrightarrow>
     relay_step A K P V magic sys
       (set_session sid c (Ended k) (sys\<lparr>rs_relay := unregister (Some p) (rs_relay sys)\<rparr>))"

inductive relay_reachable ::
  "'t masque_api \<Rightarrow> 'k node_key_api \<Rightarrow> ('p, 'k) node_private_api \<Rightarrow> quicvarint_api \<Rightarrow> bytes \<Rightarrow>
   ('p, 'k) relay_sys \<Rightarrow> bool"
  for A K P V magic where
  start: "relay_reachable A K P V magic (relay_init priv)"
| step: "relay_reachable A K P V magic sys \<Longrightarrow> relay_step A K P V magic sys sys' \<Longrightarrow>
         relay_reachable A K P V magic sys'"

section \<open>Invariant\<close>

text \<open>What a session's position promises about the registry.\<close>

fun sess_ok :: "('k, carrier) MasqueRelay \<Rightarrow> carrier \<Rightarrow> 'k session \<Rightarrow> bool" where
  "sess_ok r c (Reserved k p) \<longleftrightarrow> map_of (relay_peers r) k = Some p \<and> rp_fwd (relay_heap r ! p) = None"
| "sess_ok r c (Active k p) \<longleftrightarrow> map_of (relay_peers r) k = Some p \<and> rp_fwd (relay_heap r ! p) = Some c"
| "sess_ok r c (Forwarding k p q pkt) \<longleftrightarrow>
     map_of (relay_peers r) k = Some p \<and> rp_fwd (relay_heap r ! p) = Some c \<and>
     q < length (relay_heap r) \<and> rp_key (relay_heap r ! q) = p_dst pkt \<and>
     rp_fwd (relay_heap r ! q) \<noteq> None \<and> p_src pkt = k"
| "sess_ok r c _ \<longleftrightarrow> True"

definition datagram_for :: "'k node_key_api \<Rightarrow> quicvarint_api \<Rightarrow> carrier \<Rightarrow> 'k \<Rightarrow> 'k \<Rightarrow> bytes \<Rightarrow> bytes" where
  "datagram_for K V c src dst payload =
     (case c of StreamCarrier i \<Rightarrow> contextIDZero V | BrowserCarrier i \<Rightarrow> []) @ encodeMasquePacket K src dst payload"

definition sent_ok :: "'k node_key_api \<Rightarrow> quicvarint_api \<Rightarrow> (nat \<Rightarrow> (carrier \<times> 'k session) option) \<Rightarrow>
    nat \<times> carrier \<times> bytes \<Rightarrow> bool" where
  "sent_ok K V S e =
     (case e of (from, c, d) \<Rightarrow>
        \<exists>c1 s1 s2 payload. S from = Some (c1, s1) \<and> S (carrier_id c) = Some (c, s2) \<and>
          d = datagram_for K V c (skey s1) (skey s2) payload)"

definition relay_view ::
  "'k node_key_api \<Rightarrow> quicvarint_api \<Rightarrow> ('k, carrier) MasqueRelay \<Rightarrow> (nat \<Rightarrow> (carrier \<times> 'k session) option) \<Rightarrow>
   sent_log \<Rightarrow> bool" where
  "relay_view K V r S L \<longleftrightarrow>
     registry_inv r \<and>
     (\<forall>sid c s. S sid = Some (c, s) \<longrightarrow> carrier_id c = sid \<and> sess_ok r c s) \<and>
     (\<forall>sid sid' c s c' s' p. S sid = Some (c, s) \<and> S sid' = Some (c', s') \<and>
        holding s = Some p \<and> holding s' = Some p \<longrightarrow> sid = sid') \<and>
     (\<forall>k p. map_of (relay_peers r) k = Some p \<longrightarrow> (\<exists>sid c s. S sid = Some (c, s) \<and> holding s = Some p)) \<and>
     (\<forall>q c. q < length (relay_heap r) \<and> rp_fwd (relay_heap r ! q) = Some c \<longrightarrow>
        (\<exists>s. S (carrier_id c) = Some (c, s) \<and> skey s = rp_key (relay_heap r ! q))) \<and>
     (\<forall>e \<in> set L. sent_ok K V S e)"

definition relay_inv :: "'k node_key_api \<Rightarrow> quicvarint_api \<Rightarrow> ('p, 'k) relay_sys \<Rightarrow> bool" where
  "relay_inv K V sys \<longleftrightarrow> relay_view K V (rs_relay sys) (map_of (rs_sessions sys)) (rs_sent sys)"

lemma relay_viewD:
  assumes "relay_view K V r S L"
  shows "registry_inv r"
    "S sid = Some (c, s) \<Longrightarrow> carrier_id c = sid"
    "S sid = Some (c, s) \<Longrightarrow> sess_ok r c s"
    "S sid = Some (c, s) \<Longrightarrow> S sid' = Some (c', s') \<Longrightarrow> holding s = Some p \<Longrightarrow> holding s' = Some p \<Longrightarrow> sid = sid'"
    "map_of (relay_peers r) k = Some p \<Longrightarrow> \<exists>sid c s. S sid = Some (c, s) \<and> holding s = Some p"
    "q < length (relay_heap r) \<Longrightarrow> rp_fwd (relay_heap r ! q) = Some d \<Longrightarrow>
       \<exists>s. S (carrier_id d) = Some (d, s) \<and> skey s = rp_key (relay_heap r ! q)"
    "e \<in> set L \<Longrightarrow> sent_ok K V S e"
  using assms unfolding relay_view_def by blast+

lemma relay_viewI:
  assumes "registry_inv r"
    "\<And>sid c s. S sid = Some (c, s) \<Longrightarrow> carrier_id c = sid \<and> sess_ok r c s"
    "\<And>sid sid' c s c' s' p. S sid = Some (c, s) \<Longrightarrow> S sid' = Some (c', s') \<Longrightarrow>
        holding s = Some p \<Longrightarrow> holding s' = Some p \<Longrightarrow> sid = sid'"
    "\<And>k p. map_of (relay_peers r) k = Some p \<Longrightarrow> \<exists>sid c s. S sid = Some (c, s) \<and> holding s = Some p"
    "\<And>q c. q < length (relay_heap r) \<Longrightarrow> rp_fwd (relay_heap r ! q) = Some c \<Longrightarrow>
        \<exists>s. S (carrier_id c) = Some (c, s) \<and> skey s = rp_key (relay_heap r ! q)"
    "\<And>e. e \<in> set L \<Longrightarrow> sent_ok K V S e"
  shows "relay_view K V r S L"
  using assms unfolding relay_view_def by blast

lemma sess_ok_holding:
  "sess_ok r c s \<Longrightarrow> holding s = Some p \<Longrightarrow> map_of (relay_peers r) (skey s) = Some p"
  by (cases s) auto

text \<open>A session that keeps its key keeps the log well-formed.\<close>

lemma sent_ok_update:
  assumes "sent_ok K V S e" "S sid = Some (c, s) \<and> skey s' = skey s \<or> S sid = None"
  shows "sent_ok K V (S(sid \<mapsto> (c, s'))) e"
proof -
  obtain frm d b where e: "e = (frm, d, b)" by (cases e) auto
  from assms(1) obtain c1 s1 s2 payload where *: "S frm = Some (c1, s1)" "S (carrier_id d) = Some (d, s2)"
    "b = datagram_for K V d (skey s1) (skey s2) payload"
    by (auto simp: sent_ok_def e)
  let ?S = "S(sid \<mapsto> (c, s'))"
  have "\<exists>c1' s1'. ?S frm = Some (c1', s1') \<and> skey s1' = skey s1"
    using * assms(2) by (cases "frm = sid") auto
  moreover have "\<exists>s2'. ?S (carrier_id d) = Some (d, s2') \<and> skey s2' = skey s2"
    using * assms(2) by (cases "carrier_id d = sid") auto
  ultimately show ?thesis using *(3) by (fastforce simp: sent_ok_def e)
qed

text \<open>Steps that leave the registry alone.\<close>

lemma view_session:
  assumes "relay_view K V r S L"
    "S sid = Some (c, s) \<and> skey s' = skey s \<and> holding s' = holding s
     \<or> S sid = None \<and> holding s' = None \<and> carrier_id c = sid"
    "sess_ok r c s'"
  shows "relay_view K V r (S(sid \<mapsto> (c, s'))) L"
proof (rule relay_viewI)
  note D = relay_viewD [OF assms(1)]
  let ?S = "S(sid \<mapsto> (c, s'))"
  have hold: "\<exists>c0 s0. S i = Some (c0, s0) \<and> holding s0 = Some p"
    if "?S i = Some (ci, si)" "holding si = Some p" for i ci si p
    using that assms(2) by (cases "i = sid") auto
  show "registry_inv r" by (rule D(1))
  show "carrier_id ci = i \<and> sess_ok r ci si" if "?S i = Some (ci, si)" for i ci si
    using that assms(2,3) D(2,3) by (cases "i = sid") auto
  show "i = j" if "?S i = Some (ci, si)" "?S j = Some (cj, sj)" "holding si = Some p" "holding sj = Some p"
    for i j ci si cj sj p
    using hold [OF that(1,3)] hold [OF that(2,4)] D(4) by blast
  show "\<exists>i ci si. ?S i = Some (ci, si) \<and> holding si = Some p" if "map_of (relay_peers r) k = Some p" for k p
  proof -
    from D(5) [OF that] obtain i ci si where i: "S i = Some (ci, si)" "holding si = Some p" by blast
    then show ?thesis using assms(2) by (cases "i = sid") auto
  qed
  show "\<exists>s. ?S (carrier_id d) = Some (d, s) \<and> skey s = rp_key (relay_heap r ! q)"
    if "q < length (relay_heap r)" "rp_fwd (relay_heap r ! q) = Some d" for q d
    using D(6) [OF that] assms(2) by (cases "carrier_id d = sid") auto
  show "sent_ok K V ?S e" if "e \<in> set L" for e
    using sent_ok_update [OF D(7) [OF that]] assms(2) by blast
qed

lemma sess_ok_transfer:
  assumes "sess_ok r c s" "length (relay_heap r) \<le> length (relay_heap r')"
    "\<And>q. q < length (relay_heap r) \<Longrightarrow> rp_key (relay_heap r' ! q) = rp_key (relay_heap r ! q)"
    "\<And>q. q < length (relay_heap r) \<Longrightarrow> rp_fwd (relay_heap r ! q) \<noteq> None \<Longrightarrow> rp_fwd (relay_heap r' ! q) \<noteq> None"
    "\<And>p. holding s = Some p \<Longrightarrow> map_of (relay_peers r') (skey s) = Some p"
    "\<And>p. holding s = Some p \<Longrightarrow> rp_fwd (relay_heap r' ! p) = rp_fwd (relay_heap r ! p)"
  shows "sess_ok r' c s"
proof (cases s)
  case (Forwarding k p q pkt)
  with assms(1) have "rp_fwd (relay_heap r' ! q) \<noteq> None" by (intro assms(4)) auto
  with Forwarding assms(1,2,3,5,6) show ?thesis by auto
qed (use assms(1,5,6) in auto)

lemma view_reserve:
  assumes "relay_view K V r S L" "S sid = Some (c, Authorized k)" "reserve k r = (r', Some p)"
  shows "relay_view K V r' (S(sid \<mapsto> (c, Reserved k p))) L"
proof (rule relay_viewI)
  note D = relay_viewD [OF assms(1)]
  let ?S = "S(sid \<mapsto> (c, Reserved k p))"
  from assms(3) have new: "map_of (relay_peers r) k = None" "p = length (relay_heap r)"
    "relay_peers r' = AList.update k p (relay_peers r)"
    "relay_heap r' = relay_heap r @ [\<lparr>rp_key = k, rp_fwd = None\<rparr>]"
    by (auto simp: reserve_def Let_def split: if_splits)
  have old: "q < length (relay_heap r)" if "S i = Some (ci, si)" "holding si = Some q" for i ci si q
    using sess_ok_holding [OF D(3) [OF that(1)] that(2)] registry_invD(1) [OF D(1)] by blast
  have keep: "sess_ok r' ci si" if si: "S i = Some (ci, si)" for i ci si
  proof (rule sess_ok_transfer [OF D(3) [OF si]])
    fix q assume q: "holding si = Some q"
    have "map_of (relay_peers r) (skey si) = Some q" by (rule sess_ok_holding [OF D(3) [OF si] q])
    then show "map_of (relay_peers r') (skey si) = Some q"
      using new by (auto simp: map_of_update)
    show "rp_fwd (relay_heap r' ! q) = rp_fwd (relay_heap r ! q)"
      using old [OF si q] new(4) by (simp add: nth_append)
  qed (use new(4) in \<open>auto simp: nth_append\<close>)
  show "registry_inv r'" using registry_inv_reserve [OF D(1), of k] assms(3) by simp
  show "carrier_id ci = i \<and> sess_ok r' ci si" if "?S i = Some (ci, si)" for i ci si
    using that D(2,3) keep assms(2) new by (cases "i = sid") (auto simp: map_of_update nth_append)
  show "i = j" if "?S i = Some (ci, si)" "?S j = Some (cj, sj)" "holding si = Some q" "holding sj = Some q"
    for i j ci si cj sj q
    using that old D(4) new(2) by (cases "i = sid"; cases "j = sid") (fastforce+)
  show "\<exists>i ci si. ?S i = Some (ci, si) \<and> holding si = Some q" if "map_of (relay_peers r') k' = Some q" for k' q
  proof (cases "k' = k")
    case True
    with that new show ?thesis by (intro exI [of _ sid]) (simp add: map_of_update)
  next
    case False
    with that new have "map_of (relay_peers r) k' = Some q" by (simp add: map_of_update)
    from D(5) [OF this] obtain i ci si where "S i = Some (ci, si)" "holding si = Some q" by blast
    then show ?thesis using assms(2) by (cases "i = sid") auto
  qed
  show "\<exists>s. ?S (carrier_id d) = Some (d, s) \<and> skey s = rp_key (relay_heap r' ! q)"
    if "q < length (relay_heap r')" "rp_fwd (relay_heap r' ! q) = Some d" for q d
    using that new D(6) [of q d] assms(2) by (cases "q = length (relay_heap r)") (auto simp: nth_append)
  show "sent_ok K V ?S e" if "e \<in> set L" for e
    using sent_ok_update [OF D(7) [OF that], of sid c "Authorized k"] assms(2) by simp
qed

lemma view_end:
  assumes "relay_view K V r S L" "S sid = Some (c, s)" "holding s = Some p" "skey s = k"
  shows "relay_view K V (unregister (Some p) r) (S(sid \<mapsto> (c, Ended k))) L"
proof (rule relay_viewI)
  note D = relay_viewD [OF assms(1)]
  let ?S = "S(sid \<mapsto> (c, Ended k))" and ?r = "unregister (Some p) r"
  have kp: "map_of (relay_peers r) k = Some p"
    using sess_ok_holding [OF D(3) [OF assms(2)] assms(3)] assms(4) by simp
  have r: "relay_heap ?r = relay_heap r" "map_of (relay_peers ?r) = (map_of (relay_peers r))(k := None)"
    using relay_reg.free_held [OF D(1) kp] by (auto simp: unregister_def Let_def)
  have keep: "sess_ok ?r ci si" if si: "S i = Some (ci, si)" "i \<noteq> sid" for i ci si
  proof (rule sess_ok_transfer [OF D(3) [OF si(1)]])
    fix q assume q: "holding si = Some q"
    have m: "map_of (relay_peers r) (skey si) = Some q" by (rule sess_ok_holding [OF D(3) [OF si(1)] q])
    have "q \<noteq> p" using D(4) [OF si(1) assms(2) _ assms(3)] q si(2) by blast
    with m kp have "skey si \<noteq> k" by auto
    with m r show "map_of (relay_peers ?r) (skey si) = Some q" by simp
  qed (simp_all add: r)
  show "registry_inv ?r" by (rule registry_inv_unregister [OF D(1)])
  show "carrier_id ci = i \<and> sess_ok ?r ci si" if "?S i = Some (ci, si)" for i ci si
    using that D(2) keep assms(2) by (cases "i = sid") auto
  show "i = j" if "?S i = Some (ci, si)" "?S j = Some (cj, sj)" "holding si = Some q" "holding sj = Some q"
    for i j ci si cj sj q
    using that D(4) by (cases "i = sid"; cases "j = sid") auto
  show "\<exists>i ci si. ?S i = Some (ci, si) \<and> holding si = Some q" if "map_of (relay_peers ?r) k' = Some q" for k' q
  proof -
    have k': "k' \<noteq> k" "map_of (relay_peers r) k' = Some q" using that r by (auto split: if_splits)
    then obtain i ci si where i: "S i = Some (ci, si)" "holding si = Some q" using D(5) by blast
    have "q \<noteq> p" using relay_reg.holder_inj [OF D(1) k'(2)] kp k'(1) by blast
    then have "i \<noteq> sid" using i assms(2,3) by auto
    with i show ?thesis by (intro exI [of _ i]) simp
  qed
  show "\<exists>s. ?S (carrier_id d) = Some (d, s) \<and> skey s = rp_key (relay_heap ?r ! q)"
    if "q < length (relay_heap ?r)" "rp_fwd (relay_heap ?r ! q) = Some d" for q d
    using that D(6) [of q d] assms(2,4) r by (cases "carrier_id d = sid") auto
  show "sent_ok K V ?S e" if "e \<in> set L" for e
    using sent_ok_update [OF D(7) [OF that], of sid c s] assms(2,4) by simp
qed

lemma view_activate:
  assumes "relay_view K V r S L" "S sid = Some (c, Reserved k p)" "activate (Some p) (Some c) r = (r', True)"
  shows "relay_view K V r' (S(sid \<mapsto> (c, Active k p))) L"
proof (rule relay_viewI)
  note D = relay_viewD [OF assms(1)]
  let ?S = "S(sid \<mapsto> (c, Active k p))"
  have kp: "map_of (relay_peers r) k = Some p" using D(3) [OF assms(2)] by simp
  note p = registry_invD [OF D(1) kp]
  from assms(3) have r': "relay_peers r' = relay_peers r"
    "relay_heap r' = (relay_heap r)[p := (relay_heap r ! p)\<lparr>rp_fwd := Some c\<rparr>]"
    by (auto simp: activate_def split: if_splits)
  have key: "rp_key (relay_heap r' ! q) = rp_key (relay_heap r ! q)" for q
    by (simp add: r'(2) nth_update_key)
  have hold: "\<exists>c0 s0. S i = Some (c0, s0) \<and> holding s0 = Some q"
    if "?S i = Some (ci, si)" "holding si = Some q" for i ci si q
    using that assms(2) by (cases "i = sid") auto
  have keep: "sess_ok r' ci si" if si: "S i = Some (ci, si)" "i \<noteq> sid" for i ci si
  proof (rule sess_ok_transfer [OF D(3) [OF si(1)]])
    fix q assume q: "holding si = Some q"
    have "q \<noteq> p" using D(4) [OF si(1) assms(2) q] si(2) by auto
    then show "rp_fwd (relay_heap r' ! q) = rp_fwd (relay_heap r ! q)" by (simp add: r'(2))
    show "map_of (relay_peers r') (skey si) = Some q"
      using sess_ok_holding [OF D(3) [OF si(1)] q] r'(1) by simp
  next
    fix q assume "q < length (relay_heap r)" "rp_fwd (relay_heap r ! q) \<noteq> None"
    then show "rp_fwd (relay_heap r' ! q) \<noteq> None" by (cases "q = p") (simp_all add: r'(2))
  qed (simp_all add: r'(2) nth_update_key)
  show "registry_inv r'" using registry_inv_activate [OF D(1), of "Some p" "Some c"] assms(3) by simp
  show "carrier_id ci = i \<and> sess_ok r' ci si" if "?S i = Some (ci, si)" for i ci si
    using that D(2) keep assms(2) kp p r' by (cases "i = sid") auto
  show "i = j" if "?S i = Some (ci, si)" "?S j = Some (cj, sj)" "holding si = Some q" "holding sj = Some q"
    for i j ci si cj sj q
    using hold [OF that(1,3)] hold [OF that(2,4)] D(4) by blast
  show "\<exists>i ci si. ?S i = Some (ci, si) \<and> holding si = Some q" if "map_of (relay_peers r') k' = Some q" for k' q
  proof -
    from that r' D(5) obtain i ci si where "S i = Some (ci, si)" "holding si = Some q" by metis
    then show ?thesis using assms(2) by (cases "i = sid") auto
  qed
  show "\<exists>s. ?S (carrier_id d) = Some (d, s) \<and> skey s = rp_key (relay_heap r' ! q)"
    if "q < length (relay_heap r')" "rp_fwd (relay_heap r' ! q) = Some d" for q d
  proof (cases "q = p")
    case True
    with that p r'(2) have "d = c" by simp
    with D(2) [OF assms(2)] True p key show ?thesis by simp
  next
    case False
    with that r'(2) D(6) [of q d] assms(2) show ?thesis by (cases "carrier_id d = sid") auto
  qed
  show "sent_ok K V ?S e" if "e \<in> set L" for e
    using sent_ok_update [OF D(7) [OF that], of sid c "Reserved k p"] assms(2) by simp
qed

lemma activate_reserved:
  assumes "relay_view K V r S L" "S sid = Some (c, Reserved k p)"
  shows "snd (activate (Some p) (Some c) r)"
  using relay_viewD(3) [OF assms] registry_invD [OF relay_viewD(1) [OF assms(1)]]
  by (auto simp: activate_def)

lemma carrier_ForwardPacket_log:
  "carrier_ForwardPacket K V magic sid c pkt log =
     (if HasPrefix (p_payload pkt) magic then log
      else log @ [(sid, c, datagram_for K V c (p_src pkt) (p_dst pkt) (p_payload pkt))])"
  by (simp add: carrier_ForwardPacket_def streamForwarder_ForwardPacket_def log_send_def datagram_for_def
      browserWebTransportForwarder_ForwardPacket_def split: carrier.splits)

lemma view_forward:
  assumes "relay_view K V r S L" "S sid = Some (c, Forwarding k p q pkt)"
    "rp_fwd (relay_heap r ! q) = Some d"
  shows "relay_view K V r S (carrier_ForwardPacket K V magic sid d pkt L)"
proof -
  note D = relay_viewD [OF assms(1)]
  from D(3) [OF assms(2)] have q: "q < length (relay_heap r)" "rp_key (relay_heap r ! q) = p_dst pkt"
    "p_src pkt = k" by auto
  from D(6) [OF q(1) assms(3)] q obtain s where "S (carrier_id d) = Some (d, s)" "skey s = p_dst pkt" by auto
  then have "sent_ok K V S (sid, d, datagram_for K V d (p_src pkt) (p_dst pkt) (p_payload pkt))"
    using assms(2) q(3) by (fastforce simp: sent_ok_def)
  with assms(1) show ?thesis by (auto simp: relay_view_def carrier_ForwardPacket_log)
qed

lemma map_of_set_session:
  "map_of (rs_sessions (set_session sid c s sys)) = (map_of (rs_sessions sys))(sid \<mapsto> (c, s))"
  by (simp add: set_session_def update_conv')

lemma set_session_simps [simp]:
  "rs_relay (set_session sid c s sys) = rs_relay sys" "rs_sent (set_session sid c s sys) = rs_sent sys"
  "rs_auth (set_session sid c s sys) = rs_auth sys"
  by (simp_all add: set_session_def)

lemma relay_inv_init: "relay_inv K V (relay_init priv)"
  by (simp add: relay_inv_def relay_view_def relay_init_def empty_relay_def registry_inv_def)

lemma route_target:
  assumes "registry_inv r" "relay_route K magic k b r = Inr (q, pkt)"
  shows "q < length (relay_heap r)" "rp_key (relay_heap r ! q) = p_dst pkt"
    "rp_fwd (relay_heap r ! q) \<noteq> None" "p_src pkt = k" "\<not> HasPrefix (p_payload pkt) magic"
    "decodeMasquePacket K b = Inr pkt"
  using assms registry_invD [OF assms(1)]
  by (auto simp: relay_route_def lookup_def split: sum.splits if_splits option.splits)

lemma relay_inv_step:
  assumes "relay_step A K P V magic sys sys'" "relay_inv K V sys"
  shows "relay_inv K V sys'"
  using assms
proof cases
  case (reserved sid c k r' p)
  with assms(2) view_reserve show ?thesis by (fastforce simp: relay_inv_def map_of_set_session)
next
  case (conflict sid c k r')
  with assms(2) have "r' = rs_relay sys" by (auto simp: reserve_def Let_def split: if_splits)
  with conflict assms(2) show ?thesis
    by (auto simp: relay_inv_def map_of_set_session intro!: view_session)
next
  case (accept_failed sid c k p)
  with assms(2) show ?thesis by (auto simp: relay_inv_def map_of_set_session intro!: view_end)
next
  case (closed sid c k p)
  with assms(2) show ?thesis by (auto simp: relay_inv_def map_of_set_session intro!: view_end)
next
  case (activated sid c k p r')
  with assms(2) view_activate show ?thesis by (fastforce simp: relay_inv_def map_of_set_session)
next
  case (activation_failed sid c k p r')
  with assms(2) activate_reserved show ?thesis by (fastforce simp: relay_inv_def)
next
  case (routed sid c k p b q pkt)
  have "registry_inv (rs_relay sys)" using assms(2) by (simp add: relay_inv_def relay_view_def)
  note t = route_target [OF this routed(3)]
  have "sess_ok (rs_relay sys) c (Active k p)"
    using assms(2) routed(2) by (auto simp: relay_inv_def dest: relay_viewD(3))
  with routed t assms(2) show ?thesis
    by (auto simp: relay_inv_def map_of_set_session intro!: view_session)
next
  case (forwarded sid c k p q pkt d)
  have "sess_ok (rs_relay sys) c (Forwarding k p q pkt)"
    using assms(2) forwarded(2) by (auto simp: relay_inv_def dest: relay_viewD(3))
  moreover have "relay_view K V (rs_relay sys) (map_of (rs_sessions sys))
      (carrier_ForwardPacket K V magic sid d pkt (rs_sent sys))"
    using assms(2) forwarded by (auto simp: relay_inv_def intro: view_forward)
  ultimately show ?thesis
    using forwarded by (auto simp: relay_inv_def map_of_set_session intro!: view_session)
qed (auto simp: relay_inv_def map_of_set_session intro!: view_session)

lemma relay_inv_reachable: "relay_reachable A K P V magic sys \<Longrightarrow> relay_inv K V sys"
  by (induction rule: relay_reachable.induct) (simp_all add: relay_inv_init relay_inv_step)

section \<open>A sample run\<close>

text \<open>
  A browser that authenticates as key 7, becomes active and sends itself a datagram: it shows that
  the states the properties speak of are reached.
\<close>

definition sample_api :: "string masque_api" where
  "sample_api = \<lparr>uritemplate_New = Some, ParseProxyRequest = (\<lambda>r t. Inr (masqueTarget raw_keys 7))\<rparr>"

definition sample_active :: "raw_key session \<Rightarrow> sent_log \<Rightarrow> (raw_key, raw_key) relay_sys" where
  "sample_active s log =
     \<lparr>rs_relay = \<lparr>relay_peers = [(7, 0)], relay_heap = [\<lparr>rp_key = 7, rp_fwd = Some (BrowserCarrier 0)\<rparr>]\<rparr>,
      rs_auth = \<lparr>auth_priv = 2, auth_pending = []\<rparr>,
      rs_sessions = [(0, (BrowserCarrier 0, s))], rs_sent = log\<rparr>"

abbreviation sample_step :: "(raw_key, raw_key) relay_sys \<Rightarrow> (raw_key, raw_key) relay_sys \<Rightarrow> bool" where
  "sample_step \<equiv> relay_step sample_api raw_keys raw_privates rfc9000 [84, 83]"

abbreviation sample_reachable :: "(raw_key, raw_key) relay_sys \<Rightarrow> bool" where
  "sample_reachable \<equiv> relay_reachable sample_api raw_keys raw_privates rfc9000 [84, 83]"

lemma sample_login:
  "\<exists>a. sample_reachable \<lparr>rs_relay = empty_relay, rs_auth = a, rs_sessions = [(0, (BrowserCarrier 0, Authorized 7))],
      rs_sent = []\<rparr> \<and> a = \<lparr>auth_priv = 2, auth_pending = []\<rparr>"
proof -
  let ?a = "\<lparr>auth_priv = 2, auth_pending = []\<rparr> :: (raw_key, raw_key) masqueAuthenticator"
  let ?t = "b64_encode [1]"
  let ?c = "\<lparr>ch_src = 7, ch_target = 7, ch_mode = masqueModeRelay, ch_clientID = ''h'',
     ch_expires = seconds 30\<rparr> :: raw_key masqueChallenge"
  let ?a1 = "?a\<lparr>auth_pending := [(?t, ?c)]\<rparr>"
  let ?hello = "blank_control\<lparr>bc_Type := ''hello'', bc_Version := 1, bc_Source := KeyString raw_keys 7\<rparr>"
  let ?proof = "b64_encode (SealTo raw_privates 7 2 [] (string_bytes ?t))"
  let ?msg = "blank_control\<lparr>bc_Type := ''proof'', bc_Proof := ?proof\<rparr>"
  have i: "issue 0 (Some [1]) 7 7 masqueModeRelay ''h'' ?a = (?a1, Inr ?t)"
    by (simp add: issue_def Let_def go_consts masqueChallengeTTL_def)
  have z: "\<not> IsZero raw_keys 7" by (simp add: raw_keys_def)
  obtain reply where h: "browser_hello raw_keys raw_privates 0 (Some [1]) ''h'' (Some ?hello) ?a = (?a1, reply, Some 7)"
    using key_lawsD(5) [OF key_laws_raw_keys, of 7] z i
    by (simp add: browser_hello_def masqueBrowserProtocolVersion_def del: b64_encode.simps)
  have "Public raw_privates q = q" for q by (simp add: raw_privates_def)
  then have tok: "proof_token raw_privates 2 7 ?proof = Some ?t"
    using seal_laws_raw by (simp add: proof_token_def seal_laws_def del: b64_encode.simps)
  have pr: "browser_proof raw_keys raw_privates 1 7 (Some ?msg) ?a1 = (?a, None)"
    by (simp add: browser_proof_def verify_eq tok z live_def seconds_def del: b64_encode.simps)
  have "sample_reachable (relay_init 2)" by (rule relay_reachable.start)
  then have s1: "sample_reachable (set_session 0 (BrowserCarrier 0) (Challenged 7) ((relay_init 2)\<lparr>rs_auth := ?a1\<rparr>))"
    by (rule relay_reachable.step [OF _ relay_step.hello_ok [where hello = "Some ?hello"]])
       (use h in \<open>simp_all add: relay_init_def del: b64_encode.simps\<close>)
  have "sample_reachable (set_session 0 (BrowserCarrier 0) (Authorized 7)
     ((set_session 0 (BrowserCarrier 0) (Challenged 7) ((relay_init 2)\<lparr>rs_auth := ?a1\<rparr>))\<lparr>rs_auth := ?a\<rparr>))"
    by (rule relay_reachable.step [OF s1 relay_step.proof_ok [where msg = "Some ?msg"]])
       (use pr in \<open>simp_all add: map_of_set_session del: b64_encode.simps\<close>)
  then show ?thesis by (simp add: set_session_def relay_init_def empty_relay_def)
qed

lemma sample_activation: "sample_reachable (sample_active (Active 7 0) [])"
proof -
  let ?sys = "\<lparr>rs_relay = empty_relay, rs_auth = \<lparr>auth_priv = 2, auth_pending = []\<rparr>,
     rs_sessions = [(0, (BrowserCarrier 0, Authorized 7))], rs_sent = []\<rparr> :: (raw_key, raw_key) relay_sys"
  let ?r = "\<lparr>relay_peers = [(7, 0)], relay_heap = [\<lparr>rp_key = 7, rp_fwd = None\<rparr>]\<rparr> :: (raw_key, carrier) MasqueRelay"
  have "sample_reachable ?sys" using sample_login by auto
  then have s1: "sample_reachable (set_session 0 (BrowserCarrier 0) (Reserved 7 0) (?sys\<lparr>rs_relay := ?r\<rparr>))"
    by (rule relay_reachable.step [OF _ relay_step.reserved])
       (simp_all add: reserve_def empty_relay_def Let_def)
  have "sample_reachable (set_session 0 (BrowserCarrier 0) (Active 7 0)
     ((set_session 0 (BrowserCarrier 0) (Reserved 7 0) (?sys\<lparr>rs_relay := ?r\<rparr>))
        \<lparr>rs_relay := rs_relay (sample_active (Active 7 0) [])\<rparr>))"
    by (rule relay_reachable.step [OF s1 relay_step.activated])
       (simp_all add: map_of_set_session activate_def sample_active_def)
  then show ?thesis by (simp add: set_session_def sample_active_def)
qed

lemma sample_forward:
  "sample_reachable (sample_active (Active 7 0)
     [(0, BrowserCarrier 0, encodeMasquePacket raw_keys 7 7 [1])])"
proof -
  let ?pkt = "\<lparr>p_src = 7, p_dst = 7, p_payload = [1]\<rparr> :: raw_key masquePacket"
  have "relay_route raw_keys [84, 83] 7 (encodeMasquePacket raw_keys 7 7 [1])
      (rs_relay (sample_active (Active 7 0) [])) = Inr (0, ?pkt)"
    by (simp add: relay_route_def decode_encode [OF key_laws_raw_keys] HasPrefix_def lookup_def sample_active_def)
  then have s1: "sample_reachable (set_session 0 (BrowserCarrier 0) (Forwarding 7 0 0 ?pkt) (sample_active (Active 7 0) []))"
    by (rule relay_reachable.step [OF sample_activation relay_step.routed, rotated])
       (simp add: sample_active_def)
  have "sample_reachable (set_session 0 (BrowserCarrier 0) (Active 7 0)
     ((set_session 0 (BrowserCarrier 0) (Forwarding 7 0 0 ?pkt) (sample_active (Active 7 0) []))
       \<lparr>rs_sent := carrier_ForwardPacket raw_keys rfc9000 [84, 83] 0 (BrowserCarrier 0) ?pkt []\<rparr>))"
    using relay_reachable.step [OF s1 relay_step.forwarded [of _ 0 "BrowserCarrier 0" 7 0 0 ?pkt "BrowserCarrier 0"]]
    by (simp add: map_of_set_session sample_active_def)
  then show ?thesis
    by (simp add: set_session_def sample_active_def carrier_ForwardPacket_log datagram_for_def HasPrefix_def)
qed

section \<open>Properties\<close>

text \<open>
  C6: the registry is exactly the live sessions. In every reachable state of the relay, under any
  interleaving of native and browser sessions, a key is registered if and only if one session
  holds it, two sessions never hold the same key, and once every session has ended the registry is
  empty: no registration leaks and none is stolen.
\<close>
theorem relay_registry_exclusive:
  assumes "relay_reachable A K P V magic sys"
  defines "S \<equiv> map_of (rs_sessions sys)"
  shows "(map_of (relay_peers (rs_relay sys)) k = Some p \<longleftrightarrow>
            (\<exists>sid c s. S sid = Some (c, s) \<and> skey s = k \<and> holding s = Some p)) \<and>
         (\<forall>sid sid' c c' s s'. S sid = Some (c, s) \<and> S sid' = Some (c', s') \<and> skey s = skey s' \<and>
            holding s \<noteq> None \<and> holding s' \<noteq> None \<longrightarrow> sid = sid') \<and>
         ((\<forall>sid c s. S sid = Some (c, s) \<longrightarrow> (\<exists>k. s = Ended k)) \<longrightarrow> relay_peers (rs_relay sys) = [])"
proof (intro conjI)
  note D = relay_viewD [OF relay_inv_reachable [OF assms(1), unfolded relay_inv_def], folded S_def]
  show "map_of (relay_peers (rs_relay sys)) k = Some p \<longleftrightarrow>
      (\<exists>sid c s. S sid = Some (c, s) \<and> skey s = k \<and> holding s = Some p)"
  proof
    assume kp: "map_of (relay_peers (rs_relay sys)) k = Some p"
    then obtain sid c s where s: "S sid = Some (c, s)" "holding s = Some p" using D(5) by blast
    moreover have "skey s = k"
      using relay_reg.holder_inj [OF D(1) kp] sess_ok_holding [OF D(3) [OF s(1)] s(2)] by blast
    ultimately show "\<exists>sid c s. S sid = Some (c, s) \<and> skey s = k \<and> holding s = Some p" by blast
  qed (use D(3) sess_ok_holding in blast)
  show "\<forall>sid sid' c c' s s'. S sid = Some (c, s) \<and> S sid' = Some (c', s') \<and> skey s = skey s' \<and>
      holding s \<noteq> None \<and> holding s' \<noteq> None \<longrightarrow> sid = sid'"
    using D(3,4) sess_ok_holding by (metis not_None_eq option.inject)
  show "(\<forall>sid c s. S sid = Some (c, s) \<longrightarrow> (\<exists>k. s = Ended k)) \<longrightarrow> relay_peers (rs_relay sys) = []"
  proof (rule impI, rule ccontr)
    assume ended: "\<forall>sid c s. S sid = Some (c, s) \<longrightarrow> (\<exists>k. s = Ended k)" and "relay_peers (rs_relay sys) \<noteq> []"
    then obtain e m where "relay_peers (rs_relay sys) = e # m" by (cases "relay_peers (rs_relay sys)") auto
    then have "map_of (relay_peers (rs_relay sys)) (fst e) = Some (snd e)" by (cases e) simp
    then show False using D(5) ended by fastforce
  qed
qed

theorem relay_registry_exclusive_witness:
  "\<exists>sid c s. map_of (rs_sessions (sample_active (Active 7 0) [])) sid = Some (c, s) \<and> skey s = 7 \<and> holding s = Some 0"
proof -
  have "map_of (relay_peers (rs_relay (sample_active (Active 7 0) []))) 7 = Some 0"
    by (simp add: sample_active_def)
  with relay_registry_exclusive [OF sample_activation, of 7 0] show ?thesis by blast
qed



lemma parser_response:
  "snd (parseConnectUDPRequestAny A new_response r t) \<noteq> None \<Longrightarrow>
   rw_status (fst (parseConnectUDPRequestAny A new_response r t)) = None"
  by (auto simp: parseConnectUDPRequestAny_def parseConnectUDPRequest_def Let_def new_response_def
      split: if_splits sum.splits proxy_error.splits)

lemma authorize_status:
  assumes "authorize K P now1 now2 nonce w r src tgt mode a = (a', w', False)" "rw_status w = None"
  shows "rw_status w' \<in> Some ` {401, 429, 500}"
  using assms
  by (auto simp: authorize_def Let_def split: prod.splits sum.splits if_splits issue_error.splits)

lemma authorize_True:
  assumes "authorize K P now1 now2 nonce w r src tgt mode a = (a', w', True)"
  shows "\<not> IsZero K src" "verify K P now1 (header_get (rq_header r) masqueProofHeader) src tgt mode a = (a', True)"
  using assms
  by (auto simp: authorize_def Let_def split: prod.splits sum.splits if_splits issue_error.splits)

lemma relay_admit_cases:
  assumes "relay_admit A K P now1 now2 nonce req a = (a', w, res)"
  obtains (early) "res = None" "rw_status w \<in> Some ` {400, 401}"
  | (parser) tmpl where "res = None"
      "parseConnectUDPRequestAny A new_response (masqueProxyRequestForParser req) tmpl = (w, None)"
  | (authorized) k w0 ok where "header_get (rq_header req) masqueModeHeader = ''relay''"
      "parseMasqueSource K (rq_header req) = Inr k" "rw_status w0 = None"
      "authorize K P now1 now2 nonce w0 req k k ''relay'' a = (a', w, ok)"
      "res = (if ok then Some k else None)"
proof (cases "masqueTemplateFor A (''https://'' @ rq_host req)")
  case (Inl e)
  with assms early show ?thesis by (auto simp: relay_admit_def new_response_def)
next
  case (Inr tmpl)
  obtain w0 t where parse: "parseConnectUDPRequestAny A new_response (masqueProxyRequestForParser req) tmpl = (w0, t)"
    by fastforce
  show ?thesis
  proof (cases t)
    case None
    with assms Inr parse parser show ?thesis by (auto simp: relay_admit_def)
  next
    case (Some target)
    with parse parser_response [of A "masqueProxyRequestForParser req" tmpl] have w0: "rw_status w0 = None" by simp
    show ?thesis
    proof (cases "parseMasqueTarget K target")
      case (Inl e)
      with assms Inr parse Some w0 early show ?thesis
        by (auto simp: relay_admit_def split: if_splits)
    next
      case k: (Inr k)
      show ?thesis
      proof (cases "header_get (rq_header req) masqueModeHeader = ''relay'' \<and> parseMasqueSource K (rq_header req) = Inr k")
        case True
        obtain a1 w1 ok where "authorize K P now1 now2 nonce w0 req k k ''relay'' a = (a1, w1, ok)"
          using prod_cases3 by blast
        with assms Inr parse Some k True w0 authorized [of k w0 ok] show ?thesis
          by (auto simp: relay_admit_def masqueModeRelay_def)
      next
        case False
        with assms Inr parse Some k w0 early show ?thesis
          by (auto simp: relay_admit_def masqueModeRelay_def split: if_splits)
      qed
    qed
  qed
qed

text \<open>
  C7: a session acts for a key only after proving it. The native handler admits a request for key
  \<open>k\<close> only if its mode is relay, its source header names \<open>k\<close>, and its proof verifies against a
  pending challenge for \<open>k\<close>; a browser is let past the challenge only by a proof for the key of
  its hello. Every refusal of the native handler that is not the CONNECT-UDP parser's carries status
  400, 401, 429 or 500.
\<close>
theorem relay_admission:
  assumes "relay_admit A K P now1 now2 nonce req a = (a', w, res)"
  shows "(\<forall>k. res = Some k \<longrightarrow>
            \<not> IsZero K k \<and> header_get (rq_header req) masqueModeHeader = ''relay'' \<and>
            parseMasqueSource K (rq_header req) = Inr k \<and>
            verify K P now1 (header_get (rq_header req) masqueProofHeader) k k ''relay'' a = (a', True)) \<and>
         (res = None \<longrightarrow>
            rw_status w \<in> Some ` {400, 401, 429, 500} \<or>
            (\<exists>tmpl. parseConnectUDPRequestAny A new_response (masqueProxyRequestForParser req) tmpl = (w, None))) \<and>
         (\<forall>now src msg b. browser_proof K P now src msg b = (b', None) \<longrightarrow>
            (\<exists>m. msg = Some m \<and> verify K P now (bc_Proof m) src src ''relay'' b = (b', True)))"
proof (intro conjI allI impI)
  fix k assume "res = Some k"
  with assms show "\<not> IsZero K k" "header_get (rq_header req) masqueModeHeader = ''relay''"
    "parseMasqueSource K (rq_header req) = Inr k"
    "verify K P now1 (header_get (rq_header req) masqueProofHeader) k k ''relay'' a = (a', True)"
    by (auto elim!: relay_admit_cases dest: authorize_True split: if_splits)
next
  assume none: "res = None"
  from assms show "rw_status w \<in> Some ` {400, 401, 429, 500} \<or>
      (\<exists>tmpl. parseConnectUDPRequestAny A new_response (masqueProxyRequestForParser req) tmpl = (w, None))"
    by (cases rule: relay_admit_cases) (use none in \<open>auto dest: authorize_status split: if_splits\<close>)
next
  fix now src msg b assume "browser_proof K P now src msg b = (b', None)"
  then show "\<exists>m. msg = Some m \<and> verify K P now (bc_Proof m) src src ''relay'' b = (b', True)"
    by (auto simp: browser_proof_def masqueModeRelay_def Let_def split: option.splits if_splits prod.splits bool.splits)
qed

definition sample_request :: "string \<Rightarrow> http_request" where
  "sample_request ep = blank_request\<lparr>rq_host := ''h'',
     rq_header := header_set masqueProofHeader ep (header_set masqueSourceHeader (KeyString raw_keys 7)
       (header_set masqueModeHeader ''relay'' []))\<rparr>"

theorem relay_admission_witness:
  "\<exists>ep a' w. relay_admit sample_api raw_keys raw_privates 5 5 None (sample_request ep)
       \<lparr>auth_priv = 2, auth_pending = [(''x'', \<lparr>ch_src = 7, ch_target = 7, ch_mode = ''relay'',
          ch_clientID = ''h'', ch_expires = 6\<rparr>)]\<rparr> = (a', w, Some 7) \<and>
     parseMasqueSource raw_keys (rq_header (sample_request ep)) = Inr 7"
proof -
  let ?a = "\<lparr>auth_priv = 2, auth_pending = [(''x'', \<lparr>ch_src = 7, ch_target = 7, ch_mode = ''relay'',
     ch_clientID = ''h'', ch_expires = 6\<rparr>)]\<rparr> :: (raw_key, raw_key) masqueAuthenticator"
  define ep where "ep = b64_encode (SealTo raw_privates 7 2 [] (string_bytes ''x''))"
  have ne: "ep \<noteq> []" using seal_laws_raw by (simp add: ep_def b64_encode_nonempty seal_laws_def)
  have "Public raw_privates q = q" for q by (simp add: raw_privates_def)
  then have tok: "proof_token raw_privates 2 7 ep = Some ''x''"
    using seal_laws_raw by (simp add: proof_token_def ep_def seal_laws_def)
  have z: "\<not> IsZero raw_keys 7" by (simp add: raw_keys_def)
  have v: "verify raw_keys raw_privates 5 ep 7 7 ''relay'' ?a = (?a\<lparr>auth_pending := []\<rparr>, True)"
    by (simp add: verify_eq tok live_def z)
  have "case masqueTemplateURL ''https://h'' of Inr t \<Rightarrow> True | Inl _ \<Rightarrow> False" by code_simp
  then obtain t where t: "masqueTemplateFor sample_api (''https://h'') = Inr t"
    by (auto simp: masqueTemplateFor_def sample_api_def split: sum.splits)
  have hdr: "header_get (rq_header (sample_request ep)) masqueProofHeader = ep"
    "header_get (rq_header (sample_request ep)) masqueSourceHeader = KeyString raw_keys 7"
    "header_get (rq_header (sample_request ep)) masqueModeHeader = ''relay''"
    by (simp_all add: sample_request_def header_consts)
  have "KeyString raw_keys 7 \<noteq> []" by (simp add: raw_keys_def nodePublicTextPrefix_def)
  then have src: "parseMasqueSource raw_keys (rq_header (sample_request ep)) = Inr 7"
    by (simp add: parseMasqueSource_def hdr key_lawsD(5) [OF key_laws_raw_keys])
  have host: "rq_host (sample_request ep) = ''h''" by (simp add: sample_request_def)
  have parse: "parseConnectUDPRequestAny sample_api new_response (masqueProxyRequestForParser (sample_request ep)) t
      = (new_response, Some (masqueTarget raw_keys 7))"
    by (simp add: parseConnectUDPRequestAny_def masqueProxyRequestForParser_def sample_request_def
        blank_request_def parseConnectUDPRequest_def sample_api_def)
  have "relay_admit sample_api raw_keys raw_privates 5 5 None (sample_request ep) ?a
      = (?a\<lparr>auth_pending := []\<rparr>, new_response, Some 7)"
    by (simp add: relay_admit_def host t parse hdr masqueModeRelay_def parse_target [OF key_laws_raw_keys] src
        authorize_def z ne v)
  from this relay_admission [OF this] show ?thesis by blast
qed

text \<open>
  A key that no session holds can be claimed. From every reachable state, a session that has
  proved its key and finds it free reaches, by its own steps alone, a state in which it is active
  and the relay routes datagrams for the key to its carrier; a session that finds the key held is
  turned away without touching the registry.
\<close>
theorem relay_claim_progress:
  assumes "relay_reachable A K P V magic sys" "map_of (rs_sessions sys) sid = Some (c, Authorized k)"
  shows "(lookup k (rs_relay sys) = None \<and> map_of (relay_peers (rs_relay sys)) k = None \<longrightarrow>
            (\<exists>sys1 sys2 p. relay_step A K P V magic sys sys1 \<and> relay_step A K P V magic sys1 sys2 \<and>
               map_of (rs_sessions sys2) sid = Some (c, Active k p) \<and>
               lookup k (rs_relay sys2) = Some p \<and> rp_fwd (relay_heap (rs_relay sys2) ! p) = Some c)) \<and>
         (map_of (relay_peers (rs_relay sys)) k \<noteq> None \<longrightarrow>
            reserve k (rs_relay sys) = (rs_relay sys, None))"
proof (intro conjI impI)
  have inv: "relay_inv K V sys" by (rule relay_inv_reachable [OF assms(1)])
  assume "lookup k (rs_relay sys) = None \<and> map_of (relay_peers (rs_relay sys)) k = None"
  then have free: "map_of (relay_peers (rs_relay sys)) k = None" by simp
  obtain r1 p where r1: "reserve k (rs_relay sys) = (r1, Some p)"
    using relay_reg.claim_free [OF relay_viewD(1) [OF inv [unfolded relay_inv_def]] free] by blast
  let ?sys1 = "set_session sid c (Reserved k p) (sys\<lparr>rs_relay := r1\<rparr>)"
  have s1: "relay_step A K P V magic sys ?sys1" by (rule relay_step.reserved [OF assms(2) r1])
  have inv1: "relay_inv K V ?sys1" by (rule relay_inv_step [OF s1 inv])
  have ses1: "map_of (rs_sessions ?sys1) sid = Some (c, Reserved k p)" by (simp add: map_of_set_session)
  have "snd (activate (Some p) (Some c) r1)"
    using activate_reserved [OF inv1 [unfolded relay_inv_def] ses1] by simp
  then obtain r2 where r2: "activate (Some p) (Some c) (rs_relay ?sys1) = (r2, True)"
    by (cases "activate (Some p) (Some c) r1") auto
  let ?sys2 = "set_session sid c (Active k p) (?sys1\<lparr>rs_relay := r2\<rparr>)"
  have s2: "relay_step A K P V magic ?sys1 ?sys2" by (rule relay_step.activated [OF ses1 r2])
  have inv2: "relay_inv K V ?sys2" by (rule relay_inv_step [OF s2 inv1])
  have ses2: "map_of (rs_sessions ?sys2) sid = Some (c, Active k p)" by (simp add: map_of_set_session)
  have "sess_ok (rs_relay ?sys2) c (Active k p)"
    by (rule relay_viewD(3) [OF inv2 [unfolded relay_inv_def] ses2])
  then have "lookup k (rs_relay ?sys2) = Some p" "rp_fwd (relay_heap (rs_relay ?sys2) ! p) = Some c"
    by (auto simp: lookup_def)
  with s1 s2 ses2 show "\<exists>sys1 sys2 p. relay_step A K P V magic sys sys1 \<and> relay_step A K P V magic sys1 sys2 \<and>
      map_of (rs_sessions sys2) sid = Some (c, Active k p) \<and>
      lookup k (rs_relay sys2) = Some p \<and> rp_fwd (relay_heap (rs_relay sys2) ! p) = Some c"
    by blast
next
  assume "map_of (relay_peers (rs_relay sys)) k \<noteq> None"
  then show "reserve k (rs_relay sys) = (rs_relay sys, None)" by (simp add: reserve_def)
qed

theorem relay_claim_progress_witness:
  "\<exists>sys sys1 sys2. sample_reachable sys \<and> sample_step sys sys1 \<and> sample_step sys1 sys2 \<and>
     lookup 7 (rs_relay sys2) \<noteq> None"
proof -
  obtain a where r: "sample_reachable \<lparr>rs_relay = empty_relay, rs_auth = a,
      rs_sessions = [(0, (BrowserCarrier 0, Authorized 7))], rs_sent = []\<rparr>" (is "sample_reachable ?sys")
    using sample_login by blast
  have "map_of (rs_sessions ?sys) 0 = Some (BrowserCarrier 0, Authorized 7)"
    "lookup 7 (rs_relay ?sys) = None \<and> map_of (relay_peers (rs_relay ?sys)) 7 = None"
    by (simp_all add: empty_relay_def lookup_def)
  with relay_claim_progress [OF r this(1)] r show ?thesis by blast
qed

end
