(* ===== verification/Browser_Control.thy ===== *)
theory Browser_Control
  imports Relay Go_Json
begin

text \<open>
  The control messages of browser sessions, at both ends: \<^verbatim>\<open>readMasqueBrowserControl\<close>,
  \<^verbatim>\<open>writeMasqueBrowserControl\<close> and the origin checks of \<^verbatim>\<open>masquecat_webtransport.go\<close>, and the
  messages of the browser (\<^verbatim>\<open>masquecat_browser_js.go\<close>) with its line reader. A message is a line of JSON.

  What a stream delivers is a list of chunks. Where the list ends, the next read waits until the caller's context
  ends, which is an error like any other.
\<close>

section \<open>Model\<close>

subsection \<open>Messages\<close>

definition masqueBrowserControlMax :: nat where [go_consts]: "masqueBrowserControlMax = 8 * 1024"

definition control_names :: "string list" where
  "control_names = [''type'', ''version'', ''source'', ''challenge'', ''verifier'', ''proof'', ''error'']"

definition control_member :: "string \<Rightarrow> string \<Rightarrow> (string \<times> string \<times> json) list" where
  "control_member k s = (if s = [] then [] else [(k, json_quote s, JString s)])"

definition control_members :: "masqueBrowserControl \<Rightarrow> (string \<times> string \<times> json) list" where
  "control_members m =
     [(''type'', json_quote (bc_Type m), JString (bc_Type m))] @
     (if bc_Version m = 0 then [] else [(''version'', json_int (bc_Version m), JNumber (json_int (bc_Version m)))]) @
     control_member ''source'' (bc_Source m) @ control_member ''challenge'' (bc_Challenge m) @
     control_member ''verifier'' (bc_Verifier m) @ control_member ''proof'' (bc_Proof m) @ control_member ''error'' (bc_Error m)"

definition control_Marshal :: "masqueBrowserControl \<Rightarrow> string" where
  "control_Marshal m = json_struct (map (\<lambda>(k, t, v). (k, t)) (control_members m))"

definition control_put :: "string \<Rightarrow> json \<Rightarrow> masqueBrowserControl \<Rightarrow> masqueBrowserControl option" where
  "control_put f j m =
     (if f = ''type'' then map_option (\<lambda>s. m\<lparr>bc_Type := s\<rparr>) (as_string j)
      else if f = ''version'' then map_option (\<lambda>i. m\<lparr>bc_Version := i\<rparr>) (as_int j)
      else if f = ''source'' then map_option (\<lambda>s. m\<lparr>bc_Source := s\<rparr>) (as_string j)
      else if f = ''challenge'' then map_option (\<lambda>s. m\<lparr>bc_Challenge := s\<rparr>) (as_string j)
      else if f = ''verifier'' then map_option (\<lambda>s. m\<lparr>bc_Verifier := s\<rparr>) (as_string j)
      else if f = ''proof'' then map_option (\<lambda>s. m\<lparr>bc_Proof := s\<rparr>) (as_string j)
      else map_option (\<lambda>s. m\<lparr>bc_Error := s\<rparr>) (as_string j))"

definition control_Unmarshal :: "string \<Rightarrow> masqueBrowserControl option" where
  "control_Unmarshal s = json_Unmarshal control_names control_put s blank_control"

subsection \<open>The relay's end\<close>

datatype control_error = ControlTooLarge | ControlRead | ControlDecode | ControlWrite | ControlPeer string

text \<open>
  \<^verbatim>\<open>ReadSlice\<close> of a buffered reader whose buffer has \<^verbatim>\<open>masqueBrowserControlMax\<close> bytes: \<open>input\<close> is what the stream
  delivers before it ends or fails. The result is the message and what is left.
\<close>

definition readMasqueBrowserControl :: "string \<Rightarrow> control_error + masqueBrowserControl \<times> string" where
  "readMasqueBrowserControl input =
     (case IndexByte (take masqueBrowserControlMax input) CHR 0x0A of
        None \<Rightarrow> Inl (if length input \<ge> masqueBrowserControlMax then ControlTooLarge else ControlRead)
      | Some i \<Rightarrow>
          let line = take (Suc i) input in
          if length line > masqueBrowserControlMax then Inl ControlTooLarge
          else case control_Unmarshal (TrimSpace line) of
                 None \<Rightarrow> Inl ControlDecode
               | Some m \<Rightarrow> Inr (m, drop (Suc i) input))"

text \<open>What is written to the stream; \<open>ok\<close> is whether the stream takes it.\<close>

definition writeMasqueBrowserControl :: "bool \<Rightarrow> masqueBrowserControl \<Rightarrow> control_error + string" where
  "writeMasqueBrowserControl ok m =
     (let b = control_Marshal m in
      if length b + 1 > masqueBrowserControlMax then Inl ControlTooLarge
      else if \<not> ok then Inl ControlWrite
      else Inr (b @ [CHR 0x0A]))"

text \<open>\<^verbatim>\<open>strings.EqualFold\<close> on host names and schemes, whose characters are ASCII.\<close>

definition EqualFold :: "string \<Rightarrow> string \<Rightarrow> bool" where
  "EqualFold s t \<longleftrightarrow> fold_name s = fold_name t"

definition sameOriginBrowserRequest :: "http_request \<Rightarrow> bool" where
  "sameOriginBrowserRequest req \<longleftrightarrow>
     (let origin = header_get (rq_header req) ''Origin'' in
      origin = [] \<or>
      (case url_Parse origin of
         None \<Rightarrow> False
       | Some u \<Rightarrow> EqualFold (u_Scheme u) ''https'' \<and> EqualFold (u_Host u) (rq_host req)))"

definition browserOriginChecker :: "string \<Rightarrow> http_request \<Rightarrow> bool" where
  "browserOriginChecker allowedOrigin req \<longleftrightarrow>
     (let allowed = TrimSuffix (TrimSpace allowedOrigin) ''/'' in
      if allowed = [] then sameOriginBrowserRequest req
      else if allowed = ''*'' then True
      else TrimSuffix (header_get (rq_header req) ''Origin'') ''/'' = allowed)"

definition masqueBrowserWebTransportPath :: string where
  "masqueBrowserWebTransportPath = ''/.well-known/masquecat/webtransport''"

definition isMasqueBrowserWebTransportPath :: "string \<Rightarrow> bool" where
  "isMasqueBrowserWebTransportPath path \<longleftrightarrow> HasSuffix (TrimSuffix path ''/'') masqueBrowserWebTransportPath"

subsection \<open>The browser's end\<close>

definition browserControlMax :: nat where [go_consts]: "browserControlMax = 8 * 1024"

datatype 'a js_read = JsChunk 'a | JsDone | JsFailed

text \<open>
  \<^verbatim>\<open>jsLineReader.readLine\<close>, on the bytes that are pending and what the reader will deliver: the line or the error,
  the new pending bytes and the reads that are left.
\<close>

fun readLine :: "string \<Rightarrow> string js_read list \<Rightarrow> (control_error + string) \<times> string \<times> string js_read list" where
  "readLine pending reads =
     (case IndexByte pending CHR 0x0A of
        Some i \<Rightarrow> (Inr (take i pending), drop (Suc i) pending, reads)
      | None \<Rightarrow>
          if length pending > browserControlMax then (Inl ControlTooLarge, pending, reads)
          else case reads of
                 JsChunk c # rest \<Rightarrow> readLine (pending @ c) rest
               | _ # rest \<Rightarrow> (Inl ControlRead, pending, rest)
               | [] \<Rightarrow> (Inl ControlRead, pending, []))"

declare readLine.simps [simp del]

definition readControl ::
  "string \<Rightarrow> string js_read list \<Rightarrow> (control_error + masqueBrowserControl) \<times> string \<times> string js_read list" where
  "readControl pending reads =
     (case readLine pending reads of
        (Inl e, p, rs) \<Rightarrow> (Inl e, p, rs)
      | (Inr b, p, rs) \<Rightarrow>
          (case control_Unmarshal b of
             None \<Rightarrow> (Inl ControlDecode, p, rs)
           | Some m \<Rightarrow> if bc_Type m = ''error'' then (Inl (ControlPeer (bc_Error m)), p, rs) else (Inr m, p, rs)))"

definition sendControl :: "masqueBrowserControl \<Rightarrow> string" where
  "sendControl m = control_Marshal m @ [CHR 0x0A]"

section \<open>Messages survive the stream\<close>

lemma json_number_negative:
  assumes "list_all is_digit (c # ds)" "c = CHR ''0'' \<Longrightarrow> ds = []" "follows r"
  shows "json_number (CHR ''-'' # c # ds @ r) = Some (CHR ''-'' # c # ds, r)"
  using assms digits_append [of "c # ds" r] by (auto simp: json_number_def fraction_end)

lemma prints_int: "prints (json_int i) (JNumber (json_int i))"
proof (cases "i < 0")
  case False
  then show ?thesis using prints_nat [of "nat i"] by (simp add: json_int_def)
next
  case True
  obtain c ds where i: "itoa (nat (- i)) = c # ds" using itoa_digits [of "nat (- i)"] by (cases "itoa (nat (- i))") auto
  have dig: "list_all is_digit (c # ds)" using itoa_digits [of "nat (- i)"] i by simp
  have "c \<noteq> CHR ''0''" using itoa_no_leading_zero [of "nat (- i)"] True i by simp
  then have "json_literal (CHR ''-'' # c # ds @ r) = Some (JNumber (CHR ''-'' # c # ds), r)" if "follows r" for r
    using json_number_negative [OF dig _ that] by (simp add: json_literal_def HasPrefix_def)
  then show ?thesis using True i by (simp add: prints_def json_int_def)
qed

lemma as_int_text:
  assumes "- (2 ^ 63) \<le> i" "i < 2 ^ 63"
  shows "as_int (JNumber (json_int i)) = Some i"
proof (cases "i < 0")
  case True
  then show ?thesis using assms itoa_digits [of "nat (- i)"]
    by (simp add: json_int_def int_text_def digits_value_itoa)
next
  case False
  obtain c ds where i: "itoa (nat i) = c # ds" using itoa_digits [of "nat i"] by (cases "itoa (nat i)") auto
  have dig: "list_all is_digit (c # ds)" using itoa_digits [of "nat i"] i by simp
  then have "c \<noteq> CHR ''-''" by (auto simp: is_digit_def)
  then show ?thesis using False assms dig digits_value_itoa [of "nat i"] by (simp add: json_int_def int_text_def i)
qed

text \<open>What the program puts into a message: text that is UTF-8, and a version that fits the type.\<close>

definition control_ok :: "masqueBrowserControl \<Rightarrow> bool" where
  "control_ok m \<longleftrightarrow>
     - (2 ^ 63) \<le> bc_Version m \<and> bc_Version m < 2 ^ 63 \<and>
     list_all valid_utf8 [bc_Type m, bc_Source m, bc_Challenge m, bc_Verifier m, bc_Proof m, bc_Error m]"

lemma control_names_plain: "k \<in> set control_names \<Longrightarrow> valid_utf8 k \<and> json_body k = k"
  by (auto simp: control_names_def json_escape_def)

lemma control_members_print:
  assumes "control_ok m" "(k, t, v) \<in> set (control_members m)"
  shows "prints t v \<and> valid_utf8 k \<and> json_body k = k"
proof -
  have "k \<in> set control_names"
    using assms(2) by (auto simp: control_members_def control_member_def control_names_def split: if_splits)
  moreover have "prints t v" using assms
    by (auto simp: control_members_def control_member_def control_ok_def intro: prints_int prints_string split: if_splits)
  ultimately show ?thesis using control_names_plain by blast
qed

lemma control_fill:
  assumes "- (2 ^ 63) \<le> bc_Version m" "bc_Version m < 2 ^ 63"
  shows "json_fill control_names control_put (map (\<lambda>(k, t, v). (k, v)) (control_members m)) blank_control = Some m"
proof -
  have f: "json_field control_names f = Some f" if "f \<in> set control_names" for f using that by (rule json_field_exact)
  have i: "as_int (JNumber (json_int (bc_Version m))) = Some (bc_Version m)" using assms by (rule as_int_text)
  show ?thesis using i
    by (cases m) (simp add: control_members_def control_member_def json_fill_append f control_names_def [THEN arg_cong, of set]
       control_put_def blank_control_def del: as_int.simps)
qed

lemma control_roundtrip:
  assumes "control_ok m"
  shows "control_Unmarshal (control_Marshal m) = Some m"
proof -
  have v: "- (2 ^ 63) \<le> bc_Version m" "bc_Version m < 2 ^ 63" using assms by (simp_all add: control_ok_def)
  show ?thesis using json_document_struct [of "control_members m"] control_members_print [OF assms] control_fill [OF v]
    by (simp add: control_Unmarshal_def json_Unmarshal_def control_Marshal_def)
qed

lemma utf8_first_high: "utf8_first b = (n, lo, hi) \<Longrightarrow> \<not> b < 0x80 \<Longrightarrow> n \<noteq> 0 \<Longrightarrow> 2 \<le> n \<and> 0x80 \<le> lo"
  by (auto simp: utf8_first_def split: if_splits)

lemma utf8_seq_high:
  assumes "\<not> (of_char c :: nat) < 0x80" "utf8_len (c # s) \<noteq> 0" "x \<in> set (take (utf8_len (c # s)) (c # s))"
  shows "\<not> (of_char x :: nat) < 0x80"
proof -
  obtain n lo hi where f: "utf8_first (of_char c) = (n, lo, hi)" by (cases "utf8_first (of_char c)")
  have n: "2 \<le> n" "0x80 \<le> lo" "utf8_len (c # s) = n" "in_range lo hi ((c # s) ! 1)" "n \<le> length (c # s)"
    "list_all (in_range 0x80 0xBF) (take (n - 2) (drop 2 (c # s)))"
    using utf8_first_high [OF f assms(1)] assms(2) f by (auto simp: utf8_len_def split: if_splits)
  obtain d r where s: "s = d # r" using n by (cases s) auto
  obtain k where k: "n = Suc (Suc k)" using n(1) by (metis Suc_le_D numeral_2_eq_2 Suc_le_mono)
  have "x \<in> set (take n (c # s))" using assms(3) n(3) by simp
  then have "x = c \<or> x = d \<or> x \<in> set (take k r)" by (auto simp: s k)
  then show ?thesis using n assms(1) by (auto simp: s k in_range_def list_all_iff)
qed

lemma json_escape_no_newline: "CHR 0x0A \<notin> set (json_escape c)"
proof -
  have "hex_value CHR 0x0A = None" by (simp add: hex_value_def)
  then have h: "CHR 0x0A \<noteq> hex_digit n" if "n < 16" for n using hex_value_digit [OF that] by auto
  have "(of_char c :: nat) < 256" by (metis of_char_mod_256 mod_less_divisor zero_less_numeral)
  then have "CHR 0x0A \<noteq> hex_digit (of_char c div 16)" "CHR 0x0A \<noteq> hex_digit (of_char c mod 16)" by (auto intro!: h less_mult_imp_div_less)
  then show ?thesis by (simp add: json_escape_def Let_def)
qed

lemma json_body_high:
  assumes "\<not> (of_char c :: nat) < 0x80" "utf8_len (c # s) = n" "n \<noteq> 0"
  shows "json_body (c # s) =
    (if take n (c # s) = line_separator 0 then CHR 0x5C # ''u2028''
     else if take n (c # s) = line_separator 1 then CHR 0x5C # ''u2029'' else take n (c # s)) @ json_body (drop n (c # s))"
  using assms by (simp only: json_body.simps if_False Let_def)

lemma json_body_no_newline: "CHR 0x0A \<notin> set (json_body s)"
proof (induction s rule: json_body.induct)
  case (2 c s)
  show ?case
  proof (cases "(of_char c :: nat) < 0x80")
    case True
    from "2.IH"(1) [OF True] True show ?thesis by (simp add: json_escape_no_newline)
  next
    case False
    show ?thesis
    proof (cases "utf8_len (c # s) = 0")
      case True
      from "2.IH"(2) [OF False refl True] False True show ?thesis by simp
    next
      case n: False
      have "CHR 0x0A \<notin> set (take (utf8_len (c # s)) (c # s))" using utf8_seq_high [OF False n, of "CHR 0x0A"] by auto
      with "2.IH"(3) [OF False refl n] show ?thesis unfolding json_body_high [OF False refl n] by (simp del: take_Cons')
    qed
  qed
qed simp

lemma itoa_no_newline: "CHR 0x0A \<notin> set (itoa n)"
  using itoa_digits [of n] by (auto simp: list_all_iff is_digit_def)

definition no_newline :: "string \<Rightarrow> bool" where
  "no_newline s \<longleftrightarrow> CHR 0x0A \<notin> set s"

lemma members_text_no_newline:
  "list_all (\<lambda>(k, t). no_newline k \<and> no_newline t) ms \<Longrightarrow> no_newline (json_members_text ms)"
  by (induction ms rule: json_members_text.induct) (auto simp: json_member_def no_newline_def)

lemma texts_no_newline: "no_newline (json_quote s)" "no_newline (json_int i)"
  using json_body_no_newline [of s] itoa_no_newline by (auto simp: no_newline_def json_quote_def json_int_def)

lemma control_no_newline: "CHR 0x0A \<notin> set (control_Marshal m)"
proof -
  have "list_all (\<lambda>(k, t, v). no_newline k \<and> no_newline t) (control_members m)"
    by (simp add: control_members_def control_member_def texts_no_newline) (simp add: no_newline_def)
  then have "list_all (\<lambda>(k, t). no_newline k \<and> no_newline t) (map (\<lambda>(k, t, v). (k, t)) (control_members m))"
    by (auto simp: list_all_iff)
  from members_text_no_newline [OF this] show ?thesis by (simp add: control_Marshal_def json_struct_def no_newline_def)
qed

lemma control_Marshal_braces: "\<exists>b. control_Marshal m = CHR ''{'' # b @ ''}''"
  by (simp add: control_Marshal_def json_struct_def)

lemma space_ends: "p \<in> set spaces \<Longrightarrow> hd p \<noteq> CHR ''{'' \<and> last p \<noteq> CHR ''}'' \<and> (last p = CHR 0x0A \<longrightarrow> p = [CHR 0x0A])"
proof -
  have "list_all (\<lambda>p. hd p \<noteq> CHR ''{'' \<and> last p \<noteq> CHR ''}'' \<and> (last p = CHR 0x0A \<longrightarrow> p = [CHR 0x0A])) spaces" by code_simp
  then show "p \<in> set spaces \<Longrightarrow> ?thesis" by (auto simp: list_all_iff)
qed

lemma TrimLeft_brace: "TrimLeft (CHR ''{'' # s) = CHR ''{'' # s"
proof -
  have "find (\<lambda>p. HasPrefix (CHR ''{'' # s) p) spaces = None"
    unfolding find_None_iff
  proof
    assume "\<exists>p. p \<in> set spaces \<and> HasPrefix (CHR ''{'' # s) p"
    then obtain p t where "p \<in> set spaces" "CHR ''{'' # s = p @ t" by (auto simp: HasPrefix_iff)
    with space_ends [of p] spaces_nonempty [of p] show False by (cases p) auto
  qed
  then show ?thesis by (subst TrimLeft.simps) simp
qed

lemma TrimRight_brace: "TrimRight (s @ ''}'') = s @ ''}''"
proof -
  have "find (\<lambda>p. HasSuffix (s @ ''}'') p) spaces = None"
    unfolding find_None_iff
  proof
    assume "\<exists>p. p \<in> set spaces \<and> HasSuffix (s @ ''}'') p"
    then obtain p t where p: "p \<in> set spaces" "s @ ''}'' = t @ p" by (auto simp: HasSuffix_iff)
    then have "last (t @ p) = CHR ''}''" by (metis last_snoc)
    with space_ends [of p] spaces_nonempty [of p] p show False by auto
  qed
  then show ?thesis by (subst TrimRight.simps) simp
qed

lemma TrimRight_newline: "TrimRight (s @ [CHR 0x0A]) = TrimRight s"
proof -
  have nl: "[CHR 0x0A] \<in> set spaces" "HasSuffix (s @ [CHR 0x0A]) [CHR 0x0A]" by (code_simp, simp)
  then obtain p where p: "find (\<lambda>p. HasSuffix (s @ [CHR 0x0A]) p) spaces = Some p"
    by (cases "find (\<lambda>p. HasSuffix (s @ [CHR 0x0A]) p) spaces") (auto simp: find_None_iff)
  then have ps: "p \<in> set spaces" "HasSuffix (s @ [CHR 0x0A]) p" by (auto simp: find_Some_iff)
  then obtain t where t: "s @ [CHR 0x0A] = t @ p" by (auto simp: HasSuffix_iff)
  then have "last (t @ p) = CHR 0x0A" by (metis last_snoc)
  with space_ends [of p] spaces_nonempty [of p] ps have "p = [CHR 0x0A]" by auto
  then show ?thesis using p by (subst TrimRight.simps) simp
qed

lemma TrimSpace_line: "TrimSpace (control_Marshal m @ [CHR 0x0A]) = control_Marshal m"
proof -
  obtain b where b: "control_Marshal m = CHR ''{'' # b @ ''}''" using control_Marshal_braces by blast
  show ?thesis using TrimRight_newline [of "CHR ''{'' # b @ ''}''"] TrimRight_brace [of "CHR ''{'' # b"]
    by (simp add: TrimSpace_def TrimLeft_brace b)
qed

lemma IndexByte_append: "c \<notin> set s \<Longrightarrow> IndexByte (s @ c # t) c = Some (length s)"
  by (induction s) auto

text \<open>A line that was written is read back, by the relay and by the browser, whatever the chunks are.\<close>

lemma relay_reads_line:
  assumes "control_ok m" "length (control_Marshal m) < masqueBrowserControlMax"
  shows "readMasqueBrowserControl (control_Marshal m @ CHR 0x0A # rest) = Inr (m, rest)"
proof -
  let ?t = "control_Marshal m"
  obtain k where k: "masqueBrowserControlMax - length ?t = Suc k" using assms(2) by (metis Suc_diff_Suc)
  have "IndexByte (take masqueBrowserControlMax (?t @ CHR 0x0A # rest)) CHR 0x0A = Some (length ?t)"
    using assms(2) control_no_newline [of m] k by (simp add: IndexByte_append)
  moreover have "take (Suc (length ?t)) (?t @ CHR 0x0A # rest) = ?t @ [CHR 0x0A]" by simp
  ultimately show ?thesis
    using assms by (simp add: readMasqueBrowserControl_def Let_def TrimSpace_line control_roundtrip)
qed

lemma browser_reads_line:
  assumes "concat cs = drop (length pending) (t @ [CHR 0x0A])" "pending = take (length pending) (t @ [CHR 0x0A])"
    "length t \<le> browserControlMax" "CHR 0x0A \<notin> set t"
  shows "\<exists>cs'. readLine pending (map JsChunk cs @ reads) = (Inr t, [], map JsChunk cs' @ reads) \<and> concat cs' = []"
  using assms
proof (induction cs arbitrary: pending)
  case Nil
  then have "length (t @ [CHR 0x0A]) \<le> length pending" by simp
  with Nil have "pending = t @ [CHR 0x0A]" by simp
  then show ?case using Nil.prems(4) by (subst readLine.simps) (auto simp: IndexByte_append intro: exI [of _ "[]"])
next
  case (Cons c cs)
  show ?case
  proof (cases "length pending \<le> length t")
    case True
    then have "CHR 0x0A \<notin> set pending" using Cons.prems(2,4) by (metis in_set_takeD take_append diff_is_0_eq take_0 append_Nil2)
    moreover have "length pending \<le> browserControlMax" using True Cons.prems(3) by simp
    ultimately have step: "readLine pending (map JsChunk (c # cs) @ reads) = readLine (pending @ c) (map JsChunk cs @ reads)"
      by (subst readLine.simps) (simp add: IndexByte_None [THEN iffD2])
    let ?l = "t @ [CHR 0x0A]"
    have l: "?l = pending @ c @ concat cs" using Cons.prems(1,2) by (metis append_take_drop_id concat.simps(2))
    have "concat cs = drop (length (pending @ c)) ?l" "pending @ c = take (length (pending @ c)) ?l" unfolding l by simp_all
    from Cons.IH [OF this Cons.prems(3,4)] step show ?thesis by simp
  next
    case False
    then have full: "pending = t @ [CHR 0x0A]" using Cons.prems(2) by simp
    then have "concat (c # cs) = []" using Cons.prems(1) by simp
    then show ?thesis using Cons.prems(4) full
      by (subst readLine.simps) (auto simp: IndexByte_append intro!: exI [of _ "c # cs"])
  qed
qed

end
