(* ===== verification/Fragment.thy ===== *)
theory Fragment
  imports Masque_Prelude
begin

text \<open>
  The fragmentation layer of \<^verbatim>\<open>masquecat_fragment.go\<close>: WireGuard packets that do
  not fit one MASQUE datagram are cut into fragments with a 20-byte header and put
  together again by a reassembler that bounds the number and the age of incomplete
  assemblies. The locale \<open>reassembler\<close> states what \<^verbatim>\<open>masqueBind\<close> relies on and
  proves once that any arrival order yields the packet; it is interpreted here for the
  native reassembler and in \<^verbatim>\<open>Fragment_Browser\<close> for the browser one.
\<close>

section \<open>Model\<close>

definition masqueWGFragmentChunkSize :: nat where [go_consts]: "masqueWGFragmentChunkSize = 1000"
definition masqueWGFragmentHeaderLen :: nat where [go_consts]: "masqueWGFragmentHeaderLen = 20"
definition masqueWGFragmentMaxSize :: nat where [go_consts]: "masqueWGFragmentMaxSize = 64 * 1024"
definition masqueWGFragmentTTL :: time where "masqueWGFragmentTTL = seconds 30"
definition masqueWGMaxAssemblies :: nat where [go_consts]: "masqueWGMaxAssemblies = 256"
definition masqueWGMaxAssembliesPerSource :: nat where
  [go_consts]: "masqueWGMaxAssembliesPerSource = 32"

definition masqueWGFragmentMagic :: bytes where
  "masqueWGFragmentMagic = [0x4D, 0x43, 0x46, 1]"

type_synonym 'k masqueWGFragmentKey = "'k \<times> u64"

record masqueWGFragmentAssembly =
  asm_count :: u16
  asm_total :: u32
  asm_parts :: "bytes option list"
  asm_received :: nat
  asm_updated :: time

record 'k masqueWGReassembler =
  sets :: "('k masqueWGFragmentKey, masqueWGFragmentAssembly) gomap"

datatype fragment_error =
    PacketTooLarge nat
  | TooManyFragments nat
  | ShortHeader nat
  | InvalidIndex u16 u16
  | InvalidSize u32
  | CountMismatch u16 u32
  | ChunkLength u16 nat nat
  | TooManyForSource
  | TooManyAssemblies
  | InconsistentMetadata
  | ConflictingDuplicate u16
  | SizeMismatch nat u32

subsection \<open>Sending\<close>

text \<open>The process-wide sequence counter is threaded through; \<open>nanos\<close> is the clock.\<close>

definition nextMasqueWGFragmentID :: "time \<Rightarrow> u64 \<Rightarrow> u64 \<times> u64" where
  "nextMasqueWGFragmentID nanos seq =
     (let seq' = seq + 1 in (word_of_int nanos + seq', seq'))"

definition wire_fragment :: "u64 \<Rightarrow> u16 \<Rightarrow> u16 \<Rightarrow> u32 \<Rightarrow> bytes \<Rightarrow> bytes" where
  "wire_fragment fid index cnt tot chunk =
     masqueWGFragmentMagic @ PutUint64 fid @ PutUint16 index @ PutUint16 cnt @
     PutUint32 tot @ chunk"

function fragment_loop :: "bytes \<Rightarrow> u64 \<Rightarrow> nat \<Rightarrow> nat \<Rightarrow> nat \<Rightarrow> bytes list" where
  "fragment_loop payload fid count i off =
     (if off < length payload then
        let end = off + masqueWGFragmentChunkSize;
            end = (if end > length payload then length payload else end)
        in wire_fragment fid (word_of_nat i) (word_of_nat count) (word_of_nat (length payload))
             (slice off end payload)
           # fragment_loop payload fid count (i + 1) (off + masqueWGFragmentChunkSize)
      else [])"
  by pat_completeness auto
termination
  by (relation "measure (\<lambda>(payload, fid, count, i, off). length payload - off)")
     (auto simp: go_consts)

declare fragment_loop.simps [simp del]

definition fragmentMasqueWireGuardPacket ::
  "time \<Rightarrow> u64 \<Rightarrow> bytes \<Rightarrow> (fragment_error + bytes list) \<times> u64" where
  "fragmentMasqueWireGuardPacket nanos seq payload =
     (if length payload \<le> masqueWGFragmentChunkSize then (Inr [], seq)
      else if length payload > masqueWGFragmentMaxSize
        then (Inl (PacketTooLarge (length payload)), seq)
      else
        let count = (length payload + masqueWGFragmentChunkSize - 1) div masqueWGFragmentChunkSize
        in if count > 65535 then (Inl (TooManyFragments count), seq)
           else
             let (fid, seq') = nextMasqueWGFragmentID nanos seq
             in (Inr (fragment_loop payload fid count 0 0), seq'))"

subsection \<open>Receiving\<close>

definition Reset :: "'k masqueWGReassembler \<Rightarrow> 'k masqueWGReassembler" where
  "Reset r = r\<lparr>sets := []\<rparr>"

definition cleanupLocked :: "'k masqueWGReassembler \<Rightarrow> time \<Rightarrow> 'k masqueWGReassembler" where
  "cleanupLocked r now =
     r\<lparr>sets := filter (\<lambda>(k, asm). \<not> (now - asm_updated asm \<ge> masqueWGFragmentTTL)) (sets r)\<rparr>"

definition sourceAssemblyCountLocked :: "'k masqueWGReassembler \<Rightarrow> 'k \<Rightarrow> nat" where
  "sourceAssemblyCountLocked r src = key_count (\<lambda>k. fst k = src) (sets r)"

record fragment_header =
  fh_id :: u64
  fh_index :: u16
  fh_count :: u16
  fh_total :: u32
  fh_chunk :: bytes

text \<open>The header checks of \<^verbatim>\<open>Push\<close>, before the lock is taken.\<close>

definition parse_fragment :: "bytes \<Rightarrow> fragment_error + fragment_header" where
  "parse_fragment payload =
     (if length payload < masqueWGFragmentHeaderLen then Inl (ShortHeader (length payload))
      else
        let fid = Uint64 (slice 4 12 payload);
            index = Uint16 (slice 12 14 payload);
            count = Uint16 (slice 14 16 payload);
            total = Uint32 (slice 16 20 payload);
            chunk = drop masqueWGFragmentHeaderLen payload
        in if unat count < 2 \<or> unat index \<ge> unat count then Inl (InvalidIndex index count)
           else if unat total \<le> masqueWGFragmentChunkSize \<or> unat total > masqueWGFragmentMaxSize
             then Inl (InvalidSize total)
           else
             let expectedCount =
                   (unat total + masqueWGFragmentChunkSize - 1) div masqueWGFragmentChunkSize
             in if unat count \<noteq> expectedCount then Inl (CountMismatch count total)
                else
                  let expectedChunkLen =
                        (if unat index = expectedCount - 1
                         then unat total - (expectedCount - 1) * masqueWGFragmentChunkSize
                         else masqueWGFragmentChunkSize)
                  in if length chunk \<noteq> expectedChunkLen
                     then Inl (ChunkLength index (length chunk) expectedChunkLen)
                     else Inr \<lparr>fh_id = fid, fh_index = index, fh_count = count,
                               fh_total = total, fh_chunk = chunk\<rparr>)"

text \<open>The loop that joins the parts; it gives up at a nil part.\<close>

fun join_parts :: "bytes option list \<Rightarrow> bytes \<Rightarrow> bytes option" where
  "join_parts [] out = Some out"
| "join_parts (None # ps) out = None"
| "join_parts (Some part # ps) out = join_parts ps (out @ part)"

definition new_assembly :: "u16 \<Rightarrow> u32 \<Rightarrow> time \<Rightarrow> masqueWGFragmentAssembly" where
  "new_assembly cnt tot now =
     \<lparr>asm_count = cnt, asm_total = tot, asm_parts = replicate (unat cnt) None,
      asm_received = 0, asm_updated = now\<rparr>"

text \<open>\<^verbatim>\<open>Push\<close> from the duplicate check on, for an assembly that is in the map.\<close>

definition store_part ::
  "'k masqueWGReassembler \<Rightarrow> 'k masqueWGFragmentKey \<Rightarrow> masqueWGFragmentAssembly \<Rightarrow>
   fragment_header \<Rightarrow> time \<Rightarrow> 'k masqueWGReassembler \<times> (fragment_error + bytes option)" where
  "store_part r key asm h now =
     (let index = unat (fh_index h); chunk = fh_chunk h;
          dropped = r\<lparr>sets := AList.delete key (sets r)\<rparr>
      in case asm_parts asm ! index of
           Some old \<Rightarrow>
             if old = chunk then (r, Inr None)
             else (dropped, Inl (ConflictingDuplicate (fh_index h)))
         | None \<Rightarrow>
             let asm' = asm\<lparr>asm_parts := (asm_parts asm)[index := append_nil chunk],
                            asm_received := asm_received asm + 1, asm_updated := now\<rparr>;
                 r' = r\<lparr>sets := AList.update key asm' (sets r)\<rparr>
             in if asm_received asm' \<noteq> unat (asm_count asm') then (r', Inr None)
                else case join_parts (asm_parts asm') [] of
                       None \<Rightarrow> (r', Inr None)
                     | Some out \<Rightarrow>
                         if length out \<noteq> unat (asm_total asm')
                         then (dropped, Inl (SizeMismatch (length out) (asm_total asm')))
                         else (dropped, Inr (Some out)))"

text \<open>The critical section of \<^verbatim>\<open>Push\<close>.\<close>

definition push_locked ::
  "'k masqueWGReassembler \<Rightarrow> 'k \<Rightarrow> fragment_header \<Rightarrow> time \<Rightarrow>
   'k masqueWGReassembler \<times> (fragment_error + bytes option)" where
  "push_locked r src h now =
     (let key = (src, fh_id h); r = cleanupLocked r now
      in case map_of (sets r) key of
           None \<Rightarrow>
             if sourceAssemblyCountLocked r src \<ge> masqueWGMaxAssembliesPerSource
             then (r, Inl TooManyForSource)
             else if length (sets r) \<ge> masqueWGMaxAssemblies then (r, Inl TooManyAssemblies)
             else
               let asm = new_assembly (fh_count h) (fh_total h) now
               in store_part (r\<lparr>sets := AList.update key asm (sets r)\<rparr>) key asm h now
         | Some asm \<Rightarrow>
             if asm_count asm \<noteq> fh_count h \<or> asm_total asm \<noteq> fh_total h
             then (r\<lparr>sets := AList.delete key (sets r)\<rparr>, Inl InconsistentMetadata)
             else store_part r key asm h now)"

text \<open>
  \<open>Inl e\<close> is \<^verbatim>\<open>(nil, false, e)\<close>, \<open>Inr None\<close> is \<^verbatim>\<open>(nil, false, nil)\<close> and
  \<open>Inr (Some out)\<close> is \<^verbatim>\<open>(out, true, nil)\<close>.
\<close>

definition Push ::
  "'k masqueWGReassembler \<Rightarrow> 'k \<Rightarrow> bytes \<Rightarrow> time \<Rightarrow>
   'k masqueWGReassembler \<times> (fragment_error + bytes option)" where
  "Push r src payload now =
     (if \<not> HasPrefix payload masqueWGFragmentMagic then (r, Inr (Some payload))
      else case parse_fragment payload of
             Inl e \<Rightarrow> (r, Inl e)
           | Inr h \<Rightarrow> push_locked r src h now)"

section \<open>The wire format\<close>

definition frag_count :: "nat \<Rightarrow> nat" where
  "frag_count n = (n + masqueWGFragmentChunkSize - 1) div masqueWGFragmentChunkSize"

definition chunk_len :: "nat \<Rightarrow> nat \<Rightarrow> nat" where
  "chunk_len i n =
     (if i = frag_count n - 1 then n - (frag_count n - 1) * masqueWGFragmentChunkSize
      else masqueWGFragmentChunkSize)"

definition payload_chunk :: "bytes \<Rightarrow> nat \<Rightarrow> bytes" where
  "payload_chunk payload i =
     take masqueWGFragmentChunkSize (drop (masqueWGFragmentChunkSize * i) payload)"

definition size_ok :: "nat \<Rightarrow> bool" where
  "size_ok n \<longleftrightarrow> masqueWGFragmentChunkSize < n \<and> n \<le> masqueWGFragmentMaxSize"

text \<open>What the header checks of the receiver accept.\<close>

definition fragment_fits :: "u16 \<Rightarrow> u16 \<Rightarrow> u32 \<Rightarrow> bytes \<Rightarrow> bool" where
  "fragment_fits index cnt tot chunk \<longleftrightarrow>
     size_ok (unat tot) \<and> unat cnt = frag_count (unat tot) \<and> unat index < unat cnt \<and>
     length chunk = chunk_len (unat index) (unat tot)"

lemma frag_count_range: "size_ok n \<Longrightarrow> 2 \<le> frag_count n \<and> frag_count n \<le> 66"
  by (auto simp: size_ok_def frag_count_def go_consts)

lemma chunk_len_pos: "size_ok n \<Longrightarrow> i < frag_count n \<Longrightarrow> 0 < chunk_len i n"
  by (auto simp: size_ok_def frag_count_def chunk_len_def go_consts)

lemma chunk_len_le: "chunk_len i n \<le> masqueWGFragmentChunkSize"
  unfolding chunk_len_def frag_count_def go_consts by (simp, arith)

lemma sum_chunk_len: "size_ok n \<Longrightarrow> (\<Sum>i<frag_count n. chunk_len i n) = n"
proof -
  assume ok: "size_ok n"
  obtain c where c: "frag_count n = Suc c" using frag_count_range [OF ok] by (cases "frag_count n") auto
  have "(\<Sum>i<Suc c. chunk_len i n) = (\<Sum>i<c. 1000) + (n - c * 1000)"
    by (simp add: chunk_len_def c go_consts)
  also have "\<dots> = n"
    using ok c by (auto simp: size_ok_def frag_count_def go_consts)
  finally show ?thesis by (simp add: c)
qed

lemma length_payload_chunk:
  "size_ok (length payload) \<Longrightarrow> i < frag_count (length payload) \<Longrightarrow>
   length (payload_chunk payload i) = chunk_len i (length payload)"
  by (auto simp: payload_chunk_def chunk_len_def frag_count_def size_ok_def go_consts)

lemma concat_payload_chunks:
  "concat (map (payload_chunk payload) [0..<frag_count (length payload)]) = payload"
proof -
  have "concat (map (payload_chunk payload) [0..<i]) = take (masqueWGFragmentChunkSize * i) payload" for i
    by (induction i) (simp_all add: payload_chunk_def take_add [symmetric] add.commute)
  then show ?thesis by (simp add: frag_count_def go_consts)
qed

lemma HasPrefix_wire [simp]: "HasPrefix (wire_fragment fid i c n chunk) masqueWGFragmentMagic"
  by (simp add: wire_fragment_def)

lemma length_wire [simp]: "length (wire_fragment fid i c n chunk) = 20 + length chunk"
  by (simp add: wire_fragment_def masqueWGFragmentMagic_def)

lemma wire_fields:
  "Uint64 (slice 4 12 (wire_fragment fid i c n chunk)) = fid"
  "Uint16 (slice 12 14 (wire_fragment fid i c n chunk)) = i"
  "Uint16 (slice 14 16 (wire_fragment fid i c n chunk)) = c"
  "Uint32 (slice 16 20 (wire_fragment fid i c n chunk)) = n"
  "drop 20 (wire_fragment fid i c n chunk) = chunk"
  by (simp_all add: wire_fragment_def masqueWGFragmentMagic_def slice_def numeral_eq_Suc)

lemma parse_wire:
  "fragment_fits i c n chunk \<Longrightarrow>
   parse_fragment (wire_fragment fid i c n chunk) =
     Inr \<lparr>fh_id = fid, fh_index = i, fh_count = c, fh_total = n, fh_chunk = chunk\<rparr>"
  using frag_count_range [of "unat n"]
  by (auto simp: parse_fragment_def wire_fields fragment_fits_def size_ok_def chunk_len_def
        frag_count_def go_consts Let_def)

lemma parse_fragment_fits:
  assumes "parse_fragment p = Inr h"
  shows "fragment_fits (fh_index h) (fh_count h) (fh_total h) (fh_chunk h)"
    and "fh_id h = Uint64 (slice 4 12 p)" and "20 \<le> length p"
  using assms
  by (auto simp: parse_fragment_def fragment_fits_def size_ok_def chunk_len_def frag_count_def
        go_consts Let_def split: if_splits)

text \<open>The sender's loop, in closed form.\<close>

definition wire_fragments :: "u64 \<Rightarrow> bytes \<Rightarrow> bytes list" where
  "wire_fragments fid payload =
     map (\<lambda>i. wire_fragment fid (word_of_nat i) (word_of_nat (frag_count (length payload)))
                (word_of_nat (length payload)) (payload_chunk payload i))
       [0..<frag_count (length payload)]"

lemma fragment_loop_eq:
  "fragment_loop payload fid c i (masqueWGFragmentChunkSize * i) =
     map (\<lambda>j. wire_fragment fid (word_of_nat j) (word_of_nat c) (word_of_nat (length payload))
                (payload_chunk payload j)) [i..<frag_count (length payload)]"
proof (induction "frag_count (length payload) - i" arbitrary: i)
  case 0
  then have "length payload \<le> 1000 * i" by (auto simp: frag_count_def go_consts)
  with 0 show ?case by (subst fragment_loop.simps) (simp add: go_consts)
next
  case (Suc k)
  then have i: "i < frag_count (length payload)" and off: "1000 * i < length payload"
    by (auto simp: frag_count_def go_consts)
  have IH: "fragment_loop payload fid c (Suc i) (masqueWGFragmentChunkSize * Suc i) =
     map (\<lambda>j. wire_fragment fid (word_of_nat j) (word_of_nat c) (word_of_nat (length payload))
                (payload_chunk payload j)) [Suc i..<frag_count (length payload)]"
    using Suc by (intro Suc.hyps(1)) simp
  have "payload_chunk payload i =
      slice (1000 * i) (if 1000 * i + 1000 > length payload then length payload else 1000 * i + 1000) payload"
    by (simp add: payload_chunk_def slice_def go_consts)
  with IH off i show ?case
    by (subst fragment_loop.simps) (simp add: go_consts upt_conv_Cons add.commute Let_def)
qed

lemma fragment_packet_eq:
  "size_ok (length payload) \<Longrightarrow>
   fragmentMasqueWireGuardPacket nanos seq payload =
     (Inr (wire_fragments (word_of_int nanos + (seq + 1)) payload), seq + 1)"
  using fragment_loop_eq [of payload "word_of_int nanos + (seq + 1)" "frag_count (length payload)" 0]
    frag_count_range [of "length payload"]
  by (auto simp: fragmentMasqueWireGuardPacket_def wire_fragments_def size_ok_def
        nextMasqueWGFragmentID_def Let_def frag_count_def go_consts)

lemma length_wire_fragments [simp]: "length (wire_fragments fid p) = frag_count (length p)"
  by (simp add: wire_fragments_def)

lemma unat_small:
  "n \<le> 65535 \<Longrightarrow> unat (word_of_nat n :: u16) = n"
  "n \<le> 65536 \<Longrightarrow> unat (word_of_nat n :: u32) = n"
  by (simp_all add: unat_of_nat)

lemma wire_fragments_nth:
  "i < frag_count (length p) \<Longrightarrow>
   wire_fragments fid p ! i =
     wire_fragment fid (word_of_nat i) (word_of_nat (frag_count (length p)))
       (word_of_nat (length p)) (payload_chunk p i)"
  by (simp add: wire_fragments_def)

lemma wire_fragments_inj:
  assumes "size_ok (length p)" "i < frag_count (length p)" "j < frag_count (length p)"
    "wire_fragments fid p ! i = wire_fragments fid p ! j"
  shows "i = j"
proof -
  from assms have "(word_of_nat i :: u16) = word_of_nat j"
    by (metis wire_fragments_nth wire_fields(2))
  moreover have "i \<le> 65535" "j \<le> 65535" using assms frag_count_range [of "length p"] by auto
  ultimately show ?thesis by (metis unat_small(1))
qed

lemma wire_fragments_fit:
  assumes "size_ok (length p)" "i < frag_count (length p)"
  shows "fragment_fits (word_of_nat i) (word_of_nat (frag_count (length p)))
           (word_of_nat (length p)) (payload_chunk p i)"
proof -
  have small: "length p \<le> 65536" "frag_count (length p) \<le> 65535" "i \<le> 65535"
    using assms frag_count_range [OF assms(1)] by (auto simp: size_ok_def go_consts)
  show ?thesis
    using assms by (simp add: fragment_fits_def small unat_small length_payload_chunk)
qed

section \<open>The interface of a reassembler\<close>

definition live_sets ::
  "time \<Rightarrow> ('k masqueWGFragmentKey, masqueWGFragmentAssembly) gomap \<Rightarrow>
   ('k masqueWGFragmentKey, masqueWGFragmentAssembly) gomap" where
  "live_sets now m = filter (\<lambda>(k, asm). now - asm_updated asm < masqueWGFragmentTTL) m"

definition room ::
  "time \<Rightarrow> 'k \<Rightarrow> ('k masqueWGFragmentKey, masqueWGFragmentAssembly) gomap \<Rightarrow> bool" where
  "room now src m \<longleftrightarrow>
     key_count (\<lambda>k. fst k = src) (live_sets now m) < masqueWGMaxAssembliesPerSource \<and>
     length (live_sets now m) < masqueWGMaxAssemblies"

definition add_part ::
  "masqueWGFragmentAssembly \<Rightarrow> nat \<Rightarrow> bytes \<Rightarrow> time \<Rightarrow> masqueWGFragmentAssembly" where
  "add_part asm i chunk now =
     asm\<lparr>asm_parts := (asm_parts asm)[i := Some chunk], asm_received := asm_received asm + 1,
         asm_updated := now\<rparr>"

text \<open>The assembly a datagram belongs to, if its header is complete.\<close>

definition fragment_key :: "'k \<Rightarrow> bytes \<Rightarrow> 'k masqueWGFragmentKey option" where
  "fragment_key src p =
     (if HasPrefix p masqueWGFragmentMagic \<and> masqueWGFragmentHeaderLen \<le> length p
      then Some (src, Uint64 (slice 4 12 p)) else None)"

lemma fragment_key_wire [simp]: "fragment_key src (wire_fragment fid i c n chunk) = Some (src, fid)"
  by (simp add: fragment_key_def wire_fields go_consts)

fun push_run ::
  "('r \<Rightarrow> 'k \<Rightarrow> bytes \<Rightarrow> time \<Rightarrow> 'r \<times> 'x) \<Rightarrow> 'r \<Rightarrow> ('k \<times> bytes \<times> time) list \<Rightarrow> 'r" where
  "push_run push r [] = r"
| "push_run push r ((src, p, now) # es) = push_run push (fst (push r src p now)) es"

lemma push_run_snoc: "push_run push r (es @ [(src, p, now)]) = fst (push (push_run push r es) src p now)"
  by (induction push r es rule: push_run.induct) auto

text \<open>
  A schedule of datagrams that brings all fragments of one packet but \<open>j\<close>: it starts
  with some fragment, and every later datagram is a fragment of the packet other than
  \<open>j\<close> (possibly a repeated one) or belongs to another assembly.
\<close>

definition delivers_all_but ::
  "'k \<Rightarrow> u64 \<Rightarrow> bytes \<Rightarrow> nat \<Rightarrow> time \<Rightarrow> ('k \<times> bytes \<times> time) list \<Rightarrow> bool" where
  "delivers_all_but src fid payload j t0 es \<longleftrightarrow>
     j < frag_count (length payload) \<and> es \<noteq> [] \<and> snd (snd (hd es)) = t0 \<and>
     (\<exists>i < frag_count (length payload). i \<noteq> j \<and>
        hd es = (src, wire_fragments fid payload ! i, t0)) \<and>
     (\<forall>(s, p, t) \<in> set es. t0 \<le> t \<and> t < t0 + masqueWGFragmentTTL \<and>
        (fragment_key s p = Some (src, fid) \<longrightarrow>
           s = src \<and> (\<exists>i < frag_count (length payload). i \<noteq> j \<and> p = wire_fragments fid payload ! i))) \<and>
     (\<forall>i < frag_count (length payload). i \<noteq> j \<longrightarrow>
        (\<exists>t. (src, wire_fragments fid payload ! i, t) \<in> set es))"

locale reassembler =
  fixes push :: "'r \<Rightarrow> 'k \<Rightarrow> bytes \<Rightarrow> time \<Rightarrow> 'r \<times> ('e + bytes option)"
    and sets_of :: "'r \<Rightarrow> ('k masqueWGFragmentKey, masqueWGFragmentAssembly) gomap"
    and invar :: "'r \<Rightarrow> bool"
  assumes invar_push: "invar r \<Longrightarrow> invar (fst (push r src p now))"
    and passes: "\<not> HasPrefix p masqueWGFragmentMagic \<Longrightarrow> push r src p now = (r, Inr (Some p))"
    and other_key:
      "\<lbrakk>invar r; fragment_key s p \<noteq> Some key; map_of (sets_of r) key = Some asm;
        now - asm_updated asm < masqueWGFragmentTTL\<rbrakk> \<Longrightarrow>
       map_of (sets_of (fst (push r s p now))) key = Some asm"
    and opens:
      "\<lbrakk>invar r; fragment_fits i c n chunk; map_of (live_sets now (sets_of r)) (src, fid) = None;
        room now src (sets_of r)\<rbrakk> \<Longrightarrow>
       snd (push r src (wire_fragment fid i c n chunk) now) = Inr None \<and>
       map_of (sets_of (fst (push r src (wire_fragment fid i c n chunk) now))) (src, fid) =
         Some (add_part (new_assembly c n now) (unat i) chunk now)"
    and repeats:
      "\<lbrakk>invar r; fragment_fits i c n chunk; map_of (sets_of r) (src, fid) = Some asm;
        now - asm_updated asm < masqueWGFragmentTTL; asm_count asm = c; asm_total asm = n;
        asm_parts asm ! unat i = Some chunk\<rbrakk> \<Longrightarrow>
       snd (push r src (wire_fragment fid i c n chunk) now) = Inr None \<and>
       map_of (sets_of (fst (push r src (wire_fragment fid i c n chunk) now))) (src, fid) = Some asm"
    and extends:
      "\<lbrakk>invar r; fragment_fits i c n chunk; map_of (sets_of r) (src, fid) = Some asm;
        now - asm_updated asm < masqueWGFragmentTTL; asm_count asm = c; asm_total asm = n;
        asm_parts asm ! unat i = None; Suc (asm_received asm) < unat c\<rbrakk> \<Longrightarrow>
       snd (push r src (wire_fragment fid i c n chunk) now) = Inr None \<and>
       map_of (sets_of (fst (push r src (wire_fragment fid i c n chunk) now))) (src, fid) =
         Some (add_part asm (unat i) chunk now)"
    and completes:
      "\<lbrakk>invar r; fragment_fits i c n chunk; map_of (sets_of r) (src, fid) = Some asm;
        now - asm_updated asm < masqueWGFragmentTTL; asm_count asm = c; asm_total asm = n;
        asm_parts asm ! unat i = None; Suc (asm_received asm) = unat c;
        (asm_parts asm)[unat i := Some chunk] = map Some bs; length (concat bs) = unat n\<rbrakk> \<Longrightarrow>
       snd (push r src (wire_fragment fid i c n chunk) now) = Inr (Some (concat bs)) \<and>
       map_of (sets_of (fst (push r src (wire_fragment fid i c n chunk) now))) (src, fid) = None"
begin

text \<open>The assembly holds exactly the chunks of the packet with an index in \<open>S\<close>.\<close>

definition holds_chunks :: "bytes \<Rightarrow> nat set \<Rightarrow> masqueWGFragmentAssembly \<Rightarrow> bool" where
  "holds_chunks payload S asm \<longleftrightarrow>
     asm_count asm = word_of_nat (frag_count (length payload)) \<and>
     asm_total asm = word_of_nat (length payload) \<and>
     S \<subseteq> {..<frag_count (length payload)} \<and> asm_received asm = card S \<and>
     asm_parts asm = map (\<lambda>i. if i \<in> S then Some (payload_chunk payload i) else None)
                         [0..<frag_count (length payload)]"

lemma holds_add_part:
  assumes "holds_chunks payload S asm" "i < frag_count (length payload)" "i \<notin> S"
  shows "holds_chunks payload (insert i S) (add_part asm i (payload_chunk payload i) now)"
proof -
  have "finite S" using assms(1) unfolding holds_chunks_def by (meson finite_lessThan finite_subset)
  with assms show ?thesis
    by (auto simp: holds_chunks_def add_part_def card_insert_if intro!: nth_equalityI
          simp: nth_list_update)
qed

lemma holds_first:
  assumes "size_ok (length payload)" "i < frag_count (length payload)"
  shows "holds_chunks payload {i} (add_part (new_assembly (word_of_nat (frag_count (length payload)))
           (word_of_nat (length payload)) t0) i (payload_chunk payload i) now)"
proof -
  have "frag_count (length payload) \<le> 65535" using frag_count_range [OF assms(1)] by simp
  then have "holds_chunks payload {} (new_assembly (word_of_nat (frag_count (length payload)))
           (word_of_nat (length payload)) t0)"
    by (auto simp: holds_chunks_def new_assembly_def unat_small intro!: nth_equalityI)
  from holds_add_part [OF this assms(2)] show ?thesis by simp
qed

definition tracks ::
  "'k \<Rightarrow> u64 \<Rightarrow> bytes \<Rightarrow> time \<Rightarrow> nat set \<Rightarrow> 'r \<Rightarrow> bool" where
  "tracks src fid payload t0 S r \<longleftrightarrow>
     invar r \<and> (\<exists>asm. map_of (sets_of r) (src, fid) = Some asm \<and>
                    holds_chunks payload S asm \<and> t0 \<le> asm_updated asm)"

lemma tracks_other:
  assumes "tracks src fid payload t0 S r" "fragment_key s p \<noteq> Some (src, fid)"
    "t < t0 + masqueWGFragmentTTL"
  shows "tracks src fid payload t0 S (fst (push r s p t))"
proof -
  from assms(1) obtain asm where asm: "invar r" "map_of (sets_of r) (src, fid) = Some asm"
    "holds_chunks payload S asm" "t0 \<le> asm_updated asm" by (auto simp: tracks_def)
  then have "t - asm_updated asm < masqueWGFragmentTTL" using assms(3) by simp
  with other_key [OF asm(1) assms(2) asm(2)] asm invar_push show ?thesis
    by (auto simp: tracks_def)
qed

lemma tracks_ours:
  assumes tr: "tracks src fid payload t0 S r" and ok: "size_ok (length payload)"
    and i: "i < frag_count (length payload)" "i \<noteq> j" "j \<notin> S" "j < frag_count (length payload)"
    and t: "t0 \<le> t" "t < t0 + masqueWGFragmentTTL"
  shows "tracks src fid payload t0 (insert i S) (fst (push r src (wire_fragments fid payload ! i) t)) \<and>
    snd (push r src (wire_fragments fid payload ! i) t) = Inr None"
proof -
  from tr obtain asm where r: "invar r" and asm: "map_of (sets_of r) (src, fid) = Some asm"
    and h: "holds_chunks payload S asm" and u: "t0 \<le> asm_updated asm"
    by (auto simp: tracks_def)
  have fresh: "t - asm_updated asm < masqueWGFragmentTTL" using u t by simp
  have small: "frag_count (length payload) \<le> 65535" using frag_count_range [OF ok] by simp
  have ui: "unat (word_of_nat i :: u16) = i" using i small by (simp add: unat_small)
  have un: "unat (word_of_nat (frag_count (length payload)) :: u16) = frag_count (length payload)"
    using small by (simp add: unat_small)
  note fit = wire_fragments_fit [OF ok i(1)]
  have meta: "asm_count asm = word_of_nat (frag_count (length payload))"
    "asm_total asm = word_of_nat (length payload)" using h by (auto simp: holds_chunks_def)
  have nth: "asm_parts asm ! i = (if i \<in> S then Some (payload_chunk payload i) else None)"
    using h i by (simp add: holds_chunks_def)
  show ?thesis
  proof (cases "i \<in> S")
    case True
    then have "map_of (sets_of (fst (push r src (wire_fragments fid payload ! i) t))) (src, fid) = Some asm"
      "snd (push r src (wire_fragments fid payload ! i) t) = Inr None"
      using repeats [OF r fit asm fresh meta] nth ui by (simp_all add: wire_fragments_nth [OF i(1)])
    then show ?thesis using r h u True by (auto simp: tracks_def insert_absorb invar_push)
  next
    case False
    have sub: "insert i S \<subseteq> {..<frag_count (length payload)} - {j}"
      using h i by (auto simp: holds_chunks_def)
    have fin: "finite S" using sub by (meson finite_Diff finite_insert finite_lessThan finite_subset)
    have "card (insert i S) \<le> frag_count (length payload) - 1"
      using card_mono [OF _ sub] i(4) by simp
    then have "Suc (asm_received asm) < unat (word_of_nat (frag_count (length payload)) :: u16)"
      using False fin h un i(4) by (simp add: holds_chunks_def)
    then have "map_of (sets_of (fst (push r src (wire_fragments fid payload ! i) t))) (src, fid) =
        Some (add_part asm i (payload_chunk payload i) t)"
      "snd (push r src (wire_fragments fid payload ! i) t) = Inr None"
      using extends [OF r fit asm fresh meta] nth ui False by (simp_all add: wire_fragments_nth [OF i(1)])
    with r t holds_add_part [OF h i(1) False] show ?thesis
      by (auto simp: tracks_def invar_push add_part_def)
  qed
qed

definition seen_indices :: "'k \<Rightarrow> u64 \<Rightarrow> bytes \<Rightarrow> ('k \<times> bytes \<times> time) list \<Rightarrow> nat set" where
  "seen_indices src fid payload es =
     {i. i < frag_count (length payload) \<and> (\<exists>t. (src, wire_fragments fid payload ! i, t) \<in> set es)}"

lemma tracks_run:
  assumes ok: "size_ok (length payload)" and r: "invar r"
    and new: "map_of (live_sets t0 (sets_of r)) (src, fid) = None" and room: "room t0 src (sets_of r)"
    and i: "i < frag_count (length payload)" "i \<noteq> j" and j: "j < frag_count (length payload)"
    and es: "\<forall>(s, p, t) \<in> set es. t0 \<le> t \<and> t < t0 + masqueWGFragmentTTL \<and>
      (fragment_key s p = Some (src, fid) \<longrightarrow>
         s = src \<and> (\<exists>i < frag_count (length payload). i \<noteq> j \<and> p = wire_fragments fid payload ! i))"
  shows "tracks src fid payload t0 (seen_indices src fid payload ((src, wire_fragments fid payload ! i, t0) # es))
           (push_run push r ((src, wire_fragments fid payload ! i, t0) # es))"
  using es
proof (induction es rule: rev_induct)
  case Nil
  have small: "i \<le> 65535" using i frag_count_range [OF ok] by simp
  have "map_of (sets_of (fst (push r src (wire_fragments fid payload ! i) t0))) (src, fid) =
     Some (add_part (new_assembly (word_of_nat (frag_count (length payload)))
       (word_of_nat (length payload)) t0) i (payload_chunk payload i) t0)"
    using opens [OF r wire_fragments_fit [OF ok i(1)] new room] small
    by (simp add: wire_fragments_nth [OF i(1)] unat_small)
  moreover have "seen_indices src fid payload [(src, wire_fragments fid payload ! i, t0)] = {i}"
    using i wire_fragments_inj [OF ok] by (auto simp: seen_indices_def)
  ultimately show ?case
    using holds_first [OF ok i(1)] r by (simp add: tracks_def invar_push) (simp add: add_part_def)
next
  case (snoc e es)
  obtain s p t where e: "e = (s, p, t)" by (cases e)
  let ?pre = "(src, wire_fragments fid payload ! i, t0) # es"
  let ?S = "seen_indices src fid payload ?pre"
  have IH: "tracks src fid payload t0 ?S (push_run push r ?pre)" using snoc by simp
  have t: "t0 \<le> t" "t < t0 + masqueWGFragmentTTL" using snoc.prems e by auto
  have run: "push_run push r (?pre @ [e]) = fst (push (push_run push r ?pre) s p t)"
    using push_run_snoc [of push r ?pre] e by simp
  have jS: "j \<notin> ?S"
  proof
    assume "j \<in> ?S"
    then obtain t' where "(src, wire_fragments fid payload ! j, t') \<in> set ?pre"
      by (auto simp: seen_indices_def)
    then consider "wire_fragments fid payload ! j = wire_fragments fid payload ! i"
      | k where "k < frag_count (length payload)" "k \<noteq> j"
          "wire_fragments fid payload ! j = wire_fragments fid payload ! k"
      using snoc.prems by (fastforce simp: wire_fragments_nth [OF j])
    then show False using wire_fragments_inj [OF ok j] i by cases metis+
  qed
  show ?case
  proof (cases "fragment_key s p = Some (src, fid)")
    case True
    then obtain k where k: "s = src" "k < frag_count (length payload)" "k \<noteq> j"
      "p = wire_fragments fid payload ! k" using snoc.prems e by auto
    have "seen_indices src fid payload (?pre @ [e]) = insert k ?S"
      using k e wire_fragments_inj [OF ok] by (auto simp: seen_indices_def)
    with tracks_ours [OF IH ok k(2,3) jS j t] run k show ?thesis by simp
  next
    case False
    have "seen_indices src fid payload (?pre @ [e]) = ?S"
      using False e by (auto simp: seen_indices_def wire_fragments_nth)
    with tracks_other [OF IH False t(2)] run show ?thesis by simp
  qed
qed

theorem any_order_delivers:
  assumes ok: "size_ok (length payload)" and r: "invar r"
    and new: "map_of (live_sets t0 (sets_of r)) (src, fid) = None" and room: "room t0 src (sets_of r)"
    and es: "delivers_all_but src fid payload j t0 es"
    and t: "t0 \<le> t" "t < t0 + masqueWGFragmentTTL"
  shows "snd (push (push_run push r es) src (wire_fragments fid payload ! j) t) = Inr (Some payload)"
    and "map_of (sets_of (fst (push (push_run push r es) src (wire_fragments fid payload ! j) t)))
           (src, fid) = None"
proof -
  let ?n = "frag_count (length payload)"
  from es obtain i es' where i: "i < ?n" "i \<noteq> j" and j: "j < ?n"
    and es': "es = (src, wire_fragments fid payload ! i, t0) # es'"
    unfolding delivers_all_but_def by (cases es) auto
  have all: "seen_indices src fid payload es = {..<?n} - {j}"
  proof -
    have "j \<notin> seen_indices src fid payload es"
      using es j wire_fragments_inj [OF ok j]
      by (fastforce simp: seen_indices_def delivers_all_but_def wire_fragments_nth [OF j])
    then show ?thesis using es by (auto simp: seen_indices_def delivers_all_but_def)
  qed
  have "tracks src fid payload t0 ({..<?n} - {j}) (push_run push r es)"
    using tracks_run [OF ok r new room i j, of es'] es all
    by (simp add: es' delivers_all_but_def)
  then obtain asm where r': "invar (push_run push r es)"
    and asm: "map_of (sets_of (push_run push r es)) (src, fid) = Some asm"
    and h: "holds_chunks payload ({..<?n} - {j}) asm" and u: "t0 \<le> asm_updated asm"
    by (auto simp: tracks_def)
  have small: "?n \<le> 65535" "length payload \<le> 65536"
    using frag_count_range [OF ok] ok by (auto simp: size_ok_def go_consts)
  have uj: "unat (word_of_nat j :: u16) = j" "unat (word_of_nat ?n :: u16) = ?n"
    "unat (word_of_nat (length payload) :: u32) = length payload"
    using j small by (simp_all add: unat_small)
  have parts: "(asm_parts asm)[j := Some (payload_chunk payload j)] =
      map Some (map (payload_chunk payload) [0..<?n])"
  proof (rule nth_equalityI)
    fix k assume "k < length ((asm_parts asm)[j := Some (payload_chunk payload j)])"
    then show "(asm_parts asm)[j := Some (payload_chunk payload j)] ! k =
        map Some (map (payload_chunk payload) [0..<?n]) ! k"
      using h by (cases "k = j") (simp_all add: holds_chunks_def)
  qed (use h in \<open>simp add: holds_chunks_def\<close>)
  have "snd (push (push_run push r es) src (wire_fragments fid payload ! j) t) =
      Inr (Some (concat (map (payload_chunk payload) [0..<?n]))) \<and>
    map_of (sets_of (fst (push (push_run push r es) src (wire_fragments fid payload ! j) t)))
      (src, fid) = None"
    unfolding wire_fragments_nth [OF j]
  proof (rule completes [OF r' wire_fragments_fit [OF ok j] asm])
    show "t - asm_updated asm < masqueWGFragmentTTL" using t u by simp
    show "asm_count asm = word_of_nat ?n" "asm_total asm = word_of_nat (length payload)"
      using h by (auto simp: holds_chunks_def)
    show "asm_parts asm ! unat (word_of_nat j :: u16) = None"
      using h j by (simp add: holds_chunks_def uj)
    show "Suc (asm_received asm) = unat (word_of_nat ?n :: u16)"
      using h j by (simp add: holds_chunks_def uj)
    show "(asm_parts asm)[unat (word_of_nat j :: u16) := Some (payload_chunk payload j)] =
        map Some (map (payload_chunk payload) [0..<?n])" using parts by (simp add: uj)
    show "length (concat (map (payload_chunk payload) [0..<?n])) =
        unat (word_of_nat (length payload) :: u32)" by (simp add: concat_payload_chunks uj)
  qed
  then show "snd (push (push_run push r es) src (wire_fragments fid payload ! j) t) = Inr (Some payload)"
    and "map_of (sets_of (fst (push (push_run push r es) src (wire_fragments fid payload ! j) t)))
           (src, fid) = None"
    by (simp_all add: concat_payload_chunks)
qed

text \<open>Fragments that arrive in order are all silent up to the last one.\<close>

definition in_order :: "'k \<Rightarrow> u64 \<Rightarrow> bytes \<Rightarrow> (nat \<Rightarrow> time) \<Rightarrow> nat \<Rightarrow> ('k \<times> bytes \<times> time) list" where
  "in_order src fid payload ts k = map (\<lambda>i. (src, wire_fragments fid payload ! i, ts i)) [0..<k]"

lemma in_order_silent:
  assumes ok: "size_ok (length payload)" and r: "invar r"
    and new: "map_of (live_sets (ts 0) (sets_of r)) (src, fid) = None" and room: "room (ts 0) src (sets_of r)"
    and ts: "\<And>i. ts 0 \<le> ts i \<and> ts i < ts 0 + masqueWGFragmentTTL" and k: "Suc k < frag_count (length payload)"
  shows "snd (push (push_run push r (in_order src fid payload ts k)) src (wire_fragments fid payload ! k) (ts k)) = Inr None"
proof (cases k)
  case 0
  have z: "0 < frag_count (length payload)" using k by simp
  show ?thesis
    using opens [OF r wire_fragments_fit [OF ok z] new room] 0
    by (simp add: wire_fragments_nth [OF z] in_order_def)
next
  case (Suc m)
  let ?n = "frag_count (length payload)"
  let ?es = "map (\<lambda>i. (src, wire_fragments fid payload ! i, ts i)) [1..<k]"
  have es: "in_order src fid payload ts k = (src, wire_fragments fid payload ! 0, ts 0) # ?es"
    using Suc by (simp add: in_order_def upt_conv_Cons del: upt_Suc)
  have z: "0 < ?n" "0 \<noteq> ?n - 1" "?n - 1 < ?n" "k < ?n" "k \<noteq> ?n - 1" using k by auto
  have "tracks src fid payload (ts 0) (seen_indices src fid payload (in_order src fid payload ts k))
      (push_run push r (in_order src fid payload ts k))"
    unfolding es
  proof (rule tracks_run [OF ok r new room z(1,2,3)], clarify)
    fix s p t assume "(s, p, t) \<in> set ?es"
    then obtain i where i: "s = src" "p = wire_fragments fid payload ! i" "t = ts i" "i < k" by auto
    then have "i < ?n" "i \<noteq> ?n - 1" using k by auto
    with i ts show "ts 0 \<le> t \<and> t < ts 0 + masqueWGFragmentTTL \<and> (fragment_key s p = Some (src, fid) \<longrightarrow>
        s = src \<and> (\<exists>i<?n. i \<noteq> ?n - 1 \<and> p = wire_fragments fid payload ! i))" by blast
  qed
  moreover have "?n - 1 \<notin> seen_indices src fid payload (in_order src fid payload ts k)"
  proof
    assume "?n - 1 \<in> seen_indices src fid payload (in_order src fid payload ts k)"
    then obtain i where "i < k" "wire_fragments fid payload ! (?n - 1) = wire_fragments fid payload ! i"
      by (auto simp: seen_indices_def in_order_def)
    then show False using wire_fragments_inj [OF ok z(3), of i fid] k by simp
  qed
  ultimately show ?thesis using tracks_ours [OF _ ok z(4,5) _ z(3)] ts by blast
qed

lemma in_order_delivers:
  assumes ok: "size_ok (length payload)" and r: "invar r"
    and new: "map_of (live_sets (ts 0) (sets_of r)) (src, fid) = None" and room: "room (ts 0) src (sets_of r)"
    and ts: "\<And>i. ts 0 \<le> ts i \<and> ts i < ts 0 + masqueWGFragmentTTL" and k: "frag_count (length payload) = Suc k"
  shows "snd (push (push_run push r (in_order src fid payload ts k)) src (wire_fragments fid payload ! k) (ts k))
      = Inr (Some payload)"
    and "map_of (sets_of (fst (push (push_run push r (in_order src fid payload ts k)) src
      (wire_fragments fid payload ! k) (ts k)))) (src, fid) = None"
proof -
  have k0: "0 < k" using k frag_count_range [OF ok] by simp
  have es: "hd (in_order src fid payload ts k) = (src, wire_fragments fid payload ! 0, ts 0)"
    "in_order src fid payload ts k \<noteq> []" using k0 by (simp_all add: in_order_def hd_map)
  have "\<exists>i<frag_count (length payload). i \<noteq> k \<and> hd (in_order src fid payload ts k) = (src, wire_fragments fid payload ! i, ts 0)"
    using es k k0 by auto
  moreover have "\<exists>t. (src, wire_fragments fid payload ! i, t) \<in> set (in_order src fid payload ts k)"
    if "i < Suc k" "i \<noteq> k" for i using that by (auto simp: in_order_def intro!: exI [of _ "ts i"] image_eqI [of _ _ i])
  moreover have "\<forall>(s, p, t)\<in>set (in_order src fid payload ts k). ts 0 \<le> t \<and> t < ts 0 + masqueWGFragmentTTL \<and>
      (fragment_key s p = Some (src, fid) \<longrightarrow>
         s = src \<and> (\<exists>i<frag_count (length payload). i \<noteq> k \<and> p = wire_fragments fid payload ! i))"
  proof clarify
    fix s p t assume "(s, p, t) \<in> set (in_order src fid payload ts k)"
    then obtain i where "s = src" "p = wire_fragments fid payload ! i" "t = ts i" "i < k" by (auto simp: in_order_def)
    with ts k show "ts 0 \<le> t \<and> t < ts 0 + masqueWGFragmentTTL \<and> (fragment_key s p = Some (src, fid) \<longrightarrow>
        s = src \<and> (\<exists>i<frag_count (length payload). i \<noteq> k \<and> p = wire_fragments fid payload ! i))"
      by (metis less_SucI less_irrefl)
  qed
  ultimately have d: "delivers_all_but src fid payload k (ts 0) (in_order src fid payload ts k)"
    using es k unfolding delivers_all_but_def by simp
  show "snd (push (push_run push r (in_order src fid payload ts k)) src (wire_fragments fid payload ! k) (ts k))
      = Inr (Some payload)"
    "map_of (sets_of (fst (push (push_run push r (in_order src fid payload ts k)) src
      (wire_fragments fid payload ! k) (ts k)))) (src, fid) = None"
    using any_order_delivers [OF ok r new room d] ts by blast+
qed

end

section \<open>The native reassembler\<close>

subsection \<open>Invariant\<close>

definition assembly_shape :: "masqueWGFragmentAssembly \<Rightarrow> bool" where
  "assembly_shape asm \<longleftrightarrow>
     size_ok (unat (asm_total asm)) \<and> unat (asm_count asm) = frag_count (unat (asm_total asm)) \<and>
     length (asm_parts asm) = unat (asm_count asm) \<and>
     (\<forall>i b. i < length (asm_parts asm) \<longrightarrow> asm_parts asm ! i = Some b \<longrightarrow>
        length b = chunk_len i (unat (asm_total asm))) \<and>
     asm_received asm = count_some (asm_parts asm)"

text \<open>An assembly in the map has received something and is incomplete.\<close>

definition assembly_ok :: "masqueWGFragmentAssembly \<Rightarrow> bool" where
  "assembly_ok asm \<longleftrightarrow>
     assembly_shape asm \<and> 0 < asm_received asm \<and> asm_received asm < unat (asm_count asm)"

definition reassembler_ok :: "'k masqueWGReassembler \<Rightarrow> bool" where
  "reassembler_ok r \<longleftrightarrow>
     gomap_ok (sets r) \<and> length (sets r) \<le> masqueWGMaxAssemblies \<and>
     (\<forall>src. key_count (\<lambda>k. fst k = src) (sets r) \<le> masqueWGMaxAssembliesPerSource) \<and>
     (\<forall>key asm. map_of (sets r) key = Some asm \<longrightarrow> assembly_ok asm)"

lemma reassembler_ok_gomap [simp]: "reassembler_ok r \<Longrightarrow> gomap_ok (sets r)"
  by (simp add: reassembler_ok_def)

lemma reassembler_okD: "reassembler_ok r \<Longrightarrow> map_of (sets r) key = Some asm \<Longrightarrow> assembly_ok asm"
  unfolding reassembler_ok_def by blast

lemma sets_cleanup [simp]: "sets (cleanupLocked r now) = live_sets now (sets r)"
  by (auto simp: cleanupLocked_def live_sets_def intro!: filter_cong)

lemma map_of_live_sets:
  "gomap_ok m \<Longrightarrow> map_of (live_sets now m) key =
     (case map_of m key of None \<Rightarrow> None
      | Some asm \<Rightarrow> if now - asm_updated asm < masqueWGFragmentTTL then Some asm else None)"
  by (simp add: live_sets_def map_of_filter_ok split: option.splits)

lemma reassembler_ok_shrink:
  assumes "reassembler_ok r" "sets r' = filter P (sets r)"
  shows "reassembler_ok r'"
  unfolding reassembler_ok_def assms(2)
proof (intro conjI allI impI)
  show "gomap_ok (filter P (sets r))" using assms by simp
  show "length (filter P (sets r)) \<le> masqueWGMaxAssemblies"
    using assms(1) by (auto simp: reassembler_ok_def intro: order_trans [OF length_filter_le])
  show "key_count (\<lambda>k. fst k = src) (filter P (sets r)) \<le> masqueWGMaxAssembliesPerSource" for src
    using assms(1) key_count_filter order_trans unfolding reassembler_ok_def by blast
  show "assembly_ok asm" if "map_of (filter P (sets r)) key = Some asm" for key asm
    using assms(1) map_of_filter_SomeD [OF _ that] unfolding reassembler_ok_def by blast
qed

lemma reassembler_ok_cleanup [inv_intros]: "reassembler_ok r \<Longrightarrow> reassembler_ok (cleanupLocked r now)"
  by (erule reassembler_ok_shrink) (simp add: live_sets_def)

lemma reassembler_ok_delete [inv_intros]:
  "reassembler_ok r \<Longrightarrow> reassembler_ok (r\<lparr>sets := AList.delete key (sets r)\<rparr>)"
  by (erule reassembler_ok_shrink) (simp add: delete_as_filter)

lemma reassembler_ok_replace [inv_intros]:
  assumes "reassembler_ok r" "assembly_ok asm" "map_of (sets r) key = Some asm0"
  shows "reassembler_ok (r\<lparr>sets := AList.update key asm (sets r)\<rparr>)"
proof -
  have "key \<in> fst ` set (sets r)" using assms(3) by (metis map_of_eq_None_iff option.distinct(1))
  with assms show ?thesis
    by (auto simp: reassembler_ok_def key_count_update_present length_update_present gomap_simps
          split: if_splits)
qed

lemma reassembler_ok_insert [inv_intros]:
  assumes "reassembler_ok r" "assembly_ok asm" "map_of (sets r) key = None"
    "sourceAssemblyCountLocked r (fst key) < masqueWGMaxAssembliesPerSource"
    "length (sets r) < masqueWGMaxAssemblies"
  shows "reassembler_ok (r\<lparr>sets := AList.update key asm (sets r)\<rparr>)"
proof -
  have "key \<notin> fst ` set (sets r)" using assms(3) by (simp add: map_of_eq_None_iff)
  with assms show ?thesis
    by (auto simp: reassembler_ok_def key_count_update_absent length_update_absent gomap_simps
          sourceAssemblyCountLocked_def split: if_splits)
qed

subsection \<open>Storing a part\<close>

definition header_fits :: "fragment_header \<Rightarrow> bool" where
  "header_fits h \<longleftrightarrow> fragment_fits (fh_index h) (fh_count h) (fh_total h) (fh_chunk h)"

lemma join_parts_Some: "join_parts (map Some bs) out = Some (out @ concat bs)"
  by (induction bs arbitrary: out) auto

lemma shape_new: "size_ok (unat n) \<Longrightarrow> unat c = frag_count (unat n) \<Longrightarrow> assembly_shape (new_assembly c n now)"
  by (simp add: assembly_shape_def new_assembly_def)

lemma shape_add_part:
  assumes "assembly_shape asm" "i < length (asm_parts asm)" "asm_parts asm ! i = None"
    "length chunk = chunk_len i (unat (asm_total asm))"
  shows "assembly_shape (add_part asm i chunk now)"
  using assms by (auto simp: assembly_shape_def add_part_def count_some_update nth_list_update)

lemma concat_shape_length:
  assumes "assembly_shape asm" "asm_received asm = unat (asm_count asm)"
  shows "length (concat (map the (asm_parts asm))) = unat (asm_total asm)"
proof -
  let ?ps = "asm_parts asm"
  have all: "?ps = map Some (map the ?ps)"
    using assms by (intro all_some) (simp add: assembly_shape_def)
  have "length (concat (map the ?ps)) = (\<Sum>i<length ?ps. length (the (?ps ! i)))"
    by (simp add: length_concat sum_list_sum_nth atLeast0LessThan)
  also have "\<dots> = (\<Sum>i<length ?ps. chunk_len i (unat (asm_total asm)))"
  proof (rule sum.cong [OF refl])
    fix i assume "i \<in> {..<length ?ps}"
    moreover from this have "?ps ! i = Some (the (?ps ! i))"
      using all by (metis length_map lessThan_iff nth_map)
    ultimately show "length (the (?ps ! i)) = chunk_len i (unat (asm_total asm))"
      using assms(1) unfolding assembly_shape_def by (metis lessThan_iff)
  qed
  also have "\<dots> = unat (asm_total asm)"
    using assms(1) sum_chunk_len by (simp add: assembly_shape_def)
  finally show ?thesis .
qed

text \<open>
  On a well-formed assembly the two defensive exits of \<^verbatim>\<open>Push\<close>, a nil part in a
  complete assembly and a size mismatch, cannot be taken.
\<close>

lemma store_part_eq:
  fixes now :: time
  assumes shape: "assembly_shape asm" and fits: "header_fits h"
    and meta: "asm_count asm = fh_count h" "asm_total asm = fh_total h"
    and part: "asm_parts asm ! unat (fh_index h) = None"
  defines "asm' \<equiv> add_part asm (unat (fh_index h)) (fh_chunk h) now"
  shows "store_part r key asm h now =
     (if Suc (asm_received asm) < unat (asm_count asm)
      then (r\<lparr>sets := AList.update key asm' (sets r)\<rparr>, Inr None)
      else (r\<lparr>sets := AList.delete key (sets r)\<rparr>, Inr (Some (concat (map the (asm_parts asm'))))))"
proof -
  have i: "unat (fh_index h) < length (asm_parts asm)"
    and len: "length (fh_chunk h) = chunk_len (unat (fh_index h)) (unat (asm_total asm))"
    using shape fits meta by (auto simp: assembly_shape_def header_fits_def fragment_fits_def)
  have ne: "fh_chunk h \<noteq> []"
    using chunk_len_pos [of "unat (asm_total asm)" "unat (fh_index h)"] len i shape
    by (auto simp: assembly_shape_def)
  have shape': "assembly_shape asm'" unfolding asm'_def by (rule shape_add_part [OF shape i part len])
  have asm': "asm' = asm\<lparr>asm_parts := (asm_parts asm)[unat (fh_index h) := append_nil (fh_chunk h)],
      asm_received := asm_received asm + 1, asm_updated := now\<rparr>"
    using ne by (simp add: asm'_def add_part_def)
  have le: "asm_received asm' \<le> unat (asm_count asm')"
    using shape' by (simp add: assembly_shape_def) (metis count_some_le)
  show ?thesis
  proof (cases "asm_received asm' = unat (asm_count asm')")
    case False
    with le have "Suc (asm_received asm) < unat (asm_count asm)" by (simp add: asm')
    with False show ?thesis by (simp add: store_part_def part Let_def asm')
  next
    case True
    have "asm_parts asm' = map Some (map the (asm_parts asm'))"
      using True shape' by (intro all_some) (simp add: assembly_shape_def)
    then have "join_parts (asm_parts asm') [] = Some (concat (map the (asm_parts asm')))"
      by (metis join_parts_Some append_Nil)
    moreover have "length (concat (map the (asm_parts asm'))) = unat (asm_total asm')"
      by (rule concat_shape_length [OF shape' True])
    moreover have "\<not> Suc (asm_received asm) < unat (asm_count asm)" using True by (simp add: asm')
    ultimately show ?thesis using True by (simp add: store_part_def part Let_def asm')
  qed
qed

lemma store_part_new:
  assumes "header_fits h"
  shows "store_part (r\<lparr>sets := AList.update key (new_assembly (fh_count h) (fh_total h) now) (sets r)\<rparr>)
      key (new_assembly (fh_count h) (fh_total h) now) h now =
    (r\<lparr>sets := AList.update key (add_part (new_assembly (fh_count h) (fh_total h) now)
        (unat (fh_index h)) (fh_chunk h) now) (sets r)\<rparr>, Inr None)"
proof -
  have fits: "size_ok (unat (fh_total h))" "unat (fh_count h) = frag_count (unat (fh_total h))"
    "unat (fh_index h) < unat (fh_count h)"
    using assms by (auto simp: header_fits_def fragment_fits_def)
  have "Suc 0 < unat (fh_count h)" using frag_count_range [OF fits(1)] fits(2) by simp
  with fits(3) show ?thesis
    by (subst store_part_eq [OF shape_new [OF fits(1,2)] assms]) (simp_all add: new_assembly_def)
qed

lemma assembly_ok_first:
  assumes "header_fits h"
  shows "assembly_ok (add_part (new_assembly (fh_count h) (fh_total h) now)
      (unat (fh_index h)) (fh_chunk h) now)"
proof -
  have fits: "size_ok (unat (fh_total h))" "unat (fh_count h) = frag_count (unat (fh_total h))"
    "unat (fh_index h) < unat (fh_count h)"
    "length (fh_chunk h) = chunk_len (unat (fh_index h)) (unat (fh_total h))"
    using assms by (auto simp: header_fits_def fragment_fits_def)
  have "assembly_shape (add_part (new_assembly (fh_count h) (fh_total h) now)
      (unat (fh_index h)) (fh_chunk h) now)"
    using fits by (intro shape_add_part shape_new) (auto simp: new_assembly_def)
  moreover have "Suc 0 < unat (fh_count h)" using frag_count_range [OF fits(1)] fits(2) by simp
  ultimately show ?thesis by (simp add: assembly_ok_def add_part_def new_assembly_def)
qed

lemma assembly_ok_next:
  assumes "assembly_ok asm" "header_fits h" "asm_count asm = fh_count h" "asm_total asm = fh_total h"
    "asm_parts asm ! unat (fh_index h) = None" "Suc (asm_received asm) < unat (asm_count asm)"
  shows "assembly_ok (add_part asm (unat (fh_index h)) (fh_chunk h) now)"
proof -
  have "assembly_shape (add_part asm (unat (fh_index h)) (fh_chunk h) now)"
    using assms
    by (intro shape_add_part) (auto simp: assembly_ok_def assembly_shape_def header_fits_def fragment_fits_def)
  with assms show ?thesis by (simp add: assembly_ok_def add_part_def)
qed

subsection \<open>Every operation keeps the invariant\<close>

lemma store_part_ok [inv_intros]:
  assumes r: "reassembler_ok r" and asm: "map_of (sets r) key = Some asm" and h: "header_fits h"
    and meta: "asm_count asm = fh_count h" "asm_total asm = fh_total h"
  shows "reassembler_ok (fst (store_part r key asm h now))"
proof (cases "asm_parts asm ! unat (fh_index h)")
  case None
  have ok: "assembly_ok asm" using r asm by (rule reassembler_okD)
  then have shape: "assembly_shape asm" by (simp add: assembly_ok_def)
  show ?thesis
    unfolding store_part_eq [OF shape h meta None]
    using reassembler_ok_replace [OF r assembly_ok_next [OF ok h meta None] asm]
    by (simp add: reassembler_ok_delete r)
next
  case (Some old)
  then show ?thesis by (simp add: store_part_def Let_def r reassembler_ok_delete)
qed

lemma push_locked_ok [inv_intros]:
  assumes r: "reassembler_ok r" and h: "header_fits h"
  shows "reassembler_ok (fst (push_locked r src h now))"
proof -
  let ?r = "cleanupLocked r now" and ?key = "(src, fh_id h)"
  have ok: "reassembler_ok ?r" using r by (rule reassembler_ok_cleanup)
  show ?thesis
  proof (cases "map_of (sets ?r) ?key")
    case None
    show ?thesis
    proof (cases "sourceAssemblyCountLocked ?r src \<ge> masqueWGMaxAssembliesPerSource \<or>
        length (sets ?r) \<ge> masqueWGMaxAssemblies")
      case True
      with None ok show ?thesis by (auto simp: push_locked_def Let_def)
    next
      case False
      with reassembler_ok_insert [OF ok assembly_ok_first [OF h] None] None show ?thesis
        by (simp add: push_locked_def Let_def store_part_new [OF h, of _ _ ?r, simplified] not_le)
    qed
  next
    case (Some asm)
    with store_part_ok [OF ok Some h] reassembler_ok_delete [OF ok] show ?thesis
      by (simp add: push_locked_def Let_def)
  qed
qed

lemma Push_ok [inv_intros]: "reassembler_ok r \<Longrightarrow> reassembler_ok (fst (Push r src p now))"
  using parse_fragment_fits(1) [of p]
  by (auto simp: Push_def header_fits_def intro!: push_locked_ok split: sum.splits)

lemma Reset_ok [inv_intros]: "reassembler_ok (Reset r)"
  by (simp add: Reset_def reassembler_ok_def)

subsection \<open>The native reassembler meets the interface\<close>

lemma Push_wire:
  "fragment_fits i c n chunk \<Longrightarrow>
   Push r src (wire_fragment fid i c n chunk) now =
     push_locked r src \<lparr>fh_id = fid, fh_index = i, fh_count = c, fh_total = n, fh_chunk = chunk\<rparr> now"
  by (simp add: Push_def parse_wire)

lemma store_part_other:
  "key' \<noteq> key \<Longrightarrow> map_of (sets (fst (store_part r key asm h now))) key' = map_of (sets r) key'"
  by (simp add: store_part_def Let_def gomap_simps split: option.split)

lemma push_locked_other:
  "key \<noteq> (src, fh_id h) \<Longrightarrow>
   map_of (sets (fst (push_locked r src h now))) key = map_of (live_sets now (sets r)) key"
  by (simp add: push_locked_def Let_def store_part_other gomap_simps split: option.split)

lemma Push_other_key:
  assumes "reassembler_ok r" "fragment_key s p \<noteq> Some key" "map_of (sets r) key = Some asm"
    "now - asm_updated asm < masqueWGFragmentTTL"
  shows "map_of (sets (fst (Push r s p now))) key = Some asm"
proof (cases "HasPrefix p masqueWGFragmentMagic")
  case True
  show ?thesis
  proof (cases "parse_fragment p")
    case (Inr h)
    then have "key \<noteq> (s, fh_id h)"
      using assms(2) True parse_fragment_fits(2,3) [OF Inr] by (auto simp: fragment_key_def go_consts)
    with assms True Inr show ?thesis by (simp add: Push_def push_locked_other map_of_live_sets)
  qed (use assms True in \<open>simp add: Push_def\<close>)
qed (use assms in \<open>simp add: Push_def\<close>)

lemma push_locked_found:
  assumes "reassembler_ok r" "map_of (sets r) (src, fh_id h) = Some asm"
    "now - asm_updated asm < masqueWGFragmentTTL" "asm_count asm = fh_count h" "asm_total asm = fh_total h"
  shows "push_locked r src h now = store_part (cleanupLocked r now) (src, fh_id h) asm h now"
  using assms by (simp add: push_locked_def map_of_live_sets)

interpretation native: reassembler Push sets reassembler_ok
proof unfold_locales
  fix r :: "'a masqueWGReassembler" and src p now
  show "reassembler_ok r \<Longrightarrow> reassembler_ok (fst (Push r src p now))" by (rule Push_ok)
  show "\<not> HasPrefix p masqueWGFragmentMagic \<Longrightarrow> Push r src p now = (r, Inr (Some p))"
    by (simp add: Push_def)
next
  fix r :: "'a masqueWGReassembler" and s p key asm now
  assume "reassembler_ok r" "fragment_key s p \<noteq> Some key" "map_of (sets r) key = Some asm"
    "now - asm_updated asm < masqueWGFragmentTTL"
  then show "map_of (sets (fst (Push r s p now))) key = Some asm" by (rule Push_other_key)
next
  fix r :: "'a masqueWGReassembler" and i c n chunk now src fid
  assume r: "reassembler_ok r" and fits: "fragment_fits i c n chunk"
    and new: "map_of (live_sets now (sets r)) (src, fid) = None" and room: "room now src (sets r)"
  let ?h = "\<lparr>fh_id = fid, fh_index = i, fh_count = c, fh_total = n, fh_chunk = chunk\<rparr>"
  have h: "header_fits ?h" using fits by (simp add: header_fits_def)
  have "sourceAssemblyCountLocked (cleanupLocked r now) src < masqueWGMaxAssembliesPerSource"
    "length (live_sets now (sets r)) < masqueWGMaxAssemblies"
    using room by (auto simp: room_def sourceAssemblyCountLocked_def)
  then show "snd (Push r src (wire_fragment fid i c n chunk) now) = Inr None \<and>
       map_of (sets (fst (Push r src (wire_fragment fid i c n chunk) now))) (src, fid) =
         Some (add_part (new_assembly c n now) (unat i) chunk now)"
    using store_part_new [OF h, of "(src, fid)" now "cleanupLocked r now"] new
    by (simp add: Push_wire [OF fits] push_locked_def Let_def gomap_simps)
next
  fix r :: "'a masqueWGReassembler" and i c n chunk now src fid asm
  assume r: "reassembler_ok r" and fits: "fragment_fits i c n chunk"
    and asm: "map_of (sets r) (src, fid) = Some asm" and fresh: "now - asm_updated asm < masqueWGFragmentTTL"
    and meta: "asm_count asm = c" "asm_total asm = n"
  let ?h = "\<lparr>fh_id = fid, fh_index = i, fh_count = c, fh_total = n, fh_chunk = chunk\<rparr>"
  have h: "header_fits ?h" using fits by (simp add: header_fits_def)
  have shape: "assembly_shape asm" using reassembler_okD [OF r asm] by (simp add: assembly_ok_def)
  have eq: "Push r src (wire_fragment fid i c n chunk) now =
      store_part (cleanupLocked r now) (src, fid) asm ?h now"
    using push_locked_found [OF r, of src ?h asm now] asm fresh meta by (simp add: Push_wire [OF fits])
  show "snd (Push r src (wire_fragment fid i c n chunk) now) = Inr None \<and>
       map_of (sets (fst (Push r src (wire_fragment fid i c n chunk) now))) (src, fid) = Some asm"
    if "asm_parts asm ! unat i = Some chunk"
    using that r asm fresh unfolding eq by (simp add: store_part_def Let_def map_of_live_sets)
  show "snd (Push r src (wire_fragment fid i c n chunk) now) = Inr None \<and>
       map_of (sets (fst (Push r src (wire_fragment fid i c n chunk) now))) (src, fid) =
         Some (add_part asm (unat i) chunk now)"
    if "asm_parts asm ! unat i = None" "Suc (asm_received asm) < unat c"
    using that meta unfolding eq by (subst (1 2) store_part_eq [OF shape h]) (simp_all add: gomap_simps)
  show "snd (Push r src (wire_fragment fid i c n chunk) now) = Inr (Some (concat bs)) \<and>
       map_of (sets (fst (Push r src (wire_fragment fid i c n chunk) now))) (src, fid) = None"
    if "asm_parts asm ! unat i = None" "Suc (asm_received asm) = unat c"
      "(asm_parts asm)[unat i := Some chunk] = map Some bs" for bs
    using that meta unfolding eq
    by (subst (1 2) store_part_eq [OF shape h]) (simp_all add: gomap_simps add_part_def comp_def)
qed

section \<open>Properties\<close>

lemma push_run_ok [inv_intros]: "reassembler_ok r \<Longrightarrow> reassembler_ok (push_run Push r es)"
  by (induction es arbitrary: r) (auto simp: Push_ok)

lemma reassembler_ok_empty [inv_intros]: "reassembler_ok \<lparr>sets = []\<rparr>"
  by (simp add: reassembler_ok_def)

text \<open>
  C1: Round trip of the fragmentation layer. If the sender cuts a packet into fragments
  \<open>fs\<close>, the receiver has room for one more assembly of that source, and within 30
  seconds of the first fragment all but one of them arrive, in any order, possibly
  repeated and interleaved with arbitrary other traffic (of other sources or of other
  packets), then the arrival of the last one returns exactly the packet and leaves nothing
  of it behind.
\<close>

theorem fragment_roundtrip_any_order:
  assumes sent: "fragmentMasqueWireGuardPacket nanos seq payload = (Inr fs, seq')" "fs \<noteq> []"
    and fid: "fid = fst (nextMasqueWGFragmentID nanos seq)"
    and recv: "reassembler_ok r" "map_of (live_sets t0 (sets r)) (src, fid) = None"
      "room t0 src (sets r)"
    and schedule: "delivers_all_but src fid payload j t0 es"
    and time: "t0 \<le> t" "t < t0 + masqueWGFragmentTTL"
  shows "snd (Push (push_run Push r es) src (fs ! j) t) = Inr (Some payload) \<and>
    map_of (sets (fst (Push (push_run Push r es) src (fs ! j) t))) (src, fid) = None"
proof -
  have ok: "size_ok (length payload)"
    using sent by (auto simp: fragmentMasqueWireGuardPacket_def size_ok_def split: if_splits)
  have "fs = wire_fragments fid payload"
    using fragment_packet_eq [OF ok, of nanos seq] sent fid
    by (simp add: nextMasqueWGFragmentID_def Let_def)
  then show ?thesis
    using native.any_order_delivers [OF ok recv schedule time] by simp
qed

lemma delivers_two:
  assumes "frag_count (length payload) = 2"
  shows "delivers_all_but src fid payload 1 0 [(src, wire_fragments fid payload ! 0, 0)]"
  using assms
  by (auto simp: delivers_all_but_def less_2_cases_iff masqueWGFragmentTTL_def seconds_def)

theorem fragment_roundtrip_any_order_witness:
  "\<exists>fs. fragmentMasqueWireGuardPacket 9 0 (replicate 1001 7) = (Inr fs, 1) \<and> length fs = 2 \<and>
     snd (Push (push_run Push \<lparr>sets = []\<rparr> [(5 :: nat, fs ! 0, 0)]) 5 (fs ! 1) 3) =
       Inr (Some (replicate 1001 7))"
proof -
  let ?p = "replicate 1001 (7 :: byte)" and ?fs = "wire_fragments 10 (replicate 1001 (7 :: byte))"
  have n: "frag_count (length ?p) = 2" by (simp add: frag_count_def go_consts)
  have sent: "fragmentMasqueWireGuardPacket 9 0 ?p = (Inr ?fs, 1)"
    using fragment_packet_eq [of ?p 9 0] by (simp add: size_ok_def go_consts)
  have len: "length ?fs = 2" using n by simp
  then have ne: "?fs \<noteq> []" by (metis length_0_conv zero_neq_numeral)
  have fid: "(10 :: u64) = fst (nextMasqueWGFragmentID 9 0)" by (simp add: nextMasqueWGFragmentID_def)
  have "snd (Push (push_run Push \<lparr>sets = []\<rparr> [(5 :: nat, ?fs ! 0, 0)]) 5 (?fs ! 1) 3) = Inr (Some ?p)"
    using fragment_roundtrip_any_order [OF sent ne fid reassembler_ok_empty _ _ delivers_two [OF n],
        of "5 :: nat" 3]
    by (auto simp: live_sets_def room_def go_consts masqueWGFragmentTTL_def seconds_def)
  with sent len show ?thesis by blast
qed


text \<open>
  What the sender puts on the wire, on every branch: a packet of at most 1000 bytes is
  not fragmented and uses no identifier, one of more than 64 KiB is refused, and any other
  becomes between 2 and 66 fragments of at most 1020 bytes, all marked with the magic, at
  the cost of one identifier. The \<open>TooManyFragments\<close> exit is never taken.
\<close>

theorem fragment_packet_branches:
  "case fragmentMasqueWireGuardPacket nanos seq payload of
     (Inl e, seq') \<Rightarrow> e = PacketTooLarge (length payload) \<and> 65536 < length payload \<and> seq' = seq
   | (Inr fs, seq') \<Rightarrow>
       length payload \<le> 65536 \<and>
       (if length payload \<le> 1000 then fs = [] \<and> seq' = seq
        else 2 \<le> length fs \<and> length fs \<le> 66 \<and> seq' = seq + 1 \<and>
          list_all (\<lambda>f. 20 < length f \<and> length f \<le> 1020 \<and> HasPrefix f masqueWGFragmentMagic) fs)"
proof (cases "size_ok (length payload)")
  case True
  have "list_all (\<lambda>f. 20 < length f \<and> length f \<le> 1020 \<and> HasPrefix f masqueWGFragmentMagic)
      (wire_fragments fid payload)" for fid
    using length_payload_chunk [OF True] chunk_len_pos [OF True] chunk_len_le
    by (auto simp: wire_fragments_def list_all_iff go_consts)
  with fragment_packet_eq [OF True, of nanos seq] frag_count_range [OF True] True show ?thesis
    by (simp add: size_ok_def go_consts)
qed (auto simp: fragmentMasqueWireGuardPacket_def size_ok_def go_consts)

definition buffered_bytes :: "'k masqueWGReassembler \<Rightarrow> nat" where
  "buffered_bytes r =
     sum_list (map (\<lambda>(k, asm). sum_list (map (case_option 0 length) (asm_parts asm))) (sets r))"

lemma assembly_bytes_le:
  assumes "assembly_ok asm"
  shows "sum_list (map (case_option 0 length) (asm_parts asm)) \<le> 65536"
proof -
  let ?ps = "asm_parts asm" and ?n = "unat (asm_total asm)"
  have shape: "assembly_shape asm" using assms by (simp add: assembly_ok_def)
  have "sum_list (map (case_option 0 length) ?ps) = (\<Sum>i<length ?ps. case_option 0 length (?ps ! i))"
    by (simp add: sum_list_sum_nth atLeast0LessThan)
  also have "\<dots> \<le> (\<Sum>i<length ?ps. chunk_len i ?n)"
    using shape by (intro sum_mono) (auto simp: assembly_shape_def split: option.splits)
  also have "\<dots> = ?n" using shape sum_chunk_len by (simp add: assembly_shape_def)
  also have "\<dots> \<le> 65536" using shape by (simp add: assembly_shape_def size_ok_def go_consts)
  finally show ?thesis .
qed

lemma buffered_bytes_ok:
  assumes "reassembler_ok r"
  shows "buffered_bytes r \<le> 256 * 65536"
proof -
  have "sum_list (map (\<lambda>(k, asm). sum_list (map (case_option 0 length) (asm_parts asm))) (sets r))
      \<le> sum_list (map (\<lambda>_. 65536) (sets r))"
    using assms assembly_bytes_le reassembler_okD gomap_in_set
    by (intro sum_list_mono) (fastforce simp: reassembler_ok_def)
  also have "\<dots> \<le> 256 * 65536" using assms by (simp add: reassembler_ok_def go_consts sum_list_triv)
  finally show ?thesis by (simp add: buffered_bytes_def)
qed

text \<open>
  C2: Resource bounds against hostile peers. Whatever datagrams arrive, from whatever
  sources and at whatever times, the reassembler never holds more than 256 incomplete
  assemblies, more than 32 of one source, or more than 16 MiB of fragment data.
\<close>

theorem reassembler_bounded:
  "let r = push_run Push \<lparr>sets = []\<rparr> es in
     length (sets r) \<le> 256 \<and> sourceAssemblyCountLocked r src \<le> 32 \<and>
     buffered_bytes r \<le> 16 * 1024 * 1024"
proof -
  have ok: "reassembler_ok (push_run Push \<lparr>sets = []\<rparr> es)" by (intro inv_intros)
  then show ?thesis
    using buffered_bytes_ok [OF ok] by (simp add: reassembler_ok_def sourceAssemblyCountLocked_def go_consts)
qed

lemma store_part_result:
  assumes shape: "assembly_shape asm" and h: "header_fits h"
    and meta: "asm_count asm = fh_count h" "asm_total asm = fh_total h"
    and res: "store_part r key asm h now = (r', res)"
  shows "res = Inr None \<or> res = Inl (ConflictingDuplicate (fh_index h)) \<or>
    (\<exists>out. res = Inr (Some out) \<and> length out = unat (fh_total h))"
proof (cases "asm_parts asm ! unat (fh_index h)")
  case None
  let ?a = "add_part asm (unat (fh_index h)) (fh_chunk h) now"
  have i: "unat (fh_index h) < length (asm_parts asm)"
    "length (fh_chunk h) = chunk_len (unat (fh_index h)) (unat (asm_total asm))"
    using shape h meta by (auto simp: assembly_shape_def header_fits_def fragment_fits_def)
  have shape': "assembly_shape ?a" by (rule shape_add_part [OF shape i(1) None i(2)])
  have le: "asm_received ?a \<le> unat (asm_count ?a)"
    using shape' by (simp add: assembly_shape_def) (metis count_some_le)
  show ?thesis
  proof (cases "Suc (asm_received asm) < unat (asm_count asm)")
    case False
    then have "asm_received ?a = unat (asm_count ?a)" using le by (simp add: add_part_def)
    from concat_shape_length [OF shape' this] show ?thesis
      using False res meta unfolding store_part_eq [OF shape h meta None] by (auto simp: add_part_def)
  qed (use res in \<open>simp add: store_part_eq [OF shape h meta None]\<close>)
qed (use res in \<open>auto simp: store_part_def Let_def split: if_splits\<close>)

lemma push_locked_result:
  assumes r: "reassembler_ok r" and h: "header_fits h" and res: "push_locked r src h now = (r', res)"
  shows "(\<forall>a b. res \<noteq> Inl (SizeMismatch a b)) \<and>
    (\<forall>out. res = Inr (Some out) \<longrightarrow> length out = unat (fh_total h))"
proof (cases "map_of (live_sets now (sets r)) (src, fh_id h)")
  case None
  then show ?thesis
    using res store_part_new [OF h, of "(src, fh_id h)" now "cleanupLocked r now"]
    by (auto simp: push_locked_def Let_def split: if_splits)
next
  case (Some asm)
  have "assembly_shape asm"
    using reassembler_okD [OF reassembler_ok_cleanup [OF r, of now]] Some by (auto simp: assembly_ok_def)
  from store_part_result [OF this h] Some res show ?thesis
    by (fastforce simp: push_locked_def Let_def split: if_splits)
qed

text \<open>
  The defensive exits of the reassembler are dead code. In every state the reassembler
  can reach, a completed assembly never ends in a size mismatch, and a packet put together
  from fragments has exactly the size its fragments announce.
\<close>

theorem completed_packet_size:
  assumes "Push (push_run Push \<lparr>sets = []\<rparr> es) src p now = (r', res)"
    and "parse_fragment p = Inr h" and "HasPrefix p masqueWGFragmentMagic"
  shows "(\<forall>a b. res \<noteq> Inl (SizeMismatch a b)) \<and>
    (\<forall>out. res = Inr (Some out) \<longrightarrow> length out = unat (fh_total h))"
proof -
  have ok: "reassembler_ok (push_run Push \<lparr>sets = []\<rparr> es)" by (intro inv_intros)
  have "header_fits h" using parse_fragment_fits(1) [OF assms(2)] by (simp add: header_fits_def)
  from push_locked_result [OF ok this] assms show ?thesis by (simp add: Push_def)
qed

theorem completed_packet_size_witness:
  "length (payload_chunk (replicate 1001 7) 0) = 1000 \<and>
   (\<exists>r' res. Push (push_run Push \<lparr>sets = []\<rparr> []) (0 :: nat)
       (wire_fragment 4 0 2 1001 (replicate 1000 7)) 0 = (r', res) \<and>
     (\<forall>a b. res \<noteq> Inl (SizeMismatch a b)))"
proof -
  have "fragment_fits 0 2 1001 (replicate 1000 (7 :: byte))"
    by (simp add: fragment_fits_def size_ok_def frag_count_def chunk_len_def go_consts)
  from parse_wire [OF this, of 4] show ?thesis
    using completed_packet_size [of "[]" "0 :: nat" "wire_fragment 4 0 2 1001 (replicate 1000 7)" 0]
    by (auto simp: payload_chunk_def go_consts) (metis surj_pair)
qed

text \<open>
  C3: Only progress keeps an assembly alive. After any datagram that reaches the critical
  section every remaining assembly was updated less than 30 seconds ago, and an assembly
  that survives a datagram is either unchanged, timestamp included, or has gained a part
  (or is a new one that took the place of an expired one). Replaying a fragment that was
  already received therefore cannot pin an incomplete assembly.
\<close>

theorem no_pinning_by_replay:
  assumes r: "reassembler_ok r" and p: "HasPrefix p masqueWGFragmentMagic" "parse_fragment p = Inr h"
    and after: "map_of (sets (fst (Push r src p now))) key = Some asm'"
  shows "now - asm_updated asm' < masqueWGFragmentTTL \<and>
    (map_of (sets r) key = Some asm' \<or>
     (key = (src, fh_id h) \<and> asm_updated asm' = now \<and>
      (case map_of (live_sets now (sets r)) key of
         None \<Rightarrow> asm_received asm' = 1
       | Some asm \<Rightarrow> asm_received asm' = Suc (asm_received asm))))"
proof -
  have h: "header_fits h" using parse_fragment_fits(1) [OF p(2)] by (simp add: header_fits_def)
  have live: "map_of (live_sets now (sets r)) k = Some a \<Longrightarrow>
      map_of (sets r) k = Some a \<and> now - asm_updated a < masqueWGFragmentTTL" for k a
    using r by (auto simp: map_of_live_sets split: option.splits if_splits)
  have TTL: "0 < masqueWGFragmentTTL" by (simp add: masqueWGFragmentTTL_def seconds_def)
  show ?thesis
  proof (cases "key = (src, fh_id h)")
    case False
    then show ?thesis using after p live by (simp add: Push_def push_locked_other)
  next
    case True
    show ?thesis
    proof (cases "map_of (live_sets now (sets r)) key")
      case None
      then have "asm' = add_part (new_assembly (fh_count h) (fh_total h) now) (unat (fh_index h)) (fh_chunk h) now"
        using after p True store_part_new [OF h, of key now "cleanupLocked r now"]
        by (auto simp: Push_def push_locked_def Let_def gomap_simps split: if_splits)
      with True None TTL show ?thesis by (simp add: add_part_def new_assembly_def)
    next
      case (Some asm)
      have shape: "assembly_shape asm" using live [OF Some] reassembler_okD [OF r] unfolding assembly_ok_def by blast
      have st: "map_of (sets (fst (store_part (cleanupLocked r now) key asm h now))) key = Some asm'"
        and meta: "asm_count asm = fh_count h" "asm_total asm = fh_total h"
        using after p True Some by (auto simp: Push_def push_locked_def Let_def gomap_simps split: if_splits)
      show ?thesis
      proof (cases "asm_parts asm ! unat (fh_index h)")
        case (Some old)
        then have "asm' = asm"
          using st \<open>map_of _ key = Some asm\<close>
          by (auto simp: store_part_def Let_def gomap_simps split: if_splits)
        then show ?thesis using live [OF \<open>map_of _ key = Some asm\<close>] by simp
      next
        case None
        have "asm' = add_part asm (unat (fh_index h)) (fh_chunk h) now"
          using st unfolding store_part_eq [OF shape h meta None]
          by (auto simp: gomap_simps split: if_splits)
        then show ?thesis using True Some TTL by (simp add: add_part_def)
      qed
    qed
  qed
qed

lemma first_fits: "fragment_fits 0 2 1001 (replicate 1000 (7 :: byte))"
  by (simp add: fragment_fits_def size_ok_def frag_count_def chunk_len_def go_consts)

lemma first_push:
  "fragment_fits i c n chunk \<Longrightarrow>
   map_of (sets (fst (Push \<lparr>sets = []\<rparr> src (wire_fragment fid i c n chunk) now))) (src, fid) =
     Some (add_part (new_assembly c n now) (unat i) chunk now)"
  using native.opens [OF reassembler_ok_empty, of i c n chunk now src fid]
  by (simp add: live_sets_def room_def go_consts)

theorem no_pinning_by_replay_witness:
  "\<exists>asm'. map_of (sets (fst (Push \<lparr>sets = []\<rparr> (0 :: nat)
       (wire_fragment 4 0 2 1001 (replicate 1000 7)) 5))) (0, 4) = Some asm' \<and>
     5 - asm_updated asm' < masqueWGFragmentTTL"
  using no_pinning_by_replay [OF reassembler_ok_empty HasPrefix_wire parse_wire [OF first_fits]
      first_push [OF first_fits, of "0 :: nat" 4 5]] first_push [OF first_fits, of "0 :: nat" 4 5]
  by auto

text \<open>
  Sources cannot disturb each other. Whatever a source sends, an assembly of another
  source that is still alive keeps every part and its timestamp.
\<close>

theorem sources_are_isolated:
  assumes "reassembler_ok r" "fst key \<noteq> src" "map_of (live_sets now (sets r)) key = Some asm"
  shows "map_of (sets (fst (Push r src p now))) key = Some asm"
proof (rule native.other_key [OF assms(1)])
  show "fragment_key src p \<noteq> Some key" using assms(2) by (auto simp: fragment_key_def)
  show "map_of (sets r) key = Some asm" "now - asm_updated asm < masqueWGFragmentTTL"
    using assms by (auto simp: map_of_live_sets split: option.splits if_splits)
qed

theorem sources_are_isolated_witness:
  "map_of (sets (fst (Push (fst (Push \<lparr>sets = []\<rparr> (0 :: nat)
      (wire_fragment 4 0 2 1001 (replicate 1000 7)) 5)) 1 [0x4D, 0x43, 0x46, 1] 6))) (0, 4) =
   Some (add_part (new_assembly 2 1001 5) 0 (replicate 1000 7) 5)"
proof (rule sources_are_isolated)
  show "reassembler_ok (fst (Push \<lparr>sets = []\<rparr> (0 :: nat) (wire_fragment 4 0 2 1001 (replicate 1000 7)) 5))"
    by (intro inv_intros)
  then show "map_of (live_sets 6 (sets (fst (Push \<lparr>sets = []\<rparr> (0 :: nat)
      (wire_fragment 4 0 2 1001 (replicate 1000 7)) 5)))) (0, 4) =
    Some (add_part (new_assembly 2 1001 5) 0 (replicate 1000 7) 5)"
    using first_push [OF first_fits, of "0 :: nat" 4 5]
    by (simp add: map_of_live_sets add_part_def masqueWGFragmentTTL_def seconds_def)
qed simp

text \<open>
  Packet identifiers never collide between consecutive sends as long as the clock does
  not step back between them and the 64-bit sum does not wrap.
\<close>

theorem sequential_fragment_ids_differ:
  assumes "nextMasqueWGFragmentID t seq = (id1, seq1)" "nextMasqueWGFragmentID t' seq1 = (id2, seq2)"
    and "0 \<le> t" "t \<le> t'" "t' + int (unat seq) + 2 < 2 ^ 64"
  shows "unat id1 < unat id2"
proof -
  have 1: "id1 = word_of_nat (nat t + unat seq + 1)" "id2 = word_of_nat (nat t' + unat seq + 2)"
    using assms(1-4) by (auto simp: nextMasqueWGFragmentID_def Let_def)
  have "int (nat t' + unat seq + 2) < int (2 ^ 64)" using assms by simp
  then have "nat t' + unat seq + 2 < 2 ^ 64" by (simp only: of_nat_less_iff)
  moreover have "nat t + unat seq + 1 < nat t' + unat seq + 2" using assms by simp
  ultimately show ?thesis unfolding 1 unat_of_nat by simp
qed

theorem sequential_fragment_ids_differ_witness:
  "unat (fst (nextMasqueWGFragmentID 5 0)) < unat (fst (nextMasqueWGFragmentID 5 (snd (nextMasqueWGFragmentID 5 0))))"
  using sequential_fragment_ids_differ [of 5 0 6 1 5 7 2] by (simp add: nextMasqueWGFragmentID_def)


end
