(* ===== verification/Bind.thy ===== *)
theory Bind
  imports Fragment Packet
begin

text \<open>
  \<^verbatim>\<open>masqueBind\<close> and \<^verbatim>\<open>masqueTun\<close> of \<^verbatim>\<open>masquecat_core.go\<close>: the
  network side and the packet side of the WireGuard device.

  Each \<^verbatim>\<open>Open\<close> makes a fresh pair of channels, which the receive function it returns and the
  calls of \<^verbatim>\<open>Inject\<close> under way keep after a \<^verbatim>\<open>Close\<close>; the pairs are numbered and kept in
  a store. A channel of packets is a queue of bounded length, and a \<^verbatim>\<open>select\<close> with two ready
  cases takes the one an argument says. The paths are a type of their own, and what
  \<^verbatim>\<open>ForwardPacket\<close> does on one is an argument of \<^verbatim>\<open>Send\<close>.
\<close>

section \<open>State\<close>

definition masqueCoreQueueSize :: nat where [go_consts]: "masqueCoreQueueSize = 512"
definition masqueCoreMTU :: nat where [go_consts]: "masqueCoreMTU = 1280"

record 'k masqueInboundPacket =
  in_src :: 'k
  in_payload :: bytes

record 'k bind_channels =
  ch_recv :: "'k masqueInboundPacket list"
  ch_closed :: bool

record ('k, 'f) masqueBind =
  b_local :: 'k
  b_current :: "nat option"
  b_channels :: "'k bind_channels list"
  b_paths :: "('k, 'f) gomap"
  b_fragments :: "'k masqueWGReassembler"

text \<open>
  \<^verbatim>\<open>b.open\<close>, \<^verbatim>\<open>b.recv\<close> and \<^verbatim>\<open>b.closed\<close> are set and cleared together;
  \<^verbatim>\<open>b_current\<close> is the number of the pair while they are set.
\<close>

definition newMasqueBind :: "'k \<Rightarrow> ('k, 'f) masqueBind" where
  "newMasqueBind k = \<lparr>b_local = k, b_current = None, b_channels = [], b_paths = [], b_fragments = \<lparr>sets = []\<rparr>\<rparr>"

datatype 'e bind_error =
  BindAlreadyOpen | BindClosed | NoReceiveBuffers | ReceiveBufferTooSmall nat nat
| WrongEndpointType | NoPathForPeer | BadPacketOffset int nat | BadFragment fragment_error | PathError 'e

section \<open>Opening and closing\<close>

definition bind_Open :: "('k, 'f) masqueBind \<Rightarrow> ('k, 'f) masqueBind \<times> ('e bind_error + nat)" where
  "bind_Open b =
     (if b_current b \<noteq> None then (b, Inl BindAlreadyOpen)
      else let gen = length (b_channels b) in
           (b\<lparr>b_fragments := Reset (b_fragments b),
              b_channels := b_channels b @ [\<lparr>ch_recv = [], ch_closed = False\<rparr>],
              b_current := Some gen\<rparr>, Inr gen))"

definition set_channels :: "nat \<Rightarrow> 'k bind_channels \<Rightarrow> ('k, 'f) masqueBind \<Rightarrow> ('k, 'f) masqueBind" where
  "set_channels gen ch b = b\<lparr>b_channels := (b_channels b)[gen := ch]\<rparr>"

definition bind_Close :: "('k, 'f) masqueBind \<Rightarrow> ('k, 'f) masqueBind" where
  "bind_Close b =
     (case b_current b of
        None \<Rightarrow> b
      | Some gen \<Rightarrow>
          (set_channels gen ((b_channels b ! gen)\<lparr>ch_closed := True\<rparr>) b)
            \<lparr>b_current := None, b_fragments := Reset (b_fragments b)\<rparr>)"

section \<open>Receiving\<close>

text \<open>
  The receive function of the pair \<open>gen\<close>, called with the three slices of a batch: \<open>None\<close> while it
  waits, otherwise the new state and the error or the slices it has written. \<open>pick\<close> is the choice
  of the \<^verbatim>\<open>select\<close> when both channels are ready.
\<close>

definition bind_receive ::
  "nat \<Rightarrow> bool \<Rightarrow> bytes list \<Rightarrow> nat list \<Rightarrow> 'k option list \<Rightarrow> ('k, 'f) masqueBind \<Rightarrow>
   (('k, 'f) masqueBind \<times> ('e bind_error + bytes list \<times> nat list \<times> 'k option list)) option" where
  "bind_receive gen pick packets sizes eps b =
     (let ch = b_channels b ! gen in
      if ch_closed ch \<and> (ch_recv ch = [] \<or> pick) then Some (b, Inl BindClosed)
      else case ch_recv ch of
             [] \<Rightarrow> None
           | p # rest \<Rightarrow>
               let b' = set_channels gen (ch\<lparr>ch_recv := rest\<rparr>) b in
               Some (b',
                 if packets = [] \<or> sizes = [] \<or> eps = [] then Inl NoReceiveBuffers
                 else if length (in_payload p) > length (hd packets)
                 then Inl (ReceiveBufferTooSmall (length (hd packets)) (length (in_payload p)))
                 else Inr ((in_payload p @ drop (length (in_payload p)) (hd packets)) # tl packets,
                           length (in_payload p) # tl sizes, Some (in_src p) # tl eps)))"

section \<open>Sending\<close>

text \<open>
  \<open>fwd\<close> is \<^verbatim>\<open>ForwardPacket\<close> of the path, threading a state; \<open>clock i\<close> is the reading of the
  clock when the \<open>i\<close>th buffer is fragmented and \<open>seq\<close> the process's fragment counter.
\<close>

fun forward_all ::
  "('s \<Rightarrow> bytes \<Rightarrow> 's \<times> 'e option) \<Rightarrow> bytes list \<Rightarrow> 's \<Rightarrow> 's \<times> 'e bind_error option" where
  "forward_all send [] s = (s, None)"
| "forward_all send (p # ps) s =
     (case send s p of (s', Some e) \<Rightarrow> (s', Some (PathError e)) | (s', None) \<Rightarrow> forward_all send ps s')"

fun send_loop ::
  "('s \<Rightarrow> bytes \<Rightarrow> 's \<times> 'e option) \<Rightarrow> (nat \<Rightarrow> time) \<Rightarrow> int \<Rightarrow> nat \<Rightarrow> bytes list \<Rightarrow> u64 \<Rightarrow> 's \<Rightarrow>
   u64 \<times> 's \<times> 'e bind_error option" where
  "send_loop send clock offset i [] seq s = (seq, s, None)"
| "send_loop send clock offset i (buf # bufs) seq s =
     (if offset < 0 \<or> offset > int (length buf) then (seq, s, Some (BadPacketOffset offset (length buf)))
      else let payload = drop (nat offset) buf in
           case fragmentMasqueWireGuardPacket (clock i) seq payload of
             (Inl e, seq') \<Rightarrow> (seq', s, Some (BadFragment e))
           | (Inr fragments, seq') \<Rightarrow>
               (case forward_all send (if fragments = [] then [payload] else fragments) s of
                  (s', Some e) \<Rightarrow> (seq', s', Some e)
                | (s', None) \<Rightarrow> send_loop send clock offset (Suc i) bufs seq' s'))"

text \<open>\<open>ep\<close> is \<open>None\<close> for an endpoint of another type or a nil one.\<close>

definition bind_Send ::
  "'k node_key_api \<Rightarrow> ('f \<Rightarrow> 'k \<Rightarrow> 'k \<Rightarrow> 's \<Rightarrow> bytes \<Rightarrow> 's \<times> 'e option) \<Rightarrow> (nat \<Rightarrow> time) \<Rightarrow> bytes list \<Rightarrow>
   'k option \<Rightarrow> int \<Rightarrow> ('k, 'f) masqueBind \<Rightarrow> u64 \<Rightarrow> 's \<Rightarrow> u64 \<times> 's \<times> 'e bind_error option" where
  "bind_Send K fwd clock bufs ep offset b seq s =
     (case ep of
        None \<Rightarrow> (seq, s, Some WrongEndpointType)
      | Some peer \<Rightarrow>
          if IsZero K peer then (seq, s, Some WrongEndpointType)
          else case map_of (b_paths b) peer of
                 None \<Rightarrow> (seq, s, Some NoPathForPeer)
               | Some path \<Rightarrow> send_loop (fwd path (b_local b) peer) clock offset 0 bufs seq s)"

section \<open>Endpoints\<close>

definition DstToString :: "'k node_key_api \<Rightarrow> 'k \<Rightarrow> string" where
  "DstToString K peer = TrimPrefix (KeyString K peer) nodePublicTextPrefix"

definition ParseEndpoint :: "'k node_key_api \<Rightarrow> string \<Rightarrow> 'k option" where
  "ParseEndpoint K s =
     (let s = TrimPrefix s nodePublicTextPrefix in
      if length s \<noteq> NodePublicRawLen * 2 then None
      else if hex_decode s = None then None
      else UnmarshalText K (nodePublicTextPrefix @ s))"

section \<open>Paths\<close>

definition bind_SetPath :: "'k \<Rightarrow> 'f option \<Rightarrow> ('k, 'f) masqueBind \<Rightarrow> ('k, 'f) masqueBind" where
  "bind_SetPath peer path b =
     (case path of
        None \<Rightarrow> b\<lparr>b_paths := AList.delete peer (b_paths b)\<rparr>
      | Some f \<Rightarrow> b\<lparr>b_paths := AList.update peer f (b_paths b)\<rparr>)"

text \<open>A missing entry is nil, which equals a nil \<open>path\<close>.\<close>

definition bind_RemovePath :: "'k \<Rightarrow> 'f option \<Rightarrow> ('k, 'f) masqueBind \<Rightarrow> ('k, 'f) masqueBind \<times> bool" where
  "bind_RemovePath peer path b =
     (if map_of (b_paths b) peer = path then (b\<lparr>b_paths := AList.delete peer (b_paths b)\<rparr>, True)
      else (b, False))"

section \<open>Injecting\<close>

text \<open>
  \<^verbatim>\<open>Inject\<close> reads the channels under the lock, pushes the datagram into the reassembler, and then
  waits for room in the queue or for the channels to be closed. The three parts are steps of
  their own, since a \<^verbatim>\<open>Close\<close> may come between them.
\<close>

definition inject_push ::
  "time \<Rightarrow> 'k \<Rightarrow> bytes \<Rightarrow> ('k, 'f) masqueBind \<Rightarrow> ('k, 'f) masqueBind \<times> 'k masqueInboundPacket option" where
  "inject_push now src payload b =
     (case Push (b_fragments b) src payload now of
        (r, Inr (Some out)) \<Rightarrow> (b\<lparr>b_fragments := r\<rparr>, Some \<lparr>in_src = src, in_payload = out\<rparr>)
      | (r, _) \<Rightarrow> (b\<lparr>b_fragments := r\<rparr>, None))"

datatype inject_result = Injected | InjectDropped | InjectClosed | InjectWaits

definition inject_select ::
  "nat \<Rightarrow> bool \<Rightarrow> 'k masqueInboundPacket \<Rightarrow> ('k, 'f) masqueBind \<Rightarrow> ('k, 'f) masqueBind \<times> inject_result" where
  "inject_select gen pick pkt b =
     (let ch = b_channels b ! gen; ready = length (ch_recv ch) < masqueCoreQueueSize in
      if ch_closed ch \<and> (\<not> ready \<or> pick) then (b, InjectClosed)
      else if ready then (set_channels gen (ch\<lparr>ch_recv := ch_recv ch @ [pkt]\<rparr>) b, Injected)
      else (b, InjectWaits))"

definition bind_Inject ::
  "time \<Rightarrow> bool \<Rightarrow> 'k \<Rightarrow> bytes \<Rightarrow> ('k, 'f) masqueBind \<Rightarrow> ('k, 'f) masqueBind \<times> inject_result" where
  "bind_Inject now pick src payload b =
     (case b_current b of
        None \<Rightarrow> (b, InjectClosed)
      | Some gen \<Rightarrow>
          (case inject_push now src payload b of
             (b', None) \<Rightarrow> (b', InjectDropped)
           | (b', Some pkt) \<Rightarrow> inject_select gen pick pkt b'))"

section \<open>The packet side\<close>

datatype tun_error = TunClosed | TunNoBuffers | TunBufferTooSmall nat int | BadWriteOffset int nat

text \<open>\<open>pkt\<close> is what \<^verbatim>\<open>link.ReadContext\<close> returns, from its network header on.\<close>

definition tun_Read ::
  "bytes option \<Rightarrow> bytes list \<Rightarrow> nat list \<Rightarrow> int \<Rightarrow> tun_error + bytes list \<times> nat list" where
  "tun_Read pkt bufs sizes offset =
     (case pkt of
        None \<Rightarrow> Inl TunClosed
      | Some raw \<Rightarrow>
          if bufs = [] \<or> sizes = [] then Inl TunNoBuffers
          else if offset < 0 \<or> offset + int (length raw) > int (length (hd bufs))
          then Inl (TunBufferTooSmall (length raw) offset)
          else Inr ((take (nat offset) (hd bufs) @ raw @ drop (nat offset + length raw) (hd bufs)) # tl bufs,
                    length raw # tl sizes))"

datatype ip_proto = IPv4 | IPv6

definition packet_proto :: "bytes \<Rightarrow> ip_proto option" where
  "packet_proto raw =
     (case raw of
        [] \<Rightarrow> None
      | b # _ \<Rightarrow> (let v = drop_bit 4 b in if v = 4 then Some IPv4 else if v = 6 then Some IPv6 else None))"

text \<open>The packets \<^verbatim>\<open>Write\<close> injects, in order, the count it returns and the error.\<close>

fun tun_Write :: "int \<Rightarrow> bytes list \<Rightarrow> (ip_proto \<times> bytes) list \<times> nat \<times> tun_error option" where
  "tun_Write offset [] = ([], 0, None)"
| "tun_Write offset (buf # bufs) =
     (if offset < 0 \<or> offset \<ge> int (length buf) then ([], 0, Some (BadWriteOffset offset (length buf)))
      else case packet_proto (drop (nat offset) buf) of
             None \<Rightarrow> tun_Write offset bufs
           | Some proto \<Rightarrow>
               (case tun_Write offset bufs of
                  (out, n, e) \<Rightarrow> ((proto, drop (nat offset) buf) # out, Suc n, e)))"

section \<open>Endpoints and keys\<close>

lemma hex_no_prefix: "TrimPrefix (hex_encode bs) nodePublicTextPrefix = hex_encode bs"
proof -
  have "\<not> HasPrefix (hex_encode bs) nodePublicTextPrefix"
  proof
    assume "HasPrefix (hex_encode bs) nodePublicTextPrefix"
    then obtain t where "hex_encode bs = ''nodekey:'' @ t" by (auto simp: HasPrefix_iff nodePublicTextPrefix_def)
    then have "CHR ''n'' \<in> set (hex_encode bs)" by simp
    from set_hex_encode [OF this] show False by (simp add: hex_value_def)
  qed
  then show ?thesis by (simp add: TrimPrefix_def CutPrefix_def)
qed

lemma parse_endpoint_hex:
  assumes "key_laws K"
  shows "ParseEndpoint K (hex_encode (AppendTo K k)) = Some k"
  using key_lawsD(1,4,5) [OF assms, of k]
  by (simp add: ParseEndpoint_def Let_def hex_no_prefix NodePublicRawLen_def del: append.simps)

lemma parse_endpoint_dst:
  assumes "key_laws K"
  shows "ParseEndpoint K (DstToString K k) = Some k" "ParseEndpoint K (KeyString K k) = Some k"
proof -
  have "DstToString K k = hex_encode (AppendTo K k)" using key_lawsD(4) [OF assms, of k] by (simp add: DstToString_def)
  then show "ParseEndpoint K (DstToString K k) = Some k" using parse_endpoint_hex [OF assms] by simp
  have "ParseEndpoint K (KeyString K k) = ParseEndpoint K (hex_encode (AppendTo K k))"
    using key_lawsD(4) [OF assms, of k] by (simp add: ParseEndpoint_def hex_no_prefix)
  then show "ParseEndpoint K (KeyString K k) = Some k" using parse_endpoint_hex [OF assms] by simp
qed

section \<open>Delivery\<close>

text \<open>Injecting a sequence of datagrams of one source, the \<open>i\<close>th at time \<open>ts i\<close>.\<close>

fun inject_all :: "'k \<Rightarrow> (nat \<Rightarrow> time) \<Rightarrow> nat \<Rightarrow> bytes list \<Rightarrow> ('k, 'f) masqueBind \<Rightarrow> ('k, 'f) masqueBind" where
  "inject_all src ts i [] b = b"
| "inject_all src ts i (p # ps) b = inject_all src ts (Suc i) ps (fst (bind_Inject (ts i) False src p b))"

lemma inject_all_append:
  "inject_all src ts i (ps @ qs) b = inject_all src ts (i + length ps) qs (inject_all src ts i ps b)"
  by (induction ps arbitrary: i b) simp_all

lemma inject_whole:
  assumes "b_current b = Some gen" "length (ch_recv (b_channels b ! gen)) < 512" "\<not> ch_closed (b_channels b ! gen)"
    "Push (b_fragments b) src p now = (r, Inr (Some out))"
  shows "fst (bind_Inject now False src p b) =
    set_channels gen ((b_channels b ! gen)\<lparr>ch_recv := ch_recv (b_channels b ! gen) @ [\<lparr>in_src = src, in_payload = out\<rparr>]\<rparr>)
      (b\<lparr>b_fragments := r\<rparr>)"
  using assms by (simp add: bind_Inject_def inject_push_def inject_select_def Let_def go_consts)

lemma inject_part:
  assumes "b_current b = Some gen" "Push (b_fragments b) src p now = (r, Inr None)"
  shows "fst (bind_Inject now False src p b) = b\<lparr>b_fragments := r\<rparr>"
  using assms by (simp add: bind_Inject_def inject_push_def)

lemma inject_parts:
  assumes "b_current b = Some gen"
    "\<And>i. i < k \<Longrightarrow> snd (Push (push_run Push (b_fragments b) (map (\<lambda>i. (src, ds ! i, ts (j + i))) [0..<i])) src (ds ! i) (ts (j + i))) = Inr None"
    "k \<le> length ds"
  shows "inject_all src ts j (take k ds) b =
    b\<lparr>b_fragments := push_run Push (b_fragments b) (map (\<lambda>i. (src, ds ! i, ts (j + i))) [0..<k])\<rparr>"
  using assms(2,3)
proof (induction k)
  case (Suc k)
  let ?r = "push_run Push (b_fragments b) (map (\<lambda>i. (src, ds ! i, ts (j + i))) [0..<k])"
  obtain r' where push: "Push ?r src (ds ! k) (ts (j + k)) = (r', Inr None)"
    using Suc.prems(1) [of k, OF lessI] by (cases "Push ?r src (ds ! k) (ts (j + k))") simp
  then have step: "fst (bind_Inject (ts (j + k)) False src (ds ! k) (b\<lparr>b_fragments := ?r\<rparr>)) = b\<lparr>b_fragments := r'\<rparr>"
    using inject_part [of "b\<lparr>b_fragments := ?r\<rparr>"] assms(1) by simp
  have IH: "inject_all src ts j (take k ds) b = b\<lparr>b_fragments := ?r\<rparr>"
    by (rule Suc.IH) (use Suc.prems in auto)
  have len: "length (take k ds) = k" "k < length ds" using Suc.prems(2) by simp_all
  have "inject_all src ts j (take (Suc k) ds) b = b\<lparr>b_fragments := r'\<rparr>"
    by (simp add: take_Suc_conv_app_nth [OF len(2)] inject_all_append IH len step)
  moreover have "push_run Push (b_fragments b) (map (\<lambda>i. (src, ds ! i, ts (j + i))) [0..<Suc k]) = r'"
    using push by (simp add: push_run_snoc)
  ultimately show ?case by simp
qed simp

lemma store_part_keys: "fst ` set (sets (fst (store_part r key asm h now))) \<subseteq> insert key (fst ` set (sets r))"
  using set_delete [of key "sets r"]
  by (auto simp: store_part_def Let_def dom_update split: option.splits)

lemma cleanup_keys: "fst ` set (sets (cleanupLocked r now)) \<subseteq> fst ` set (sets r)"
  by (auto simp: cleanupLocked_def)

lemma push_locked_keys:
  "fst ` set (sets (fst (push_locked r src h now))) \<subseteq> insert (src, fh_id h) (fst ` set (sets r))"
proof -
  let ?r = "cleanupLocked r now" and ?key = "(src, fh_id h)" and ?asm = "new_assembly (fh_count h) (fh_total h) now"
  let ?r' = "?r\<lparr>sets := AList.update ?key ?asm (sets ?r)\<rparr>"
  have store: "fst ` set (sets (fst (store_part ?r ?key asm h now))) \<subseteq> insert ?key (fst ` set (sets r))" for asm
    by (rule order_trans [OF store_part_keys insert_mono [OF cleanup_keys]])
  have dom: "fst ` set (sets ?r') = insert ?key (fst ` set (sets ?r))" by (simp add: dom_update)
  have fresh: "fst ` set (sets (fst (store_part ?r' ?key ?asm h now))) \<subseteq> insert ?key (fst ` set (sets r))"
    by (rule order_trans [OF store_part_keys])
       (simp only: dom insert_absorb2 insert_mono [OF cleanup_keys])
  have keep: "fst ` set (sets ?r) \<subseteq> insert ?key (fst ` set (sets r))"
    "fst ` set (sets (?r\<lparr>sets := AList.delete ?key (sets ?r)\<rparr>)) \<subseteq> insert ?key (fst ` set (sets r))"
    using cleanup_keys [of r now] by (auto simp: set_delete)
  show ?thesis
  proof (cases "map_of (sets ?r) ?key")
    case None
    then have "fst (push_locked r src h now) = ?r \<or> fst (push_locked r src h now) = fst (store_part ?r' ?key ?asm h now)"
      by (simp add: push_locked_def Let_def)
    then show ?thesis by (elim disjE) (simp_all only: keep fresh)
  next
    case (Some asm)
    then have "fst (push_locked r src h now) = ?r\<lparr>sets := AList.delete ?key (sets ?r)\<rparr> \<or>
        fst (push_locked r src h now) = fst (store_part ?r ?key asm h now)"
      by (simp add: push_locked_def Let_def)
    then show ?thesis by (elim disjE) (simp_all only: keep store)
  qed
qed

lemma push_keys:
  "fst ` set (sets (fst (Push r src p now))) \<subseteq> fst ` set (sets r) \<union> set_option (fragment_key src p)"
proof (cases "HasPrefix p masqueWGFragmentMagic")
  case True
  show ?thesis
  proof (cases "parse_fragment p")
    case (Inr h)
    then have "fragment_key src p = Some (src, fh_id h)"
      using True by (auto simp: parse_fragment_def fragment_key_def Let_def go_consts split: if_splits)
    then show ?thesis using True Inr push_locked_keys [of r src h now] by (auto simp: Push_def)
  qed (use True in \<open>simp add: Push_def\<close>)
qed (simp add: Push_def)

lemma push_run_keys:
  assumes "\<forall>(s, p, t)\<in>set es. fragment_key s p = Some key"
  shows "fst ` set (sets (push_run Push r es)) \<subseteq> insert key (fst ` set (sets r))"
  using assms
proof (induction es arbitrary: r)
  case (Cons e es)
  obtain s p t where e: "e = (s, p, t)" by (cases e)
  have "fst ` set (sets (push_run Push (fst (Push r s p t)) es)) \<subseteq> insert key (fst ` set (sets (fst (Push r s p t))))"
    by (rule Cons.IH) (use Cons.prems in simp)
  moreover have "fst ` set (sets (fst (Push r s p t))) \<subseteq> insert key (fst ` set (sets r))"
    using push_keys [of r s p t] Cons.prems e by auto
  ultimately show ?case using e by auto
qed auto

text \<open>The datagrams of one packet, injected in order into an empty reassembler, put exactly the packet
  into the queue and leave the reassembler empty.\<close>

definition enqueue :: "nat \<Rightarrow> 'k masqueInboundPacket list \<Rightarrow> ('k, 'f) masqueBind \<Rightarrow> ('k, 'f) masqueBind" where
  "enqueue gen ps b = set_channels gen ((b_channels b ! gen)\<lparr>ch_recv := ch_recv (b_channels b ! gen) @ ps\<rparr>) b"

definition receiving :: "nat \<Rightarrow> nat \<Rightarrow> ('k, 'f) masqueBind \<Rightarrow> bool" where
  "receiving gen n b \<longleftrightarrow> b_current b = Some gen \<and> gen < length (b_channels b) \<and> \<not> ch_closed (b_channels b ! gen) \<and>
     length (ch_recv (b_channels b ! gen)) + n \<le> 512 \<and> b_fragments b = \<lparr>sets = []\<rparr>"

lemma enqueue_Nil [simp]: "enqueue gen [] b = b"
  by (simp add: enqueue_def set_channels_def)

lemma enqueue_enqueue: "gen < length (b_channels b) \<Longrightarrow> enqueue gen qs (enqueue gen ps b) = enqueue gen (ps @ qs) b"
  by (simp add: enqueue_def set_channels_def)

lemma receiving_enqueue: "receiving gen (length ps + n) b \<Longrightarrow> receiving gen n (enqueue gen ps b)"
  by (simp add: receiving_def enqueue_def set_channels_def)

lemma inject_fragments:
  assumes "receiving gen 1 b" "size_ok (length payload)"
    and ts: "\<And>i. ts j \<le> ts (j + i) \<and> ts (j + i) < ts j + masqueWGFragmentTTL"
  shows "inject_all src ts j (wire_fragments fid payload) b = enqueue gen [\<lparr>in_src = src, in_payload = payload\<rparr>] b"
proof -
  let ?ds = "wire_fragments fid payload" and ?ts = "\<lambda>i. ts (j + i)"
  obtain k where k: "frag_count (length payload) = Suc k"
    using frag_count_range [OF assms(2)] by (cases "frag_count (length payload)") auto
  let ?es = "\<lambda>i. map (\<lambda>i. (src, ?ds ! i, ts (j + i))) [0..<i]"
  have r: "b_fragments b = \<lparr>sets = []\<rparr>" "reassembler_ok (b_fragments b)"
    using assms(1) by (auto simp: receiving_def reassembler_ok_empty)
  have new: "map_of (live_sets (?ts 0) (sets (b_fragments b))) (src, fid) = None" "room (?ts 0) src (sets (b_fragments b))"
    by (simp_all add: r live_sets_def room_def go_consts)
  have ts': "\<And>i. ?ts 0 \<le> ?ts i \<and> ?ts i < ?ts 0 + masqueWGFragmentTTL" using ts by simp
  have silent: "snd (Push (push_run Push (b_fragments b) (?es i)) src (?ds ! i) (ts (j + i))) = Inr None" if "i < k" for i
    using native.in_order_silent [where ts = ?ts, OF assms(2) r(2) new ts', of i] that k by (simp add: native.in_order_def)
  have parts: "inject_all src ts j (take k ?ds) b = b\<lparr>b_fragments := push_run Push (b_fragments b) (?es k)\<rparr>"
    by (rule inject_parts) (use assms(1) silent k in \<open>simp_all add: receiving_def\<close>)
  note last = native.in_order_delivers [where ts = ?ts, OF assms(2) r(2) new ts' k, unfolded native.in_order_def]
  obtain r' where push: "Push (push_run Push (b_fragments b) (?es k)) src (?ds ! k) (ts (j + k)) = (r', Inr (Some payload))"
    using last(1) by (cases "Push (push_run Push (b_fragments b) (?es k)) src (?ds ! k) (ts (j + k))") simp
  have kds: "fragment_key src (?ds ! i) = Some (src, fid)" if "i \<le> k" for i
    using that k by (simp add: wire_fragments_nth)
  have before: "fst ` set (sets (push_run Push (b_fragments b) (?es k))) \<subseteq> {(src, fid)}"
    using push_run_keys [of "?es k" "(src, fid)" "b_fragments b"] kds by (auto simp: r)
  have "fst ` set (sets r') \<subseteq> fst ` set (sets (push_run Push (b_fragments b) (?es k))) \<union> {(src, fid)}"
    using push_keys [of "push_run Push (b_fragments b) (?es k)" src "?ds ! k" "ts (j + k)"]
    by (simp only: push kds [OF order_refl] fst_conv option.set)
  then have "fst ` set (sets r') \<subseteq> {(src, fid)}"
    by (rule order_trans) (use before in \<open>simp only: Un_subset_iff order_refl simp_thms\<close>)
  moreover have "map_of (sets r') (src, fid) = None" using last(2) push by simp
  ultimately have "sets r' = []" by (cases "sets r'") (auto simp: map_of_eq_None_iff)
  then have r': "r' = \<lparr>sets = []\<rparr>" by simp
  have "take (Suc k) ?ds = take k ?ds @ [?ds ! k]" by (rule take_Suc_conv_app_nth) (simp add: k)
  then have split: "?ds = take k ?ds @ [?ds ! k]" by (simp add: k)
  have "inject_all src ts j ?ds b = inject_all src ts j (take k ?ds @ [?ds ! k]) b" by (simp only: split [symmetric])
  also have "\<dots> = inject_all src ts (j + k) [?ds ! k] (b\<lparr>b_fragments := push_run Push (b_fragments b) (?es k)\<rparr>)"
    by (simp add: inject_all_append parts k)
  also have "\<dots> = enqueue gen [\<lparr>in_src = src, in_payload = payload\<rparr>] b"
    using inject_whole [of "b\<lparr>b_fragments := push_run Push (b_fragments b) (?es k)\<rparr>" gen src "?ds ! k" "ts (j + k)" r' payload]
      assms(1) push by (simp add: receiving_def enqueue_def set_channels_def r')
  finally show ?thesis .
qed

definition not_fragment :: "bytes \<Rightarrow> bool" where
  "not_fragment payload \<longleftrightarrow> (length payload \<le> 1000 \<longrightarrow> \<not> HasPrefix payload masqueWGFragmentMagic)"

lemma inject_packet:
  assumes "receiving gen 1 b" "fragmentMasqueWireGuardPacket now seq payload = (Inr fs, seq')" "not_fragment payload"
    and ts: "\<And>i. ts j \<le> ts (j + i) \<and> ts (j + i) < ts j + masqueWGFragmentTTL"
  shows "inject_all src ts j (if fs = [] then [payload] else fs) b = enqueue gen [\<lparr>in_src = src, in_payload = payload\<rparr>] b"
proof (cases "length payload \<le> 1000")
  case True
  then have "fs = []" using assms(2) by (auto simp: fragmentMasqueWireGuardPacket_def go_consts split: if_splits)
  moreover have "Push (b_fragments b) src payload (ts j) = (b_fragments b, Inr (Some payload))"
    using True assms(3) by (simp add: Push_def not_fragment_def)
  moreover have "b\<lparr>b_fragments := \<lparr>sets = []\<rparr>\<rparr> = b" using assms(1) by (cases b) (simp add: receiving_def)
  ultimately show ?thesis
    using assms(1) inject_whole [of b gen src payload "ts j" "b_fragments b" payload]
    by (simp add: receiving_def enqueue_def)
next
  case False
  then have ok: "size_ok (length payload)"
    using assms(2) by (auto simp: fragmentMasqueWireGuardPacket_def size_ok_def go_consts split: if_splits)
  obtain fid where fs: "fs = wire_fragments fid payload"
    using fragment_packet_eq [OF ok, of now seq] assms(2) by auto
  have "fs \<noteq> []" using frag_count_range [OF ok] fs by (metis length_wire_fragments list.size(3) not_numeral_le_zero)
  then show ?thesis using inject_fragments [OF assms(1) ok ts] fs by simp
qed

text \<open>A path that records what it is given.\<close>

definition record_send :: "'k \<Rightarrow> 'k \<Rightarrow> ('k \<times> 'k \<times> bytes) list \<Rightarrow> bytes \<Rightarrow> ('k \<times> 'k \<times> bytes) list \<times> unit option" where
  "record_send l p s d = (s @ [(l, p, d)], None)"

lemma forward_all_record:
  "forward_all (record_send l p) ds s = (s @ map (\<lambda>d. (l, p, d)) ds, None)"
  by (induction ds arbitrary: s) (simp_all add: record_send_def)

lemma send_then_inject:
  fixes src :: 'k
  assumes "send_loop (record_send l p) clock off i bufs seq s = (seq', s', None)"
    "\<forall>buf\<in>set bufs. not_fragment (drop (nat off) buf)" "mono ts" "\<And>i j. ts i < ts j + masqueWGFragmentTTL"
  shows "\<exists>ds. s' = s @ map (\<lambda>d. (l, p, d)) ds \<and> (\<forall>(b :: ('k, 'f) masqueBind) j. receiving gen (length bufs) b \<longrightarrow>
     inject_all src ts j ds b = enqueue gen (map (\<lambda>buf. \<lparr>in_src = src, in_payload = drop (nat off) buf\<rparr>) bufs) b)"
  using assms(1,2)
proof (induction bufs arbitrary: i seq s)
  case Nil
  then show ?case by (auto intro!: exI [of _ "[]"])
next
  case (Cons buf bufs)
  let ?payload = "drop (nat off) buf"
  from Cons.prems(1) obtain fs seq1 where f: "fragmentMasqueWireGuardPacket (clock i) seq ?payload = (Inr fs, seq1)"
    by (auto simp: Let_def split: if_splits sum.splits prod.splits)
  let ?ds = "if fs = [] then [?payload] else fs"
  have "send_loop (record_send l p) clock off (Suc i) bufs seq1 (s @ map (\<lambda>d. (l, p, d)) ?ds) = (seq', s', None)"
    using Cons.prems(1) f by (simp add: Let_def forward_all_record split: if_splits)
  then have "\<exists>ds. s' = (s @ map (\<lambda>d. (l, p, d)) ?ds) @ map (\<lambda>d. (l, p, d)) ds \<and>
     (\<forall>(b :: ('k, 'f) masqueBind) j. receiving gen (length bufs) b \<longrightarrow>
       inject_all src ts j ds b = enqueue gen (map (\<lambda>buf. \<lparr>in_src = src, in_payload = drop (nat off) buf\<rparr>) bufs) b)"
    by (rule Cons.IH) (use Cons.prems(2) in simp)
  then obtain ds where ds: "s' = (s @ map (\<lambda>d. (l, p, d)) ?ds) @ map (\<lambda>d. (l, p, d)) ds"
    "\<forall>(b :: ('k, 'f) masqueBind) j. receiving gen (length bufs) b \<longrightarrow>
     inject_all src ts j ds b = enqueue gen (map (\<lambda>buf. \<lparr>in_src = src, in_payload = drop (nat off) buf\<rparr>) bufs) b"
    by (elim exE conjE)
  have "inject_all src ts j (?ds @ ds) b = enqueue gen (map (\<lambda>buf. \<lparr>in_src = src, in_payload = drop (nat off) buf\<rparr>) (buf # bufs)) b"
    if r: "receiving gen (length (buf # bufs)) b" for b :: "('k, 'f) masqueBind" and j
  proof -
    let ?pkt = "\<lparr>in_src = src, in_payload = ?payload\<rparr>"
    have "inject_all src ts j ?ds b = enqueue gen [?pkt] b"
      by (rule inject_packet [OF _ f])
         (use r Cons.prems(2) assms(3,4) in \<open>auto simp: receiving_def mono_def\<close>)
    moreover have "receiving gen (length bufs) (enqueue gen [?pkt] b)"
      by (rule receiving_enqueue) (use r in simp)
    ultimately show ?thesis
      using ds(2) r by (simp add: inject_all_append enqueue_enqueue receiving_def)
  qed
  with ds(1) show ?case by (intro exI [of _ "?ds @ ds"]) simp
qed

section \<open>Properties\<close>



end
