(* ===== verification/Fragment_Browser.thy ===== *)
theory Fragment_Browser
  imports Fragment Packet
begin

text \<open>
  The datagram codec and the fragmentation layer of the browser client
  (\<^verbatim>\<open>masquecat_browser_js.go\<close>), which repeats the native code with small differences. The
  browser's reassembler checks the length of a chunk only after it has found or opened the assembly, which
  it drops when the length is wrong, while the native one rejects the fragment first.
\<close>

section \<open>Model\<close>

definition browserFragmentHeaderLen :: nat where [go_consts]: "browserFragmentHeaderLen = 20"
definition browserFragmentMaxSize :: nat where [go_consts]: "browserFragmentMaxSize = 64 * 1024"
definition browserFragmentChunkSize :: nat where [go_consts]: "browserFragmentChunkSize = 1000"
definition browserFragmentTTL :: time where "browserFragmentTTL = seconds 30"
definition browserFragmentMaxIncompleteSets :: nat where [go_consts]: "browserFragmentMaxIncompleteSets = 256"
definition browserFragmentMaxIncompletePerSource :: nat where [go_consts]: "browserFragmentMaxIncompletePerSource = 32"
definition browserFragmentMagic :: bytes where "browserFragmentMagic = [0x4D, 0x43, 0x46, 1]"
definition browserMasquePacketVersion :: byte where [go_consts]: "browserMasquePacketVersion = 1"

subsection \<open>Datagrams\<close>

definition encodeBrowserMasquePacket :: "'k node_key_api \<Rightarrow> 'k \<Rightarrow> 'k \<Rightarrow> bytes \<Rightarrow> bytes" where
  "encodeBrowserMasquePacket K src dst payload =
     [browserMasquePacketVersion] @ AppendTo K src @ AppendTo K dst @ payload"

definition decodeBrowserMasquePacket :: "'k node_key_api \<Rightarrow> bytes \<Rightarrow> packet_error + 'k masquePacket" where
  "decodeBrowserMasquePacket K b =
     (let headerLen = 1 + 2 * NodePublicRawLen in
      if length b < headerLen then Inl (ShortDatagram (length b))
      else if b ! 0 \<noteq> browserMasquePacketVersion then Inl (UnsupportedVersion (b ! 0))
      else Inr \<lparr>p_src = FromRaw32 K (slice 1 (1 + NodePublicRawLen) b),
                p_dst = FromRaw32 K (slice (1 + NodePublicRawLen) headerLen b),
                p_payload = drop headerLen b\<rparr>)"

subsection \<open>Sending\<close>

definition nextBrowserFragmentID :: "time \<Rightarrow> u64 \<Rightarrow> u64 \<times> u64" where
  "nextBrowserFragmentID nanos seq = (let seq' = seq + 1 in (word_of_int nanos + seq', seq'))"

function browser_fragment_loop :: "bytes \<Rightarrow> u64 \<Rightarrow> nat \<Rightarrow> nat \<Rightarrow> nat \<Rightarrow> bytes list" where
  "browser_fragment_loop payload fid count i off =
     (if off < length payload then
        let end = off + browserFragmentChunkSize;
            end = (if end > length payload then length payload else end)
        in (browserFragmentMagic @ PutUint64 fid @ PutUint16 (word_of_nat i) @ PutUint16 (word_of_nat count) @
            PutUint32 (word_of_nat (length payload)) @ slice off end payload)
           # browser_fragment_loop payload fid count (i + 1) (off + browserFragmentChunkSize)
      else [])"
  by pat_completeness auto
termination
  by (relation "measure (\<lambda>(payload, fid, count, i, off). length payload - off)") (auto simp: go_consts)

declare browser_fragment_loop.simps [simp del]

definition fragmentBrowserWireGuardPacket :: "time \<Rightarrow> u64 \<Rightarrow> bytes \<Rightarrow> (fragment_error + bytes list) \<times> u64" where
  "fragmentBrowserWireGuardPacket nanos seq payload =
     (if length payload \<le> browserFragmentChunkSize then (Inr [], seq)
      else if length payload > browserFragmentMaxSize then (Inl (PacketTooLarge (length payload)), seq)
      else
        let count = (length payload + browserFragmentChunkSize - 1) div browserFragmentChunkSize
        in if count > 65535 then (Inl (TooManyFragments count), seq)
           else let (fid, seq') = nextBrowserFragmentID nanos seq
                in (Inr (browser_fragment_loop payload fid count 0 0), seq'))"

subsection \<open>Receiving\<close>

text \<open>The types have the fields of the native ones.\<close>

type_synonym browserFragmentSet = masqueWGFragmentAssembly
type_synonym 'k browserReassembler = "'k masqueWGReassembler"

datatype browser_fragment_error =
  BShort | BInvalid | BCount | BTooManyForSource | BTooMany | BMetadata | BLength | BConflict | BSize

definition browser_cleanup :: "'k browserReassembler \<Rightarrow> time \<Rightarrow> 'k browserReassembler" where
  "browser_cleanup r now = r\<lparr>sets := filter (\<lambda>(k, set). \<not> (now - asm_updated set \<ge> browserFragmentTTL)) (sets r)\<rparr>"

definition browser_sourceCount :: "'k browserReassembler \<Rightarrow> 'k \<Rightarrow> nat" where
  "browser_sourceCount r src = key_count (\<lambda>k. fst k = src) (sets r)"

definition browser_parse :: "bytes \<Rightarrow> browser_fragment_error + fragment_header" where
  "browser_parse payload =
     (if length payload < browserFragmentHeaderLen then Inl BShort
      else
        let fid = Uint64 (slice 4 12 payload);
            index = Uint16 (slice 12 14 payload);
            count = Uint16 (slice 14 16 payload);
            total = Uint32 (slice 16 20 payload);
            chunk = drop browserFragmentHeaderLen payload
        in if unat count < 2 \<or> unat index \<ge> unat count \<or> unat total > browserFragmentMaxSize then Inl BInvalid
           else
             let expectedCount = (unat total + browserFragmentChunkSize - 1) div browserFragmentChunkSize
             in if unat count \<noteq> expectedCount then Inl BCount
                else Inr \<lparr>fh_id = fid, fh_index = index, fh_count = count, fh_total = total, fh_chunk = chunk\<rparr>)"

definition browser_chunk_len :: "fragment_header \<Rightarrow> nat" where
  "browser_chunk_len h =
     (let total = unat (fh_total h);
          expectedCount = (total + browserFragmentChunkSize - 1) div browserFragmentChunkSize
      in if unat (fh_index h) = expectedCount - 1 then total - (expectedCount - 1) * browserFragmentChunkSize
         else browserFragmentChunkSize)"

text \<open>\<^verbatim>\<open>Push\<close> from the metadata check on, for an assembly that is in the map.\<close>

definition browser_store ::
  "'k browserReassembler \<Rightarrow> 'k masqueWGFragmentKey \<Rightarrow> browserFragmentSet \<Rightarrow> fragment_header \<Rightarrow> time \<Rightarrow>
   'k browserReassembler \<times> (browser_fragment_error + bytes option)" where
  "browser_store r key asm h now =
     (let index = unat (fh_index h); chunk = fh_chunk h;
          dropped = r\<lparr>sets := AList.delete key (sets r)\<rparr>
      in if asm_count asm \<noteq> fh_count h \<or> asm_total asm \<noteq> fh_total h then (dropped, Inl BMetadata)
         else if length chunk \<noteq> browser_chunk_len h then (dropped, Inl BLength)
         else (case asm_parts asm ! index of
           Some old \<Rightarrow> if old = chunk then (r, Inr None) else (dropped, Inl BConflict)
         | None \<Rightarrow>
             let asm' = asm\<lparr>asm_parts := (asm_parts asm)[index := append_nil chunk],
                            asm_received := asm_received asm + 1, asm_updated := now\<rparr>;
                 r' = r\<lparr>sets := AList.update key asm' (sets r)\<rparr>
             in if asm_received asm' \<noteq> unat (fh_count h) then (r', Inr None)
                else (case join_parts (asm_parts asm') [] of
                       None \<Rightarrow> (r', Inr None)
                     | Some out \<Rightarrow>
                         if length out \<noteq> unat (fh_total h) then (dropped, Inl BSize)
                         else (dropped, Inr (Some out)))))"

definition browserPush ::
  "'k browserReassembler \<Rightarrow> 'k \<Rightarrow> bytes \<Rightarrow> time \<Rightarrow> 'k browserReassembler \<times> (browser_fragment_error + bytes option)" where
  "browserPush r src payload now =
     (if \<not> HasPrefix payload browserFragmentMagic then (r, Inr (Some payload))
      else case browser_parse payload of
             Inl e \<Rightarrow> (r, Inl e)
           | Inr h \<Rightarrow>
               let r = browser_cleanup r now; key = (src, fh_id h) in
               (case map_of (sets r) key of
                  None \<Rightarrow>
                    if browser_sourceCount r src \<ge> browserFragmentMaxIncompletePerSource then (r, Inl BTooManyForSource)
                    else if length (sets r) \<ge> browserFragmentMaxIncompleteSets then (r, Inl BTooMany)
                    else let asm = new_assembly (fh_count h) (fh_total h) now
                         in browser_store (r\<lparr>sets := AList.update key asm (sets r)\<rparr>) key asm h now
                | Some asm \<Rightarrow> browser_store r key asm h now))"

section \<open>The same as the native code\<close>

lemma browser_consts:
  "browserFragmentHeaderLen = masqueWGFragmentHeaderLen" "browserFragmentMaxSize = masqueWGFragmentMaxSize"
  "browserFragmentChunkSize = masqueWGFragmentChunkSize" "browserFragmentTTL = masqueWGFragmentTTL"
  "browserFragmentMaxIncompleteSets = masqueWGMaxAssemblies"
  "browserFragmentMaxIncompletePerSource = masqueWGMaxAssembliesPerSource" "browserFragmentMagic = masqueWGFragmentMagic"
  by (simp_all add: go_consts browserFragmentTTL_def masqueWGFragmentTTL_def browserFragmentMagic_def masqueWGFragmentMagic_def)

lemma browser_fragment_loop_eq: "browser_fragment_loop payload fid c i off = fragment_loop payload fid c i off"
proof (induction payload fid c i off rule: fragment_loop.induct)
  case (1 payload fid c i off)
  show ?case
  proof (cases "off < length payload")
    case True
    from "1.IH" [OF True] True show ?thesis
      by (subst browser_fragment_loop.simps, subst fragment_loop.simps)
         (simp add: wire_fragment_def browser_consts Let_def)
  qed (subst browser_fragment_loop.simps, subst fragment_loop.simps, simp)
qed

lemma browser_fragments: "fragmentBrowserWireGuardPacket nanos seq p = fragmentMasqueWireGuardPacket nanos seq p"
  by (simp add: fragmentBrowserWireGuardPacket_def fragmentMasqueWireGuardPacket_def browser_consts nextBrowserFragmentID_def
      nextMasqueWGFragmentID_def browser_fragment_loop_eq Let_def)

lemma browser_helpers:
  "browser_cleanup r now = cleanupLocked r now" "browser_sourceCount r src = sourceAssemblyCountLocked r src"
  by (simp_all add: browser_cleanup_def cleanupLocked_def browser_sourceCount_def sourceAssemblyCountLocked_def browser_consts)

lemma browser_chunk_len_eq: "browser_chunk_len h = chunk_len (unat (fh_index h)) (unat (fh_total h))"
  by (simp add: browser_chunk_len_def chunk_len_def frag_count_def browser_consts Let_def)

text \<open>The header checks differ only in the length of the chunk.\<close>

lemma browser_parse_native:
  "parse_fragment p = Inr h \<longleftrightarrow> browser_parse p = Inr h \<and> length (fh_chunk h) = browser_chunk_len h"
  unfolding parse_fragment_def browser_parse_def
  by (auto simp: browser_consts Let_def browser_chunk_len_def go_consts)

lemma browser_parse_key:
  "browser_parse p = Inr h \<Longrightarrow> fh_id h = Uint64 (slice 4 12 p) \<and> 20 \<le> length p \<and> unat (fh_index h) < unat (fh_count h) \<and>
   size_ok (unat (fh_total h)) \<and> unat (fh_count h) = frag_count (unat (fh_total h))"
  by (auto simp: browser_parse_def size_ok_def frag_count_def go_consts Let_def split: if_splits)

text \<open>The browser's error for an error of the native critical section.\<close>

fun browser_error_of :: "fragment_error \<Rightarrow> browser_fragment_error" where
  "browser_error_of TooManyForSource = BTooManyForSource"
| "browser_error_of TooManyAssemblies = BTooMany"
| "browser_error_of InconsistentMetadata = BMetadata"
| "browser_error_of (ConflictingDuplicate i) = BConflict"
| "browser_error_of (SizeMismatch n t) = BSize"
| "browser_error_of (ShortHeader n) = BShort"
| "browser_error_of (CountMismatch c t) = BCount"
| "browser_error_of (ChunkLength i n m) = BLength"
| "browser_error_of _ = BInvalid"

definition as_browser :: "'r \<times> (fragment_error + 'a) \<Rightarrow> 'r \<times> (browser_fragment_error + 'a)" where
  "as_browser x = apsnd (map_sum browser_error_of id) x"

lemma browser_store_native:
  assumes "asm_count asm = fh_count h" "asm_total asm = fh_total h" "length (fh_chunk h) = browser_chunk_len h"
  shows "browser_store r key asm h now = as_browser (store_part r key asm h now)"
  using assms by (simp add: browser_store_def store_part_def as_browser_def Let_def split: option.split)

lemma browser_push_native:
  assumes "parse_fragment p = Inr h"
  shows "browserPush r src p now = as_browser (Push r src p now)"
proof (cases "HasPrefix p masqueWGFragmentMagic")
  case True
  from assms have h: "browser_parse p = Inr h" "length (fh_chunk h) = browser_chunk_len h" by (simp_all add: browser_parse_native)
  let ?r = "cleanupLocked r now" and ?key = "(src, fh_id h)"
  show ?thesis
  proof (cases "map_of (sets ?r) ?key")
    case None
    then show ?thesis using True assms h
      by (simp add: browserPush_def Push_def push_locked_def browser_consts browser_helpers as_browser_def Let_def)
         (simp add: browser_store_native [unfolded as_browser_def] new_assembly_def)
  next
    case (Some asm)
    then have eq: "browserPush r src p now = browser_store ?r ?key asm h now"
      using True h by (simp add: browserPush_def browser_consts browser_helpers Let_def)
    show ?thesis
    proof (cases "asm_count asm = fh_count h \<and> asm_total asm = fh_total h")
      case True': True
      then show ?thesis using True assms h Some by (simp add: eq browser_store_native Push_def push_locked_def)
    next
      case False
      then show ?thesis using True assms h Some
        by (auto simp: eq browser_store_def Push_def push_locked_def as_browser_def Let_def)
    qed
  qed
next
  case False
  then show ?thesis by (simp add: browserPush_def Push_def browser_consts as_browser_def)
qed

lemma delete_after_update: "AList.delete k (AList.update k v m) = AList.delete k m"
  by (induction m) auto

text \<open>A fragment whose chunk has the wrong length drops its assembly, if the code gets to look at it.\<close>

lemma browser_push_wrong_length:
  assumes "HasPrefix p masqueWGFragmentMagic" "browser_parse p = Inr h" "length (fh_chunk h) \<noteq> browser_chunk_len h"
  shows "\<exists>e. snd (browserPush r src p now) = Inl e \<and>
    (sets (fst (browserPush r src p now)) = live_sets now (sets r) \<or>
     sets (fst (browserPush r src p now)) = AList.delete (src, fh_id h) (live_sets now (sets r)))"
  using assms
  by (auto simp: browserPush_def browser_consts browser_helpers browser_store_def Let_def delete_after_update split: option.splits)

lemma browser_push_other:
  assumes "browser_parse p = Inl e"
  shows "browserPush r src p now = (r, if HasPrefix p masqueWGFragmentMagic then Inl e else Inr (Some p))"
  using assms by (simp add: browserPush_def browser_consts)

subsection \<open>The browser's reassembler meets the interface\<close>

lemma browser_push_cases:
  obtains (native) "browserPush r src p now = as_browser (Push r src p now)"
  | (refused) e where "browserPush r src p now = (r, Inl e)"
  | (dropped) h e where "HasPrefix p masqueWGFragmentMagic" "browser_parse p = Inr h" "length (fh_chunk h) \<noteq> browser_chunk_len h"
      "snd (browserPush r src p now) = Inl e"
      "sets (fst (browserPush r src p now)) = live_sets now (sets r) \<or>
       sets (fst (browserPush r src p now)) = AList.delete (src, fh_id h) (live_sets now (sets r))"
proof (cases "HasPrefix p masqueWGFragmentMagic")
  case False
  then show ?thesis using native by (simp add: browserPush_def Push_def browser_consts as_browser_def)
next
  case True
  show ?thesis
  proof (cases "browser_parse p")
    case (Inl e)
    then show ?thesis using refused True by (simp add: browser_push_other)
  next
    case (Inr h)
    show ?thesis
    proof (cases "length (fh_chunk h) = browser_chunk_len h")
      case True': True
      then have "parse_fragment p = Inr h" using Inr by (simp add: browser_parse_native)
      then show ?thesis by (rule native [OF browser_push_native])
    next
      case False
      from browser_push_wrong_length [OF True Inr this, of r src now] obtain e where
        "snd (browserPush r src p now) = Inl e"
        "sets (fst (browserPush r src p now)) = live_sets now (sets r) \<or>
         sets (fst (browserPush r src p now)) = AList.delete (src, fh_id h) (live_sets now (sets r))" by (elim exE conjE)
      then show ?thesis by (rule dropped [OF True Inr False])
    qed
  qed
qed

lemma browser_push_ok [inv_intros]:
  assumes "reassembler_ok r"
  shows "reassembler_ok (fst (browserPush r src p now))"
proof (cases r src p now rule: browser_push_cases)
  case native
  then show ?thesis using Push_ok [OF assms] by (simp add: as_browser_def)
next
  case (refused e)
  then show ?thesis using assms by simp
next
  case (dropped h e)
  let ?r = "cleanupLocked r now"
  have "reassembler_ok ?r" "reassembler_ok (?r\<lparr>sets := AList.delete (src, fh_id h) (sets ?r)\<rparr>)"
    by (intro reassembler_ok_cleanup reassembler_ok_delete assms)+
  then show ?thesis using dropped(5) by (auto simp: reassembler_ok_def)
qed

lemma browser_other_key:
  assumes "reassembler_ok r" "fragment_key s p \<noteq> Some key" "map_of (sets r) key = Some asm"
    "now - asm_updated asm < masqueWGFragmentTTL"
  shows "map_of (sets (fst (browserPush r s p now))) key = Some asm"
proof (cases r s p now rule: browser_push_cases)
  case native
  then show ?thesis using Push_other_key [OF assms] by (simp add: as_browser_def)
next
  case (refused e)
  then show ?thesis using assms by simp
next
  case (dropped h e)
  have "key \<noteq> (s, fh_id h)" using assms(2) dropped(1) browser_parse_key [OF dropped(2)] by (auto simp: fragment_key_def go_consts)
  moreover have "map_of (live_sets now (sets r)) key = Some asm" using assms by (simp add: map_of_live_sets)
  ultimately show ?thesis using dropped(5) by (auto simp: map_of_delete_iff)
qed

lemma browser_push_wire:
  assumes "fragment_fits i c n chunk"
  shows "browserPush r src (wire_fragment fid i c n chunk) now = as_browser (Push r src (wire_fragment fid i c n chunk) now)"
  using browser_push_native [OF parse_wire [OF assms]] .

interpretation browser: reassembler browserPush sets reassembler_ok
proof (unfold_locales, goal_cases)
  case 1 then show ?case by (rule browser_push_ok)
next
  case 2 then show ?case by (simp add: browserPush_def browser_consts)
next
  case 3 then show ?case by (rule browser_other_key)
next
  case 4 then show ?case using native.opens [OF 4] by (simp add: browser_push_wire [OF 4(2)] as_browser_def)
next
  case 5 then show ?case using native.repeats [OF 5] by (simp add: browser_push_wire [OF 5(2)] as_browser_def)
next
  case 6 then show ?case using native.extends [OF 6] by (simp add: browser_push_wire [OF 6(2)] as_browser_def)
next
  case 7 then show ?case using native.completes [OF 7] by (simp add: browser_push_wire [OF 7(2)] as_browser_def)
qed

section \<open>Properties\<close>

text \<open>The two header checks refuse the same inputs, but for the length of the chunk.\<close>

lemma parse_ChunkLength:
  assumes "parse_fragment p = Inl (ChunkLength i n m)"
  shows "\<exists>h. browser_parse p = Inr h \<and> length (fh_chunk h) \<noteq> browser_chunk_len h"
  using assms unfolding parse_fragment_def browser_parse_def
  by (auto simp: browser_consts browser_chunk_len_def Let_def split: if_splits)

lemma parse_other_error:
  assumes "parse_fragment p = Inl e" "\<nexists>i n m. e = ChunkLength i n m"
  shows "\<exists>e'. browser_parse p = Inl e'"
  using assms unfolding parse_fragment_def browser_parse_def
  by (auto simp: browser_consts Let_def go_consts split: if_splits)

definition wrong_length :: "bytes \<Rightarrow> bool" where
  "wrong_length p \<longleftrightarrow> HasPrefix p masqueWGFragmentMagic \<and> (\<exists>i n m. parse_fragment p = Inl (ChunkLength i n m))"

definition forget_error :: "'r \<times> ('e + 'a) \<Rightarrow> 'r \<times> 'a option" where
  "forget_error x = apsnd (case_sum (\<lambda>_. None) Some) x"

lemma browser_push_same:
  assumes "\<not> wrong_length p"
  shows "forget_error (browserPush r src p now) = forget_error (Push r src p now)"
proof (cases "HasPrefix p masqueWGFragmentMagic")
  case False
  then show ?thesis by (simp add: browserPush_def Push_def browser_consts forget_error_def)
next
  case True
  show ?thesis
  proof (cases "parse_fragment p")
    case (Inl e)
    then obtain e' where "browser_parse p = Inl e'" using parse_other_error [OF Inl] assms True by (auto simp: wrong_length_def)
    then show ?thesis using True Inl by (simp add: browser_push_other Push_def forget_error_def)
  next
    case (Inr h)
    then show ?thesis
      by (cases "snd (Push r src p now)") (simp_all add: browser_push_native as_browser_def forget_error_def prod_eq_iff)
  qed
qed

lemma browser_push_length:
  assumes "wrong_length p"
  shows "Push r src p now = (r, Inl (projl (parse_fragment p))) \<and> isl (snd (browserPush r src p now)) \<and>
    sets (fst (browserPush r src p now)) \<in>
      {live_sets now (sets r), AList.delete (src, Uint64 (slice 4 12 p)) (live_sets now (sets r))}"
proof -
  from assms obtain i n m where p: "HasPrefix p masqueWGFragmentMagic" "parse_fragment p = Inl (ChunkLength i n m)"
    by (auto simp: wrong_length_def)
  from parse_ChunkLength [OF p(2)] obtain h where h: "browser_parse p = Inr h" "length (fh_chunk h) \<noteq> browser_chunk_len h"
    by blast
  show ?thesis using browser_push_wrong_length [OF p(1) h, of r src now] p browser_parse_key [OF h(1)]
    by (auto simp: Push_def)
qed

text \<open>
  C27: the browser client and the native code speak the same wire format. They encode and decode datagrams alike and cut
  packets into the same fragments. On every datagram that the native reassembler does not reject for the length of
  its chunk, the browser's reassembler goes to the same state and returns the same packet, nothing or an error exactly
  as the native one. A fragment with a wrong length is refused by both; the native reassembler stays as it is,
  while the browser's one loses expired assemblies and at most the one that the fragment names.
\<close>
theorem browser_wire_equivalence:
  "encodeBrowserMasquePacket K a b payload = encodeMasquePacket K a b payload \<and>
   decodeBrowserMasquePacket K d = decodeMasquePacket K d \<and>
   fragmentBrowserWireGuardPacket nanos seq payload = fragmentMasqueWireGuardPacket nanos seq payload \<and>
   (if wrong_length p then
      fst (Push r src p now) = r \<and> isl (snd (Push r src p now)) \<and> isl (snd (browserPush r src p now)) \<and>
      sets (fst (browserPush r src p now)) \<in>
        {live_sets now (sets r), AList.delete (src, Uint64 (slice 4 12 p)) (live_sets now (sets r))}
    else forget_error (browserPush r src p now) = forget_error (Push r src p now))"
  using browser_push_length [of p r src now] browser_push_same [of p r src now]
  by (simp add: browser_fragments encodeBrowserMasquePacket_def encodeMasquePacket_def decodeBrowserMasquePacket_def
      decodeMasquePacket_def go_consts)

text \<open>So the browser puts the native fragments together in any order (and, the senders being equal, the other way round).\<close>

lemma browser_reassembles_native:
  assumes ok: "size_ok (length payload)" "reassembler_ok r"
    and sent: "fragmentMasqueWireGuardPacket nanos seq payload = (Inr fs, seq')" "fid = word_of_int nanos + (seq + 1)"
    and recv: "map_of (live_sets t0 (sets r)) (src, fid) = None" "room t0 src (sets r)"
      "delivers_all_but src fid payload j t0 es" "t0 \<le> t" "t < t0 + masqueWGFragmentTTL"
  shows "snd (browserPush (push_run browserPush r es) src (fs ! j) t) = Inr (Some payload)"
proof -
  have "fs = wire_fragments fid payload" using sent(1) unfolding fragment_packet_eq [OF ok(1)] sent(2) by (elim Pair_inject Inr_inject [THEN sym])
  then show ?thesis using browser.any_order_delivers(1) [OF ok recv] by simp
qed

end
