(* ===== verification/Go_Net.thy ===== *)
theory Go_Net
  imports Go_Url
begin

text \<open>
  The parts of \<^verbatim>\<open>net/netip\<close> the sources use: addresses as their 4 or 16 bytes and a zone, the
  prefixes of NAT64 and of a single address, and the canonical text of an IPv6 address.
\<close>

type_synonym addr = "bytes \<times> string"
type_synonym addr_port = "addr \<times> u16"

definition Is4 :: "addr \<Rightarrow> bool" where "Is4 a \<longleftrightarrow> length (fst a) = 4"
definition Is6 :: "addr \<Rightarrow> bool" where "Is6 a \<longleftrightarrow> length (fst a) = 16"

definition Is4In6 :: "addr \<Rightarrow> bool" where
  "Is4In6 a \<longleftrightarrow> Is6 a \<and> take 12 (fst a) = replicate 10 0 @ [0xFF, 0xFF]"

definition Unmap :: "addr \<Rightarrow> addr" where
  "Unmap a = (if Is4In6 a then (drop 12 (fst a), []) else a)"

definition AddrFromSlice :: "bytes \<Rightarrow> addr option" where
  "AddrFromSlice b = (if length b = 4 \<or> length b = 16 then Some (b, []) else None)"

text \<open>Membership of a prefix of whole bytes: addresses with a zone are in no prefix.\<close>

definition Prefix_Contains :: "bytes \<Rightarrow> nat \<Rightarrow> addr \<Rightarrow> bool" where
  "Prefix_Contains p n a \<longleftrightarrow> snd a = [] \<and> length (fst a) = length p \<and> take n (fst a) = take n p"

section \<open>The text of an IPv6 address\<close>

fun hex_text :: "nat \<Rightarrow> nat \<Rightarrow> string" where
  "hex_text 0 v = []"
| "hex_text (Suc n) v = (if v < 16 then [hex_digit v] else hex_text n (v div 16) @ [hex_digit (v mod 16)])"

fun words6 :: "bytes \<Rightarrow> nat list" where
  "words6 (a # b # r) = be_get [a, b] # words6 r"
| "words6 r = []"

fun zero_run :: "nat list \<Rightarrow> nat" where
  "zero_run [] = 0"
| "zero_run (w # ws) = (if w = 0 then Suc (zero_run ws) else 0)"

text \<open>The first longest run of at least two zero words: its position and length.\<close>

fun longest_run :: "nat \<Rightarrow> nat list \<Rightarrow> (nat \<times> nat) option \<Rightarrow> (nat \<times> nat) option" where
  "longest_run i [] best = best"
| "longest_run i (w # ws) best =
     (let l = zero_run (w # ws) in
      longest_run (Suc i) ws (if l \<ge> 2 \<and> (case best of None \<Rightarrow> True | Some (_, m) \<Rightarrow> l > m) then Some (i, l) else best))"

fun join_words :: "string list \<Rightarrow> string" where
  "join_words [] = []"
| "join_words [w] = w"
| "join_words (w # ws) = w @ CHR '':'' # join_words ws"

text \<open>\<^verbatim>\<open>Addr.String\<close> of an IPv6 address with no zone that is not IPv4-mapped.\<close>

definition String6 :: "bytes \<Rightarrow> string" where
  "String6 b =
     (let ws = words6 b; t = map (hex_text 4) ws in
      case longest_run 0 ws None of
        None \<Rightarrow> join_words t
      | Some (i, l) \<Rightarrow> join_words (take i t) @ ''::'' @ join_words (drop (i + l) t))"

lemma hex_text_chars: "c \<in> set (hex_text n v) \<Longrightarrow> hex_value c \<noteq> None"
  by (induction n arbitrary: v) (auto simp: hex_value_digit split: if_splits)

lemma join_words_chars:
  assumes "c \<in> set (join_words ws)" "\<forall>w\<in>set ws. \<forall>c\<in>set w. hex_value c \<noteq> None"
  shows "hex_value c \<noteq> None \<or> c = CHR '':''"
  using assms by (induction ws rule: join_words.induct) auto

lemma String6_chars:
  assumes "c \<in> set (String6 b)"
  shows "hex_value c \<noteq> None \<or> c = CHR '':''"
proof -
  let ?t = "map (hex_text 4) (words6 b)"
  have all: "\<forall>w\<in>set ws. \<forall>c\<in>set w. hex_value c \<noteq> None" if "set ws \<subseteq> set ?t" for ws
    using that hex_text_chars by fastforce
  show ?thesis
    using assms join_words_chars [of c "?t"] all [of ?t]
      join_words_chars [of c "take _ ?t", OF _ all [OF set_take_subset]]
      join_words_chars [of c "drop _ ?t", OF _ all [OF set_drop_subset]]
    by (auto simp: String6_def Let_def split: option.splits)
qed

end
