(* ===== verification/Core.thy ===== *)
theory Core
  imports Bind Go_Net Auth
begin

text \<open>
  \<^verbatim>\<open>masqueCore\<close> of \<^verbatim>\<open>masquecat_core.go\<close>: admission of peers, their configuration in the
  WireGuard device, their paths, and the routing of TCP connections.

  The WireGuard device is a parameter: its configuration call \<open>IpcSet\<close>, with the device's peers
  as a view of its state. \<open>wg_laws\<close> is what the device's configuration protocol documents: setting a
  peer gives it the endpoint and replaces its allowed addresses, taking them from any other peer;
  removing deletes it; the device's own key is ignored; a failed call does nothing but perhaps a part
  of this for the peer it names. The gVisor stack appears by the outcomes of the calls made to it.
\<close>

section \<open>The WireGuard device\<close>

record 'w wg_api =
  IpcSet :: "string \<Rightarrow> 'w \<Rightarrow> 'w \<times> bool"
  wg_peers :: "'w \<Rightarrow> string \<Rightarrow> (string \<times> string list) option"
  wg_own :: "'w \<Rightarrow> string"

definition newline :: string where "newline = [CHR 0x0A]"

definition set_peer_text :: "string \<Rightarrow> string \<Rightarrow> string \<Rightarrow> string" where
  "set_peer_text h ep ip =
     ''public_key='' @ h @ newline @ ''endpoint='' @ ep @ newline @
     ''replace_allowed_ips=true'' @ newline @ ''allowed_ip='' @ ip @ newline @ newline"

definition remove_peer_text :: "string \<Rightarrow> string" where
  "remove_peer_text h = ''public_key='' @ h @ newline @ ''remove=true'' @ newline @ newline"

definition private_key_text :: "string \<Rightarrow> string" where
  "private_key_text h = ''private_key='' @ h @ newline @ newline"

definition line_safe :: "string \<Rightarrow> bool" where
  "line_safe s \<longleftrightarrow> CHR 0x0A \<notin> set s"

definition wg_laws :: "'w wg_api \<Rightarrow> bool" where
  "wg_laws W \<longleftrightarrow>
     (\<forall>h ep ip w w' ok. line_safe h \<and> line_safe ep \<and> line_safe ip \<and> IpcSet W (set_peer_text h ep ip) w = (w', ok) \<longrightarrow>
        wg_own W w' = wg_own W w \<and>
        (\<forall>h'. h' \<noteq> h \<longrightarrow> (case wg_peers W w h' of
            None \<Rightarrow> wg_peers W w' h' = None
          | Some (e, ips) \<Rightarrow> \<exists>ips'. wg_peers W w' h' = Some (e, ips') \<and> set ips' \<subseteq> set ips)) \<and>
        (case wg_peers W w' h of
            None \<Rightarrow> ok \<longrightarrow> h = wg_own W w
          | Some (e, ips) \<Rightarrow>
              (ok \<longrightarrow> e = ep \<and> set ips = {ip}) \<and>
              (e \<in> {ep, []} \<or> map_option fst (wg_peers W w h) = Some e) \<and>
              set ips \<subseteq> insert ip (case wg_peers W w h of None \<Rightarrow> {} | Some (_, old) \<Rightarrow> set old))) \<and>
     (\<forall>h w w' ok. line_safe h \<and> IpcSet W (remove_peer_text h) w = (w', ok) \<longrightarrow>
        wg_own W w' = wg_own W w \<and> wg_peers W w' = (if ok then (wg_peers W w)(h := None) else wg_peers W w)) \<and>
     (\<forall>h w w' ok. line_safe h \<and> IpcSet W (private_key_text h) w = (w', ok) \<longrightarrow>
        (\<forall>h'. wg_peers W w' h' \<in> {None, wg_peers W w h'}))"

lemma wg_set_peer:
  assumes "wg_laws W" "line_safe h" "line_safe ep" "line_safe ip" "IpcSet W (set_peer_text h ep ip) w = (w', ok)"
  shows "wg_own W w' = wg_own W w"
    "h' \<noteq> h \<Longrightarrow> wg_peers W w h' = None \<Longrightarrow> wg_peers W w' h' = None"
    "h' \<noteq> h \<Longrightarrow> wg_peers W w h' = Some (e, ips) \<Longrightarrow> \<exists>ips'. wg_peers W w' h' = Some (e, ips') \<and> set ips' \<subseteq> set ips"
    "wg_peers W w' h = None \<Longrightarrow> ok \<Longrightarrow> h = wg_own W w"
    "wg_peers W w' h = Some (e, ips) \<Longrightarrow> ok \<Longrightarrow> e = ep \<and> set ips = {ip}"
    "wg_peers W w' h = Some (e, ips) \<Longrightarrow> e \<in> {ep, []} \<or> map_option fst (wg_peers W w h) = Some e"
    "wg_peers W w' h = Some (e, ips) \<Longrightarrow>
       set ips \<subseteq> insert ip (case wg_peers W w h of None \<Rightarrow> {} | Some (_, old) \<Rightarrow> set old)"
proof -
  note l = conjunct1 [OF assms(1) [unfolded wg_laws_def], rule_format, OF conjI, OF assms(2) conjI, OF assms(3) conjI, OF assms(4,5)]
  note own = conjunct1 [OF l] and others = conjunct1 [OF conjunct2 [OF l], rule_format]
    and this_peer = conjunct2 [OF conjunct2 [OF l]]
  show "wg_own W w' = wg_own W w" by (rule own)
  show "h' \<noteq> h \<Longrightarrow> wg_peers W w h' = None \<Longrightarrow> wg_peers W w' h' = None" using others [of h'] by simp
  show "h' \<noteq> h \<Longrightarrow> wg_peers W w h' = Some (e, ips) \<Longrightarrow> \<exists>ips'. wg_peers W w' h' = Some (e, ips') \<and> set ips' \<subseteq> set ips"
    using others [of h'] by simp
  show "wg_peers W w' h = None \<Longrightarrow> ok \<Longrightarrow> h = wg_own W w" using this_peer by simp
  assume "wg_peers W w' h = Some (e, ips)"
  note t = this_peer [unfolded this option.case prod.case]
  from t show "ok \<Longrightarrow> e = ep \<and> set ips = {ip}" "e \<in> {ep, []} \<or> map_option fst (wg_peers W w h) = Some e"
    "set ips \<subseteq> insert ip (case wg_peers W w h of None \<Rightarrow> {} | Some (_, old) \<Rightarrow> set old)" by simp_all
qed

lemma wg_remove_peer:
  assumes "wg_laws W" "line_safe h" "IpcSet W (remove_peer_text h) w = (w', ok)"
  shows "wg_own W w' = wg_own W w" "wg_peers W w' = (if ok then (wg_peers W w)(h := None) else wg_peers W w)"
  using assms unfolding wg_laws_def by blast+

lemma wg_private_key:
  assumes "wg_laws W" "line_safe h" "IpcSet W (private_key_text h) w = (w', ok)" "wg_peers W w = Map.empty"
  shows "wg_peers W w' = Map.empty"
proof
  fix h' show "wg_peers W w' h' = None" using assms unfolding wg_laws_def by fastforce
qed

section \<open>State\<close>

record ('k, 'f, 'w, 'r, 'h) masqueCore =
  c_pub :: 'k
  c_isServer :: bool
  c_allowedClients :: "'k list option"
  c_onTCP :: "(u16 \<Rightarrow> 'h option) option"
  c_onTCPForward :: "(addr_port \<Rightarrow> 'h option) option"
  c_servedTCPPorts :: "'r list option"
  c_peers :: "('k, unit) gomap"
  c_bind :: "('k, 'f) masqueBind"
  c_wg :: 'w
  c_closed :: bool

text \<open>\<^verbatim>\<open>tcAddrForKey\<close>: the Tailscale prefix followed by the first 80 bits of the key.\<close>

definition tcAddrForKey :: "'k node_key_api \<Rightarrow> 'k \<Rightarrow> addr" where
  "tcAddrForKey K k = ([0xFD, 0x7A, 0x11, 0x5C, 0xA1, 0xE0] @ take 10 (AppendTo K k), [])"

definition masqueCorePingAddr :: addr where
  "masqueCorePingAddr =
     ([0xFD, 0, 0x74, 0x61, 0x69, 0x6C, 0x63, 0x61, 0x74, 0, 0x70, 0x69, 0x6E, 0x67, 0, 1], [])"

definition masqueCorePingPort :: u16 where "masqueCorePingPort = 65535"

definition nat64PrefixBytes :: bytes where
  "nat64PrefixBytes = [0, 0x64, 0xFF, 0x9B] @ replicate 12 0"

definition c_addr :: "'k node_key_api \<Rightarrow> ('k, 'f, 'w, 'r, 'h) masqueCore \<Rightarrow> addr" where
  "c_addr K c = tcAddrForKey K (c_pub c)"

section \<open>Construction\<close>

record ('k, 'r, 'h) masqueCoreOptions =
  o_IsServer :: bool
  o_AllowedClients :: "'k list"
  o_OnTCP :: "(u16 \<Rightarrow> 'h option) option"
  o_OnTCPForward :: "(addr_port \<Rightarrow> 'h option) option"
  o_ServedTCPPorts :: "'r list option"

datatype core_error =
  ZeroPrivateKey | NilLogger | StackFailed | ConfigureKeyFailed | DeviceUpFailed
| ZeroPeerKey | PeerNotAllowed | ConfigurePeerFailed | CoreClosed

text \<open>
  \<open>stack_ok\<close> and \<open>up_ok\<close> say whether the set-up of the gVisor stack and \<^verbatim>\<open>wg.Up\<close> succeed; the
  latter opens the device's bind. \<open>w0\<close> is the new device.
\<close>

definition newMasqueCore ::
  "'w wg_api \<Rightarrow> ('p, 'k) node_private_api \<Rightarrow> ('p \<Rightarrow> bytes) \<Rightarrow> bool \<Rightarrow> bool \<Rightarrow> 'w \<Rightarrow> 'p \<Rightarrow> ('k, 'r, 'h) masqueCoreOptions \<Rightarrow>
   bool \<Rightarrow> core_error + ('k, 'f, 'w, 'r, 'h) masqueCore" where
  "newMasqueCore W P Raw32 stack_ok up_ok w0 priv opts hasLog =
     (if PrivIsZero P priv then Inl ZeroPrivateKey
      else if \<not> hasLog then Inl NilLogger
      else if \<not> stack_ok then Inl StackFailed
      else case IpcSet W (private_key_text (hex_encode (Raw32 priv))) w0 of
             (w1, False) \<Rightarrow> Inl ConfigureKeyFailed
           | (w1, True) \<Rightarrow>
               if \<not> up_ok then Inl DeviceUpFailed
               else Inr \<lparr>c_pub = Public P priv, c_isServer = o_IsServer opts,
                         c_allowedClients = (if o_AllowedClients opts = [] then None else Some (o_AllowedClients opts)),
                         c_onTCP = o_OnTCP opts, c_onTCPForward = o_OnTCPForward opts,
                         c_servedTCPPorts = o_ServedTCPPorts opts, c_peers = [],
                         c_bind = fst (bind_Open (newMasqueBind (Public P priv)) :: _ \<times> (unit bind_error + nat)),
                         c_wg = w1, c_closed = False\<rparr>)"

section \<open>Admission\<close>

definition peerAllowed :: "'k \<Rightarrow> ('k, 'f, 'w, 'r, 'h) masqueCore \<Rightarrow> bool" where
  "peerAllowed peer c \<longleftrightarrow>
     \<not> c_isServer c \<or> (case c_allowedClients c of None \<Rightarrow> True | Some l \<Rightarrow> peer \<in> set l)"

definition core_AddAllowedClient :: "'k \<Rightarrow> ('k, 'f, 'w, 'r, 'h) masqueCore \<Rightarrow> ('k, 'f, 'w, 'r, 'h) masqueCore" where
  "core_AddAllowedClient peer c =
     c\<lparr>c_allowedClients := Some (peer # (case c_allowedClients c of None \<Rightarrow> [] | Some l \<Rightarrow> l))\<rparr>"

definition nodePublicHex :: "'k node_key_api \<Rightarrow> 'k \<Rightarrow> string" where
  "nodePublicHex K k = hex_encode (AppendTo K k)"

definition allowed_ip :: "'k node_key_api \<Rightarrow> bool \<Rightarrow> 'k \<Rightarrow> string" where
  "allowed_ip K isServer peer = (if isServer then String6 (fst (tcAddrForKey K peer)) @ ''/128'' else ''::/0'')"

definition addPeerLocked ::
  "'w wg_api \<Rightarrow> 'k node_key_api \<Rightarrow> 'k \<Rightarrow> ('k, 'f, 'w, 'r, 'h) masqueCore \<Rightarrow>
   ('k, 'f, 'w, 'r, 'h) masqueCore \<times> core_error option" where
  "addPeerLocked W K peer c =
     (if map_of (c_peers c) peer \<noteq> None then (c, None)
      else if \<not> peerAllowed peer c then (c, Some PeerNotAllowed)
      else case IpcSet W (set_peer_text (nodePublicHex K peer) (nodePublicHex K peer) (allowed_ip K (c_isServer c) peer)) (c_wg c) of
             (w, False) \<Rightarrow> (c\<lparr>c_wg := w\<rparr>, Some ConfigurePeerFailed)
           | (w, True) \<Rightarrow> (c\<lparr>c_wg := w, c_peers := AList.update peer () (c_peers c)\<rparr>, None))"

definition AddPeer ::
  "'w wg_api \<Rightarrow> 'k node_key_api \<Rightarrow> 'k \<Rightarrow> ('k, 'f, 'w, 'r, 'h) masqueCore \<Rightarrow>
   ('k, 'f, 'w, 'r, 'h) masqueCore \<times> core_error option" where
  "AddPeer W K peer c = (if IsZero K peer then (c, Some ZeroPeerKey) else addPeerLocked W K peer c)"

section \<open>Paths\<close>

definition core_SetPath ::
  "'w wg_api \<Rightarrow> 'k node_key_api \<Rightarrow> 'k \<Rightarrow> 'f option \<Rightarrow> ('k, 'f, 'w, 'r, 'h) masqueCore \<Rightarrow>
   ('k, 'f, 'w, 'r, 'h) masqueCore \<times> core_error option" where
  "core_SetPath W K peer path c =
     (if IsZero K peer then (c, Some ZeroPeerKey)
      else case addPeerLocked W K peer c of
             (c', Some e) \<Rightarrow> (c', Some e)
           | (c', None) \<Rightarrow> (c'\<lparr>c_bind := bind_SetPath peer path (c_bind c')\<rparr>, None))"

definition core_RemovePath ::
  "'w wg_api \<Rightarrow> 'k node_key_api \<Rightarrow> 'k \<Rightarrow> 'f option \<Rightarrow> ('k, 'f, 'w, 'r, 'h) masqueCore \<Rightarrow>
   ('k, 'f, 'w, 'r, 'h) masqueCore" where
  "core_RemovePath W K peer path c =
     (case bind_RemovePath peer path (c_bind c) of
        (b, False) \<Rightarrow> c
      | (b, True) \<Rightarrow>
          let c' = c\<lparr>c_bind := b\<rparr> in
          if map_of (c_peers c) peer = None then c'
          else case IpcSet W (remove_peer_text (nodePublicHex K peer)) (c_wg c) of
                 (w, False) \<Rightarrow> c'\<lparr>c_wg := w\<rparr>
               | (w, True) \<Rightarrow> c'\<lparr>c_wg := w, c_peers := AList.delete peer (c_peers c)\<rparr>)"

definition core_Inject ::
  "'w wg_api \<Rightarrow> 'k node_key_api \<Rightarrow> time \<Rightarrow> bool \<Rightarrow> 'k \<Rightarrow> bytes \<Rightarrow> ('k, 'f, 'w, 'r, 'h) masqueCore \<Rightarrow>
   ('k, 'f, 'w, 'r, 'h) masqueCore \<times> (core_error + inject_result)" where
  "core_Inject W K now pick src payload c =
     (case AddPeer W K src c of
        (c', Some e) \<Rightarrow> (c', Inl e)
      | (c', None) \<Rightarrow>
          (case bind_Inject now pick src payload (c_bind c') of
             (b, res) \<Rightarrow> (c'\<lparr>c_bind := b\<rparr>, Inr res)))"

section \<open>Incoming connections\<close>

definition localPortAllowed :: "('r \<Rightarrow> u16 \<Rightarrow> bool) \<Rightarrow> u16 \<Rightarrow> ('k, 'f, 'w, 'r, 'h) masqueCore \<Rightarrow> bool" where
  "localPortAllowed Contains port c =
     (case c_servedTCPPorts c of None \<Rightarrow> True | Some rs \<Rightarrow> list_ex (\<lambda>r. Contains r port) rs)"

datatype 'h tcp_handler = PingHandler | AppHandler 'h
datatype 'h tcp_outcome = Reset | Accepted "'h tcp_handler" | AcceptFailed

text \<open>
  The handler chosen for a connection to \<open>local\<close>; an exit-node callback is given an address of
  NAT64 as its IPv4 address.
\<close>

definition tcp_handler_for ::
  "'k node_key_api \<Rightarrow> ('r \<Rightarrow> u16 \<Rightarrow> bool) \<Rightarrow> addr_port \<Rightarrow> ('k, 'f, 'w, 'r, 'h) masqueCore \<Rightarrow> 'h tcp_handler option" where
  "tcp_handler_for K Contains dst c =
     (if fst dst = masqueCorePingAddr \<and> snd dst = masqueCorePingPort then Some PingHandler
      else if fst dst = c_addr K c then
        (if localPortAllowed Contains (snd dst) c
         then (case c_onTCP c of None \<Rightarrow> None | Some f \<Rightarrow> map_option AppHandler (f (snd dst))) else None)
      else case c_onTCPForward c of
             None \<Rightarrow> None
           | Some f \<Rightarrow>
               map_option AppHandler
                 (f (if Prefix_Contains nat64PrefixBytes 12 (fst dst) then ((drop 12 (fst (fst dst)), []), snd dst) else dst)))"

definition handleTCPForward ::
  "'k node_key_api \<Rightarrow> ('r \<Rightarrow> u16 \<Rightarrow> bool) \<Rightarrow> bool \<Rightarrow> bytes \<Rightarrow> u16 \<Rightarrow> ('k, 'f, 'w, 'r, 'h) masqueCore \<Rightarrow> 'h tcp_outcome" where
  "handleTCPForward K Contains endpoint_ok localAddress localPort c =
     (case AddrFromSlice localAddress of
        None \<Rightarrow> Reset
      | Some a \<Rightarrow>
          (case tcp_handler_for K Contains (Unmap a, localPort) c of
             None \<Rightarrow> Reset
           | Some h \<Rightarrow> if endpoint_ok then Accepted h else AcceptFailed))"

section \<open>Outgoing connections\<close>

text \<open>\<open>dial\<close> stands for \<^verbatim>\<open>gonet.DialContextTCP\<close>, on the bytes of an address and a port.\<close>

definition DialTCP_target :: "addr_port \<Rightarrow> addr_port" where
  "DialTCP_target dst = (if Is4 (fst dst) then ((take 12 nat64PrefixBytes @ fst (fst dst), []), snd dst) else dst)"

definition DialTCP :: "(bytes \<Rightarrow> u16 \<Rightarrow> 's \<Rightarrow> 's \<times> 'c option) \<Rightarrow> addr_port \<Rightarrow> 's \<Rightarrow> 's \<times> 'c option" where
  "DialTCP dial dst s = (case DialTCP_target dst of (a, port) \<Rightarrow> dial (fst a) port s)"

datatype dial_addr_error =
  NotTCP | BadAddress addr_error | BadPort | NotIPv4 | NotIPv6 | ResolveFailed | NoMatchingAddress | AllDialsFailed nat

text \<open>\<open>LookupNetIP\<close> is the resolver.\<close>

definition network_match :: "string \<Rightarrow> addr \<Rightarrow> bool" where
  "network_match network ip =
     (if network = ''tcp4'' then Is4 ip else if network = ''tcp6'' then Is6 ip \<and> \<not> Is4 ip else True)"

definition resolveMasqueTCPAddrs ::
  "(string \<Rightarrow> addr list option) \<Rightarrow> string \<Rightarrow> string \<Rightarrow> dial_addr_error + addr list" where
  "resolveMasqueTCPAddrs LookupNetIP network host =
     (case ParseAddr host of
        Some ip \<Rightarrow>
          if network = ''tcp4'' \<and> \<not> Is4 ip then Inl NotIPv4
          else if network = ''tcp6'' \<and> (\<not> Is6 ip \<or> Is4In6 ip) then Inl NotIPv6
          else Inr [Unmap ip]
      | None \<Rightarrow>
          (case LookupNetIP host of
             None \<Rightarrow> Inl ResolveFailed
           | Some ips \<Rightarrow>
               let out = filter (network_match network) (map Unmap ips) in
               if out = [] then Inl NoMatchingAddress else Inr out))"

text \<open>\<open>over i\<close> is whether the context has ended after the \<open>i\<close>th failed dial.\<close>

fun dial_loop ::
  "(bytes \<Rightarrow> u16 \<Rightarrow> 's \<Rightarrow> 's \<times> 'c option) \<Rightarrow> (nat \<Rightarrow> bool) \<Rightarrow> u16 \<Rightarrow> nat \<Rightarrow> addr list \<Rightarrow> 's \<Rightarrow> 's \<times> (dial_addr_error + 'c)" where
  "dial_loop dial over port i [] s = (s, Inl (AllDialsFailed i))"
| "dial_loop dial over port i (ip # ips) s =
     (case DialTCP dial (ip, port) s of
        (s', Some conn) \<Rightarrow> (s', Inr conn)
      | (s', None) \<Rightarrow> if over i then (s', Inl (AllDialsFailed (Suc i))) else dial_loop dial over port (Suc i) ips s')"

definition core_Dial ::
  "(string \<Rightarrow> int option) \<Rightarrow> (string \<Rightarrow> addr list option) \<Rightarrow> (bytes \<Rightarrow> u16 \<Rightarrow> 's \<Rightarrow> 's \<times> 'c option) \<Rightarrow> (nat \<Rightarrow> bool) \<Rightarrow>
   string \<Rightarrow> string \<Rightarrow> 's \<Rightarrow> 's \<times> (dial_addr_error + 'c)" where
  "core_Dial LookupPort LookupNetIP dial over network address s =
     (if network \<notin> {''tcp'', ''tcp4'', ''tcp6''} then (s, Inl NotTCP)
      else case SplitHostPort address of
        Inl e \<Rightarrow> (s, Inl (BadAddress e))
      | Inr (host, portText) \<Rightarrow>
          (case LookupPort portText of
             None \<Rightarrow> (s, Inl BadPort)
           | Some port \<Rightarrow>
               if port < 0 \<or> port > 65535 then (s, Inl BadPort)
               else case resolveMasqueTCPAddrs LookupNetIP network host of
                      Inl e \<Rightarrow> (s, Inl e)
                    | Inr ips \<Rightarrow> dial_loop dial over (word_of_int port) 0 ips s))"

definition core_Ping :: "(bytes \<Rightarrow> u16 \<Rightarrow> 's \<Rightarrow> 's \<times> 'c option) \<Rightarrow> 's \<Rightarrow> 's \<times> 'c option" where
  "core_Ping dial s = DialTCP dial (masqueCorePingAddr, masqueCorePingPort) s"

section \<open>Draining and closing\<close>

datatype tcp_state =
  StateInitial | StateBound | StateListen | StateConnecting | StateSynSent | StateSynRecv | StateEstablished
| StateFinWait1 | StateFinWait2 | StateTimeWait | StateClosing | StateCloseWait | StateLastAck | StateClose | StateError

definition masqueTCPStateNeedsDrain :: "tcp_state \<Rightarrow> bool" where
  "masqueTCPStateNeedsDrain st \<longleftrightarrow>
     st \<in> {StateConnecting, StateSynSent, StateSynRecv, StateEstablished, StateFinWait1, StateFinWait2,
           StateClosing, StateCloseWait, StateLastAck}"

text \<open>
  Each turn of \<^verbatim>\<open>DrainTCP\<close> sees the registered endpoints that have a TCP state and then, if it goes
  on waiting, whether the context ended first; \<open>None\<close> while it waits.
\<close>

fun DrainTCP :: "(tcp_state list \<times> bool) list \<Rightarrow> bool option" where
  "DrainTCP [] = None"
| "DrainTCP ((eps, ended) # turns) =
     (if \<not> list_ex masqueTCPStateNeedsDrain eps then Some True
      else if ended then Some False else DrainTCP turns)"

text \<open>The peers \<^verbatim>\<open>Status\<close> reports, with their addresses.\<close>

definition core_Status :: "'k node_key_api \<Rightarrow> ('k, 'f, 'w, 'r, 'h) masqueCore \<Rightarrow> addr \<times> ('k \<times> addr) list" where
  "core_Status K c = (c_addr K c, map (\<lambda>(k, _). (k, tcAddrForKey K k)) (c_peers c))"

definition core_Close :: "('k, 'f, 'w, 'r, 'h) masqueCore \<Rightarrow> ('k, 'f, 'w, 'r, 'h) masqueCore" where
  "core_Close c = (if c_closed c then c else c\<lparr>c_closed := True, c_bind := bind_Close (c_bind c)\<rparr>)"

section \<open>Runs\<close>

datatype ('k, 'f) core_op =
  OpAddPeer 'k | OpSetPath 'k "'f option" | OpRemovePath 'k "'f option" | OpInject time bool 'k bytes
| OpReceive nat bool "bytes list" "nat list" "'k option list" | OpAllow 'k | OpClose

fun core_exec ::
  "'w wg_api \<Rightarrow> 'k node_key_api \<Rightarrow> ('k, 'f) core_op \<Rightarrow> ('k, 'f, 'w, 'r, 'h) masqueCore \<Rightarrow> ('k, 'f, 'w, 'r, 'h) masqueCore" where
  "core_exec W K (OpAddPeer k) c = fst (AddPeer W K k c)"
| "core_exec W K (OpSetPath k path) c = fst (core_SetPath W K k path c)"
| "core_exec W K (OpRemovePath k path) c = core_RemovePath W K k path c"
| "core_exec W K (OpInject now pick k payload) c = fst (core_Inject W K now pick k payload c)"
| "core_exec W K (OpReceive gen pick packets sizes eps) c =
     (case bind_receive gen pick packets sizes eps (c_bind c) :: (_ \<times> (unit bind_error + _)) option of
        None \<Rightarrow> c | Some (b, _) \<Rightarrow> c\<lparr>c_bind := b\<rparr>)"
| "core_exec W K (OpAllow k) c = core_AddAllowedClient k c"
| "core_exec W K OpClose c = core_Close c"

definition core_run ::
  "'w wg_api \<Rightarrow> 'k node_key_api \<Rightarrow> ('k, 'f) core_op list \<Rightarrow> ('k, 'f, 'w, 'r, 'h) masqueCore \<Rightarrow> ('k, 'f, 'w, 'r, 'h) masqueCore" where
  "core_run W K ops c = fold (core_exec W K) ops c"

lemma core_run_simps [simp]: "core_run W K [] c = c" "core_run W K (op # ops) c = core_run W K ops (core_exec W K op c)"
  by (simp_all add: core_run_def)

section \<open>The device agrees with the table of peers\<close>

lemma line_safe_hex: "line_safe (nodePublicHex K k)"
  unfolding line_safe_def nodePublicHex_def using set_hex_encode [of "CHR 0x0A"] by (auto simp: hex_value_def)

lemma line_safe_allowed_ip: "line_safe (allowed_ip K srv k)"
  unfolding line_safe_def allowed_ip_def using String6_chars [of "CHR 0x0A"] by (auto simp: hex_value_def)

lemma nodePublicHex_inject:
  assumes "key_laws K" "nodePublicHex K k = nodePublicHex K k'"
  shows "k = k'"
proof -
  from assms(2) have "AppendTo K k = AppendTo K k'" by (metis hex_decode_encode nodePublicHex_def option.inject)
  then show ?thesis by (metis key_lawsD(2) [OF assms(1)])
qed

definition device_ok :: "'w wg_api \<Rightarrow> 'k node_key_api \<Rightarrow> bool \<Rightarrow> 'w \<Rightarrow> bool" where
  "device_ok W K srv w \<longleftrightarrow> (\<forall>h e ips. wg_peers W w h = Some (e, ips) \<longrightarrow>
     (\<exists>k. h = nodePublicHex K k \<and> e \<in> {h, []} \<and> set ips \<subseteq> {allowed_ip K srv k}))"

definition configured :: "'w wg_api \<Rightarrow> 'k node_key_api \<Rightarrow> 'w \<Rightarrow> 'k \<Rightarrow> bool" where
  "configured W K w k \<longleftrightarrow>
     nodePublicHex K k = wg_own W w \<or> (\<exists>ips. wg_peers W w (nodePublicHex K k) = Some (nodePublicHex K k, ips))"

definition core_inv :: "'w wg_api \<Rightarrow> 'k node_key_api \<Rightarrow> ('k, 'f, 'w, 'r, 'h) masqueCore \<Rightarrow> bool" where
  "core_inv W K c \<longleftrightarrow>
     gomap_ok (c_peers c) \<and> gomap_ok (b_paths (c_bind c)) \<and>
     (\<forall>k. map_of (b_paths (c_bind c)) k \<noteq> None \<longrightarrow> map_of (c_peers c) k \<noteq> None) \<and>
     device_ok W K (c_isServer c) (c_wg c) \<and>
     (\<forall>k. map_of (c_peers c) k \<noteq> None \<longrightarrow> configured W K (c_wg c) k)"

lemma device_ok_set:
  assumes "wg_laws W" "key_laws K" "device_ok W K srv w"
    "IpcSet W (set_peer_text (nodePublicHex K k) (nodePublicHex K k) (allowed_ip K srv k)) w = (w', ok)"
  shows "device_ok W K srv w'"
  unfolding device_ok_def
proof (intro allI impI)
  let ?h = "nodePublicHex K k"
  note l = wg_set_peer [OF assms(1) line_safe_hex line_safe_hex line_safe_allowed_ip assms(4)]
  fix h e ips assume e: "wg_peers W w' h = Some (e, ips)"
  show "\<exists>k. h = nodePublicHex K k \<and> e \<in> {h, []} \<and> set ips \<subseteq> {allowed_ip K srv k}"
  proof (cases "h = ?h")
    case True
    have "e \<in> {?h, []} \<and> set ips \<subseteq> {allowed_ip K srv k}"
    proof (cases "wg_peers W w ?h")
      case None
      then show ?thesis using l(6,7) e True by auto
    next
      case (Some old)
      obtain e0 ips0 where old: "old = (e0, ips0)" by fastforce
      with assms(3) Some obtain k0 where "?h = nodePublicHex K k0" "e0 \<in> {?h, []}" "set ips0 \<subseteq> {allowed_ip K srv k0}"
        unfolding device_ok_def by blast
      then have "e0 \<in> {?h, []}" "set ips0 \<subseteq> {allowed_ip K srv k}" using nodePublicHex_inject [OF assms(2)] by metis+
      then show ?thesis using l(6,7) e True Some old by auto
    qed
    then show ?thesis using True by blast
  next
    case False
    then obtain ips0 where old: "wg_peers W w h = Some (e, ips0)" "set ips \<subseteq> set ips0"
    proof (cases "wg_peers W w h")
      case None
      with l(2) [OF False] e show thesis by simp
    next
      case (Some q)
      obtain e0 ips1 where q: "q = (e0, ips1)" by fastforce
      with l(3) [OF False, of e0 ips1] Some e show thesis by (intro that [of ips1]) auto
    qed
    with assms(3) obtain k' where "h = nodePublicHex K k'" "e \<in> {h, []}" "set ips0 \<subseteq> {allowed_ip K srv k'}"
      unfolding device_ok_def by blast
    with old(2) show ?thesis by blast
  qed
qed

lemma configured_set:
  assumes "wg_laws W" "key_laws K"
    "IpcSet W (set_peer_text (nodePublicHex K k) (nodePublicHex K k) (allowed_ip K srv k)) w = (w', ok)"
    "configured W K w k' \<and> k' \<noteq> k \<or> ok \<and> k' = k"
  shows "configured W K w' k'"
proof -
  note l = wg_set_peer [OF assms(1) line_safe_hex line_safe_hex line_safe_allowed_ip assms(3)]
  show ?thesis
  proof (cases "k' = k")
    case True
    with assms(4) have ok by simp
    then show ?thesis
      using l(1,4,5) True unfolding configured_def
      by (cases "wg_peers W w' (nodePublicHex K k)") auto
  next
    case False
    then have "nodePublicHex K k' \<noteq> nodePublicHex K k" using nodePublicHex_inject [OF assms(2)] by blast
    with l(1) l(3) [of "nodePublicHex K k'"] assms(4) False show ?thesis unfolding configured_def by metis
  qed
qed

lemma addPeerLocked_cases:
  assumes "addPeerLocked W K k c = (c', e)"
  obtains (known) "map_of (c_peers c) k \<noteq> None" "c' = c" "e = None"
  | (refused) "map_of (c_peers c) k = None" "\<not> peerAllowed k c" "c' = c" "e = Some PeerNotAllowed"
  | (failed) w where "map_of (c_peers c) k = None" "peerAllowed k c" "c' = c\<lparr>c_wg := w\<rparr>" "e = Some ConfigurePeerFailed"
      "IpcSet W (set_peer_text (nodePublicHex K k) (nodePublicHex K k) (allowed_ip K (c_isServer c) k)) (c_wg c) = (w, False)"
  | (added) w where "map_of (c_peers c) k = None" "peerAllowed k c"
      "c' = c\<lparr>c_wg := w, c_peers := AList.update k () (c_peers c)\<rparr>" "e = None"
      "IpcSet W (set_peer_text (nodePublicHex K k) (nodePublicHex K k) (allowed_ip K (c_isServer c) k)) (c_wg c) = (w, True)"
proof -
  obtain w ok where ipc: "IpcSet W (set_peer_text (nodePublicHex K k) (nodePublicHex K k)
      (allowed_ip K (c_isServer c) k)) (c_wg c) = (w, ok)" by fastforce
  consider "map_of (c_peers c) k \<noteq> None" | "map_of (c_peers c) k = None" "\<not> peerAllowed k c"
    | "map_of (c_peers c) k = None" "peerAllowed k c" by blast
  then show ?thesis
  proof cases
    case 1
    with assms show ?thesis by (intro known) (simp_all add: addPeerLocked_def)
  next
    case 2
    with assms show ?thesis by (intro refused) (simp_all add: addPeerLocked_def)
  next
    case 3
    show ?thesis
    proof (cases ok)
      case True
      with assms 3 ipc show ?thesis by (intro added [of w]) (simp_all add: addPeerLocked_def)
    next
      case False
      with assms 3 ipc show ?thesis by (intro failed [of w]) (simp_all add: addPeerLocked_def)
    qed
  qed
qed

lemma core_inv_addPeer:
  assumes laws: "wg_laws W" "key_laws K" and inv: "core_inv W K c" and add: "addPeerLocked W K k c = (c', e)"
  shows "core_inv W K c' \<and> (e = None \<longrightarrow> map_of (c_peers c') k \<noteq> None) \<and> c_bind c' = c_bind c"
  using add
proof (cases rule: addPeerLocked_cases)
  case (failed w)
  have "device_ok W K (c_isServer c) w" using device_ok_set [OF laws _ failed(5)] inv by (simp add: core_inv_def)
  moreover have "configured W K w k'" if "map_of (c_peers c) k' \<noteq> None" for k'
  proof (rule configured_set [OF laws failed(5)])
    show "configured W K (c_wg c) k' \<and> k' \<noteq> k \<or> False \<and> k' = k" using that failed(1) inv by (auto simp: core_inv_def)
  qed
  ultimately show ?thesis using inv failed by (simp add: core_inv_def)
next
  case (added w)
  have "device_ok W K (c_isServer c) w" using device_ok_set [OF laws _ added(5)] inv by (simp add: core_inv_def)
  moreover have "configured W K w k'" if "map_of (AList.update k () (c_peers c)) k' \<noteq> None" for k'
    using configured_set [OF laws added(5), of k'] that inv by (auto simp: core_inv_def map_of_update split: if_splits)
  ultimately show ?thesis using inv added by (auto simp: core_inv_def map_of_update)
qed (use inv in auto)

lemma configured_remove:
  assumes "wg_laws W" "key_laws K" "IpcSet W (remove_peer_text (nodePublicHex K k)) w = (w', ok)"
    "configured W K w k'" "ok \<longrightarrow> k' \<noteq> k"
  shows "configured W K w' k'"
  using wg_remove_peer [OF assms(1) line_safe_hex assms(3)] assms(4,5) nodePublicHex_inject [OF assms(2), of k' k]
  by (auto simp: configured_def)

lemma core_inv_remove:
  assumes laws: "wg_laws W" "key_laws K" and inv: "core_inv W K c"
  shows "core_inv W K (core_RemovePath W K k path c)"
proof (cases "map_of (b_paths (c_bind c)) k = path")
  case False
  then show ?thesis using inv by (simp add: core_RemovePath_def bind_RemovePath_def)
next
  case True
  let ?c = "c\<lparr>c_bind := (c_bind c)\<lparr>b_paths := AList.delete k (b_paths (c_bind c))\<rparr>\<rparr>"
  have base: "core_inv W K ?c" using inv by (auto simp: core_inv_def map_of_delete_iff)
  show ?thesis
  proof (cases "map_of (c_peers c) k")
    case None
    then show ?thesis using True base by (simp add: core_RemovePath_def bind_RemovePath_def)
  next
    case (Some u)
    obtain w ok where ipc: "IpcSet W (remove_peer_text (nodePublicHex K k)) (c_wg c) = (w, ok)" by fastforce
    note l = wg_remove_peer [OF laws(1) line_safe_hex ipc]
    have dev: "device_ok W K (c_isServer c) w"
      using inv l(2) by (auto simp: core_inv_def device_ok_def split: if_splits)
    have conf: "configured W K w k'" if "map_of (c_peers c) k' \<noteq> None" "ok \<longrightarrow> k' \<noteq> k" for k'
      using configured_remove [OF laws ipc] inv that by (simp add: core_inv_def)
    have "core_RemovePath W K k path c =
        (if ok then ?c\<lparr>c_wg := w, c_peers := AList.delete k (c_peers c)\<rparr> else ?c\<lparr>c_wg := w\<rparr>)"
      using True Some ipc by (simp add: core_RemovePath_def bind_RemovePath_def)
    then show ?thesis using base dev conf by (auto simp: core_inv_def map_of_delete_iff)
  qed
qed

lemma inject_paths [simp]: "b_paths (fst (bind_Inject now pick src payload b)) = b_paths b"
proof -
  have push: "b_paths (fst (inject_push now src payload b)) = b_paths b"
    by (simp add: inject_push_def split: prod.splits sum.splits option.splits)
  have "b_paths (fst (inject_select gen pick pkt b')) = b_paths b'" for gen pkt and b' :: "('a, 'b) masqueBind"
    by (simp add: inject_select_def set_channels_def Let_def)
  with push show ?thesis by (auto simp: bind_Inject_def split: option.splits prod.splits)
qed

lemma receive_paths:
  "bind_receive gen pick packets sizes eps b = Some (b', r) \<Longrightarrow> b_paths b' = b_paths b"
  by (auto simp: bind_receive_def set_channels_def Let_def split: if_splits list.splits)

lemma close_paths [simp]: "b_paths (bind_Close b) = b_paths b"
  by (simp add: bind_Close_def set_channels_def split: option.splits)

lemma core_inv_bind: "core_inv W K c \<Longrightarrow> b_paths b = b_paths (c_bind c) \<Longrightarrow> core_inv W K (c\<lparr>c_bind := b\<rparr>)"
  by (simp add: core_inv_def)

lemma core_inv_exec:
  assumes laws: "wg_laws W" "key_laws K" and inv: "core_inv W K c"
  shows "core_inv W K (core_exec W K op c)"
proof (cases op)
  case (OpAddPeer k)
  then show ?thesis
    using core_inv_addPeer [OF laws inv, of k] inv by (cases "addPeerLocked W K k c") (simp add: AddPeer_def)
next
  case (OpSetPath k path)
  obtain c' e where add: "addPeerLocked W K k c = (c', e)" by fastforce
  note a = core_inv_addPeer [OF laws inv add]
  have "core_inv W K (c'\<lparr>c_bind := bind_SetPath k path (c_bind c')\<rparr>)" if "e = None"
    using a that by (auto simp: core_inv_def bind_SetPath_def map_of_update map_of_delete_iff split: option.splits)
  then show ?thesis using OpSetPath add a inv by (simp add: core_SetPath_def split: option.splits)
next
  case (OpRemovePath k path)
  then show ?thesis using core_inv_remove [OF laws inv] by simp
next
  case (OpInject now pick k payload)
  obtain c' e where add: "addPeerLocked W K k c = (c', e)" by fastforce
  note a = core_inv_addPeer [OF laws inv add]
  have "core_inv W K (c'\<lparr>c_bind := fst (bind_Inject now pick k payload (c_bind c'))\<rparr>)"
    by (rule core_inv_bind) (use a in simp_all)
  moreover obtain b res where "bind_Inject now pick k payload (c_bind c') = (b, res)" by fastforce
  ultimately show ?thesis
    using OpInject add a inv by (simp add: core_Inject_def AddPeer_def split: option.splits)
next
  case (OpReceive gen pick packets sizes eps)
  then show ?thesis
    using inv core_inv_bind [OF inv receive_paths] by (auto split: option.splits)
next
  case (OpAllow k)
  then show ?thesis using inv by (simp add: core_AddAllowedClient_def core_inv_def)
next
  case OpClose
  then show ?thesis using inv by (simp add: core_Close_def core_inv_def)
qed

lemma core_inv_run: "wg_laws W \<Longrightarrow> key_laws K \<Longrightarrow> core_inv W K c \<Longrightarrow> core_inv W K (core_run W K ops c)"
  by (induction ops arbitrary: c) (simp_all add: core_inv_exec)

lemma newMasqueCore_Inr:
  assumes "newMasqueCore W P Raw32 stack_ok up_ok w0 priv opts hasLog = Inr c"
  obtains w1 where "IpcSet W (private_key_text (hex_encode (Raw32 priv))) w0 = (w1, True)" "c_wg c = w1"
    "c_peers c = []" "b_paths (c_bind c) = []" "c_isServer c = o_IsServer opts"
    "c_allowedClients c = (if o_AllowedClients opts = [] then None else Some (o_AllowedClients opts))"
    "c_pub c = Public P priv"
  using assms
  by (auto simp: newMasqueCore_def bind_Open_def newMasqueBind_def Let_def split: if_splits prod.splits bool.splits)

lemma core_inv_new:
  assumes "wg_laws W" "newMasqueCore W P Raw32 stack_ok up_ok w0 priv opts hasLog = Inr c" "wg_peers W w0 = Map.empty"
  shows "core_inv W K c"
proof -
  from assms(2) obtain w1 where w1: "IpcSet W (private_key_text (hex_encode (Raw32 priv))) w0 = (w1, True)" "c_wg c = w1"
    "c_peers c = []" "b_paths (c_bind c) = []" by (rule newMasqueCore_Inr)
  have "line_safe (hex_encode (Raw32 priv))"
    unfolding line_safe_def using set_hex_encode [of "CHR 0x0A"] by (auto simp: hex_value_def)
  then have "wg_peers W w1 = Map.empty" by (rule wg_private_key [OF assms(1) _ w1(1) assms(3)])
  then show ?thesis using w1 by (simp add: core_inv_def device_ok_def)
qed

section \<open>An instance of the device\<close>

type_synonym raw_device = "(string, string \<times> string list) gomap \<times> string"

definition raw_IpcSet :: "string \<Rightarrow> raw_device \<Rightarrow> raw_device \<times> bool" where
  "raw_IpcSet conf w =
     (case split_on CHR 0x0A conf of
        [a, b, c, d, e, f] \<Rightarrow>
          (let h = drop 11 a; ip = drop 11 d in
           if h = snd w then (w, True)
           else ((AList.update h (drop 9 b, [ip])
                   (map (\<lambda>(h, e, ips). (h, e, filter (\<lambda>i. i \<noteq> ip) ips)) (fst w)), snd w), True))
      | [a, b, c, d] \<Rightarrow> ((AList.delete (drop 11 a) (fst w), snd w), True)
      | _ \<Rightarrow> (w, True))"

definition raw_wg :: "raw_device wg_api" where
  "raw_wg = \<lparr>IpcSet = raw_IpcSet, wg_peers = (\<lambda>w h. if h = snd w then None else map_of (fst w) h), wg_own = snd\<rparr>"

lemma raw_set_peer:
  assumes "line_safe h" "line_safe ep" "line_safe ip"
  shows "raw_IpcSet (set_peer_text h ep ip) w =
     (if h = snd w then (w, True)
      else ((AList.update h (ep, [ip]) (map (\<lambda>(h, e, ips). (h, e, filter (\<lambda>i. i \<noteq> ip) ips)) (fst w)), snd w), True))"
proof -
  have "split_on CHR 0x0A (set_peer_text h ep ip) =
      [''public_key='' @ h, ''endpoint='' @ ep, ''replace_allowed_ips=true'', ''allowed_ip='' @ ip, [], []]"
    using assms by (simp add: set_peer_text_def newline_def split_on_append split_on_absent line_safe_def)
  then show ?thesis by (simp add: raw_IpcSet_def)
qed

lemma raw_remove_peer:
  assumes "line_safe h"
  shows "raw_IpcSet (remove_peer_text h) w = ((AList.delete h (fst w), snd w), True)"
proof -
  have "split_on CHR 0x0A (remove_peer_text h) = [''public_key='' @ h, ''remove=true'', [], []]"
    using assms by (simp add: remove_peer_text_def newline_def split_on_append split_on_absent line_safe_def)
  then show ?thesis by (simp add: raw_IpcSet_def)
qed

lemma raw_private_key:
  assumes "line_safe h"
  shows "raw_IpcSet (private_key_text h) w = (w, True)"
proof -
  have "split_on CHR 0x0A (private_key_text h) = [''private_key='' @ h, [], []]"
    using assms by (simp add: private_key_text_def newline_def split_on_append split_on_absent line_safe_def)
  then show ?thesis by (simp add: raw_IpcSet_def)
qed

lemma map_of_filtered:
  "map_of (map (\<lambda>(h, e, ips). (h, e, filter Q ips)) m) h = map_option (\<lambda>(e, ips). (e, filter Q ips)) (map_of m h)"
  by (induction m) auto

lemma wg_laws_raw: "wg_laws raw_wg"
  unfolding wg_laws_def
proof (intro conjI allI impI)
  fix h ep ip w w' ok h'
  assume a: "line_safe h \<and> line_safe ep \<and> line_safe ip \<and> IpcSet raw_wg (set_peer_text h ep ip) w = (w', ok)"
  then have eq: "(w', ok) = (if h = snd w then (w, True)
      else ((AList.update h (ep, [ip]) (map (\<lambda>(h, e, ips). (h, e, filter (\<lambda>i. i \<noteq> ip) ips)) (fst w)), snd w), True))"
    using raw_set_peer [of h ep ip w] by (simp add: raw_wg_def)
  show "wg_own raw_wg w' = wg_own raw_wg w" using eq by (simp add: raw_wg_def split: if_splits)
  show "case wg_peers raw_wg w h' of None \<Rightarrow> wg_peers raw_wg w' h' = None
      | Some (e, ips) \<Rightarrow> \<exists>ips'. wg_peers raw_wg w' h' = Some (e, ips') \<and> set ips' \<subseteq> set ips" if "h' \<noteq> h"
    using eq that
    by (auto simp: raw_wg_def map_of_update map_of_filtered split: if_splits option.splits)
  show "case wg_peers raw_wg w' h of None \<Rightarrow> ok \<longrightarrow> h = wg_own raw_wg w
      | Some (e, ips) \<Rightarrow> (ok \<longrightarrow> e = ep \<and> set ips = {ip}) \<and>
          (e \<in> {ep, []} \<or> map_option fst (wg_peers raw_wg w h) = Some e) \<and>
          set ips \<subseteq> insert ip (case wg_peers raw_wg w h of None \<Rightarrow> {} | Some (_, old) \<Rightarrow> set old)"
    using eq by (auto simp: raw_wg_def map_of_update split: if_splits option.splits)
next
  fix h w w' ok
  assume a: "line_safe h \<and> IpcSet raw_wg (remove_peer_text h) w = (w', ok)"
  then have "(w', ok) = ((AList.delete h (fst w), snd w), True)" using raw_remove_peer [of h w] by (simp add: raw_wg_def)
  then show "wg_own raw_wg w' = wg_own raw_wg w"
    "wg_peers raw_wg w' = (if ok then (wg_peers raw_wg w)(h := None) else wg_peers raw_wg w)"
    by (auto simp: raw_wg_def map_of_delete_iff)
next
  fix h w w' ok h'
  assume a: "line_safe h \<and> IpcSet raw_wg (private_key_text h) w = (w', ok)"
  then have "w' = w" using raw_private_key [of h w] by (simp add: raw_wg_def)
  then show "wg_peers raw_wg w' h' \<in> {None, wg_peers raw_wg w h'}" by simp
qed

section \<open>The allowlist\<close>

lemma addPeer_peers:
  assumes "addPeerLocked W K k c = (c', e)"
  shows "c_allowedClients c' = c_allowedClients c" "c_isServer c' = c_isServer c"
    "fst ` set (c_peers c') \<subseteq> fst ` set (c_peers c) \<union> (if peerAllowed k c then {k} else {})"
  using assms by (cases rule: addPeerLocked_cases; simp add: dom_update subset_insertI2)+

text \<open>The keys an operation makes known to the allowlist.\<close>

fun op_allows :: "('k, 'f) core_op \<Rightarrow> 'k set" where
  "op_allows (OpAllow k) = {k}"
| "op_allows op = {}"

definition listed :: "'k set \<Rightarrow> ('k, 'f, 'w, 'r, 'h) masqueCore \<Rightarrow> bool" where
  "listed A c \<longleftrightarrow> c_isServer c \<and> (\<exists>l. c_allowedClients c = Some l \<and> set l \<subseteq> A) \<and> fst ` set (c_peers c) \<subseteq> A"

lemma listed_addPeer:
  assumes "listed A c" "addPeerLocked W K k c = (c', e)"
  shows "listed A c'"
proof -
  from assms(1) obtain l where l: "c_isServer c" "c_allowedClients c = Some l" "set l \<subseteq> A" "fst ` set (c_peers c) \<subseteq> A"
    by (auto simp: listed_def)
  then have "(if peerAllowed k c then {k} else {}) \<subseteq> A" by (auto simp: peerAllowed_def)
  with addPeer_peers(3) [OF assms(2)] l(4) have "fst ` set (c_peers c') \<subseteq> A" by (meson Un_least order_trans)
  with addPeer_peers(1,2) [OF assms(2)] l show ?thesis by (simp add: listed_def)
qed

lemma listed_exec: "listed A c \<Longrightarrow> listed (A \<union> op_allows op) (core_exec W K op c)"
proof (cases op)
  case (OpAddPeer k)
  assume "listed A c"
  with OpAddPeer show ?thesis
    using listed_addPeer [of A c W K k] by (cases "addPeerLocked W K k c") (simp add: AddPeer_def)
next
  case (OpSetPath k path)
  assume l: "listed A c"
  obtain c' e where add: "addPeerLocked W K k c = (c', e)" by fastforce
  with listed_addPeer [OF l add] l OpSetPath show ?thesis
    by (simp add: core_SetPath_def listed_def split: option.splits)
next
  case (OpRemovePath k path)
  assume "listed A c"
  with OpRemovePath show ?thesis
    by (auto simp: core_RemovePath_def listed_def Let_def set_delete split: prod.splits bool.splits)
next
  case (OpInject now pick k payload)
  assume l: "listed A c"
  obtain c' e where add: "addPeerLocked W K k c = (c', e)" by fastforce
  with listed_addPeer [OF l add] l OpInject show ?thesis
    by (simp add: core_Inject_def AddPeer_def listed_def split: option.splits prod.splits)
next
  case (OpReceive gen pick packets sizes eps)
  assume "listed A c"
  with OpReceive show ?thesis by (simp add: listed_def split: option.splits prod.splits)
next
  case (OpAllow k)
  assume "listed A c"
  with OpAllow show ?thesis by (auto simp: listed_def core_AddAllowedClient_def)
next
  case OpClose
  assume "listed A c"
  with OpClose show ?thesis by (simp add: listed_def core_Close_def)
qed

lemma listed_run: "listed A c \<Longrightarrow> listed (A \<union> \<Union> (op_allows ` set ops)) (core_run W K ops c)"
proof (induction ops arbitrary: A c)
  case (Cons op ops)
  from Cons.IH [OF listed_exec [OF Cons.prems, of op W K]] show ?case by (simp add: Un_assoc)
qed simp

lemma isServer_exec: "c_isServer (core_exec W K op c) = c_isServer c"
  by (cases op) (auto simp: AddPeer_def core_SetPath_def core_RemovePath_def core_Inject_def Let_def
      core_AddAllowedClient_def core_Close_def addPeerLocked_def split: prod.splits option.splits bool.splits)

lemma isServer_run: "c_isServer (core_run W K ops c) = c_isServer c"
  by (induction ops arbitrary: c) (simp_all add: isServer_exec)

section \<open>Properties\<close>

text \<open>
  C17: the WireGuard device routes each peer to itself and nowhere else. In every state a server core
  reaches by adding and removing peers, setting and removing paths, receiving packets and changing the
  allowlist, whatever configuration calls fail: every peer of the device is a node key whose endpoint,
  if set, parses back to that key and whose only allowed source address is the address derived from
  that key, so no peer can send from another's address; every path belongs to an admitted peer; and
  every admitted peer other than the server itself is configured in the device with its own endpoint.
\<close>
theorem core_peer_isolation:
  assumes "key_laws K" "wg_laws W" "wg_peers W w0 = Map.empty" "o_IsServer opts"
    "newMasqueCore W P Raw32 stack_ok up_ok w0 priv opts hasLog = Inr c0" "c = core_run W K ops c0"
  shows "(\<forall>h e ips. wg_peers W (c_wg c) h = Some (e, ips) \<longrightarrow>
            (\<exists>k. h = nodePublicHex K k \<and> (e = [] \<or> ParseEndpoint K e = Some k) \<and>
                 set ips \<subseteq> {String6 (fst (tcAddrForKey K k)) @ ''/128''})) \<and>
         (\<forall>k f. map_of (b_paths (c_bind c)) k = Some f \<longrightarrow> map_of (c_peers c) k \<noteq> None) \<and>
         (\<forall>k. map_of (c_peers c) k \<noteq> None \<longrightarrow> nodePublicHex K k \<noteq> wg_own W (c_wg c) \<longrightarrow>
            (\<exists>ips. wg_peers W (c_wg c) (nodePublicHex K k) = Some (nodePublicHex K k, ips)))"
proof -
  have inv: "core_inv W K c" unfolding assms(6) by (rule core_inv_run [OF assms(2,1) core_inv_new [OF assms(2,5,3)]])
  have "c_isServer (core_run W K ops c0) = c_isServer c0" by (rule isServer_run)
  moreover have "c_isServer c0" using assms(4,5) by (auto elim: newMasqueCore_Inr)
  ultimately have srv: "c_isServer c" using assms(6) by simp
  have ep: "ParseEndpoint K (nodePublicHex K k) = Some k" for k
    using parse_endpoint_hex [OF assms(1)] by (simp add: nodePublicHex_def)
  have "\<exists>k. h = nodePublicHex K k \<and> (e = [] \<or> ParseEndpoint K e = Some k) \<and>
      set ips \<subseteq> {String6 (fst (tcAddrForKey K k)) @ ''/128''}" if "wg_peers W (c_wg c) h = Some (e, ips)" for h e ips
  proof -
    from inv that srv obtain k where "h = nodePublicHex K k" "e \<in> {h, []}" "set ips \<subseteq> {allowed_ip K True k}"
      unfolding core_inv_def device_ok_def by (metis (full_types))
    with ep show ?thesis by (auto simp: allowed_ip_def)
  qed
  then show ?thesis using inv by (auto simp: core_inv_def configured_def)
qed

definition sample_options :: "raw_key list \<Rightarrow> (raw_key, unit, unit) masqueCoreOptions" where
  "sample_options allowed = \<lparr>o_IsServer = True, o_AllowedClients = allowed, o_OnTCP = None, o_OnTCPForward = None,
     o_ServedTCPPorts = None\<rparr>"

definition sample_core :: "raw_key list \<Rightarrow> (raw_key, 'f, raw_device, unit, unit) masqueCore" where
  "sample_core allowed = \<lparr>c_pub = 2, c_isServer = True, c_allowedClients = (if allowed = [] then None else Some allowed),
     c_onTCP = None, c_onTCPForward = None, c_servedTCPPorts = None, c_peers = [],
     c_bind = fst (bind_Open (newMasqueBind 2) :: _ \<times> (unit bind_error + nat)), c_wg = ([], ''own''), c_closed = False\<rparr>"

lemma sample_core_new:
  "newMasqueCore raw_wg raw_privates (\<lambda>p. be_put 32 (unat p)) True True ([], ''own'') 2 (sample_options allowed) True
     = Inr (sample_core allowed)"
proof -
  have "line_safe (hex_encode (be_put 32 (unat (2 :: raw_key))))"
    unfolding line_safe_def using set_hex_encode [of "CHR 0x0A"] by (auto simp: hex_value_def)
  then show ?thesis
    by (simp add: newMasqueCore_def raw_privates_def raw_wg_def raw_private_key sample_core_def sample_options_def
        del: be_put.simps)
qed

lemma sample_addPeer:
  assumes "k \<in> set allowed"
  shows "\<exists>w. addPeerLocked raw_wg raw_keys k (sample_core allowed) =
    ((sample_core allowed)\<lparr>c_wg := w, c_peers := [(k, ())]\<rparr>, None)"
proof -
  have "IpcSet raw_wg (set_peer_text h h ip) w = (fst (IpcSet raw_wg (set_peer_text h h ip) w), True)"
    if "line_safe h" "line_safe ip" for h ip w using raw_set_peer [of h h ip w] that by (simp add: raw_wg_def)
  then have "\<exists>w. IpcSet raw_wg (set_peer_text (nodePublicHex raw_keys k) (nodePublicHex raw_keys k) (allowed_ip raw_keys True k))
      ([], ''own'') = (w, True)"
    using line_safe_hex line_safe_allowed_ip by metis
  then show ?thesis using assms by (auto simp: addPeerLocked_def sample_core_def peerAllowed_def)
qed

abbreviation unit_core :: "raw_key list \<Rightarrow> (raw_key, unit, raw_device, unit, unit) masqueCore" where
  "unit_core \<equiv> sample_core"

theorem core_peer_isolation_witness:
  "\<exists>c ips. c = core_run raw_wg raw_keys [OpSetPath 7 (Some ())] (unit_core [7]) \<and>
     map_of (b_paths (c_bind c)) 7 = Some () \<and>
     wg_peers raw_wg (c_wg c) (nodePublicHex raw_keys 7) = Some (nodePublicHex raw_keys 7, ips)"
proof -
  let ?c = "core_run raw_wg raw_keys [OpSetPath 7 (Some ())] (unit_core [7])"
  obtain w where add: "addPeerLocked raw_wg raw_keys 7 (unit_core [7]) = ((unit_core [7])\<lparr>c_wg := w, c_peers := [(7, ())]\<rparr>, None)"
    using sample_addPeer [of 7 "[7]"] by auto
  then have c: "?c = (unit_core [7])\<lparr>c_wg := w, c_peers := [(7, ())], c_bind := bind_SetPath 7 (Some ()) (c_bind (unit_core [7]))\<rparr>"
    by (simp add: core_SetPath_def raw_keys_def [THEN arg_cong, of IsZero])
  have empty: "wg_peers raw_wg ([], ''own'') = Map.empty" by (auto simp: raw_wg_def)
  have srv: "o_IsServer (sample_options [7])" by (simp add: sample_options_def)
  have "nodePublicHex raw_keys 7 \<noteq> wg_own raw_wg (c_wg ?c)"
  proof -
    have "length (nodePublicHex raw_keys 7) = 64" by (simp add: nodePublicHex_def raw_keys_def del: be_put.simps)
    moreover have "wg_own raw_wg (c_wg ?c) = ''own''"
      using add c by (auto simp: addPeerLocked_def sample_core_def peerAllowed_def raw_wg_def raw_set_peer line_safe_hex line_safe_allowed_ip
          split: if_splits prod.splits bool.splits)
    ultimately show ?thesis by auto
  qed
  moreover have "map_of (c_peers ?c) 7 \<noteq> None" using c by simp
  ultimately obtain ips where "wg_peers raw_wg (c_wg ?c) (nodePublicHex raw_keys 7) = Some (nodePublicHex raw_keys 7, ips)"
    using core_peer_isolation [OF key_laws_raw_keys wg_laws_raw empty srv sample_core_new refl, of "[OpSetPath 7 (Some ())]"] by blast
  then show ?thesis using c by (intro exI [of _ ?c] exI [of _ ips]) (simp add: bind_SetPath_def map_of_update)
qed

text \<open>
  C18: the allowlist. On a server started with a list of clients, every admitted peer is on the list
  or was added to it later, whatever packets and path changes arrive; a peer that is not on the list
  and not yet admitted is refused by every way in, with no change to the core; peers already admitted
  stay admitted when the list changes; and the first addition to a server with no list closes it to
  everybody else.
\<close>
theorem core_allowlist:
  assumes "newMasqueCore W P Raw32 stack_ok up_ok w0 priv opts hasLog = Inr c0" "o_IsServer opts"
    "c = core_run W K ops c0" "\<not> IsZero K k"
  shows "(o_AllowedClients opts \<noteq> [] \<and> map_of (c_peers c) k \<noteq> None \<longrightarrow>
            k \<in> set (o_AllowedClients opts) \<union> \<Union> (op_allows ` set ops)) \<and>
         (\<not> peerAllowed k c \<and> map_of (c_peers c) k = None \<longrightarrow>
            AddPeer W K k c = (c, Some PeerNotAllowed) \<and>
            core_SetPath W K k path c = (c, Some PeerNotAllowed) \<and>
            core_Inject W K now pick k payload c = (c, Inl PeerNotAllowed)) \<and>
         (map_of (c_peers c) k \<noteq> None \<longrightarrow> AddPeer W K k (core_AddAllowedClient k' c) = (core_AddAllowedClient k' c, None)) \<and>
         (c_allowedClients c = None \<longrightarrow> (peerAllowed k (core_AddAllowedClient k' c) \<longleftrightarrow> k = k'))"
proof (intro conjI impI)
  assume a: "o_AllowedClients opts \<noteq> [] \<and> map_of (c_peers c) k \<noteq> None"
  have "listed (set (o_AllowedClients opts)) c0"
    using assms(1,2) a by (auto elim!: newMasqueCore_Inr simp: listed_def)
  from listed_run [OF this, of ops W K]
  have "fst ` set (c_peers c) \<subseteq> set (o_AllowedClients opts) \<union> \<Union> (op_allows ` set ops)"
    unfolding listed_def assms(3) by blast
  moreover have "k \<in> fst ` set (c_peers c)" using a by (force dest: map_of_SomeD)
  ultimately show "k \<in> set (o_AllowedClients opts) \<union> \<Union> (op_allows ` set ops)" by blast
next
  assume a: "\<not> peerAllowed k c \<and> map_of (c_peers c) k = None"
  then have "addPeerLocked W K k c = (c, Some PeerNotAllowed)" by (simp add: addPeerLocked_def)
  then show "AddPeer W K k c = (c, Some PeerNotAllowed)" "core_SetPath W K k path c = (c, Some PeerNotAllowed)"
    "core_Inject W K now pick k payload c = (c, Inl PeerNotAllowed)"
    using assms(4) by (simp_all add: AddPeer_def core_SetPath_def core_Inject_def)
next
  assume "map_of (c_peers c) k \<noteq> None"
  then show "AddPeer W K k (core_AddAllowedClient k' c) = (core_AddAllowedClient k' c, None)"
    using assms(4) by (simp add: AddPeer_def addPeerLocked_def core_AddAllowedClient_def)
next
  assume "c_allowedClients c = None"
  moreover have "c_isServer c"
    using assms(1,2) by (auto simp: assms(3) isServer_run elim!: newMasqueCore_Inr)
  ultimately show "peerAllowed k (core_AddAllowedClient k' c) \<longleftrightarrow> k = k'"
    by (simp add: peerAllowed_def core_AddAllowedClient_def)
qed

theorem core_allowlist_witness:
  "\<exists>c. c = core_run raw_wg raw_keys [OpAddPeer 8, OpAllow 9] (unit_core [7]) \<and>
     AddPeer raw_wg raw_keys 8 c = (c, Some PeerNotAllowed)"
proof -
  let ?c = "core_run raw_wg raw_keys [OpAddPeer 8, OpAllow 9] (unit_core [7])"
  have z: "\<not> IsZero raw_keys 8" by (simp add: raw_keys_def)
  have c: "?c = core_AddAllowedClient 9 (unit_core [7])"
    by (simp add: AddPeer_def z addPeerLocked_def peerAllowed_def) (simp add: sample_core_def)
  have "\<not> peerAllowed 8 ?c \<and> map_of (c_peers ?c) 8 = None"
    unfolding c by (simp add: peerAllowed_def core_AddAllowedClient_def sample_core_def)
  with core_allowlist [where ?c0.0 = "unit_core [7]", OF sample_core_new _ refl z, of "[OpAddPeer 8, OpAllow 9]"] show ?thesis
    by (auto simp: sample_options_def)
qed

lemma zero_bytes:
  "replicate 8 (0 :: byte) = [0, 0, 0, 0, 0, 0, 0, 0]" "replicate 10 (0 :: byte) = [0, 0, 0, 0, 0, 0, 0, 0, 0, 0]"
  "replicate 12 (0 :: byte) = [0, 0, 0, 0, 0, 0, 0, 0, 0, 0, 0, 0]"
  by (simp_all add: numeral_eq_Suc)



end
