(* ===== verification/Browser_Bind.thy ===== *)
theory Browser_Bind
  imports Bind Fragment_Browser Core
begin

text \<open>
  \<^verbatim>\<open>browserBind\<close>, \<^verbatim>\<open>browserTun\<close> and \<^verbatim>\<open>browserCore\<close> of \<^verbatim>\<open>masquecat_browser_js.go\<close>: the
  browser's counterparts of \<^verbatim>\<open>masqueBind\<close>, \<^verbatim>\<open>masqueTun\<close> and \<^verbatim>\<open>masqueCore\<close>. The bind has one path, to the
  server; it keeps its channels after \<^verbatim>\<open>Close\<close>, reads them when a receive function is called instead
  of when it is made, and does not reset its reassembler. As in \<^verbatim>\<open>Bind\<close>, the channel pairs are numbered, and a
  \<^verbatim>\<open>select\<close> with two ready cases takes the one an argument says.

  \<open>as_native\<close> maps the browser's bind to the native one, and the refinement lemmas show that an open browser bind does
  what the native one does.
\<close>

section \<open>Model\<close>

definition browserMasqueQueueSize :: nat where [go_consts]: "browserMasqueQueueSize = 512"
definition browserMasqueMTU :: nat where [go_consts]: "browserMasqueMTU = 1280"
definition browserNodePublicTextPrefix :: string where "browserNodePublicTextPrefix = ''nodekey:''"

subsection \<open>Endpoints\<close>

definition browserEndpoint_DstToString :: "'k node_key_api \<Rightarrow> 'k \<Rightarrow> string" where
  "browserEndpoint_DstToString K peer = TrimPrefix (KeyString K peer) browserNodePublicTextPrefix"

definition browserEndpoint_DstToBytes :: "'k node_key_api \<Rightarrow> 'k \<Rightarrow> bytes" where
  "browserEndpoint_DstToBytes K peer = AppendTo K peer"

definition browser_ParseEndpoint :: "'k node_key_api \<Rightarrow> string \<Rightarrow> 'k option" where
  "browser_ParseEndpoint K s =
     (let s = TrimPrefix s browserNodePublicTextPrefix in
      if hex_decode s = None \<or> length s \<noteq> NodePublicRawLen * 2 then None
      else UnmarshalText K (browserNodePublicTextPrefix @ s))"

subsection \<open>The bind\<close>

record ('k, 'f) browserBind =
  bb_local :: 'k
  bb_open :: bool
  bb_chan :: "nat option"
  bb_channels :: "'k bind_channels list"
  bb_path :: "'f option"
  bb_peer :: 'k
  bb_frag :: "'k browserReassembler"

definition new_browserBind :: "'k \<Rightarrow> 'k \<Rightarrow> ('k, 'f) browserBind" where
  "new_browserBind k zero = \<lparr>bb_local = k, bb_open = False, bb_chan = None, bb_channels = [], bb_path = None, bb_peer = zero,
     bb_frag = \<lparr>sets = []\<rparr>\<rparr>"

datatype 'e browser_bind_error =
  BrAlreadyOpen | BrClosed | BrReceiveBuffer | BrWrongEndpoint | BrPathUnavailable | BrOffset | BrFragment fragment_error | BrPath 'e

definition browser_Open :: "('k, 'f) browserBind \<Rightarrow> ('k, 'f) browserBind \<times> 'e browser_bind_error option" where
  "browser_Open b =
     (if bb_open b then (b, Some BrAlreadyOpen)
      else (b\<lparr>bb_channels := bb_channels b @ [\<lparr>ch_recv = [], ch_closed = False\<rparr>], bb_chan := Some (length (bb_channels b)),
              bb_open := True\<rparr>, None))"

definition set_browser_channels :: "nat \<Rightarrow> 'k bind_channels \<Rightarrow> ('k, 'f) browserBind \<Rightarrow> ('k, 'f) browserBind" where
  "set_browser_channels gen ch b = b\<lparr>bb_channels := (bb_channels b)[gen := ch]\<rparr>"

definition browser_Close :: "('k, 'f) browserBind \<Rightarrow> ('k, 'f) browserBind" where
  "browser_Close b =
     (if bb_open b then
        (case bb_chan b of
           None \<Rightarrow> b
         | Some gen \<Rightarrow> (set_browser_channels gen ((bb_channels b ! gen)\<lparr>ch_closed := True\<rparr>) b)\<lparr>bb_open := False\<rparr>)
      else b)"

text \<open>The receive function; \<open>None\<close> while it waits.\<close>

definition browser_receive ::
  "bool \<Rightarrow> bytes list \<Rightarrow> nat list \<Rightarrow> 'k option list \<Rightarrow> ('k, 'f) browserBind \<Rightarrow>
   (('k, 'f) browserBind \<times> ('e browser_bind_error + bytes list \<times> nat list \<times> 'k option list)) option" where
  "browser_receive pick packets sizes eps b =
     (case bb_chan b of
        None \<Rightarrow> None
      | Some gen \<Rightarrow>
          let ch = bb_channels b ! gen in
          if ch_closed ch \<and> (ch_recv ch = [] \<or> pick) then Some (b, Inl BrClosed)
          else case ch_recv ch of
                 [] \<Rightarrow> None
               | p # rest \<Rightarrow>
                   let b' = set_browser_channels gen (ch\<lparr>ch_recv := rest\<rparr>) b in
                   Some (b',
                     if packets = [] \<or> sizes = [] \<or> eps = [] \<or> length (in_payload p) > length (hd packets) then Inl BrReceiveBuffer
                     else Inr ((in_payload p @ drop (length (in_payload p)) (hd packets)) # tl packets,
                               length (in_payload p) # tl sizes, Some (in_src p) # tl eps)))"

fun browser_forward_all ::
  "('s \<Rightarrow> bytes \<Rightarrow> 's \<times> 'e option) \<Rightarrow> bytes list \<Rightarrow> 's \<Rightarrow> 's \<times> 'e browser_bind_error option" where
  "browser_forward_all send [] s = (s, None)"
| "browser_forward_all send (p # ps) s =
     (case send s p of (s', Some e) \<Rightarrow> (s', Some (BrPath e)) | (s', None) \<Rightarrow> browser_forward_all send ps s')"

fun browser_send_loop ::
  "('s \<Rightarrow> bytes \<Rightarrow> 's \<times> 'e option) \<Rightarrow> (nat \<Rightarrow> time) \<Rightarrow> int \<Rightarrow> nat \<Rightarrow> bytes list \<Rightarrow> u64 \<Rightarrow> 's \<Rightarrow>
   u64 \<times> 's \<times> 'e browser_bind_error option" where
  "browser_send_loop send clock offset i [] seq s = (seq, s, None)"
| "browser_send_loop send clock offset i (buf # bufs) seq s =
     (if offset < 0 \<or> offset > int (length buf) then (seq, s, Some BrOffset)
      else let payload = drop (nat offset) buf in
           case fragmentBrowserWireGuardPacket (clock i) seq payload of
             (Inl e, seq') \<Rightarrow> (seq', s, Some (BrFragment e))
           | (Inr fragments, seq') \<Rightarrow>
               (case browser_forward_all send (if fragments = [] then [payload] else fragments) s of
                  (s', Some e) \<Rightarrow> (seq', s', Some e)
                | (s', None) \<Rightarrow> browser_send_loop send clock offset (Suc i) bufs seq' s'))"

definition browser_Send ::
  "('f \<Rightarrow> 'k \<Rightarrow> 'k \<Rightarrow> 's \<Rightarrow> bytes \<Rightarrow> 's \<times> 'e option) \<Rightarrow> (nat \<Rightarrow> time) \<Rightarrow> bytes list \<Rightarrow>
   'k option \<Rightarrow> int \<Rightarrow> ('k, 'f) browserBind \<Rightarrow> u64 \<Rightarrow> 's \<Rightarrow> u64 \<times> 's \<times> 'e browser_bind_error option" where
  "browser_Send fwd clock bufs ep offset b seq s =
     (case ep of
        None \<Rightarrow> (seq, s, Some BrWrongEndpoint)
      | Some p \<Rightarrow>
          (case bb_path b of
             None \<Rightarrow> (seq, s, Some BrPathUnavailable)
           | Some path \<Rightarrow>
               if p \<noteq> bb_peer b then (seq, s, Some BrPathUnavailable)
               else browser_send_loop (fwd path (bb_local b) (bb_peer b)) clock offset 0 bufs seq s))"

definition browser_SetPath :: "'k \<Rightarrow> 'f option \<Rightarrow> ('k, 'f) browserBind \<Rightarrow> ('k, 'f) browserBind" where
  "browser_SetPath peer path b = b\<lparr>bb_peer := peer, bb_path := path\<rparr>"

text \<open>\<^verbatim>\<open>Inject\<close>: the push, then the look at the channels under the lock, then the wait on them.\<close>

definition browser_inject_push ::
  "time \<Rightarrow> 'k \<Rightarrow> bytes \<Rightarrow> ('k, 'f) browserBind \<Rightarrow> ('k, 'f) browserBind \<times> 'k masqueInboundPacket option" where
  "browser_inject_push now src payload b =
     (case browserPush (bb_frag b) src payload now of
        (r, Inr (Some out)) \<Rightarrow> (b\<lparr>bb_frag := r\<rparr>, Some \<lparr>in_src = src, in_payload = out\<rparr>)
      | (r, _) \<Rightarrow> (b\<lparr>bb_frag := r\<rparr>, None))"

definition browser_inject_select ::
  "nat \<Rightarrow> bool \<Rightarrow> 'k masqueInboundPacket \<Rightarrow> ('k, 'f) browserBind \<Rightarrow> ('k, 'f) browserBind \<times> inject_result" where
  "browser_inject_select gen pick pkt b =
     (let ch = bb_channels b ! gen; ready = length (ch_recv ch) < browserMasqueQueueSize in
      if ch_closed ch \<and> (\<not> ready \<or> pick) then (b, InjectClosed)
      else if ready then (set_browser_channels gen (ch\<lparr>ch_recv := ch_recv ch @ [pkt]\<rparr>) b, Injected)
      else (b, InjectWaits))"

definition browser_Inject ::
  "time \<Rightarrow> bool \<Rightarrow> 'k \<Rightarrow> bytes \<Rightarrow> ('k, 'f) browserBind \<Rightarrow> ('k, 'f) browserBind \<times> inject_result" where
  "browser_Inject now pick src payload b =
     (case browser_inject_push now src payload b of
        (b', None) \<Rightarrow> (b', InjectDropped)
      | (b', Some pkt) \<Rightarrow>
          if \<not> bb_open b' then (b', InjectClosed)
          else (case bb_chan b' of None \<Rightarrow> (b', InjectClosed) | Some gen \<Rightarrow> browser_inject_select gen pick pkt b'))"

subsection \<open>The packet side\<close>

datatype browser_tun_error = BrTunClosed | BrTunBuffer | BrTunOffset

definition browserTun_Read ::
  "bytes option \<Rightarrow> bytes list \<Rightarrow> nat list \<Rightarrow> int \<Rightarrow> browser_tun_error + bytes list \<times> nat list" where
  "browserTun_Read pkt bufs sizes offset =
     (case pkt of
        None \<Rightarrow> Inl BrTunClosed
      | Some raw \<Rightarrow>
          if bufs = [] \<or> sizes = [] \<or> offset < 0 \<or> offset + int (length raw) > int (length (hd bufs)) then Inl BrTunBuffer
          else Inr ((take (nat offset) (hd bufs) @ raw @ drop (nat offset + length raw) (hd bufs)) # tl bufs,
                    length raw # tl sizes))"

fun browserTun_Write :: "int \<Rightarrow> bytes list \<Rightarrow> (ip_proto \<times> bytes) list \<times> nat \<times> browser_tun_error option" where
  "browserTun_Write offset [] = ([], 0, None)"
| "browserTun_Write offset (buf # bufs) =
     (if offset < 0 \<or> offset \<ge> int (length buf) then ([], 0, Some BrTunOffset)
      else case packet_proto (drop (nat offset) buf) of
             None \<Rightarrow> browserTun_Write offset bufs
           | Some proto \<Rightarrow>
               (case browserTun_Write offset bufs of
                  (out, n, e) \<Rightarrow> ((proto, drop (nat offset) buf) # out, Suc n, e)))"

subsection \<open>The core\<close>

record ('k, 'f, 'w) browserCore =
  bcore_pub :: 'k
  bcore_bind :: "('k, 'f) browserBind"
  bcore_wg :: 'w

datatype browser_core_error = BrStack | BrKey | BrPeer | BrUp

text \<open>
  As for the native core, \<open>stack_ok\<close> is whether the set-up of the gVisor stack succeeds and \<open>up_ok\<close> whether
  \<^verbatim>\<open>wg.Up\<close> does, which opens the bind. The second value is whether the device was closed again.
\<close>

definition newBrowserCore ::
  "'w wg_api \<Rightarrow> 'k node_key_api \<Rightarrow> ('p, 'k) node_private_api \<Rightarrow> ('p \<Rightarrow> bytes) \<Rightarrow> bool \<Rightarrow> bool \<Rightarrow> 'w \<Rightarrow> 'k \<Rightarrow> 'p \<Rightarrow> 'k \<Rightarrow> 'f \<Rightarrow>
   (browser_core_error + ('k, 'f, 'w) browserCore) \<times> bool" where
  "newBrowserCore W K P Raw32 stack_ok up_ok w0 zero priv server path =
     (if \<not> stack_ok then (Inl BrStack, False)
      else let pub = Public P priv;
               bind = browser_SetPath server (Some path) (new_browserBind pub zero);
               raw = hex_encode (AppendTo K server)
           in case IpcSet W (private_key_text (hex_encode (Raw32 priv))) w0 of
                (w1, False) \<Rightarrow> (Inl BrKey, True)
              | (w1, True) \<Rightarrow>
                  (case IpcSet W (set_peer_text raw raw ''::/0'') w1 of
                     (w2, False) \<Rightarrow> (Inl BrPeer, True)
                   | (w2, True) \<Rightarrow>
                       if \<not> up_ok then (Inl BrUp, True)
                       else (Inr \<lparr>bcore_pub = pub,
                                  bcore_bind = fst (browser_Open bind :: _ \<times> unit browser_bind_error option),
                                  bcore_wg = w2\<rparr>, False)))"

definition browserCore_Inject ::
  "time \<Rightarrow> bool \<Rightarrow> 'k \<Rightarrow> bytes \<Rightarrow> ('k, 'f, 'w) browserCore \<Rightarrow> ('k, 'f, 'w) browserCore \<times> inject_result" where
  "browserCore_Inject now pick src payload c =
     (case browser_Inject now pick src payload (bcore_bind c) of (b, r) \<Rightarrow> (c\<lparr>bcore_bind := b\<rparr>, r))"

definition browserMasquePingAddr :: addr where
  "browserMasquePingAddr =
     ([0xFD, 0, 0x74, 0x61, 0x69, 0x6C, 0x63, 0x61, 0x74, 0, 0x70, 0x69, 0x6E, 0x67, 0, 1], [])"

definition browserMasquePingPort :: u16 where "browserMasquePingPort = 65535"

text \<open>The addresses that \<^verbatim>\<open>DialTCPPort\<close> and \<^verbatim>\<open>Ping\<close> connect to.\<close>

definition browserCore_DialTCPPort :: "'k node_key_api \<Rightarrow> 'k \<Rightarrow> u16 \<Rightarrow> addr_port" where
  "browserCore_DialTCPPort K server port = (tcAddrForKey K server, port)"

definition browserCore_Ping :: addr_port where
  "browserCore_Ping = (browserMasquePingAddr, browserMasquePingPort)"

section \<open>Refinement of the native bind\<close>

definition as_native :: "('k, 'f) browserBind \<Rightarrow> ('k, 'f) masqueBind" where
  "as_native b = \<lparr>b_local = bb_local b, b_current = (if bb_open b then bb_chan b else None), b_channels = bb_channels b,
     b_paths = (case bb_path b of None \<Rightarrow> [] | Some f \<Rightarrow> [(bb_peer b, f)]), b_fragments = bb_frag b\<rparr>"

lemma as_native_simps [simp]:
  "b_local (as_native b) = bb_local b" "b_channels (as_native b) = bb_channels b" "b_fragments (as_native b) = bb_frag b"
  "b_current (as_native b) = (if bb_open b then bb_chan b else None)"
  "as_native (b\<lparr>bb_frag := r\<rparr>) = (as_native b)\<lparr>b_fragments := r\<rparr>"
  "as_native (set_browser_channels gen ch b) = set_channels gen ch (as_native b)"
  by (simp_all add: as_native_def set_browser_channels_def set_channels_def split: option.split)

lemma push_same_state:
  assumes "forget_error x = forget_error y"
  shows "(case x of (r, Inr (Some out)) \<Rightarrow> f r out | (r, _) \<Rightarrow> g r) = (case y of (r, Inr (Some out)) \<Rightarrow> f r out | (r, _) \<Rightarrow> g r)"
  using assms by (cases x; cases y) (auto simp: forget_error_def split: sum.splits option.splits)

lemma refines_inject_push:
  assumes "\<not> wrong_length p"
  shows "map_prod as_native id (browser_inject_push now src p b) = inject_push now src p (as_native b)"
proof -
  have "map_prod as_native id (browser_inject_push now src p b) =
    (case browserPush (bb_frag b) src p now of
       (r, Inr (Some out)) \<Rightarrow> ((as_native b)\<lparr>b_fragments := r\<rparr>, Some \<lparr>in_src = src, in_payload = out\<rparr>)
     | (r, _) \<Rightarrow> ((as_native b)\<lparr>b_fragments := r\<rparr>, None))"
    by (simp add: browser_inject_push_def split: prod.split sum.split option.split)
  also have "\<dots> = inject_push now src p (as_native b)"
    unfolding push_same_state [OF browser_push_same [OF assms]] by (simp add: inject_push_def)
  finally show ?thesis .
qed

lemma refines_inject_select:
  "map_prod as_native id (browser_inject_select gen pick pkt b) = inject_select gen pick pkt (as_native b)"
  by (simp add: browser_inject_select_def inject_select_def Let_def go_consts)

lemma inject_push_open [simp]:
  "browser_inject_push now src p b = (b', x) \<Longrightarrow> bb_open b' = bb_open b \<and> bb_chan b' = bb_chan b"
  by (auto simp: browser_inject_push_def split: prod.splits sum.splits option.splits)

lemma refines_Inject:
  assumes "bb_open b" "bb_chan b = Some gen" "\<not> wrong_length p"
  shows "map_prod as_native id (browser_Inject now pick src p b) = bind_Inject now pick src p (as_native b)"
proof -
  obtain b' x where push: "browser_inject_push now src p b = (b', x)" by (cases "browser_inject_push now src p b")
  then have native: "inject_push now src p (as_native b) = (as_native b', x)"
    using refines_inject_push [OF assms(3), of now src b] by simp
  show ?thesis using assms(1,2) push native inject_push_open [OF push] refines_inject_select [of gen pick _ b']
    by (cases x) (simp_all add: browser_Inject_def bind_Inject_def)
qed

lemma refines_receive:
  assumes "bb_open b" "bb_chan b = Some gen"
  shows "map_option (\<lambda>(b', r). (as_native b', case_sum (\<lambda>_. None) Some r)) (browser_receive pick packets sizes eps b) =
    map_option (\<lambda>(b', r). (b', case_sum (\<lambda>_. None) Some r)) (bind_receive gen pick packets sizes eps (as_native b))"
  using assms by (auto simp: browser_receive_def bind_receive_def Let_def split: list.split)

lemma refines_forward_all:
  "apsnd (\<lambda>e. e = None) (browser_forward_all send ps s) = apsnd (\<lambda>e. e = None) (forward_all send ps s)"
  by (induction send ps s rule: forward_all.induct) (auto split: prod.split option.split)

lemma refines_send_loop:
  "apsnd (apsnd (\<lambda>e. e = None)) (browser_send_loop send clock off i bufs seq s) =
   apsnd (apsnd (\<lambda>e. e = None)) (send_loop send clock off i bufs seq s)"
proof (induction bufs arbitrary: i seq s)
  case (Cons buf bufs)
  obtain x seq' where f: "fragmentMasqueWireGuardPacket (clock i) seq (drop (nat off) buf) = (x, seq')"
    by (cases "fragmentMasqueWireGuardPacket (clock i) seq (drop (nat off) buf)")
  show ?case
  proof (cases x)
    case (Inr fs)
    let ?ds = "if fs = [] then [drop (nat off) buf] else fs"
    obtain s1 e1 s2 e2 where e: "browser_forward_all send ?ds s = (s1, e1)" "forward_all send ?ds s = (s2, e2)"
      by (metis surj_pair)
    have "s1 = s2" "(e1 = None) = (e2 = None)" using refines_forward_all [of send ?ds s] by (simp_all add: e)
    then show ?thesis using f Inr e Cons.IH by (cases e1; cases e2) (auto simp: browser_fragments Let_def)
  qed (use f in \<open>simp add: browser_fragments Let_def\<close>)
qed simp

lemma refines_Send:
  assumes "\<not> IsZero K p"
  shows "apsnd (apsnd (\<lambda>e. e = None)) (browser_Send fwd clock bufs (Some p) off b seq s) =
    apsnd (apsnd (\<lambda>e. e = None)) (bind_Send K fwd clock bufs (Some p) off (as_native b) seq s)"
  using assms by (auto simp: browser_Send_def bind_Send_def as_native_def refines_send_loop split: option.split)

lemma refines_Close:
  assumes "bb_open b" "bb_chan b = Some gen"
  shows "as_native (browser_Close b) = (bind_Close (as_native b))\<lparr>b_fragments := bb_frag b\<rparr>"
  using assms by (simp add: browser_Close_def bind_Close_def as_native_def set_browser_channels_def set_channels_def split: option.split)

lemma refines_Open:
  "as_native (fst (browser_Open (browser_SetPath dst (Some f) (new_browserBind k zero)))) =
   fst (bind_Open (bind_SetPath dst (Some f) (newMasqueBind k)))"
  by (simp add: browser_Open_def browser_SetPath_def new_browserBind_def bind_Open_def bind_SetPath_def newMasqueBind_def
      as_native_def Let_def Reset_def)

section \<open>Properties\<close>

text \<open>
  C28: the browser's network side refines the native one. Seen through \<open>as_native\<close>, opening a fresh bind and setting its path do what
  \<^verbatim>\<open>masqueBind\<close> does; \<^verbatim>\<open>Send\<close> gives the same datagrams to the path, takes the same fragment numbers and fails
  in the same cases; and while the bind is open, \<^verbatim>\<open>Inject\<close> and the receive function go through the same states with the same
  results, for every datagram but a fragment of the wrong length. Closing differs in that it keeps the incomplete packets.
\<close>
theorem browser_bind_refines_native:
  assumes "bb_open b" "bb_chan b = Some gen" "\<not> wrong_length p" "\<not> IsZero K dst"
  shows "map_prod as_native id (browser_Inject now pick src p b) = bind_Inject now pick src p (as_native b) \<and>
    map_option (\<lambda>(b', r). (as_native b', case_sum (\<lambda>_. None) Some r)) (browser_receive pick packets sizes eps b) =
      map_option (\<lambda>(b', r). (b', case_sum (\<lambda>_. None) Some r)) (bind_receive gen pick packets sizes eps (as_native b)) \<and>
    apsnd (apsnd (\<lambda>e. e = None)) (browser_Send fwd clock bufs (Some dst) off b seq s) =
      apsnd (apsnd (\<lambda>e. e = None)) (bind_Send K fwd clock bufs (Some dst) off (as_native b) seq s) \<and>
    as_native (browser_Close b) = (bind_Close (as_native b))\<lparr>b_fragments := bb_frag b\<rparr> \<and>
    as_native (fst (browser_Open (browser_SetPath dst (Some f) (new_browserBind k zero)))) =
      fst (bind_Open (bind_SetPath dst (Some f) (newMasqueBind k)))"
  by (intro conjI refines_Inject [OF assms(1-3)] refines_receive [OF assms(1,2)] refines_Send [OF assms(4)]
      refines_Close [OF assms(1,2)] refines_Open)

definition opened_browser :: "(raw_key, unit) browserBind" where
  "opened_browser = fst (browser_Open (browser_SetPath 9 (Some ()) (new_browserBind 7 0)) :: _ \<times> unit browser_bind_error option)"

theorem browser_bind_refines_native_witness:
  "map_prod as_native id (browser_Inject 5 False 9 [1] opened_browser) = bind_Inject 5 False 9 [1] (as_native opened_browser) \<and>
   snd (browser_Inject 5 False 9 [1] opened_browser) = Injected"
proof -
  have b: "bb_open opened_browser" "bb_chan opened_browser = Some 0"
    by (simp_all add: opened_browser_def browser_Open_def browser_SetPath_def new_browserBind_def)
  have p: "\<not> wrong_length [1]" by (simp add: wrong_length_def HasPrefix_def masqueWGFragmentMagic_def)
  have k: "\<not> IsZero raw_keys 9" by (simp add: raw_keys_def)
  have "snd (browser_Inject 5 False 9 [1] opened_browser) = Injected"
    by (simp add: browser_Inject_def browser_inject_push_def browserPush_def HasPrefix_def browserFragmentMagic_def browser_inject_select_def
        opened_browser_def browser_Open_def browser_SetPath_def new_browserBind_def go_consts Let_def)
  with conjunct1 [OF browser_bind_refines_native [OF b p k]] show ?thesis by blast
qed

end
