(* ===== verification/Path.thy ===== *)
theory Path
  imports H2_Message Relay
begin

text \<open>
  The client's carrier (\<^verbatim>\<open>masquePath\<close> of \<^verbatim>\<open>masquecat_transport.go\<close> and the
  dialers of \<^verbatim>\<open>masquecat_transport.go\<close>, \<^verbatim>\<open>masquecat_h2.go\<close> and
  \<^verbatim>\<open>masquecat_h2_client.go\<close>): dialing with the authentication retry and the fallback to
  HTTP/2, the connection slot that reconnects replace, and the packet loops on top of it.

  Connections are numbered; what their dialers, reads and writes return is a parameter or an
  environment. The log of a dial records the connections it closes.
\<close>

section \<open>Dialing\<close>

record dial_response =
  dr_status :: nat
  dr_header :: header

datatype dial_error =
  RequestFailed | ProofFailed proof_error | DialFailed | NoResponse | BadStatus nat | TemplateExpand | BothFailed

text \<open>
  \<open>Dial\<close> stands for masque-go's \<^verbatim>\<open>Transport.Dial\<close>: from the header of the request, a
  connection, a response and an error, each possibly absent. \<open>reqOk\<close> is whether
  \<^verbatim>\<open>masque.NewRequest\<close> accepts the template and target.
\<close>

type_synonym 's dialer = "header \<Rightarrow> 's \<Rightarrow> 's \<times> nat option \<times> dial_response option \<times> bool"

definition dial_header :: "'k node_key_api \<Rightarrow> 'k \<Rightarrow> string \<Rightarrow> string \<Rightarrow> header" where
  "dial_header K localPublic mode ep =
     (let h = header_set masqueModeHeader mode (header_set masqueSourceHeader (KeyString K localPublic) [])
      in if ep \<noteq> [] then header_set masqueProofHeader ep h else h)"

definition close_opt :: "nat option \<Rightarrow> nat list" where
  "close_opt c = (case c of None \<Rightarrow> [] | Some i \<Rightarrow> [i])"

definition finish_dial :: "nat option \<Rightarrow> dial_response option \<Rightarrow> bool \<Rightarrow> nat list \<Rightarrow> nat list \<times> (dial_error + nat option)" where
  "finish_dial conn resp failed closed =
     (if failed then (closed @ close_opt conn, Inl DialFailed)
      else case resp of
             None \<Rightarrow> (closed @ close_opt conn, Inl NoResponse)
           | Some r \<Rightarrow> if dr_status r \<noteq> 200 then (closed @ close_opt conn, Inl (BadStatus (dr_status r)))
                       else (closed, Inr conn))"

definition dialMasquePacketConn ::
  "'k node_key_api \<Rightarrow> ('p, 'k) node_private_api \<Rightarrow> bytes \<Rightarrow> bool \<Rightarrow> 's dialer \<Rightarrow> 'k \<Rightarrow> 'p \<Rightarrow> string \<Rightarrow> 's \<Rightarrow>
   's \<times> nat list \<times> (dial_error + nat option)" where
  "dialMasquePacketConn K P sealNonce reqOk Dial requestTarget local mode s =
     (if \<not> reqOk then (s, [], Inl RequestFailed)
      else case Dial (dial_header K (Public P local) mode []) s of
        (s1, conn, resp, failed) \<Rightarrow>
          (case resp of
             Some r \<Rightarrow>
               if dr_status r = 401 then
                 (case masqueProofForChallenge K P sealNonce local (header_get (dr_header r) masqueChallengeHeader)
                         (header_get (dr_header r) masqueVerifierHeader) requestTarget mode of
                    Inl e \<Rightarrow> (s1, close_opt conn, Inl (ProofFailed e))
                  | Inr ep \<Rightarrow>
                      (case Dial (dial_header K (Public P local) mode ep) s1 of
                         (s2, conn2, resp2, failed2) \<Rightarrow> (s2, finish_dial conn2 resp2 failed2 (close_opt conn))))
               else (s1, finish_dial conn resp failed [])
           | None \<Rightarrow> (s1, finish_dial conn resp failed [])))"

text \<open>
  The HTTP/2 dialer. \<open>Connect\<close> stands for \<^verbatim>\<open>dialMasqueH2ExtendedConnect\<close> up to the
  connection and response it returns; \<open>expanded\<close> is whether the template expands.
\<close>

type_synonym 's h2_dialer = "header \<Rightarrow> 's \<Rightarrow> 's \<times> (nat \<times> dial_response) option"

definition h2_dial_header :: "'k node_key_api \<Rightarrow> 'k \<Rightarrow> string \<Rightarrow> string \<Rightarrow> header" where
  "h2_dial_header K localPublic mode ep =
     (let h = header_set masqueModeHeader mode (header_set masqueSourceHeader (KeyString K localPublic)
                (header_set ''Capsule-Protocol'' ''?1'' []))
      in if ep \<noteq> [] then header_set masqueProofHeader ep h else h)"

definition finish_h2 :: "nat \<Rightarrow> dial_response \<Rightarrow> nat list \<Rightarrow> nat list \<times> (dial_error + nat option)" where
  "finish_h2 conn r closed =
     (if dr_status r < 200 \<or> dr_status r \<ge> 300 then (closed @ [conn], Inl (BadStatus (dr_status r)))
      else (closed, Inr (Some conn)))"

definition dialMasqueH2PacketConnRFC8441 ::
  "'k node_key_api \<Rightarrow> ('p, 'k) node_private_api \<Rightarrow> bytes \<Rightarrow> bool \<Rightarrow> 's h2_dialer \<Rightarrow> 'k \<Rightarrow> 'p \<Rightarrow> string \<Rightarrow> 's \<Rightarrow>
   's \<times> nat list \<times> (dial_error + nat option)" where
  "dialMasqueH2PacketConnRFC8441 K P sealNonce expanded Connect tgt local mode s =
     (if \<not> expanded then (s, [], Inl TemplateExpand)
      else case Connect (h2_dial_header K (Public P local) mode []) s of
        (s1, None) \<Rightarrow> (s1, [], Inl DialFailed)
      | (s1, Some (conn, r)) \<Rightarrow>
          if dr_status r = 401 then
            (case masqueProofForChallenge K P sealNonce local (header_get (dr_header r) masqueChallengeHeader)
                    (header_get (dr_header r) masqueVerifierHeader) tgt mode of
               Inl e \<Rightarrow> (s1, [conn], Inl (ProofFailed e))
             | Inr ep \<Rightarrow>
                 (case Connect (h2_dial_header K (Public P local) mode ep) s1 of
                    (s2, None) \<Rightarrow> (s2, [conn], Inl DialFailed)
                  | (s2, Some (conn2, r2)) \<Rightarrow> (s2, finish_h2 conn2 r2 [conn])))
          else (s1, finish_h2 conn r []))"

text \<open>The dial function of \<^verbatim>\<open>newMasquePathWithFallback\<close>: HTTP/3 first, then HTTP/2.\<close>

definition dial_with_fallback ::
  "('s \<Rightarrow> 's \<times> nat list \<times> (dial_error + nat option)) \<Rightarrow> ('s \<Rightarrow> 's \<times> nat list \<times> (dial_error + nat option)) \<Rightarrow>
   's \<Rightarrow> 's \<times> nat list \<times> (dial_error + nat option)" where
  "dial_with_fallback h3 h2 s =
     (case h3 s of
        (s1, closed, Inr c) \<Rightarrow> (s1, closed, Inr c)
      | (s1, closed, Inl e) \<Rightarrow>
          (case h2 s1 of
             (s2, closed2, Inr c) \<Rightarrow> (s2, closed @ closed2, Inr c)
           | (s2, closed2, Inl e2) \<Rightarrow> (s2, closed @ closed2, Inl BothFailed)))"

section \<open>The connection slot\<close>

record masquePath =
  pc :: "nat option"
  path_closed :: bool

datatype path_error = PathClosed | PathContext | TooLarge | PathIO

definition packetConn :: "masquePath \<Rightarrow> path_error + nat" where
  "packetConn p = (if path_closed p then Inl PathClosed else case pc p of None \<Rightarrow> Inl PathClosed | Some c \<Rightarrow> Inr c)"

text \<open>The slot operations return the connections they close, in order.\<close>

definition replacePacketConn :: "nat \<Rightarrow> masquePath \<Rightarrow> masquePath \<times> nat list \<times> path_error option" where
  "replacePacketConn conn p =
     (if path_closed p then (p, [conn], Some PathClosed)
      else (p\<lparr>pc := Some conn\<rparr>,
            (case pc p of Some old \<Rightarrow> if old \<noteq> conn then [old] else [] | None \<Rightarrow> []), None))"

definition retirePacketConn :: "nat option \<Rightarrow> masquePath \<Rightarrow> masquePath \<times> nat list" where
  "retirePacketConn failed p =
     (case failed of
        None \<Rightarrow> (p, [])
      | Some c \<Rightarrow> ((if pc p = Some c then p\<lparr>pc := None\<rparr> else p), [c]))"

definition path_Close :: "masquePath \<Rightarrow> masquePath \<times> nat list" where
  "path_Close p =
     (if path_closed p then (p, [])
      else (p\<lparr>path_closed := True, pc := None\<rparr>, close_opt (pc p)))"

section \<open>Sending\<close>

datatype write_result = WriteOk | WriteTooLarge | WriteIOError

text \<open>
  \<^verbatim>\<open>ForwardPacket\<close>: the datagram given to the current connection, if any, the connections
  closed, and the error. \<open>write\<close> is the outcome of the connection's \<^verbatim>\<open>WriteTo\<close>.
\<close>

definition path_ForwardPacket ::
  "'k node_key_api \<Rightarrow> bytes \<Rightarrow> (nat \<Rightarrow> bytes \<Rightarrow> write_result) \<Rightarrow> 'k \<Rightarrow> 'k \<Rightarrow> bytes \<Rightarrow> masquePath \<Rightarrow>
   masquePath \<times> (nat \<times> bytes) option \<times> nat list \<times> path_error option" where
  "path_ForwardPacket K magic write src dst payload p =
     (if HasPrefix payload magic then (p, None, [], None)
      else let b = encodeMasquePacket K src dst payload in
           case packetConn p of
             Inl e \<Rightarrow> (p, None, [], Some e)
           | Inr c \<Rightarrow>
               (case write c b of
                  WriteOk \<Rightarrow> (p, Some (c, b), [], None)
                | WriteTooLarge \<Rightarrow> (p, Some (c, b), [], Some TooLarge)
                | WriteIOError \<Rightarrow>
                    (case retirePacketConn (Some c) p of (p', closed) \<Rightarrow> (p', Some (c, b), closed, Some PathIO))))"

section \<open>Receiving\<close>

datatype 'k recv_action = RecvMalformed packet_error | RecvMisdirected | RecvDisco | RecvDeliver 'k bytes

text \<open>What \<^verbatim>\<open>run\<close> does with one datagram.\<close>

definition run_datagram :: "'k node_key_api \<Rightarrow> bytes \<Rightarrow> 'k \<Rightarrow> bytes \<Rightarrow> 'k recv_action" where
  "run_datagram K magic local b =
     (case decodeMasquePacket K b of
        Inl e \<Rightarrow> RecvMalformed e
      | Inr pkt \<Rightarrow>
          if p_dst pkt \<noteq> local then RecvMisdirected
          else if HasPrefix (p_payload pkt) magic then RecvDisco
          else RecvDeliver (p_src pkt) (p_payload pkt))"

section \<open>Reconnecting\<close>

text \<open>
  One turn of the loop of \<^verbatim>\<open>reconnect\<close>: the context has ended before it, the path was
  found closed, the context ends during the delay, the dial fails, or it returns a connection, which
  is put into the slot as the slot then is.
\<close>

datatype reconnect_turn =
  ContextOver | FoundClosed | DelayCancelled | DialFails | DialReturns nat masquePath

text \<open>\<open>backoff\<close> is \<^verbatim>\<open>p.backoff\<close>. The result is the delays waited and, once the loop has
  returned, the slot and connections closed, or the error.\<close>

fun reconnect_loop :: "(int \<Rightarrow> time) \<Rightarrow> int \<Rightarrow> reconnect_turn list \<Rightarrow>
    time list \<times> (path_error + masquePath \<times> nat list) option" where
  "reconnect_loop backoff attempt [] = ([], None)"
| "reconnect_loop backoff attempt (ContextOver # ts) = ([], Some (Inl PathContext))"
| "reconnect_loop backoff attempt (FoundClosed # ts) = ([], Some (Inl PathClosed))"
| "reconnect_loop backoff attempt (DelayCancelled # ts) =
     (if backoff attempt > 0 then ([], Some (Inl PathContext)) else ([], None))"
| "reconnect_loop backoff attempt (DialFails # ts) =
     (case reconnect_loop backoff (attempt + 1) ts of
        (ds, res) \<Rightarrow> ((if backoff attempt > 0 then [backoff attempt] else []) @ ds, res))"
| "reconnect_loop backoff attempt (DialReturns conn p # ts) =
     ((if backoff attempt > 0 then [backoff attempt] else []),
      Some (case replacePacketConn conn p of
              (p', closed, Some e) \<Rightarrow> Inl e
            | (p', closed, None) \<Rightarrow> Inr (p', closed)))"

text \<open>A path with no dial function gives up with the error that caused the reconnect.\<close>

definition reconnect :: "bool \<Rightarrow> (int \<Rightarrow> time) \<Rightarrow> path_error \<Rightarrow> reconnect_turn list \<Rightarrow>
    time list \<times> (path_error + masquePath \<times> nat list) option" where
  "reconnect has_dial backoff cause ts =
     (if \<not> has_dial then ([], Some (Inl cause)) else reconnect_loop backoff 0 ts)"

section \<open>The path as a transition system\<close>

text \<open>
  The run loop, any number of senders and \<^verbatim>\<open>Close\<close> share the slot. \<open>open_conns\<close> are the
  connections that have been dialed and not closed; \<open>dialed\<close> is the one the run loop has dialed and
  not yet stored; a sender or the run loop may retire any connection it read from the slot earlier.
\<close>

record path_sys =
  ps_slot :: masquePath
  ps_open :: "nat set"
  ps_dialed :: "nat option"
  ps_running :: bool
  ps_used :: "nat set"

inductive path_step :: "path_sys \<Rightarrow> path_sys \<Rightarrow> bool" where
  dial_ok:
    "ps_running s \<Longrightarrow> ps_dialed s = None \<Longrightarrow> c \<notin> ps_used s \<Longrightarrow>
     path_step s (s\<lparr>ps_dialed := Some c, ps_open := insert c (ps_open s), ps_used := insert c (ps_used s)\<rparr>)"
| replaced:
    "ps_dialed s = Some c \<Longrightarrow> replacePacketConn c (ps_slot s) = (slot, closed, None) \<Longrightarrow>
     path_step s (s\<lparr>ps_slot := slot, ps_dialed := None, ps_open := ps_open s - set closed\<rparr>)"
| replace_refused:
    "ps_dialed s = Some c \<Longrightarrow> replacePacketConn c (ps_slot s) = (slot, closed, Some e) \<Longrightarrow>
     path_step s (s\<lparr>ps_slot := slot, ps_dialed := None, ps_running := False, ps_open := ps_open s - set closed\<rparr>)"
| retired:
    "c \<in> ps_used s \<Longrightarrow> ps_dialed s \<noteq> Some c \<Longrightarrow> retirePacketConn (Some c) (ps_slot s) = (slot, closed) \<Longrightarrow>
     path_step s (s\<lparr>ps_slot := slot, ps_open := ps_open s - set closed\<rparr>)"
| closed:
    "path_Close (ps_slot s) = (slot, closed) \<Longrightarrow>
     path_step s (s\<lparr>ps_slot := slot, ps_open := ps_open s - set closed\<rparr>)"
| run_ended:
    "ps_dialed s = None \<Longrightarrow> path_step s (s\<lparr>ps_running := False\<rparr>)"

inductive path_reachable :: "path_sys \<Rightarrow> bool" where
  path_start: "path_reachable \<lparr>ps_slot = \<lparr>pc = Some c, path_closed = False\<rparr>, ps_open = {c}, ps_dialed = None,
     ps_running = True, ps_used = {c}\<rparr>"
| path_more: "path_reachable s \<Longrightarrow> path_step s s' \<Longrightarrow> path_reachable s'"

section \<open>The slot's invariant\<close>

definition path_inv :: "path_sys \<Rightarrow> bool" where
  "path_inv s \<longleftrightarrow>
     ps_open s = set_option (pc (ps_slot s)) \<union> set_option (ps_dialed s) \<and>
     ps_open s \<subseteq> ps_used s \<and>
     (path_closed (ps_slot s) \<longrightarrow> pc (ps_slot s) = None) \<and>
     (\<not> ps_running s \<longrightarrow> ps_dialed s = None) \<and>
     (ps_dialed s = None \<or> ps_dialed s \<noteq> pc (ps_slot s))"

lemma path_inv_step:
  assumes "path_step s s'" "path_inv s"
  shows "path_inv s'"
  using assms(1)
proof cases
  case (dial_ok c)
  with assms(2) show ?thesis by (cases "pc (ps_slot s)") (auto simp: path_inv_def)
next
  case (replaced c slot closed)
  then have slot: "\<not> path_closed (ps_slot s)" "slot = (ps_slot s)\<lparr>pc := Some c\<rparr>"
    "closed = (case pc (ps_slot s) of Some old \<Rightarrow> if old \<noteq> c then [old] else [] | None \<Rightarrow> [])"
    by (auto simp: replacePacketConn_def split: if_splits)
  show ?thesis
    using assms(2) replaced(1,2) slot by (cases "pc (ps_slot s)") (auto simp: path_inv_def)
next
  case (replace_refused c slot closed e)
  then have slot: "path_closed (ps_slot s)" "slot = ps_slot s" "closed = [c]"
    by (auto simp: replacePacketConn_def split: if_splits)
  show ?thesis using assms(2) replace_refused(1,2) slot by (auto simp: path_inv_def)
next
  case (retired c slot closed)
  then have slot: "closed = [c]" "slot = (if pc (ps_slot s) = Some c then (ps_slot s)\<lparr>pc := None\<rparr> else ps_slot s)"
    by (auto simp: retirePacketConn_def)
  show ?thesis
    unfolding retired(1) using assms(2) retired(3) slot
    by (cases "pc (ps_slot s) = Some c") (auto simp: path_inv_def)
next
  case (closed slot closed)
  show ?thesis
  proof (cases "path_closed (ps_slot s)")
    case True
    with closed assms(2) show ?thesis by (auto simp: path_inv_def path_Close_def)
  next
    case False
    with closed have slot: "slot = (ps_slot s)\<lparr>path_closed := True, pc := None\<rparr>" "closed = close_opt (pc (ps_slot s))"
      by (auto simp: path_Close_def)
    show ?thesis
      using assms(2) closed(1) slot by (cases "pc (ps_slot s)"; cases "ps_dialed s") (auto simp: path_inv_def close_opt_def)
  qed
next
  case run_ended
  with assms(2) show ?thesis by (auto simp: path_inv_def)
qed

lemma path_inv_reachable: "path_reachable s \<Longrightarrow> path_inv s"
proof (induction rule: path_reachable.induct)
  case (path_start c)
  show ?case by (simp add: path_inv_def)
next
  case (path_more s s')
  from path_inv_step [OF path_more(2,3)] show ?case .
qed

section \<open>Accounting of dialed connections\<close>

text \<open>A dialer that also records the connections it hands out.\<close>

definition dial_logged :: "'s dialer \<Rightarrow> ('s \<times> nat list) dialer" where
  "dial_logged Dial h = (\<lambda>(s, given).
     case Dial h s of (s', conn, resp, failed) \<Rightarrow> ((s', given @ close_opt conn), conn, resp, failed))"

definition connect_logged :: "'s h2_dialer \<Rightarrow> ('s \<times> nat list) h2_dialer" where
  "connect_logged Connect h = (\<lambda>(s, given).
     case Connect h s of (s', None) \<Rightarrow> ((s', given), None)
     | (s', Some (conn, r)) \<Rightarrow> ((s', given @ [conn]), Some (conn, r)))"

definition returned :: "dial_error + nat option \<Rightarrow> nat list" where
  "returned res = (case res of Inr c \<Rightarrow> close_opt c | Inl e \<Rightarrow> [])"

lemma finish_dial_accounts:
  "finish_dial conn resp failed closed = (closed', res) \<Longrightarrow> closed' @ returned res = closed @ close_opt conn"
  by (auto simp: finish_dial_def returned_def split: if_splits option.splits)

lemma finish_h2_accounts:
  "finish_h2 conn r closed = (closed', res) \<Longrightarrow> closed' @ returned res = closed @ [conn]"
  by (auto simp: finish_h2_def returned_def close_opt_def split: if_splits)

lemma dial_h3_accounts:
  assumes "dialMasquePacketConn K P sn reqOk (dial_logged Dial) tgt local mode (s, given) = ((s', given'), closed, res)"
  shows "given' = given @ closed @ returned res"
proof (cases reqOk)
  case False
  with assms show ?thesis by (auto simp: dialMasquePacketConn_def returned_def)
next
  case True
  obtain s1 c1 r1 f1 where d1: "Dial (dial_header K (Public P local) mode []) s = (s1, c1, r1, f1)"
    using prod_cases4 by blast
  have l1: "dial_logged Dial (dial_header K (Public P local) mode []) (s, given) = ((s1, given @ close_opt c1), c1, r1, f1)"
    by (simp add: dial_logged_def d1)
  show ?thesis
  proof (cases "\<exists>r. r1 = Some r \<and> dr_status r = 401")
    case False
    with assms True l1 have "given' = given @ close_opt c1" "finish_dial c1 r1 f1 [] = (closed, res)"
      by (auto simp: dialMasquePacketConn_def split: option.splits)
    with finish_dial_accounts [of c1 r1 f1 "[]" closed res] show ?thesis by simp
  next
    case resp: True
    then obtain r where r: "r1 = Some r" "dr_status r = 401" by blast
    let ?pf = "masqueProofForChallenge K P sn local (header_get (dr_header r) masqueChallengeHeader)
        (header_get (dr_header r) masqueVerifierHeader) tgt mode"
    show ?thesis
    proof (cases ?pf)
      case (Inl e)
      with assms True l1 r show ?thesis by (auto simp: dialMasquePacketConn_def returned_def)
    next
      case (Inr ep)
      obtain s2 c2 r2 f2 where d2: "Dial (dial_header K (Public P local) mode ep) s1 = (s2, c2, r2, f2)"
        using prod_cases4 by blast
      have l2: "dial_logged Dial (dial_header K (Public P local) mode ep) (s1, given @ close_opt c1)
          = ((s2, (given @ close_opt c1) @ close_opt c2), c2, r2, f2)" by (simp add: dial_logged_def d2)
      from assms True l1 r Inr l2 have "given' = given @ close_opt c1 @ close_opt c2"
        "finish_dial c2 r2 f2 (close_opt c1) = (closed, res)"
        by (auto simp: dialMasquePacketConn_def)
      with finish_dial_accounts [of c2 r2 f2 "close_opt c1" closed res] show ?thesis by simp
    qed
  qed
qed

lemma dial_h2_accounts:
  assumes "dialMasqueH2PacketConnRFC8441 K P sn ok (connect_logged Connect) tgt local mode (s, given)
     = ((s', given'), closed, res)"
  shows "given' = given @ closed @ returned res"
proof (cases ok)
  case False
  with assms show ?thesis by (auto simp: dialMasqueH2PacketConnRFC8441_def returned_def)
next
  case True
  obtain s1 q1 where d1: "Connect (h2_dial_header K (Public P local) mode []) s = (s1, q1)" by fastforce
  show ?thesis
  proof (cases q1)
    case None
    with d1 assms True show ?thesis
      by (auto simp: dialMasqueH2PacketConnRFC8441_def connect_logged_def returned_def)
  next
    case (Some q)
    obtain c1 r where q: "q = (c1, r)" by fastforce
    have l1: "connect_logged Connect (h2_dial_header K (Public P local) mode []) (s, given)
        = ((s1, given @ [c1]), Some (c1, r))" by (simp add: connect_logged_def d1 Some q)
    let ?pf = "masqueProofForChallenge K P sn local (header_get (dr_header r) masqueChallengeHeader)
        (header_get (dr_header r) masqueVerifierHeader) tgt mode"
    show ?thesis
    proof (cases "dr_status r = 401")
      case False
      with assms True l1 have "given' = given @ [c1]" "finish_h2 c1 r [] = (closed, res)"
        by (auto simp: dialMasqueH2PacketConnRFC8441_def)
      with finish_h2_accounts [of c1 r "[]" closed res] show ?thesis by simp
    next
      case st: True
      show ?thesis
      proof (cases ?pf)
        case (Inl e)
        with assms True l1 st show ?thesis by (auto simp: dialMasqueH2PacketConnRFC8441_def returned_def)
      next
        case (Inr ep)
        obtain s2 q2 where d2: "Connect (h2_dial_header K (Public P local) mode ep) s1 = (s2, q2)" by fastforce
        show ?thesis
        proof (cases q2)
          case None
          with assms True l1 st Inr d2 show ?thesis
            by (auto simp: dialMasqueH2PacketConnRFC8441_def returned_def connect_logged_def)
        next
          case (Some q')
          obtain c2 r2 where q': "q' = (c2, r2)" by fastforce
          have l2: "connect_logged Connect (h2_dial_header K (Public P local) mode ep) (s1, given @ [c1])
              = ((s2, (given @ [c1]) @ [c2]), Some (c2, r2))" by (simp add: connect_logged_def d2 Some q')
          from assms True l1 st Inr l2 have "given' = given @ [c1, c2]" "finish_h2 c2 r2 [c1] = (closed, res)"
            by (auto simp: dialMasqueH2PacketConnRFC8441_def)
          with finish_h2_accounts [of c2 r2 "[c1]" closed res] show ?thesis by simp
        qed
      qed
    qed
  qed
qed

section \<open>A relay as the other end\<close>

text \<open>
  The dialer of a client whose requests are served by a relay's handler: an admitted request gets
  status 200 and a connection, a refused one the status and header the handler wrote, and, as
  masque-go does for them, an error.
\<close>

definition relay_dialer ::
  "'t masque_api \<Rightarrow> 'k node_key_api \<Rightarrow> ('p, 'k) node_private_api \<Rightarrow> time \<Rightarrow> bytes option \<Rightarrow> http_request \<Rightarrow> nat \<Rightarrow>
   ('p, 'k) masqueAuthenticator dialer" where
  "relay_dialer A K P now nonce req conn h a =
     (case relay_admit A K P now now nonce (req\<lparr>rq_header := h\<rparr>) a of
        (a', w, Some k) \<Rightarrow> (a', Some conn, Some \<lparr>dr_status = 200, dr_header = rw_header w\<rparr>, False)
      | (a', w, None) \<Rightarrow> (a', None, Some \<lparr>dr_status = (case rw_status w of None \<Rightarrow> 200 | Some c \<Rightarrow> c),
                                        dr_header = rw_header w\<rparr>, True))"

section \<open>Properties\<close>

text \<open>
  The carrier leaks no connection. In every reachable state of a path, under any interleaving of
  the run loop, senders that retire failed connections and \<^verbatim>\<open>Close\<close>, the open
  connections are exactly the one in the slot and the one just dialed; the slot never holds a
  connection that was closed; and once the path is closed and its loop has ended, none is open.
\<close>
theorem path_no_connection_leak:
  assumes "path_reachable s"
  shows "ps_open s = set_option (pc (ps_slot s)) \<union> set_option (ps_dialed s) \<and>
         (pc (ps_slot s) = Some c \<longrightarrow> c \<in> ps_open s \<and> \<not> path_closed (ps_slot s)) \<and>
         (path_closed (ps_slot s) \<and> \<not> ps_running s \<longrightarrow> ps_open s = {})"
  using path_inv_reachable [OF assms] by (auto simp: path_inv_def)

theorem path_no_connection_leak_witness:
  "\<exists>s. path_reachable s \<and> path_closed (ps_slot s) \<and> ps_open s = {}"
proof -
  let ?s = "\<lparr>ps_slot = \<lparr>pc = Some 1, path_closed = False\<rparr>, ps_open = {1}, ps_dialed = None,
     ps_running = True, ps_used = {1}\<rparr>"
  have "path_reachable ?s" by (rule path_start)
  then have "path_reachable (?s\<lparr>ps_slot := \<lparr>pc = None, path_closed = True\<rparr>, ps_open := ps_open ?s - set [1]\<rparr>)"
    by (rule path_more) (rule path_step.closed, simp add: path_Close_def close_opt_def)
  then have r: "path_reachable (?s\<lparr>ps_slot := \<lparr>pc = None, path_closed = True\<rparr>, ps_open := {}, ps_running := False\<rparr>)"
    by (rule path_more) (use path_step.run_ended [of "?s\<lparr>ps_slot := \<lparr>pc = None, path_closed = True\<rparr>, ps_open := {}\<rparr>"] in simp)
  from path_no_connection_leak [OF r] r show ?thesis by fastforce
qed

text \<open>
  Dialing leaks no connection. Whatever the HTTP/3 and HTTP/2 transports return, every connection
  they hand out during a dial with its authentication retry and fallback is either closed by the
  dial or returned to the caller, exactly once.
\<close>
theorem dial_accounts_for_connections:
  assumes "dial_with_fallback
       (\<lambda>(s, given). dialMasquePacketConn K P sn reqOk (dial_logged Dial) tgt local mode (s, given))
       (\<lambda>(s, given). dialMasqueH2PacketConnRFC8441 K P sn' ok (connect_logged Connect) tgt local mode (s, given))
       (s, []) = ((s', given), closed, res)"
  shows "given = closed @ returned res"
proof -
  obtain s1 g1 c1 r1 where h3: "dialMasquePacketConn K P sn reqOk (dial_logged Dial) tgt local mode (s, [])
      = ((s1, g1), c1, r1)" by (metis surj_pair)
  note a3 = dial_h3_accounts [OF h3]
  show ?thesis
  proof (cases r1)
    case (Inr c)
    with assms h3 a3 show ?thesis by (auto simp: dial_with_fallback_def)
  next
    case (Inl e)
    obtain s2 g2 c2 r2 where h2: "dialMasqueH2PacketConnRFC8441 K P sn' ok (connect_logged Connect) tgt local mode (s1, g1)
        = ((s2, g2), c2, r2)" by (metis surj_pair)
    note a2 = dial_h2_accounts [OF h2]
    have g: "given = g2" "closed = c1 @ c2" "res = (case r2 of Inr c \<Rightarrow> Inr c | Inl _ \<Rightarrow> Inl BothFailed)"
      using assms h3 h2 Inl by (auto simp: dial_with_fallback_def split: sum.splits)
    have "returned res = returned r2" using g(3) by (auto simp: returned_def split: sum.splits)
    with a2 a3 g Inl show ?thesis by (simp add: returned_def)
  qed
qed

theorem dial_accounts_for_connections_witness:
  "\<exists>s' given closed res. dial_with_fallback
       (\<lambda>(s, given). dialMasquePacketConn raw_keys raw_privates [] True
          (dial_logged (\<lambda>h s. (s, Some 4, None, True))) 7 3 ''relay'' (s, given))
       (\<lambda>(s, given). dialMasqueH2PacketConnRFC8441 raw_keys raw_privates [] True
          (connect_logged (\<lambda>h s. (s, Some (5, \<lparr>dr_status = 200, dr_header = []\<rparr>)))) 7 3 ''relay'' (s, given))
       ((), []) = ((s', given), closed, res) \<and> given = [4, 5] \<and> closed @ returned res = [4, 5]"
proof -
  have d: "dial_with_fallback
       (\<lambda>(s, given). dialMasquePacketConn raw_keys raw_privates [] True
          (dial_logged (\<lambda>h s. (s, Some 4, None, True))) 7 3 ''relay'' (s, given))
       (\<lambda>(s, given). dialMasqueH2PacketConnRFC8441 raw_keys raw_privates [] True
          (connect_logged (\<lambda>h s. (s, Some (5, \<lparr>dr_status = 200, dr_header = []\<rparr>)))) 7 3 ''relay'' (s, given))
       ((), []) = (((), [4, 5]), [4], Inr (Some 5))"
    by (simp add: dial_with_fallback_def dialMasquePacketConn_def dial_logged_def finish_dial_def
        dialMasqueH2PacketConnRFC8441_def connect_logged_def finish_h2_def close_opt_def)
  from dial_accounts_for_connections [OF d] d show ?thesis by auto
qed

text \<open>
  Sending over the path. A disco packet goes nowhere. Otherwise a packet is handed to the current
  connection as one datagram, from which the peer's run loop delivers exactly the source and payload
  if it is the destination, and nothing if it is not; a datagram that is too large leaves the
  carrier in place, any other write error retires exactly the connection that was written to, and
  with no connection the packet is refused.
\<close>
theorem path_forward_outcomes:
  assumes "key_laws K" "path_ForwardPacket K magic write src dst payload p = (p', sent, closed, err)"
  shows "if HasPrefix payload magic then p' = p \<and> sent = None \<and> closed = [] \<and> err = None
         else case packetConn p of
           Inl e \<Rightarrow> p' = p \<and> sent = None \<and> closed = [] \<and> err = Some e
         | Inr c \<Rightarrow>
             \<exists>b. sent = Some (c, b) \<and>
                run_datagram K magic dst b = RecvDeliver src payload \<and>
                (\<forall>k. k \<noteq> dst \<longrightarrow> run_datagram K magic k b = RecvMisdirected) \<and>
                (case write c b of
                   WriteOk \<Rightarrow> p' = p \<and> closed = [] \<and> err = None
                 | WriteTooLarge \<Rightarrow> p' = p \<and> closed = [] \<and> err = Some TooLarge
                 | WriteIOError \<Rightarrow> p' = p\<lparr>pc := None\<rparr> \<and> closed = [c] \<and> err = Some PathIO)"
proof -
  have c: "pc p = Some c" if "packetConn p = Inr c" for c
    using that by (auto simp: packetConn_def split: if_splits option.splits)
  have d: "run_datagram K magic k (encodeMasquePacket K src dst payload) =
      (if dst \<noteq> k then RecvMisdirected else RecvDeliver src payload)" if "\<not> HasPrefix payload magic" for k
    using that by (simp add: run_datagram_def decode_encode [OF assms(1)])
  show ?thesis
  proof (cases "HasPrefix payload magic")
    case True
    with assms(2) show ?thesis by (simp add: path_ForwardPacket_def)
  next
    case False
    show ?thesis
    proof (cases "packetConn p")
      case (Inl e)
      with False assms(2) show ?thesis by (simp add: path_ForwardPacket_def)
    next
      case (Inr cn)
      with False assms(2) c [OF Inr] d show ?thesis
        by (auto simp: path_ForwardPacket_def Let_def retirePacketConn_def split: write_result.splits)
    qed
  qed
qed

theorem path_forward_outcomes_witness:
  "\<exists>b. path_ForwardPacket raw_keys [84, 83] (\<lambda>c b. WriteIOError) 7 9 [1] \<lparr>pc = Some 3, path_closed = False\<rparr>
      = (\<lparr>pc = None, path_closed = False\<rparr>, Some (3, b), [3], Some PathIO) \<and>
    run_datagram raw_keys [84, 83] 9 b = RecvDeliver 7 [1]"
proof -
  have f: "path_ForwardPacket raw_keys [84, 83] (\<lambda>c b. WriteIOError) 7 9 [1] \<lparr>pc = Some 3, path_closed = False\<rparr>
      = (\<lparr>pc = None, path_closed = False\<rparr>, Some (3, encodeMasquePacket raw_keys 7 9 [1]), [3], Some PathIO)"
    by (simp add: path_ForwardPacket_def HasPrefix_def packetConn_def Let_def retirePacketConn_def)
  from path_forward_outcomes [OF key_laws_raw_keys f] f show ?thesis
    by (auto simp: HasPrefix_def packetConn_def)
qed

lemma reconnect_failures:
  "reconnect_loop backoff a (replicate n DialFails @ ts) =
     (filter (\<lambda>d. d > 0) (map (\<lambda>i. backoff (a + int i)) [0..<n]) @ fst (reconnect_loop backoff (a + int n) ts),
      snd (reconnect_loop backoff (a + int n) ts))"
proof (induction n arbitrary: a)
  case (Suc n)
  have "map (\<lambda>i. backoff (a + int i)) [0..<Suc n] = backoff a # map (\<lambda>i. backoff (a + 1 + int i)) [0..<n]"
    by (subst upt_conv_Cons) (simp_all add: map_Suc_upt [symmetric] ac_simps del: upt_Suc)
  then show ?case by (simp add: Suc ac_simps del: upt_Suc)
qed simp

lemma backoff_positive: "masqueReconnectBackoff (int (Suc n)) = min (milliseconds 250 * 2 ^ n) (seconds 10)"
  by (simp add: masqueReconnectBackoff_def backoff_loop_closed masqueReconnectInitialBackoff_def
      masqueReconnectMaxBackoff_def milliseconds_def seconds_def)

lemma reconnect_delays:
  "filter (\<lambda>d. d > 0) (map (\<lambda>i. masqueReconnectBackoff (int i)) [0..<n])
     = map (\<lambda>i. min (milliseconds 250 * 2 ^ i) (seconds 10)) [0..<n - 1]"
proof (cases n)
  case (Suc m)
  have "[0..<Suc m] = 0 # map Suc [0..<m]" by (simp add: map_Suc_upt upt_conv_Cons del: upt_Suc)
  moreover have "masqueReconnectBackoff (int 0) = 0" by (simp add: masqueReconnectBackoff_def)
  moreover have "masqueReconnectBackoff (int (Suc i)) > 0" for i
    unfolding backoff_positive by (simp add: milliseconds_def seconds_def)
  ultimately show ?thesis using Suc by (simp add: comp_def backoff_positive del: upt_Suc of_nat_Suc)
qed simp

text \<open>
  Reconnecting. The first attempt is made at once; attempt \<open>n\<close> has waited 250 milliseconds
  doubling up to 10 seconds before each of the attempts after the first. A dial that then succeeds
  while the path is open puts the new connection into the slot and closes the one it replaces; if the
  path was closed meanwhile, the reconnect fails and the slot is never filled; the same failures
  followed by the end of the context give the context's error.
\<close>
theorem reconnect_schedule:
  "reconnect True masqueReconnectBackoff cause (replicate n DialFails @ DialReturns c p # ts) =
     (map (\<lambda>i. min (milliseconds 250 * 2 ^ i) (seconds 10)) [0..<n],
      Some (if path_closed p then Inl PathClosed
            else Inr (p\<lparr>pc := Some c\<rparr>, filter (\<lambda>old. old \<noteq> c) (close_opt (pc p))))) \<and>
   reconnect True masqueReconnectBackoff cause (replicate n DialFails @ FoundClosed # ts) =
     (map (\<lambda>i. min (milliseconds 250 * 2 ^ i) (seconds 10)) [0..<n - 1], Some (Inl PathClosed)) \<and>
   reconnect True masqueReconnectBackoff cause (replicate n DialFails @ ContextOver # ts) =
     (map (\<lambda>i. min (milliseconds 250 * 2 ^ i) (seconds 10)) [0..<n - 1], Some (Inl PathContext))"
proof -
  have all: "filter (\<lambda>d. d > 0) (map (\<lambda>i. masqueReconnectBackoff (int i)) [0..<n])
      @ (if masqueReconnectBackoff (int n) > 0 then [masqueReconnectBackoff (int n)] else [])
      = map (\<lambda>i. min (milliseconds 250 * 2 ^ i) (seconds 10)) [0..<n]"
    using reconnect_delays [of "Suc n"] by (simp split: if_splits)
  show ?thesis
    using all reconnect_delays [of n]
    by (auto simp: reconnect_def reconnect_failures replacePacketConn_def close_opt_def split: option.splits)
qed

lemma dial_header_get [simp]:
  "header_get (dial_header K k mode ep) masqueModeHeader = mode"
  "header_get (dial_header K k mode ep) masqueSourceHeader = KeyString K k"
  "header_get (dial_header K k mode ep) masqueProofHeader = ep"
  by (simp_all add: dial_header_def Let_def header_consts)

text \<open>What the relay's handler does with a request whose target and source are the client's key.\<close>

lemma relay_admit_dial:
  assumes "key_laws K" "masqueTemplateFor A (''https://'' @ rq_host req) = Inr t"
    "\<And>h. parseConnectUDPRequestAny A new_response (masqueProxyRequestForParser (req\<lparr>rq_header := h\<rparr>)) t
      = (new_response, Some (masqueTarget K k))"
  shows "relay_admit A K P now1 now2 nonce (req\<lparr>rq_header := dial_header K k ''relay'' ep\<rparr>) a =
    (case authorize K P now1 now2 nonce new_response (req\<lparr>rq_header := dial_header K k ''relay'' ep\<rparr>) k k ''relay'' a of
       (a', w', ok) \<Rightarrow> (a', w', if ok then Some k else None))"
proof -
  have "KeyString K k \<noteq> []" using key_lawsD(4) [OF assms(1), of k] by (auto simp: nodePublicTextPrefix_def)
  then have src: "parseMasqueSource K (dial_header K k ''relay'' ep) = Inr k"
    by (simp add: parseMasqueSource_def key_lawsD(5) [OF assms(1)])
  show ?thesis
    using assms(2) by (simp add: relay_admit_def assms(3) parse_target [OF assms(1)] masqueModeRelay_def src)
qed

text \<open>
  A client is admitted by a relay in two requests. If the request template is the relay's and
  names the client's own key, dialing a relay with an empty table of challenges is answered with a
  challenge, the client's proof for it is accepted, and the dial returns the connection of the
  second request with nothing left open and no challenge left pending.
\<close>
theorem dial_admitted_by_relay:
  assumes "key_laws K" "seal_laws P" "\<not> IsZero K (Public P local)" "\<not> IsZero K (Public P (auth_priv a))"
    "auth_pending a = []" "n \<noteq> []"
    "masqueTemplateFor A (''https://'' @ rq_host req) = Inr t"
    "\<And>h. parseConnectUDPRequestAny A new_response (masqueProxyRequestForParser (req\<lparr>rq_header := h\<rparr>)) t
      = (new_response, Some (masqueTarget K (Public P local)))"
  shows "dialMasquePacketConn K P sealNonce True (relay_dialer A K P now (Some n) req conn)
           requestTarget local ''relay'' a = (a, [], Inr (Some conn))"
proof -
  let ?k = "Public P local" and ?V = "Public P (auth_priv a)"
  let ?r = "\<lambda>ep. req\<lparr>rq_header := dial_header K ?k ''relay'' ep\<rparr>"
  let ?t = "b64_encode n" and ?cid = "masqueChallengeClientID (Some (?r []))"
  let ?c = "\<lparr>ch_src = ?k, ch_target = ?k, ch_mode = ''relay'', ch_clientID = ?cid, ch_expires = now + masqueChallengeTTL\<rparr>"
  let ?a1 = "a\<lparr>auth_pending := [(?t, ?c)]\<rparr>"
  let ?w1 = "http_Error (set_header masqueVerifierHeader (KeyString K ?V)
       (set_header masqueChallengeHeader ?t new_response)) ''MasqueCat node-key proof required'' 401"
  have "issue now (Some n) ?k ?k ''relay'' ?cid a = (?a1, Inr ?t)"
    using assms(5) by (simp add: issue_def Let_def go_consts)
  then have first: "relay_admit A K P now now (Some n) (?r []) a = (?a1, ?w1, None)"
    using assms(3) by (simp add: relay_admit_dial [OF assms(1,7,8)] authorize_def)
  have hdr: "header_get (rw_header ?w1) masqueChallengeHeader = ?t"
    "header_get (rw_header ?w1) masqueVerifierHeader = KeyString K ?V"
    by (subst http_Error_get; simp add: header_consts)+
  define ep where "ep = b64_encode (SealTo P local ?V sealNonce (string_bytes ?t))"
  have vne: "KeyString K ?V \<noteq> []" using key_lawsD(4) [OF assms(1), of ?V] by (auto simp: nodePublicTextPrefix_def)
  have pf: "masqueProofForChallenge K P sealNonce local ?t (KeyString K ?V) requestTarget ''relay'' = Inr ep"
    using assms(4) by (simp add: masqueProofForChallenge_def b64_encode_nonempty [OF assms(6)] vne
        key_lawsD(5) [OF assms(1)] masqueModeDirect_def ep_def)
  have ne: "ep \<noteq> []" using assms(2) by (simp add: ep_def b64_encode_nonempty seal_laws_def)
  have tok: "proof_token P (auth_priv a) ?k ep = Some ?t"
    using assms(2) by (simp add: proof_token_def ep_def seal_laws_def)
  have "verify K P now ep ?k ?k ''relay'' ?a1 = (a, True)"
    using assms(3,5) by (simp add: verify_eq tok live_def masqueChallengeTTL_def seconds_def)
  then have second: "relay_admit A K P now now (Some n) (?r ep) ?a1 = (a, new_response, Some ?k)"
    using assms(3) ne by (simp add: relay_admit_dial [OF assms(1,7,8)] authorize_def)
  show ?thesis
    by (simp add: dialMasquePacketConn_def relay_dialer_def first second hdr pf finish_dial_def close_opt_def)
       (simp add: new_response_def)
qed

theorem dial_admitted_by_relay_witness:
  "dialMasquePacketConn raw_keys raw_privates [] True
     (relay_dialer sample_api raw_keys raw_privates 0 (Some [1]) (sample_request []) 4) 9 7 ''relay''
     \<lparr>auth_priv = 2, auth_pending = []\<rparr> = (\<lparr>auth_priv = 2, auth_pending = []\<rparr>, [], Inr (Some 4))"
proof -
  have "case masqueTemplateURL ''https://h'' of Inr t \<Rightarrow> True | Inl _ \<Rightarrow> False" by code_simp
  then obtain t where t: "masqueTemplateFor sample_api (''https://'' @ rq_host (sample_request [])) = Inr t"
    by (auto simp: masqueTemplateFor_def sample_api_def sample_request_def split: sum.splits)
  have pub: "Public raw_privates q = q" for q by (simp add: raw_privates_def)
  have z: "\<not> IsZero raw_keys (Public raw_privates 7)" "\<not> IsZero raw_keys (Public raw_privates 2)"
    by (simp_all add: raw_keys_def raw_privates_def)
  have parse: "parseConnectUDPRequestAny sample_api new_response
      (masqueProxyRequestForParser ((sample_request [])\<lparr>rq_header := h\<rparr>)) t
      = (new_response, Some (masqueTarget raw_keys (Public raw_privates 7)))" for h
    by (simp add: parseConnectUDPRequestAny_def masqueProxyRequestForParser_def sample_request_def
        blank_request_def parseConnectUDPRequest_def sample_api_def pub)
  show ?thesis
    by (rule dial_admitted_by_relay [OF key_laws_raw_keys seal_laws_raw z(1) _ _ _ t parse]) (simp_all add: z)
qed

end
