(* ===== verification/Direct.thy ===== *)
theory Direct
  imports Core Relay
begin

text \<open>
  The direct carrier of a server (\<^verbatim>\<open>directMasqueCoreHandler\<close> of \<^verbatim>\<open>masquecat_direct.go\<close>) and
  the receive loop of its relay carrier (\<^verbatim>\<open>MasqueServer.Start\<close> of \<^verbatim>\<open>masquecat.go\<close>), both
  feeding one core.
\<close>

section \<open>Admission\<close>

definition direct_admit ::
  "'t masque_api \<Rightarrow> 'k node_key_api \<Rightarrow> ('p, 'k) node_private_api \<Rightarrow> time \<Rightarrow> time \<Rightarrow> bytes option \<Rightarrow> 'k \<Rightarrow>
   ('k, 'f, 'w, 'r, 'h) masqueCore \<Rightarrow> http_request \<Rightarrow> ('p, 'k) masqueAuthenticator \<Rightarrow>
   ('p, 'k) masqueAuthenticator \<times> response \<times> 'k option" where
  "direct_admit A K P now1 now2 nonce local core req a =
     (case masqueTemplateFor A (''https://'' @ rq_host req) of
        Inl e \<Rightarrow> (a, http_Error new_response [] 400, None)
      | Inr tmpl \<Rightarrow>
          (case parseConnectUDPRequestAny A new_response (masqueProxyRequestForParser req) tmpl of
             (w, None) \<Rightarrow> (a, w, None)
           | (w, Some target) \<Rightarrow>
               if header_get (rq_header req) masqueModeHeader \<noteq> masqueModeDirect
               then (a, http_Error w ''expected direct MasqueCat path'' 400, None)
               else if parseMasqueTarget K target \<noteq> Inr local
               then (a, http_Error w ''CONNECT-UDP target is not this MasqueCat peer'' 404, None)
               else case parseMasqueSource K (rq_header req) of
                      Inl e \<Rightarrow> (a, http_Error w ''invalid MasqueCat source'' 401, None)
                    | Inr src \<Rightarrow>
                        if IsZero K src then (a, http_Error w ''invalid MasqueCat source'' 401, None)
                        else case authorize K P now1 now2 nonce w req src local masqueModeDirect a of
                               (a', w', False) \<Rightarrow> (a', w', None)
                             | (a', w', True) \<Rightarrow>
                                 if \<not> peerAllowed src core
                                 then (a', http_Error w' ''MasqueCat peer is not allowed'' 403, None)
                                 else (a', w', Some src)))"

datatype direct_action = DirectMalformed packet_error | DirectMismatch | DirectDisco | DirectInject bytes

definition direct_datagram :: "'k node_key_api \<Rightarrow> bytes \<Rightarrow> 'k \<Rightarrow> 'k \<Rightarrow> bytes \<Rightarrow> direct_action" where
  "direct_datagram K magic src local b =
     (case decodeMasquePacket K b of
        Inl e \<Rightarrow> DirectMalformed e
      | Inr pkt \<Rightarrow>
          if p_src pkt \<noteq> src \<or> p_dst pkt \<noteq> local then DirectMismatch
          else if HasPrefix (p_payload pkt) magic then DirectDisco
          else DirectInject (p_payload pkt))"

section \<open>Sessions\<close>

text \<open>The paths of a server's core: the streams of its direct sessions and its relay carrier.\<close>

datatype server_path = DirectStream nat | RelayCarrier

datatype 'k direct_session = DReserved 'k | DActive 'k | DClosing 'k | DDone

fun d_holds :: "'k direct_session \<Rightarrow> 'k option" where
  "d_holds (DReserved k) = Some k"
| "d_holds (DActive k) = Some k"
| "d_holds (DClosing k) = Some k"
| "d_holds DDone = None"

record ('k, 'w, 'r, 'h) direct_sys =
  d_res :: "'k directMasqueReservations"
  d_core :: "('k, server_path, 'w, 'r, 'h) masqueCore"
  d_sess :: "nat \<Rightarrow> 'k direct_session option"

text \<open>
  A session that has passed \<^verbatim>\<open>direct_admit\<close> for its key reserves it, accepts its stream, sets the
  path, and injects datagrams until its stream ends, when it removes the path and releases the key; at each
  point an error unwinds what it has. The relay loop, where there is one, sets the path of every
  source it hears from to the relay carrier.
\<close>

inductive direct_step ::
  "'w wg_api \<Rightarrow> 'k node_key_api \<Rightarrow> bytes \<Rightarrow> bool \<Rightarrow> ('k, 'w, 'r, 'h) direct_sys \<Rightarrow> ('k, 'w, 'r, 'h) direct_sys \<Rightarrow> bool"
  for W K magic withRelay where
  d_claim: "d_sess s i = None \<Longrightarrow> peerAllowed k (d_core s) \<Longrightarrow> direct_reserve k (d_res s) = (res, True) \<Longrightarrow>
     direct_step W K magic withRelay s (s\<lparr>d_res := res, d_sess := (d_sess s)(i \<mapsto> DReserved k)\<rparr>)"
| d_conflict: "d_sess s i = None \<Longrightarrow> direct_reserve k (d_res s) = (res, False) \<Longrightarrow>
     direct_step W K magic withRelay s (s\<lparr>d_res := res, d_sess := (d_sess s)(i \<mapsto> DDone)\<rparr>)"
| d_accept_fail: "d_sess s i = Some (DReserved k) \<Longrightarrow>
     direct_step W K magic withRelay s (s\<lparr>d_res := direct_release k (d_res s), d_sess := (d_sess s)(i \<mapsto> DDone)\<rparr>)"
| d_open: "d_sess s i = Some (DReserved k) \<Longrightarrow> core_SetPath W K k (Some (DirectStream i)) (d_core s) = (c, None) \<Longrightarrow>
     direct_step W K magic withRelay s (s\<lparr>d_core := c, d_sess := (d_sess s)(i \<mapsto> DActive k)\<rparr>)"
| d_open_fail: "d_sess s i = Some (DReserved k) \<Longrightarrow> core_SetPath W K k (Some (DirectStream i)) (d_core s) = (c, Some e) \<Longrightarrow>
     direct_step W K magic withRelay s
       (s\<lparr>d_core := c, d_res := direct_release k (d_res s), d_sess := (d_sess s)(i \<mapsto> DDone)\<rparr>)"
| d_packet: "d_sess s i = Some (DActive k) \<Longrightarrow>
     direct_datagram K magic k (c_pub (d_core s)) b = DirectInject payload \<Longrightarrow>
     core_Inject W K now pick k payload (d_core s) = (c, r) \<Longrightarrow>
     direct_step W K magic withRelay s (s\<lparr>d_core := c\<rparr>)"
| d_end: "d_sess s i = Some (DActive k) \<Longrightarrow>
     direct_step W K magic withRelay s
       (s\<lparr>d_core := core_RemovePath W K k (Some (DirectStream i)) (d_core s), d_sess := (d_sess s)(i \<mapsto> DClosing k)\<rparr>)"
| d_release: "d_sess s i = Some (DClosing k) \<Longrightarrow>
     direct_step W K magic withRelay s (s\<lparr>d_res := direct_release k (d_res s), d_sess := (d_sess s)(i \<mapsto> DDone)\<rparr>)"
| d_relay_reject: "withRelay \<Longrightarrow> core_SetPath W K k (Some RelayCarrier) (d_core s) = (c, Some e) \<Longrightarrow>
     direct_step W K magic withRelay s (s\<lparr>d_core := c\<rparr>)"
| d_relay: "withRelay \<Longrightarrow> core_SetPath W K k (Some RelayCarrier) (d_core s) = (c, None) \<Longrightarrow>
     core_Inject W K now pick k payload c = (c', r) \<Longrightarrow>
     direct_step W K magic withRelay s (s\<lparr>d_core := c'\<rparr>)"
| d_allow: "direct_step W K magic withRelay s (s\<lparr>d_core := core_AddAllowedClient k (d_core s)\<rparr>)"

inductive direct_reachable ::
  "'w wg_api \<Rightarrow> 'k node_key_api \<Rightarrow> bytes \<Rightarrow> bool \<Rightarrow> ('k, server_path, 'w, 'r, 'h) masqueCore \<Rightarrow> ('k, 'w, 'r, 'h) direct_sys \<Rightarrow> bool"
  for W K magic withRelay c0 where
  d_start: "direct_reachable W K magic withRelay c0 \<lparr>d_res = \<lparr>dr_peers = []\<rparr>, d_core = c0, d_sess = Map.empty\<rparr>"
| d_more: "direct_reachable W K magic withRelay c0 s \<Longrightarrow> direct_step W K magic withRelay s s' \<Longrightarrow>
     direct_reachable W K magic withRelay c0 s'"

section \<open>What the core operations do to the paths\<close>

lemma addPeer_bind: "addPeerLocked W K k c = (c', e) \<Longrightarrow> c_bind c' = c_bind c \<and> c_pub c' = c_pub c"
  by (cases rule: addPeerLocked_cases) auto

lemma setPath_paths:
  assumes "core_SetPath W K k (Some f) c = (c', e)"
  shows "map_of (b_paths (c_bind c')) = (if e = None then (map_of (b_paths (c_bind c)))(k \<mapsto> f) else map_of (b_paths (c_bind c)))"
  using assms addPeer_bind [of W K k c]
  by (auto simp: core_SetPath_def bind_SetPath_def update_conv split: if_splits option.splits prod.splits)

lemma inject_core_paths:
  assumes "core_Inject W K now pick k payload c = (c', r)"
  shows "map_of (b_paths (c_bind c')) = map_of (b_paths (c_bind c))"
proof -
  obtain c1 e where add: "AddPeer W K k c = (c1, e)" by fastforce
  then have "c_bind c1 = c_bind c" using addPeer_bind [of W K k c c1 e] by (auto simp: AddPeer_def split: if_splits)
  moreover obtain b res where inj: "bind_Inject now pick k payload (c_bind c1) = (b, res)" by fastforce
  moreover have "b_paths b = b_paths (c_bind c1)" using inject_paths [of now pick k payload "c_bind c1"] unfolding inj by simp
  ultimately show ?thesis
    using assms add by (auto simp: core_Inject_def split: option.splits)
qed

lemma removePath_paths:
  "map_of (b_paths (c_bind (core_RemovePath W K k f c))) =
     (if map_of (b_paths (c_bind c)) k = f then (map_of (b_paths (c_bind c)))(k := None) else map_of (b_paths (c_bind c)))"
  by (auto simp: core_RemovePath_def bind_RemovePath_def Let_def delete_conv' split: prod.splits bool.splits)

lemma reserve_cases:
  "direct_reserve k r = (r', ok) \<Longrightarrow>
   ok = (map_of (dr_peers r) k = None) \<and> map_of (dr_peers r') = (if ok then (map_of (dr_peers r))(k \<mapsto> ()) else map_of (dr_peers r))"
  by (cases "map_of (dr_peers r) k") (auto simp: direct_reserve_def update_conv)

lemma release_map: "map_of (dr_peers (direct_release k r)) = (map_of (dr_peers r))(k := None)"
  by (simp add: direct_release_def delete_conv')

section \<open>The invariant\<close>

definition direct_view ::
  "bool \<Rightarrow> ('k \<Rightarrow> unit option) \<Rightarrow> ('k \<Rightarrow> server_path option) \<Rightarrow> (nat \<Rightarrow> 'k direct_session option) \<Rightarrow> bool" where
  "direct_view withRelay R P S \<longleftrightarrow>
     (\<forall>k. R k \<noteq> None \<longleftrightarrow> (\<exists>i x. S i = Some x \<and> d_holds x = Some k)) \<and>
     (\<forall>i j x y k. S i = Some x \<and> S j = Some y \<and> d_holds x = Some k \<and> d_holds y = Some k \<longrightarrow> i = j) \<and>
     (\<forall>k i. P k = Some (DirectStream i) \<longrightarrow> S i = Some (DActive k)) \<and>
     (\<not> withRelay \<longrightarrow> (\<forall>i k. S i = Some (DActive k) \<longrightarrow> P k = Some (DirectStream i)) \<and> (\<forall>k. P k \<noteq> Some RelayCarrier))"

lemma direct_viewD:
  assumes "direct_view withRelay R P S"
  shows "S i = Some x \<Longrightarrow> d_holds x = Some k \<Longrightarrow> R k \<noteq> None"
    "R k \<noteq> None \<Longrightarrow> \<exists>i x. S i = Some x \<and> d_holds x = Some k"
    "S i = Some x \<Longrightarrow> S j = Some y \<Longrightarrow> d_holds x = Some k \<Longrightarrow> d_holds y = Some k \<Longrightarrow> i = j"
    "P k = Some (DirectStream i) \<Longrightarrow> S i = Some (DActive k)"
    "\<not> withRelay \<Longrightarrow> S i = Some (DActive k) \<Longrightarrow> P k = Some (DirectStream i)"
    "\<not> withRelay \<Longrightarrow> P k \<noteq> Some RelayCarrier"
    "R k \<noteq> None \<longleftrightarrow> (\<exists>i x. S i = Some x \<and> d_holds x = Some k)"
  using assms unfolding direct_view_def by blast+

lemma view_claim:
  assumes v: "direct_view withRelay R P S" and i: "S i = None" and k: "R k = None"
  shows "direct_view withRelay (R(k \<mapsto> ())) P (S(i \<mapsto> DReserved k))"
proof -
  have none: "\<not> (S j = Some x \<and> d_holds x = Some k)" for j x using direct_viewD(1) [OF v] k by blast
  have "(R(k \<mapsto> ())) k' \<noteq> None \<longleftrightarrow> (\<exists>j x. (S(i \<mapsto> DReserved k)) j = Some x \<and> d_holds x = Some k')" for k'
  proof (cases "k' = k")
    case False
    then have "(\<exists>j x. (S(i \<mapsto> DReserved k)) j = Some x \<and> d_holds x = Some k') \<longleftrightarrow> (\<exists>j x. S j = Some x \<and> d_holds x = Some k')"
      using i by (auto split: if_splits) (metis option.distinct(1))
    then show ?thesis using v False by (simp add: direct_view_def)
  qed auto
  moreover have "i1 = j1" if "(S(i \<mapsto> DReserved k)) i1 = Some x" "(S(i \<mapsto> DReserved k)) j1 = Some y"
    "d_holds x = Some k'" "d_holds y = Some k'" for i1 j1 x y k'
    using that none direct_viewD(3) [OF v] by (auto split: if_splits)
  moreover have "(S(i \<mapsto> DReserved k)) j = Some (DActive k')" if "P k' = Some (DirectStream j)" for k' j
    using direct_viewD(4) [OF v that] i by auto
  moreover have "(\<forall>j k'. (S(i \<mapsto> DReserved k)) j = Some (DActive k') \<longrightarrow> P k' = Some (DirectStream j)) \<and>
      (\<forall>k'. P k' \<noteq> Some RelayCarrier)" if "\<not> withRelay"
    using direct_viewD(5,6) [OF v that] by (auto split: if_splits)
  ultimately show ?thesis unfolding direct_view_def by blast
qed

lemma view_move:
  assumes v: "direct_view withRelay R P S" and i: "S i = Some x" "d_holds x = Some k" "d_holds y = Some k"
    and p: "\<And>k' j. P' k' = Some (DirectStream j) \<Longrightarrow> (S(i \<mapsto> y)) j = Some (DActive k')"
    and d: "\<not> withRelay \<Longrightarrow> (\<forall>j k'. (S(i \<mapsto> y)) j = Some (DActive k') \<longrightarrow> P' k' = Some (DirectStream j)) \<and> (\<forall>k'. P' k' \<noteq> Some RelayCarrier)"
  shows "direct_view withRelay R P' (S(i \<mapsto> y))"
proof -
  have hold: "(\<exists>z. (S(i \<mapsto> y)) j = Some z \<and> d_holds z = Some k') \<longleftrightarrow> (\<exists>z. S j = Some z \<and> d_holds z = Some k')" for j k'
    using i by auto
  have "(\<exists>j z. (S(i \<mapsto> y)) j = Some z \<and> d_holds z = Some k') \<longleftrightarrow> R k' \<noteq> None" for k'
    using v hold [of _ k'] unfolding direct_view_def by auto
  moreover have "i1 = j1" if "(S(i \<mapsto> y)) i1 = Some z" "(S(i \<mapsto> y)) j1 = Some z'" "d_holds z = Some k'" "d_holds z' = Some k'" for i1 j1 z z' k'
    using direct_viewD(3) [OF v, of i1 _ j1 _ k'] hold [of i1 k'] hold [of j1 k'] that by blast
  ultimately show ?thesis using p d unfolding direct_view_def by blast
qed

lemma view_drop:
  assumes v: "direct_view withRelay R P S" and i: "S i = Some x" "d_holds x = Some k" "x \<noteq> DActive k"
  shows "direct_view withRelay (R(k := None)) P (S(i \<mapsto> DDone))"
proof -
  have only: "j = i" if "S j = Some z" "d_holds z = Some k" for j z using direct_viewD(3) [OF v that(1) i(1) that(2) i(2)] .
  have hold: "(\<exists>z. (S(i \<mapsto> DDone)) j = Some z \<and> d_holds z = Some k') \<longleftrightarrow> (\<exists>z. S j = Some z \<and> d_holds z = Some k') \<and> k' \<noteq> k" for j k'
  proof (cases "j = i")
    case False
    then have "\<not> (S j = Some z \<and> d_holds z = Some k)" for z using only by blast
    with False show ?thesis by auto
  qed (use i in auto)
  have "(R(k := None)) k' \<noteq> None \<longleftrightarrow> (\<exists>j z. (S(i \<mapsto> DDone)) j = Some z \<and> d_holds z = Some k')" for k'
  proof -
    have "(R(k := None)) k' \<noteq> None \<longleftrightarrow> k' \<noteq> k \<and> R k' \<noteq> None" by simp
    also have "\<dots> \<longleftrightarrow> k' \<noteq> k \<and> (\<exists>j z. S j = Some z \<and> d_holds z = Some k')"
      using direct_viewD(7) [OF v, of k'] by blast
    also have "\<dots> \<longleftrightarrow> (\<exists>j z. (S(i \<mapsto> DDone)) j = Some z \<and> d_holds z = Some k')" using hold by blast
    finally show ?thesis .
  qed
  moreover have "i1 = j1" if "(S(i \<mapsto> DDone)) i1 = Some z" "(S(i \<mapsto> DDone)) j1 = Some z'" "d_holds z = Some k'" "d_holds z' = Some k'" for i1 j1 z z' k'
    using direct_viewD(3) [OF v, of i1 _ j1 _ k'] hold [of i1 k'] hold [of j1 k'] that by blast
  moreover have notact: "x \<noteq> DActive k'" for k' using i(2,3) by auto
  moreover have "(S(i \<mapsto> DDone)) j = Some (DActive k')" if "P k' = Some (DirectStream j)" for k' j
    using direct_viewD(4) [OF v that] i(1) notact by auto
  moreover have "(\<forall>j k'. (S(i \<mapsto> DDone)) j = Some (DActive k') \<longrightarrow> P k' = Some (DirectStream j)) \<and>
      (\<forall>k'. P k' \<noteq> Some RelayCarrier)" if "\<not> withRelay"
    using direct_viewD(5,6) [OF v that] by (auto split: if_splits)
  ultimately show ?thesis unfolding direct_view_def by blast
qed

lemma view_relay:
  assumes "direct_view True R P S"
  shows "direct_view True R (P(k \<mapsto> RelayCarrier)) S"
  using assms by (auto simp: direct_view_def)

lemma view_done:
  assumes v: "direct_view withRelay R P S" and i: "S i = None"
  shows "direct_view withRelay R P (S(i \<mapsto> DDone))"
proof -
  have hold: "(\<exists>z. (S(i \<mapsto> DDone)) j = Some z \<and> d_holds z = Some k') \<longleftrightarrow> (\<exists>z. S j = Some z \<and> d_holds z = Some k')" for j k'
    using i by auto
  have "R k' \<noteq> None \<longleftrightarrow> (\<exists>j z. (S(i \<mapsto> DDone)) j = Some z \<and> d_holds z = Some k')" for k'
    using direct_viewD(7) [OF v, of k'] hold by blast
  moreover have "i1 = j1" if "(S(i \<mapsto> DDone)) i1 = Some z" "(S(i \<mapsto> DDone)) j1 = Some z'" "d_holds z = Some k'" "d_holds z' = Some k'" for i1 j1 z z' k'
    using direct_viewD(3) [OF v, of i1 _ j1 _ k'] hold [of i1 k'] hold [of j1 k'] that by blast
  moreover have "(S(i \<mapsto> DDone)) j = Some (DActive k')" if "P k' = Some (DirectStream j)" for k' j
    using direct_viewD(4) [OF v that] i by auto
  moreover have "(\<forall>j k'. (S(i \<mapsto> DDone)) j = Some (DActive k') \<longrightarrow> P k' = Some (DirectStream j)) \<and>
      (\<forall>k'. P k' \<noteq> Some RelayCarrier)" if "\<not> withRelay"
    using direct_viewD(5,6) [OF v that] by (auto split: if_splits)
  ultimately show ?thesis unfolding direct_view_def by blast
qed

lemma view_open:
  assumes v: "direct_view withRelay R P S" and i: "S i = Some (DReserved k)"
  shows "direct_view withRelay R (P(k \<mapsto> DirectStream i)) (S(i \<mapsto> DActive k))"
proof (rule view_move [OF v i])
  fix k' j assume p: "(P(k \<mapsto> DirectStream i)) k' = Some (DirectStream j)"
  show "(S(i \<mapsto> DActive k)) j = Some (DActive k')"
  proof (cases "k' = k")
    case False
    then have "S j = Some (DActive k')" using p direct_viewD(4) [OF v] by simp
    with i show ?thesis by auto
  qed (use p in simp)
next
  assume nr: "\<not> withRelay"
  have "(P(k \<mapsto> DirectStream i)) k' = Some (DirectStream j)" if "(S(i \<mapsto> DActive k)) j = Some (DActive k')" for j k'
  proof (cases "j = i")
    case False
    then have act: "S j = Some (DActive k')" using that by simp
    then have "k' \<noteq> k" using direct_viewD(3) [OF v act i, of k'] False by auto
    then show ?thesis using direct_viewD(5) [OF v nr act] by simp
  qed (use that in simp)
  then show "(\<forall>j k'. (S(i \<mapsto> DActive k)) j = Some (DActive k') \<longrightarrow> (P(k \<mapsto> DirectStream i)) k' = Some (DirectStream j)) \<and>
      (\<forall>k'. (P(k \<mapsto> DirectStream i)) k' \<noteq> Some RelayCarrier)" using direct_viewD(6) [OF v nr] by auto
qed simp_all

lemma direct_view_end:
  assumes v: "direct_view withRelay R P S" and i: "S i = Some (DActive k)"
  shows "direct_view withRelay R (if P k = Some (DirectStream i) then P(k := None) else P) (S(i \<mapsto> DClosing k))"
proof (rule view_move [OF v i])
  fix k' j assume p: "(if P k = Some (DirectStream i) then P(k := None) else P) k' = Some (DirectStream j)"
  then have "P k' = Some (DirectStream j)" "k' = k \<longrightarrow> j \<noteq> i" by (auto split: if_splits)
  moreover from direct_viewD(4) [OF v this(1)] have "S j = Some (DActive k')" .
  ultimately show "(S(i \<mapsto> DClosing k)) j = Some (DActive k')" using i by auto
next
  assume nr: "\<not> withRelay"
  have "(if P k = Some (DirectStream i) then P(k := None) else P) k' = Some (DirectStream j)"
    if "(S(i \<mapsto> DClosing k)) j = Some (DActive k')" for j k'
  proof -
    from that have act: "S j = Some (DActive k')" "j \<noteq> i" by (auto split: if_splits)
    then have "k' \<noteq> k" using direct_viewD(3) [OF v act(1) i, of k'] by auto
    then show ?thesis using direct_viewD(5) [OF v nr act(1)] by auto
  qed
  then show "(\<forall>j k'. (S(i \<mapsto> DClosing k)) j = Some (DActive k') \<longrightarrow>
      (if P k = Some (DirectStream i) then P(k := None) else P) k' = Some (DirectStream j)) \<and>
      (\<forall>k'. (if P k = Some (DirectStream i) then P(k := None) else P) k' \<noteq> Some RelayCarrier)"
    using direct_viewD(6) [OF v nr] by auto
qed simp_all

definition direct_inv :: "bool \<Rightarrow> ('k, 'w, 'r, 'h) direct_sys \<Rightarrow> bool" where
  "direct_inv withRelay s \<longleftrightarrow>
     direct_view withRelay (map_of (dr_peers (d_res s))) (map_of (b_paths (c_bind (d_core s)))) (d_sess s)"

lemma direct_inv_step:
  assumes "direct_step W K magic withRelay s s'" "direct_inv withRelay s"
  shows "direct_inv withRelay s'"
  using assms(1)
proof cases
  case (d_claim i k res)
  from reserve_cases [OF d_claim(4)] have r: "map_of (dr_peers (d_res s)) k = None"
    "map_of (dr_peers res) = (map_of (dr_peers (d_res s)))(k \<mapsto> ())" by simp_all
  show ?thesis using view_claim [OF assms(2) [unfolded direct_inv_def] d_claim(2) r(1)] d_claim(1) r(2) by (simp add: direct_inv_def)
next
  case (d_conflict i k res)
  from reserve_cases [OF d_conflict(3)] have "map_of (dr_peers res) = map_of (dr_peers (d_res s))" by simp
  then show ?thesis using view_done [OF assms(2) [unfolded direct_inv_def] d_conflict(2)] d_conflict(1) by (simp add: direct_inv_def)
next
  case (d_accept_fail i k)
  show ?thesis
    using view_drop [OF assms(2) [unfolded direct_inv_def] d_accept_fail(2), of k] d_accept_fail(1) by (simp add: direct_inv_def release_map)
next
  case (d_open i k c)
  show ?thesis
    using view_open [OF assms(2) [unfolded direct_inv_def] d_open(2)] d_open(1) setPath_paths [OF d_open(3)] by (simp add: direct_inv_def)
next
  case (d_open_fail i k c e)
  show ?thesis
    using view_drop [OF assms(2) [unfolded direct_inv_def] d_open_fail(2), of k] d_open_fail(1) setPath_paths [OF d_open_fail(3)]
    by (simp add: direct_inv_def release_map)
next
  case (d_packet i k b payload now pick c r)
  show ?thesis using assms(2) d_packet(1) inject_core_paths [OF d_packet(4)] by (simp add: direct_inv_def)
next
  case (d_end i k)
  show ?thesis
    using direct_view_end [OF assms(2) [unfolded direct_inv_def] d_end(2)] d_end(1) by (simp add: direct_inv_def removePath_paths)
next
  case (d_release i k)
  show ?thesis
    using view_drop [OF assms(2) [unfolded direct_inv_def] d_release(2), of k] d_release(1) by (simp add: direct_inv_def release_map)
next
  case (d_relay_reject k c e)
  show ?thesis using assms(2) d_relay_reject(1) setPath_paths [OF d_relay_reject(3)] by (simp add: direct_inv_def)
next
  case (d_relay k c now pick payload c' r)
  show ?thesis
    using assms(2) d_relay(1,2) setPath_paths [OF d_relay(3)] inject_core_paths [OF d_relay(4)] view_relay
    by (auto simp: direct_inv_def)
next
  case (d_allow k)
  show ?thesis using assms(2) d_allow by (simp add: direct_inv_def core_AddAllowedClient_def)
qed

lemma direct_inv_reachable:
  assumes "direct_reachable W K magic withRelay c0 s" "b_paths (c_bind c0) = []"
  shows "direct_inv withRelay s"
  using assms
proof (induction rule: direct_reachable.induct)
  case d_start
  then show ?case by (simp add: direct_inv_def direct_view_def)
next
  case (d_more s s')
  then show ?case using direct_inv_step by blast
qed

section \<open>A sample run\<close>

lemma sample_setPath:
  obtains w where "core_SetPath raw_wg raw_keys 7 (Some f) (sample_core [7]) =
    ((sample_core [7])\<lparr>c_wg := w, c_peers := [(7, ())], c_bind := bind_SetPath 7 (Some f) (c_bind (sample_core [7]))\<rparr>, None)"
proof -
  have "\<not> IsZero raw_keys 7" by (simp add: raw_keys_def)
  moreover obtain w where "addPeerLocked raw_wg raw_keys 7 (sample_core [7]) =
      ((sample_core [7])\<lparr>c_wg := w, c_peers := [(7, ())]\<rparr> :: (raw_key, 'a, raw_device, unit, unit) masqueCore, None)"
    using sample_addPeer [of 7 "[7]"] by auto
  ultimately show thesis using that by (simp add: core_SetPath_def)
qed

definition sample_direct ::
  "raw_device \<Rightarrow> (raw_key, raw_device, unit, unit) direct_sys" where
  "sample_direct w = \<lparr>d_res = \<lparr>dr_peers = [(7, ())]\<rparr>,
     d_core = (sample_core [7])\<lparr>c_wg := w, c_peers := [(7, ())], c_bind := bind_SetPath 7 (Some (DirectStream 0)) (c_bind (sample_core [7]))\<rparr>,
     d_sess = [0 \<mapsto> DActive 7]\<rparr>"

lemma sample_direct_reachable:
  "\<exists>w. direct_reachable raw_wg raw_keys [84, 83] relay (sample_core [7]) (sample_direct w)"
proof -
  let ?s0 = "\<lparr>d_res = \<lparr>dr_peers = []\<rparr>, d_core = sample_core [7], d_sess = Map.empty\<rparr>
    :: (raw_key, raw_device, unit, unit) direct_sys"
  let ?s1 = "?s0\<lparr>d_res := \<lparr>dr_peers = [(7, ())]\<rparr>, d_sess := Map.empty(0 \<mapsto> DReserved 7)\<rparr>"
  obtain w where w: "core_SetPath raw_wg raw_keys 7 (Some (DirectStream 0)) (sample_core [7]) =
      ((sample_core [7])\<lparr>c_wg := w, c_peers := [(7, ())],
         c_bind := bind_SetPath 7 (Some (DirectStream 0)) (c_bind (sample_core [7]))\<rparr>, None)"
    by (rule sample_setPath)
  have "direct_reachable raw_wg raw_keys [84, 83] relay (sample_core [7]) ?s0" by (rule d_start)
  then have "direct_reachable raw_wg raw_keys [84, 83] relay (sample_core [7]) ?s1"
    by (rule d_more)
       (use d_claim [of ?s0 0 7 "\<lparr>dr_peers = [(7, ())]\<rparr>" raw_wg raw_keys "[84, 83]" relay] in
         \<open>simp add: peerAllowed_def sample_core_def direct_reserve_def\<close>)
  then have "direct_reachable raw_wg raw_keys [84, 83] relay (sample_core [7]) (sample_direct w)"
    by (rule d_more)
       (use d_open [of ?s1 0 7 raw_wg raw_keys] w in \<open>simp add: sample_direct_def\<close>)
  then show ?thesis by blast
qed

section \<open>Properties\<close>

text \<open>
  C20: direct sessions are exclusive and own their return path. Under any interleaving of direct
  sessions, packets, relay traffic and allowlist changes: at most one live session holds a key, and a
  key is reserved exactly while a session holds it; the WireGuard return path of a key is never the
  stream of a session that is not active for that key; and on a server without a relay the return path
  of a key is exactly the stream of its active session, so that a session that ends never removes
  another's path and leaves none of its own behind.
\<close>
theorem direct_sessions_exclusive:
  assumes "newMasqueCore W P Raw32 stack_ok up_ok w0 priv opts hasLog = Inr c0"
    "direct_reachable W K magic withRelay c0 s"
  shows "(\<forall>i j x y. d_sess s i = Some x \<and> d_sess s j = Some y \<and> d_holds x \<noteq> None \<and> d_holds x = d_holds y \<longrightarrow> i = j) \<and>
         (\<forall>k. map_of (dr_peers (d_res s)) k \<noteq> None \<longleftrightarrow> (\<exists>i x. d_sess s i = Some x \<and> d_holds x = Some k)) \<and>
         (\<forall>k i. map_of (b_paths (c_bind (d_core s))) k = Some (DirectStream i) \<longrightarrow> d_sess s i = Some (DActive k)) \<and>
         (\<not> withRelay \<longrightarrow> (\<forall>k f. map_of (b_paths (c_bind (d_core s))) k = Some f \<longleftrightarrow>
            (\<exists>i. f = DirectStream i \<and> d_sess s i = Some (DActive k))))"
proof -
  have "b_paths (c_bind c0) = []" using assms(1) by (rule newMasqueCore_Inr)
  then have v: "direct_view withRelay (map_of (dr_peers (d_res s))) (map_of (b_paths (c_bind (d_core s)))) (d_sess s)"
    using direct_inv_reachable [OF assms(2)] by (simp add: direct_inv_def)
  have "map_of (b_paths (c_bind (d_core s))) k = Some f \<longleftrightarrow> (\<exists>i. f = DirectStream i \<and> d_sess s i = Some (DActive k))"
    if "\<not> withRelay" for k f
  proof (cases f)
    case (DirectStream i)
    then show ?thesis using direct_viewD(4) [OF v, of k i] direct_viewD(5) [OF v that, of i k] by auto
  next
    case RelayCarrier
    then show ?thesis using direct_viewD(6) [OF v that, of k] by simp
  qed
  moreover have "i = j" if "d_sess s i = Some x" "d_sess s j = Some y" "d_holds x \<noteq> None" "d_holds x = d_holds y" for i j x y
    using direct_viewD(3) [OF v that(1,2)] that(3,4) by (cases "d_holds x") auto
  ultimately show ?thesis
  proof (intro conjI allI impI)
    show "map_of (dr_peers (d_res s)) k \<noteq> None \<longleftrightarrow> (\<exists>i x. d_sess s i = Some x \<and> d_holds x = Some k)" for k
      by (rule direct_viewD(7) [OF v])
    show "d_sess s i = Some (DActive k)" if "map_of (b_paths (c_bind (d_core s))) k = Some (DirectStream i)" for k i
      by (rule direct_viewD(4) [OF v that])
  qed blast+
qed

theorem direct_sessions_exclusive_witness:
  "\<exists>w. direct_reachable raw_wg raw_keys [84, 83] False (sample_core [7]) (sample_direct w) \<and>
     map_of (b_paths (c_bind (d_core (sample_direct w)))) 7 = Some (DirectStream 0)"
proof -
  obtain w where r: "direct_reachable raw_wg raw_keys [84, 83] False (sample_core [7]) (sample_direct w)"
    using sample_direct_reachable [of False] by blast
  have "d_sess (sample_direct w) 0 = Some (DActive 7)" by (simp add: sample_direct_def)
  with direct_sessions_exclusive [OF sample_core_new r] r show ?thesis by blast
qed

text \<open>
  C21: admission to the direct carrier. A session is admitted for a key only if its request is in
  direct mode for this server's key, its source header names that key, its proof verifies for the pair of
  keys, and the key is allowed; a datagram of the session reaches the core only if it names the
  session's key as its source and the server as its destination and is not a disco packet. Every refusal
  that is not the CONNECT-UDP parser's has status 400, 401, 403, 404, 429 or 500.
\<close>
theorem direct_admission:
  assumes "direct_admit A K P now1 now2 nonce local core req a = (a', w, res)"
  shows "(\<forall>k. res = Some k \<longrightarrow>
            \<not> IsZero K k \<and> header_get (rq_header req) masqueModeHeader = ''direct'' \<and>
            parseMasqueSource K (rq_header req) = Inr k \<and> peerAllowed k core \<and>
            verify K P now1 (header_get (rq_header req) masqueProofHeader) k local ''direct'' a = (a', True)) \<and>
         (res = None \<longrightarrow>
            rw_status w \<in> Some ` {400, 401, 403, 404, 429, 500} \<or>
            (\<exists>tmpl. parseConnectUDPRequestAny A new_response (masqueProxyRequestForParser req) tmpl = (w, None))) \<and>
         (direct_datagram K magic src local b = DirectInject payload \<longrightarrow>
            \<not> HasPrefix payload magic \<and>
            decodeMasquePacket K b = Inr \<lparr>p_src = src, p_dst = local, p_payload = payload\<rparr>)"
proof -
  have dg: "\<not> HasPrefix payload magic \<and> decodeMasquePacket K b = Inr \<lparr>p_src = src, p_dst = local, p_payload = payload\<rparr>"
    if "direct_datagram K magic src local b = DirectInject payload"
    using that by (auto simp: direct_datagram_def split: sum.splits if_splits)
  show ?thesis
  proof (cases "masqueTemplateFor A (''https://'' @ rq_host req)")
    case (Inl e)
    with assms dg show ?thesis by (auto simp: direct_admit_def new_response_def)
  next
    case (Inr tmpl)
    obtain w0 t where parse: "parseConnectUDPRequestAny A new_response (masqueProxyRequestForParser req) tmpl = (w0, t)"
      by fastforce
    show ?thesis
    proof (cases t)
      case None
      with assms Inr parse dg show ?thesis by (auto simp: direct_admit_def)
    next
      case (Some target)
      with parse parser_response [of A "masqueProxyRequestForParser req" tmpl] have w0: "rw_status w0 = None" by simp
      show ?thesis
      proof (cases "header_get (rq_header req) masqueModeHeader = ''direct'' \<and> parseMasqueTarget K target = Inr local \<and>
          (\<exists>src. parseMasqueSource K (rq_header req) = Inr src \<and> \<not> IsZero K src)")
        case False
        then consider "header_get (rq_header req) masqueModeHeader \<noteq> ''direct''"
          | "header_get (rq_header req) masqueModeHeader = ''direct''" "parseMasqueTarget K target \<noteq> Inr local"
          | e where "header_get (rq_header req) masqueModeHeader = ''direct''" "parseMasqueTarget K target = Inr local"
              "parseMasqueSource K (rq_header req) = Inl e"
          | src where "header_get (rq_header req) masqueModeHeader = ''direct''" "parseMasqueTarget K target = Inr local"
              "parseMasqueSource K (rq_header req) = Inr src" "IsZero K src"
          by (cases "parseMasqueSource K (rq_header req)") auto
        then have "res = None \<and> rw_status w \<in> {Some 400, Some 401, Some 404}"
          by cases (use assms Inr parse Some w0 in \<open>auto simp: direct_admit_def masqueModeDirect_def\<close>)
        then show ?thesis using dg by auto
      next
        case True
        then obtain src where src: "parseMasqueSource K (rq_header req) = Inr src" "\<not> IsZero K src" by blast
        obtain a1 w1 ok where auth: "authorize K P now1 now2 nonce w0 req src local ''direct'' a = (a1, w1, ok)"
          using prod_cases3 by blast
        have eq: "direct_admit A K P now1 now2 nonce local core req a =
            (if \<not> ok then (a1, w1, None)
             else if \<not> peerAllowed src core then (a1, http_Error w1 ''MasqueCat peer is not allowed'' 403, None)
             else (a1, w1, Some src))"
          using Inr parse Some True src auth by (simp add: direct_admit_def masqueModeDirect_def)
        show ?thesis
        proof (cases ok)
          case False
          then show ?thesis using assms eq dg authorize_status [of K P now1 now2 nonce w0 req src local "''direct''" a a1 w1] auth w0 by auto
        next
          case ok: True
          have "w1 = w0" using auth ok by (auto simp: authorize_def Let_def split: prod.splits sum.splits if_splits issue_error.splits)
          then show ?thesis
            using assms eq dg ok authorize_True [of K P now1 now2 nonce w0 req src local "''direct''" a a1 w1] auth True src w0
            by (auto split: if_splits)
        qed
      qed
    qed
  qed
qed

definition sample_direct_request :: "string \<Rightarrow> http_request" where
  "sample_direct_request ep = blank_request\<lparr>rq_host := ''h'',
     rq_header := header_set masqueProofHeader ep (header_set masqueSourceHeader (KeyString raw_keys 9)
       (header_set masqueModeHeader ''direct'' []))\<rparr>"

theorem direct_admission_witness:
  "\<exists>ep a' w. direct_admit sample_api raw_keys raw_privates 5 5 None 7 (unit_core [9]) (sample_direct_request ep)
       \<lparr>auth_priv = 7, auth_pending = [(''x'', \<lparr>ch_src = 9, ch_target = 7, ch_mode = ''direct'',
          ch_clientID = ''h'', ch_expires = 6\<rparr>)]\<rparr> = (a', w, Some 9) \<and> peerAllowed 9 (unit_core [9])"
proof -
  let ?a = "\<lparr>auth_priv = 7, auth_pending = [(''x'', \<lparr>ch_src = 9, ch_target = 7, ch_mode = ''direct'',
     ch_clientID = ''h'', ch_expires = 6\<rparr>)]\<rparr> :: (raw_key, raw_key) masqueAuthenticator"
  define ep where "ep = b64_encode (SealTo raw_privates 9 7 [] (string_bytes ''x''))"
  have ne: "ep \<noteq> []" using seal_laws_raw by (simp add: ep_def b64_encode_nonempty seal_laws_def)
  have "Public raw_privates q = q" for q by (simp add: raw_privates_def)
  then have tok: "proof_token raw_privates 7 9 ep = Some ''x''"
    using seal_laws_raw by (simp add: proof_token_def ep_def seal_laws_def)
  have z: "\<not> IsZero raw_keys 9" "\<not> IsZero raw_keys 7" by (simp_all add: raw_keys_def)
  have v: "verify raw_keys raw_privates 5 ep 9 7 ''direct'' ?a = (?a\<lparr>auth_pending := []\<rparr>, True)"
    by (simp add: verify_eq tok live_def z)
  have "case masqueTemplateURL ''https://h'' of Inr t \<Rightarrow> True | Inl _ \<Rightarrow> False" by code_simp
  then obtain t where t: "masqueTemplateFor sample_api (''https://h'') = Inr t"
    by (auto simp: masqueTemplateFor_def sample_api_def split: sum.splits)
  have hdr: "header_get (rq_header (sample_direct_request ep)) masqueProofHeader = ep"
    "header_get (rq_header (sample_direct_request ep)) masqueSourceHeader = KeyString raw_keys 9"
    "header_get (rq_header (sample_direct_request ep)) masqueModeHeader = ''direct''"
    by (simp_all add: sample_direct_request_def header_consts)
  have "KeyString raw_keys 9 \<noteq> []" by (simp add: raw_keys_def nodePublicTextPrefix_def)
  then have src: "parseMasqueSource raw_keys (rq_header (sample_direct_request ep)) = Inr 9"
    by (simp add: parseMasqueSource_def hdr key_lawsD(5) [OF key_laws_raw_keys])
  have host: "rq_host (sample_direct_request ep) = ''h''" by (simp add: sample_direct_request_def)
  have parse: "parseConnectUDPRequestAny sample_api new_response (masqueProxyRequestForParser (sample_direct_request ep)) t
      = (new_response, Some (masqueTarget raw_keys 7))"
    by (simp add: parseConnectUDPRequestAny_def masqueProxyRequestForParser_def sample_direct_request_def
        blank_request_def parseConnectUDPRequest_def sample_api_def)
  have al: "peerAllowed 9 (unit_core [9])" by (simp add: peerAllowed_def sample_core_def)
  have "direct_admit sample_api raw_keys raw_privates 5 5 None 7 (unit_core [9]) (sample_direct_request ep) ?a
      = (?a\<lparr>auth_pending := []\<rparr>, new_response, Some 9)"
    by (simp add: direct_admit_def host t parse hdr masqueModeDirect_def parse_target [OF key_laws_raw_keys] src
        authorize_def z ne v al)
  from this direct_admission [OF this] show ?thesis by blast
qed

text \<open>
  C22: on a server that also has a relay carrier, a packet that a key sends through the relay takes over the
  return path of the key's direct session, which stays open.
\<close>
theorem relay_takes_direct_path:
  "\<exists>w c. direct_reachable raw_wg raw_keys [84, 83] True (sample_core [7]) (sample_direct w) \<and>
     map_of (b_paths (c_bind (d_core (sample_direct w)))) 7 = Some (DirectStream 0) \<and>
     direct_reachable raw_wg raw_keys [84, 83] True (sample_core [7]) ((sample_direct w)\<lparr>d_core := c\<rparr>) \<and>
     map_of (b_paths (c_bind c)) 7 = Some RelayCarrier \<and> d_sess ((sample_direct w)\<lparr>d_core := c\<rparr>) 0 = Some (DActive 7)"
proof -
  obtain w where r: "direct_reachable raw_wg raw_keys [84, 83] True (sample_core [7]) (sample_direct w)"
    using sample_direct_reachable [of True] by blast
  let ?c = "d_core (sample_direct w)"
  have z: "\<not> IsZero raw_keys 7" by (simp add: raw_keys_def)
  have set: "core_SetPath raw_wg raw_keys 7 (Some RelayCarrier) ?c = (?c\<lparr>c_bind := bind_SetPath 7 (Some RelayCarrier) (c_bind ?c)\<rparr>, None)"
    by (simp add: core_SetPath_def addPeerLocked_def z sample_direct_def)
  let ?c1 = "?c\<lparr>c_bind := bind_SetPath 7 (Some RelayCarrier) (c_bind ?c)\<rparr>"
  obtain c2 res where inj: "core_Inject raw_wg raw_keys 0 False 7 [1] ?c1 = (c2, res)" by fastforce
  have p: "map_of (b_paths (c_bind c2)) 7 = Some RelayCarrier"
    using inject_core_paths [OF inj] by (simp add: bind_SetPath_def map_of_update)
  have "direct_reachable raw_wg raw_keys [84, 83] True (sample_core [7]) ((sample_direct w)\<lparr>d_core := c2\<rparr>)"
    using r by (rule d_more) (rule d_relay [OF _ set inj], simp)
  moreover have "map_of (b_paths (c_bind ?c)) 7 = Some (DirectStream 0)"
    by (simp add: sample_direct_def bind_SetPath_def map_of_update)
  ultimately show ?thesis using r p by (intro exI [of _ w] exI [of _ c2]) (simp add: sample_direct_def)
qed

end
