(* ===== verification/Lifecycle.thy ===== *)
theory Lifecycle
  imports Path Direct "HOL-Library.Multiset"
begin

text \<open>
  Starting and closing servers and clients (\<^verbatim>\<open>masquecat.go\<close>, with
  \<^verbatim>\<open>newMasquePathWithFallback\<close>, \<^verbatim>\<open>masqueHTTP2CompanionAddr\<close>, \<^verbatim>\<open>startMasqueHTTP2\<close> and
  \<^verbatim>\<open>ServeMasque\<close> of \<^verbatim>\<open>masquecat_h2.go\<close>).

  What is opened is named by numbers; the operating system, the network and the libraries appear by the outcome
  of each call, and every function returns what it opened and what it closed, in order.
\<close>

section \<open>Opening a path\<close>

datatype path_open_error =
  ZeroLocalKey | ZeroTargetKey | PathTemplate endpoint_error | PathTLS endpoint_error | PathDial dial_error

definition newMasquePathWithFallback ::
  "'t masque_api \<Rightarrow> 'k node_key_api \<Rightarrow> ('p, 'k) node_private_api \<Rightarrow> string \<Rightarrow> 'k \<Rightarrow> 'p \<Rightarrow> bool \<Rightarrow>
   ('t \<Rightarrow> tls_config \<Rightarrow> 's \<Rightarrow> 's \<times> nat list \<times> (dial_error + nat option)) \<Rightarrow> 's \<Rightarrow> 's \<times> nat list \<times> (path_open_error + masquePath)" where
  "newMasquePathWithFallback A K P rawURL target local skip dial s =
     (if PrivIsZero P local then (s, [], Inl ZeroLocalKey)
      else if IsZero K target then (s, [], Inl ZeroTargetKey)
      else case masqueTemplateFor A rawURL of
        Inl e \<Rightarrow> (s, [], Inl (PathTemplate e))
      | Inr tmpl \<Rightarrow>
          (case masqueTLSClientConfig rawURL skip of
             Inl e \<Rightarrow> (s, [], Inl (PathTLS e))
           | Inr cfg \<Rightarrow>
               (case dial tmpl cfg s of
                  (s', closed, Inl e) \<Rightarrow> (s', closed, Inl (PathDial e))
                | (s', closed, Inr conn) \<Rightarrow> (s', closed, Inr \<lparr>pc = conn, path_closed = False\<rparr>))))"

section \<open>Listening\<close>

text \<open>\<open>udpAddr\<close> is the text of the UDP socket's address.\<close>

definition masqueHTTP2CompanionAddr :: "string \<Rightarrow> string \<Rightarrow> addr_error + string" where
  "masqueHTTP2CompanionAddr conf udpAddr =
     (case SplitHostPort conf of
        Inl e \<Rightarrow> Inl e
      | Inr (host, port) \<Rightarrow>
          if port \<noteq> ''0'' then Inr conf
          else case SplitHostPort udpAddr of
                 Inl e \<Rightarrow> Inl e
               | Inr (_, actualPort) \<Rightarrow> Inr (JoinHostPort host actualPort))"

datatype resource = ResContext nat | ResHTTP3 nat | ResHTTP2 nat | ResUDP nat | ResTCP nat | ResPath nat | ResCore nat

text \<open>
  \<open>srv\<close> is the server \<^verbatim>\<open>newMasqueHTTP2Server\<close> returns, \<open>ln\<close> the listener, \<open>registered\<close> whether it
  can be registered. A registered listener belongs to the server, which closes it.
\<close>

definition startMasqueHTTP2 :: "nat option \<Rightarrow> nat option \<Rightarrow> bool \<Rightarrow> resource list \<times> resource list \<times> nat option" where
  "startMasqueHTTP2 srv ln registered =
     (case srv of
        None \<Rightarrow> ([], [], None)
      | Some h2 \<Rightarrow>
          (case ln of
             None \<Rightarrow> ([], [], None)
           | Some l \<Rightarrow> if registered then ([ResHTTP2 h2], [], Some h2) else ([ResTCP l], [ResTCP l], None)))"

datatype serve_error = NoCertificate | ListenUDP | CompanionAddr addr_error | BadHTTP2Config | ListenTCP | ServeFailed

text \<open>\<open>ended\<close> is whether the first server to return did so with an error other than having been closed.\<close>

definition ServeMasque ::
  "bool \<Rightarrow> string \<Rightarrow> (nat \<times> string) option \<Rightarrow> nat option \<Rightarrow> nat option \<Rightarrow> nat \<Rightarrow> bool \<Rightarrow>
   resource list \<times> resource list \<times> serve_error option" where
  "ServeMasque hasCert address udp h2 tcp h3 ended =
     (if \<not> hasCert then ([], [], Some NoCertificate)
      else case udp of
        None \<Rightarrow> ([], [], Some ListenUDP)
      | Some (u, udpAddr) \<Rightarrow>
          (case masqueHTTP2CompanionAddr address udpAddr of
             Inl e \<Rightarrow> ([ResUDP u], [ResUDP u], Some (CompanionAddr e))
           | Inr h2Addr \<Rightarrow>
               (case h2 of
                  None \<Rightarrow> ([ResUDP u], [ResUDP u], Some BadHTTP2Config)
                | Some s2 \<Rightarrow>
                    (case tcp of
                       None \<Rightarrow> ([ResUDP u], [ResUDP u], Some ListenTCP)
                     | Some l \<Rightarrow>
                         ([ResUDP u, ResTCP l, ResHTTP3 h3, ResHTTP2 s2], [ResHTTP2 s2, ResHTTP3 h3, ResTCP l, ResUDP u],
                          if ended then Some ServeFailed else None)))))"

section \<open>The server\<close>

record server_config =
  sv_DirectListen :: string
  sv_DirectURL :: string
  sv_hasCertificate :: bool
  sv_RelayURL :: string
  sv_AutomaticDirect :: bool

text \<open>Keys are named by numbers too; \<open>None\<close> is the zero key.\<close>

record MasqueServer =
  s_Key :: "nat option"
  s_core :: "nat option"
  s_relayPath :: "nat option"
  s_directHTTP :: "nat option"
  s_directH2 :: "nat option"
  s_directPC :: "nat option"
  s_cancel :: "nat option"
  s_blob :: string

definition stopped :: "nat option \<Rightarrow> MasqueServer" where
  "stopped k = \<lparr>s_Key = k, s_core = None, s_relayPath = None, s_directHTTP = None, s_directH2 = None, s_directPC = None,
     s_cancel = None, s_blob = []\<rparr>"

text \<open>The outcomes of the calls \<^verbatim>\<open>Start\<close> makes.\<close>

record start_calls =
  sc_newKey :: nat
  sc_core :: "nat option"
  sc_context :: nat
  sc_listen :: "(nat \<times> string) option"
  sc_h2 :: "nat option"
  sc_h3 :: nat
  sc_path :: "nat option"
  sc_blob :: "string option"

datatype start_error =
  StartedTwice | NoEndpointConfigured | AutomaticNotDirect | StartURL token_error | NoDirectListen | NoDirectCertificate
| StartCore | StartListen | StartCompanion addr_error | StartRelay | StartToken

definition ensure_key :: "nat \<Rightarrow> nat option \<Rightarrow> nat option" where
  "ensure_key fresh k = (case k of None \<Rightarrow> Some fresh | Some _ \<Rightarrow> k)"

definition start_guard :: "server_config \<Rightarrow> start_error option" where
  "start_guard cfg =
     (if sv_DirectURL cfg = [] \<and> sv_RelayURL cfg = [] then Some NoEndpointConfigured
      else if sv_AutomaticDirect cfg \<and> (sv_DirectURL cfg = [] \<or> sv_RelayURL cfg \<noteq> []) then Some AutomaticNotDirect
      else orElse
        (if sv_DirectURL cfg \<noteq> [] then
           (case validateMasqueURL DirectKind (sv_DirectURL cfg) of
              Some e \<Rightarrow> Some (StartURL e)
            | None \<Rightarrow> if sv_DirectListen cfg = [] then Some NoDirectListen
                      else if \<not> sv_hasCertificate cfg then Some NoDirectCertificate else None)
         else None)
        (if sv_RelayURL cfg \<noteq> [] then map_option StartURL (validateMasqueURL RelayKind (sv_RelayURL cfg)) else None))"

definition opt_res :: "(nat \<Rightarrow> resource) \<Rightarrow> nat option \<Rightarrow> resource list" where
  "opt_res f x = (case x of None \<Rightarrow> [] | Some n \<Rightarrow> [f n])"

text \<open>What \<^verbatim>\<open>cleanup\<close> closes, in order, and \<^verbatim>\<open>Close\<close> as well.\<close>

definition held :: "MasqueServer \<Rightarrow> resource list" where
  "held s = opt_res ResContext (s_cancel s) @ opt_res ResHTTP3 (s_directHTTP s) @ opt_res ResHTTP2 (s_directH2 s) @
     opt_res ResUDP (s_directPC s) @ opt_res ResPath (s_relayPath s) @ opt_res ResCore (s_core s)"

text \<open>The part of \<^verbatim>\<open>Start\<close> that sets up the direct carrier: the server, what it opened and closed itself, and the error.\<close>

definition start_direct ::
  "server_config \<Rightarrow> start_calls \<Rightarrow> MasqueServer \<Rightarrow> MasqueServer \<times> resource list \<times> resource list \<times> start_error option" where
  "start_direct cfg env s =
     (if sv_DirectURL cfg = [] then (s, [], [], None)
      else case sc_listen env of
        None \<Rightarrow> (s, [], [], Some StartListen)
      | Some (u, udpAddr) \<Rightarrow>
          (case masqueHTTP2CompanionAddr (sv_DirectListen cfg) udpAddr of
             Inl e \<Rightarrow> (s, [ResUDP u], [ResUDP u], Some (StartCompanion e))
           | Inr h2Addr \<Rightarrow>
               (s\<lparr>s_directH2 := sc_h2 env, s_directPC := Some u, s_directHTTP := Some (sc_h3 env)\<rparr>,
                [ResUDP u] @ opt_res ResHTTP2 (sc_h2 env) @ [ResHTTP3 (sc_h3 env)], [], None)))"

definition start_relay ::
  "server_config \<Rightarrow> start_calls \<Rightarrow> MasqueServer \<Rightarrow> MasqueServer \<times> resource list \<times> start_error option" where
  "start_relay cfg env s =
     (if sv_RelayURL cfg = [] then (s, [], None)
      else case sc_path env of
             None \<Rightarrow> (s, [], Some StartRelay)
           | Some p \<Rightarrow> (s\<lparr>s_relayPath := Some p\<rparr>, [ResPath p], None))"

definition server_Start ::
  "server_config \<Rightarrow> start_calls \<Rightarrow> MasqueServer \<Rightarrow> MasqueServer \<times> resource list \<times> resource list \<times> start_error option" where
  "server_Start cfg env s =
     (if s_core s \<noteq> None then (s, [], [], Some StartedTwice)
      else case start_guard cfg of
        Some e \<Rightarrow> (s, [], [], Some e)
      | None \<Rightarrow>
          let s0 = s\<lparr>s_Key := ensure_key (sc_newKey env) (s_Key s)\<rparr> in
          (case sc_core env of
             None \<Rightarrow> (s0, [], [], Some StartCore)
           | Some c \<Rightarrow>
               let s1 = s0\<lparr>s_core := Some c, s_cancel := Some (sc_context env)\<rparr>;
                   opened = [ResCore c, ResContext (sc_context env)] in
               (case start_direct cfg env s1 of
                  (s2, opened2, closed2, Some e) \<Rightarrow> (stopped (s_Key s2), opened @ opened2, closed2 @ held s2, Some e)
                | (s2, opened2, closed2, None) \<Rightarrow>
                    (case start_relay cfg env s2 of
                       (s3, opened3, Some e) \<Rightarrow> (stopped (s_Key s3), opened @ opened2 @ opened3, closed2 @ held s3, Some e)
                     | (s3, opened3, None) \<Rightarrow>
                         (case sc_blob env of
                            None \<Rightarrow> (stopped (s_Key s3), opened @ opened2 @ opened3, closed2 @ held s3, Some StartToken)
                          | Some b \<Rightarrow> (s3\<lparr>s_blob := b\<rparr>, opened @ opened2 @ opened3, closed2, None))))))"

definition server_Close :: "MasqueServer \<Rightarrow> MasqueServer \<times> resource list" where
  "server_Close s = (stopped (s_Key s), held s)"

text \<open>The policy is kept by the server's configuration, for later starts, and by the core that is running.\<close>

definition server_AddAllowedClient ::
  "'k \<Rightarrow> 'k list \<times> ('k, 'f, 'w, 'r, 'h) masqueCore option \<Rightarrow> 'k list \<times> ('k, 'f, 'w, 'r, 'h) masqueCore option" where
  "server_AddAllowedClient k s = (case s of (allowed, core) \<Rightarrow> (allowed @ [k], map_option (core_AddAllowedClient k) core))"

section \<open>The client\<close>

datatype path_type = NoPathType | DirectMasque | RelayMasque

record 'k MasqueClient =
  cl_Key :: "nat option"
  cl_core :: "nat option"
  cl_serverPublic :: "'k option"
  cl_path :: "nat option"
  cl_pathType :: path_type
  cl_lifecycleCtx :: "nat option"
  cl_cancel :: "nat option"
  cl_started :: bool

definition new_client :: "nat option \<Rightarrow> 'k MasqueClient" where
  "new_client k = \<lparr>cl_Key = k, cl_core = None, cl_serverPublic = None, cl_path = None, cl_pathType = NoPathType,
     cl_lifecycleCtx = None, cl_cancel = None, cl_started = False\<rparr>"

definition client_PublicKey :: "nat \<Rightarrow> 'k MasqueClient \<Rightarrow> 'k MasqueClient" where
  "client_PublicKey fresh c = c\<lparr>cl_Key := ensure_key fresh (cl_Key c)\<rparr>"

datatype client_error =
  BadToken | DialContextOver | DialCanceled | DialError | RelayFailed | DirectFailed | NoUsablePath | ClientCore | ClientPath | ClosedDuringStartup

text \<open>
  The outcome of one \<^verbatim>\<open>newMasquePathWithFallback\<close> in \<^verbatim>\<open>dialPath\<close>: whether the caller's
  context had ended before it, the path, whether the caller was still waiting when it finished, and
  whether its context had ended then.
\<close>

record dial_call =
  dc_over_before :: bool
  dc_path :: "nat option"
  dc_active :: bool
  dc_over_after :: bool

definition dialPath :: "dial_call \<Rightarrow> resource list \<times> resource list \<times> (client_error + nat)" where
  "dialPath d =
     (if dc_over_before d then ([], [], Inl DialContextOver)
      else case dc_path d of
             Some p \<Rightarrow>
               if dc_active d then ([ResPath p], [], Inr p)
               else ([ResPath p], [ResPath p], Inl (if dc_over_after d then DialContextOver else DialCanceled))
           | None \<Rightarrow> ([], [], Inl (if \<not> dc_active d \<and> dc_over_after d then DialContextOver else DialError)))"

record client_calls =
  cc_newKey :: nat
  cc_context :: nat
  cc_direct :: dial_call
  cc_relay :: dial_call
  cc_core :: "nat option"
  cc_setPath :: bool

text \<open>The choice of a path: what was opened and closed, and the path with its type or the error.\<close>

definition choosePath ::
  "('k, 'd) MasqueConnInfo \<Rightarrow> client_calls \<Rightarrow> resource list \<times> resource list \<times> (client_error + nat \<times> path_type)" where
  "choosePath ci env =
     (let (opened, closed, direct) =
            (if ci_DirectURL ci \<noteq> [] then dialPath (cc_direct env) else ([], [], Inl NoUsablePath)) in
      case direct of
        Inr p \<Rightarrow> (opened, closed, Inr (p, DirectMasque))
      | Inl e \<Rightarrow>
          if ci_RelayURL ci \<noteq> [] then
            (case dialPath (cc_relay env) of
               (opened2, closed2, Inr p) \<Rightarrow> (opened @ opened2, closed @ closed2, Inr (p, RelayMasque))
             | (opened2, closed2, Inl _) \<Rightarrow> (opened @ opened2, closed @ closed2, Inl RelayFailed))
          else (opened, closed, Inl (if ci_DirectURL ci \<noteq> [] then DirectFailed else NoUsablePath)))"

definition ensureStartedLocked ::
  "('k, 'd) MasqueConnInfo option \<Rightarrow> client_calls \<Rightarrow> 'k MasqueClient \<Rightarrow>
   'k MasqueClient \<times> resource list \<times> resource list \<times> client_error option" where
  "ensureStartedLocked token env c0 =
     (if cl_started c0 then (c0, [], [], None)
      else case token of
        None \<Rightarrow> (c0, [], [], Some BadToken)
      | Some ci \<Rightarrow>
          let c = c0\<lparr>cl_Key := ensure_key (cc_newKey env) (cl_Key c0)\<rparr>;
              ctx = ResContext (cc_context env) in
          (case choosePath ci env of
             (opened, closed, Inl e) \<Rightarrow> (c, ctx # opened, closed @ [ctx], Some e)
           | (opened, closed, Inr (p, ty)) \<Rightarrow>
               (case cc_core env of
                  None \<Rightarrow> (c, ctx # opened, closed @ [ctx, ResPath p], Some ClientCore)
                | Some core \<Rightarrow>
                    if \<not> cc_setPath env
                    then (c, ctx # opened @ [ResCore core], closed @ [ctx, ResPath p, ResCore core], Some ClientPath)
                    else (c\<lparr>cl_lifecycleCtx := Some (cc_context env), cl_cancel := Some (cc_context env), cl_core := Some core,
                            cl_serverPublic := Some (ci_ServerPublic ci), cl_path := Some p,
                            cl_pathType := ty, cl_started := True\<rparr>,
                          ctx # opened @ [ResCore core], closed, None))))"

text \<open>The critical section of \<^verbatim>\<open>acquireCore\<close> after the lazy start, and that of \<^verbatim>\<open>Status\<close>: the core the operation
  holds until its release.\<close>

definition acquireCore :: "'k MasqueClient \<Rightarrow> client_error + nat \<times> 'k option" where
  "acquireCore c =
     (case cl_core c of
        None \<Rightarrow> Inl ClosedDuringStartup
      | Some core \<Rightarrow>
          if cl_lifecycleCtx c = None \<or> \<not> cl_started c then Inl ClosedDuringStartup
          else Inr (core, cl_serverPublic c))"

definition client_Status :: "'k MasqueClient \<Rightarrow> nat option" where
  "client_Status c = cl_core c"

text \<open>\<^verbatim>\<open>Close\<close> cancels the lifecycle context, waits for the active operations, and then closes the rest; it
  holds the client's lock all the way.\<close>

definition close_cancel :: "'k MasqueClient \<Rightarrow> 'k MasqueClient \<times> resource list" where
  "close_cancel c = (c\<lparr>cl_cancel := None\<rparr>, opt_res ResContext (cl_cancel c))"

definition close_finish :: "'k MasqueClient \<Rightarrow> 'k MasqueClient \<times> resource list" where
  "close_finish c =
     (c\<lparr>cl_path := None, cl_core := None, cl_lifecycleCtx := None, cl_serverPublic := None, cl_pathType := NoPathType,
        cl_started := False\<rparr>,
      opt_res ResPath (cl_path c) @ opt_res ResCore (cl_core c))"

text \<open>The packets a client's receive loop passes to its core.\<close>

definition client_accepts :: "'k \<Rightarrow> 'k \<Rightarrow> bool" where
  "client_accepts serverPublic src \<longleftrightarrow> src = serverPublic"

text \<open>
  The client with its concurrent operations: \<open>ops\<close> are the cores that operations hold from
  \<^verbatim>\<open>acquireCore\<close> (or \<^verbatim>\<open>Status\<close>) to their release. While \<^verbatim>\<open>Close\<close> waits, the lock keeps
  every other call out.
\<close>

record 'k client_sys =
  cs_client :: "'k MasqueClient"
  cs_ops :: "nat list"
  cs_closing :: bool
  cs_open :: "resource multiset"

inductive client_step :: "('k, 'd) MasqueConnInfo option \<Rightarrow> 'k client_sys \<Rightarrow> 'k client_sys \<Rightarrow> bool" for token where
  c_start: "\<not> cs_closing s \<Longrightarrow> ensureStartedLocked token env (cs_client s) = (c, opened, closed, e) \<Longrightarrow>
     client_step token s (s\<lparr>cs_client := c, cs_open := cs_open s + mset opened - mset closed\<rparr>)"
| c_key: "\<not> cs_closing s \<Longrightarrow> client_step token s (s\<lparr>cs_client := client_PublicKey fresh (cs_client s)\<rparr>)"
| c_acquire: "\<not> cs_closing s \<Longrightarrow> acquireCore (cs_client s) = Inr (core, server) \<Longrightarrow>
     client_step token s (s\<lparr>cs_ops := core # cs_ops s\<rparr>)"
| c_status: "\<not> cs_closing s \<Longrightarrow> client_Status (cs_client s) = Some core \<Longrightarrow>
     client_step token s (s\<lparr>cs_ops := core # cs_ops s\<rparr>)"
| c_release: "core \<in> set (cs_ops s) \<Longrightarrow> client_step token s (s\<lparr>cs_ops := remove1 core (cs_ops s)\<rparr>)"
| c_close: "\<not> cs_closing s \<Longrightarrow> close_cancel (cs_client s) = (c, closed) \<Longrightarrow>
     client_step token s (s\<lparr>cs_client := c, cs_closing := True, cs_open := cs_open s - mset closed\<rparr>)"
| c_closed: "cs_closing s \<Longrightarrow> cs_ops s = [] \<Longrightarrow> close_finish (cs_client s) = (c, closed) \<Longrightarrow>
     client_step token s (s\<lparr>cs_client := c, cs_closing := False, cs_open := cs_open s - mset closed\<rparr>)"

inductive client_reachable :: "('k, 'd) MasqueConnInfo option \<Rightarrow> 'k client_sys \<Rightarrow> bool" for token where
  c_new: "client_reachable token \<lparr>cs_client = new_client k, cs_ops = [], cs_closing = False, cs_open = {#}\<rparr>"
| c_more: "client_reachable token s \<Longrightarrow> client_step token s s' \<Longrightarrow> client_reachable token s'"

section \<open>Accounting\<close>

lemma held_stopped [simp]: "held (stopped k) = []"
  by (simp add: held_def stopped_def opt_res_def)

lemma s_core_stopped [simp]: "s_core (stopped k) = None" "s_Key (stopped k) = k"
  by (simp_all add: stopped_def)

lemma mset_opt_res [simp]: "opt_res f None = []" "opt_res f (Some n) = [f n]"
  by (simp_all add: opt_res_def)

lemma start_direct_cases:
  assumes "start_direct cfg env s = (s', opened, closed, e)"
  obtains (idle) "s' = s" "opened = closed" "closed = [] \<or> e \<noteq> None"
  | (listening) u where "s' = s\<lparr>s_directH2 := sc_h2 env, s_directPC := Some u, s_directHTTP := Some (sc_h3 env)\<rparr>"
      "opened = [ResUDP u] @ opt_res ResHTTP2 (sc_h2 env) @ [ResHTTP3 (sc_h3 env)]" "closed = []" "e = None"
proof (cases "sv_DirectURL cfg = []")
  case True
  with assms idle show ?thesis by (simp add: start_direct_def)
next
  case False
  show ?thesis
  proof (cases "sc_listen env")
    case None
    with assms False idle show ?thesis by (simp add: start_direct_def)
  next
    case (Some q)
    obtain u ua where q: "q = (u, ua)" by fastforce
    show ?thesis
    proof (cases "masqueHTTP2CompanionAddr (sv_DirectListen cfg) ua")
      case (Inl err)
      with assms False Some q show ?thesis by (intro idle) (auto simp: start_direct_def)
    next
      case (Inr a)
      with assms False Some q show ?thesis by (intro listening [of u]) (simp_all add: start_direct_def)
    qed
  qed
qed

lemma start_direct_accounts:
  assumes "start_direct cfg env s = (s', opened, closed, e)"
    "s_directHTTP s = None" "s_directH2 s = None" "s_directPC s = None"
  shows "mset (held s) + mset opened = mset closed + mset (held s') \<and> s_relayPath s' = s_relayPath s \<and>
    s_core s' = s_core s \<and> s_Key s' = s_Key s \<and> (e = None \<longrightarrow> closed = [])"
  using assms(1)
proof (cases rule: start_direct_cases)
  case idle
  then show ?thesis by auto
next
  case (listening u)
  then show ?thesis using assms(2-4) by (simp add: held_def)
qed

lemma start_relay_accounts:
  assumes "start_relay cfg env s = (s', opened, e)" "s_relayPath s = None"
  shows "mset (held s) + mset opened = mset (held s') \<and> s_core s' = s_core s \<and> s_Key s' = s_Key s"
proof (cases "sv_RelayURL cfg = [] \<or> sc_path env = None")
  case True
  then show ?thesis using assms(1) by (auto simp: start_relay_def split: if_splits)
next
  case False
  then obtain p where p: "sc_path env = Some p" "sv_RelayURL cfg \<noteq> []" by auto
  then have "s' = s\<lparr>s_relayPath := Some p\<rparr>" "opened = [ResPath p]" using assms(1) by (simp_all add: start_relay_def)
  then show ?thesis using assms(2) by (simp add: held_def)
qed

lemma held_blob [simp]: "held (s\<lparr>s_blob := b\<rparr>) = held s"
  by (simp add: held_def)

text \<open>A failed start changes nothing but the key, which it may generate.\<close>

definition same_but_key :: "MasqueServer \<Rightarrow> MasqueServer \<Rightarrow> bool" where
  "same_but_key s s' \<longleftrightarrow> s' = s\<lparr>s_Key := s_Key s'\<rparr> \<and> (s_Key s \<noteq> None \<longrightarrow> s_Key s' = s_Key s)"

lemma same_but_key_stopped [simp]:
  "same_but_key (stopped k) (stopped (ensure_key n k))" "same_but_key s s"
  by (auto simp: same_but_key_def stopped_def ensure_key_def split: option.splits)

lemma stopped_key [simp]: "(stopped k)\<lparr>s_Key := k'\<rparr> = stopped k'"
  by (simp add: stopped_def)

definition runs_or_stopped :: "MasqueServer \<Rightarrow> bool" where
  "runs_or_stopped s \<longleftrightarrow> s_core s \<noteq> None \<or> (\<exists>k. s = stopped k)"

lemma runs_or_stopped_simps [simp]: "runs_or_stopped (stopped k)" "s_core s \<noteq> None \<Longrightarrow> runs_or_stopped s"
  by (auto simp: runs_or_stopped_def)

lemma server_Start_accounts:
  assumes start: "server_Start cfg env s = (s', opened, closed, e)" and idle: "runs_or_stopped s"
  shows "mset (held s) + mset opened = mset closed + mset (held s') \<and> runs_or_stopped s' \<and>
    (e = None \<longrightarrow> s_core s' \<noteq> None \<and> closed = []) \<and> (e \<noteq> None \<longrightarrow> same_but_key s s')"
proof (cases "s_core s \<noteq> None \<or> start_guard cfg \<noteq> None")
  case True
  then have "s' = s" "opened = []" "closed = []" "e \<noteq> None"
    using start by (cases "start_guard cfg"; auto simp: server_Start_def split: if_splits)+
  then show ?thesis using idle by auto
next
  case False
  define k where "k = ensure_key (sc_newKey env) (s_Key s)"
  obtain k0 where s: "s = stopped k0" and k0: "k0 = s_Key s" using idle False by (auto simp: runs_or_stopped_def)
  have kk: "k = ensure_key (sc_newKey env) k0" by (simp add: k_def k0)
  show ?thesis
  proof (cases "sc_core env")
    case None
    then have "s' = stopped k" "opened = []" "closed = []" "e = Some StartCore"
      using start False s by (auto simp: server_Start_def kk Let_def)
    then show ?thesis by (simp add: s kk)
  next
    case core: (Some c)
    let ?s1 = "(stopped k)\<lparr>s_core := Some c, s_cancel := Some (sc_context env)\<rparr>"
    let ?o = "[ResCore c, ResContext (sc_context env)]"
    have h1: "mset (held ?s1) = mset ?o" by (simp add: held_def stopped_def opt_res_def)
    obtain s2 opened2 closed2 e2 where d: "start_direct cfg env ?s1 = (s2, opened2, closed2, e2)" using prod_cases4 by blast
    have acc2: "mset (held ?s1) + mset opened2 = mset closed2 + mset (held s2)" "s_relayPath s2 = None" "s_core s2 = Some c"
      "s_Key s2 = k" "e2 = None \<longrightarrow> closed2 = []"
      using start_direct_accounts [OF d] by (simp_all add: stopped_def)
    show ?thesis
    proof (cases e2)
      case (Some err)
      then have "s' = stopped k" "opened = ?o @ opened2" "closed = closed2 @ held s2" "e = Some err"
        using start core False d acc2(4) s by (simp_all add: server_Start_def Let_def flip: kk)
      then show ?thesis using acc2 h1 s kk by simp
    next
      case None
      obtain s3 opened3 e3 where r: "start_relay cfg env s2 = (s3, opened3, e3)" using prod_cases3 by blast
      have acc3: "mset (held s2) + mset opened3 = mset (held s3)" "s_core s3 = Some c" "s_Key s3 = k"
        using start_relay_accounts [OF r acc2(2)] acc2(3,4) by simp_all
      have "mset (?o @ opened2) = mset (held s2)" using acc2(1,5) h1 None by simp
      then have all: "mset (?o @ opened2 @ opened3) = mset (held s3)"
        unfolding append_assoc [symmetric] mset_append [of "?o @ opened2"] using acc3(1) by simp
      show ?thesis
      proof (cases "e3 \<noteq> None \<or> sc_blob env = None")
        case True
        then have "s' = stopped k" "opened = ?o @ opened2 @ opened3" "closed = held s3" "e \<noteq> None"
          using start core False d r None acc2(5) acc3(3) s by (auto simp: server_Start_def Let_def simp flip: kk split: option.splits)
        then show ?thesis using all s kk by simp
      next
        case False': False
        then obtain b where "s' = s3\<lparr>s_blob := b\<rparr>" "opened = ?o @ opened2 @ opened3" "closed = []" "e = None"
          using start core False d r None acc2(5) s by (auto simp: server_Start_def Let_def simp flip: kk split: option.splits)
        then show ?thesis using all s acc3(2) by simp
      qed
    qed
  qed
qed

datatype server_op = StartOp server_config start_calls | CloseOp

text \<open>A history of starts and closes of a server created with the key \<open>k\<close>, latest first: the server, and everything
  opened and closed so far.\<close>

fun server_history :: "nat option \<Rightarrow> server_op list \<Rightarrow> MasqueServer \<times> resource list \<times> resource list" where
  "server_history k [] = (stopped k, [], [])"
| "server_history k (op # ops) =
     (case server_history k ops of
        (s, opened, closed) \<Rightarrow>
          (case op of
             StartOp cfg env \<Rightarrow>
               (case server_Start cfg env s of (s', o', c', _) \<Rightarrow> (s', opened @ o', closed @ c'))
           | CloseOp \<Rightarrow> (case server_Close s of (s', c') \<Rightarrow> (s', opened, closed @ c'))))"

lemma server_history_accounts:
  assumes "server_history k ops = (s, opened, closed)"
  shows "mset opened = mset closed + mset (held s) \<and> runs_or_stopped s"
  using assms
proof (induction ops arbitrary: s opened closed)
  case (Cons op ops)
  obtain s0 opened0 closed0 where h: "server_history k ops = (s0, opened0, closed0)" using prod_cases3 by blast
  note IH = Cons.IH [OF h]
  show ?case
  proof (cases op)
    case (StartOp cfg env)
    obtain s1 o1 c1 e1 where st: "server_Start cfg env s0 = (s1, o1, c1, e1)" using prod_cases4 by blast
    have "mset (held s0) + mset o1 = mset c1 + mset (held s1)" "runs_or_stopped s1"
      using server_Start_accounts [OF st] IH by auto
    then show ?thesis using Cons.prems StartOp h st IH by (auto simp: ac_simps)
  next
    case CloseOp
    then show ?thesis using Cons.prems h IH by (auto simp: server_Close_def)
  qed
qed simp

section \<open>The client's invariant\<close>

definition client_held :: "'k MasqueClient \<Rightarrow> resource list" where
  "client_held c = opt_res ResContext (cl_cancel c) @ opt_res ResPath (cl_path c) @ opt_res ResCore (cl_core c)"

lemma dialPath_accounts:
  "dialPath d = (opened, closed, r) \<Longrightarrow> mset opened = mset closed + (case r of Inr p \<Rightarrow> {#ResPath p#} | Inl _ \<Rightarrow> {#})"
  by (auto simp: dialPath_def split: if_splits option.splits)

lemma choosePath_accounts:
  assumes "choosePath ci env = (opened, closed, r)"
  shows "mset opened = mset closed + (case r of Inr (p, _) \<Rightarrow> {#ResPath p#} | Inl _ \<Rightarrow> {#})"
proof -
  obtain o1 c1 r1 where d: "(if ci_DirectURL ci \<noteq> [] then dialPath (cc_direct env) else ([], [], Inl NoUsablePath)) = (o1, c1, r1)"
    using prod_cases3 by blast
  then have a1: "mset o1 = mset c1 + (case r1 of Inr p \<Rightarrow> {#ResPath p#} | Inl _ \<Rightarrow> {#})"
    using dialPath_accounts [of "cc_direct env" o1 c1 r1] by (auto split: if_splits)
  obtain o2 c2 r2 where d2: "dialPath (cc_relay env) = (o2, c2, r2)" using prod_cases3 by blast
  note a2 = dialPath_accounts [OF d2]
  show ?thesis
  proof (cases r1)
    case (Inr p)
    then show ?thesis using assms d a1 by (auto simp: choosePath_def)
  next
    case (Inl e)
    then show ?thesis using assms d a1 d2 a2 by (cases r2) (auto simp: choosePath_def split: if_splits)
  qed
qed

definition rekeyed :: "'k MasqueClient \<Rightarrow> 'k MasqueClient \<Rightarrow> bool" where
  "rekeyed c c' \<longleftrightarrow> c' = c\<lparr>cl_Key := cl_Key c'\<rparr>"

lemma rekeyed_key [simp]: "rekeyed c c" "rekeyed c (c\<lparr>cl_Key := k\<rparr>)"
  by (simp_all add: rekeyed_def)

lemma client_held_key [simp]: "client_held (c\<lparr>cl_Key := k\<rparr>) = client_held c"
  by (simp add: client_held_def)

lemma client_held_new [simp]: "client_held (new_client k) = []"
  by (simp add: client_held_def new_client_def)

lemma new_client_simps:
  "cl_started (new_client k) = False" "cl_core (new_client k) = None" "cl_path (new_client k) = None"
  "cl_cancel (new_client k) = None"
  by (simp_all add: new_client_def)

definition idle_client :: "'k MasqueClient \<Rightarrow> bool" where
  "idle_client c \<longleftrightarrow> (\<exists>k. c = new_client k)"

lemma idle_client_simps [simp]:
  "idle_client (new_client k)"
  "idle_client c \<Longrightarrow> idle_client (c\<lparr>cl_Key := k\<rparr>)"
  "idle_client c \<Longrightarrow> idle_client (c\<lparr>cl_cancel := None\<rparr>)"
  "cl_cancel c = None \<Longrightarrow> idle_client (fst (close_finish c))"
  by (cases c, auto simp: idle_client_def new_client_def close_finish_def)+

definition fully_started :: "'k MasqueClient \<Rightarrow> bool" where
  "fully_started c \<longleftrightarrow> cl_started c \<and> cl_core c \<noteq> None \<and> cl_path c \<noteq> None \<and> cl_cancel c \<noteq> None \<and>
     cl_lifecycleCtx c \<noteq> None \<and> cl_serverPublic c \<noteq> None"

text \<open>A start either leaves all but the key as it is, or it starts the client.\<close>

lemma ensureStarted_cases:
  assumes "ensureStartedLocked token env c = (c', opened, closed, e)" "cl_started c \<or> idle_client c"
  shows "mset (client_held c) + mset opened = mset closed + mset (client_held c') \<and>
    (rekeyed c c' \<and> (cl_started c \<longleftrightarrow> e = None) \<or> \<not> cl_started c \<and> e = None \<and> fully_started c')"
proof (cases "cl_started c \<or> token = None")
  case True
  then show ?thesis using assms(1) by (auto simp: ensureStartedLocked_def split: if_splits)
next
  case False
  then obtain ci where ci: "token = Some ci" "\<not> cl_started c" by auto
  obtain k where c: "c = new_client k" using assms(2) ci(2) unfolding idle_client_def by blast
  obtain o1 c1 r where ch: "choosePath ci env = (o1, c1, r)" using prod_cases3 by blast
  note a = choosePath_accounts [OF ch]
  show ?thesis
  proof (cases r)
    case (Inl err)
    then show ?thesis using assms(1) ci ch a c by (auto simp: ensureStartedLocked_def Let_def new_client_simps)
  next
    case (Inr q)
    obtain p ty where q: "q = (p, ty)" by fastforce
    have a': "mset o1 = mset c1 + {#ResPath p#}" using a Inr q by simp
    show ?thesis
    proof (cases "cc_core env")
      case None
      then show ?thesis using assms(1) ci ch Inr q a' c by (auto simp: ensureStartedLocked_def Let_def new_client_simps)
    next
      case (Some core)
      then show ?thesis
        using assms(1) ci ch Inr q a' c
        by (cases "cc_setPath env")
          (simp_all add: ensureStartedLocked_def Let_def new_client_simps fully_started_def, auto simp: client_held_def new_client_simps)
    qed
  qed
qed

definition client_inv :: "'k client_sys \<Rightarrow> bool" where
  "client_inv s \<longleftrightarrow>
     cs_open s = mset (client_held (cs_client s)) \<and>
     (cl_started (cs_client s) \<or> idle_client (cs_client s)) \<and>
     (cl_started (cs_client s) \<and> \<not> cs_closing s \<longrightarrow> fully_started (cs_client s)) \<and>
     (cs_closing s \<longrightarrow> cl_cancel (cs_client s) = None) \<and>
     (\<forall>core\<in>set (cs_ops s). cl_core (cs_client s) = Some core)"

lemma client_inv_rekeyed:
  assumes "client_inv s" "rekeyed (cs_client s) c"
  shows "client_inv (s\<lparr>cs_client := c\<rparr>)"
proof -
  obtain k where c: "c = (cs_client s)\<lparr>cl_Key := k\<rparr>" using assms(2) unfolding rekeyed_def by blast
  show ?thesis using assms(1) unfolding c client_inv_def by (auto simp: fully_started_def)
qed

lemma client_inv_idle:
  assumes "client_inv s" "\<not> cl_started (cs_client s)"
  shows "cs_open s = {#}" "cs_ops s = []"
proof -
  obtain k where c: "cs_client s = new_client k" using assms by (auto simp: client_inv_def idle_client_def)
  show "cs_open s = {#}" using assms(1) c by (simp add: client_inv_def)
  show "cs_ops s = []" using assms(1) c by (cases "cs_ops s") (auto simp: client_inv_def new_client_def)
qed

lemma client_inv_step:
  assumes "client_step token s s'" "client_inv s"
  shows "client_inv s'"
  using assms(1)
proof cases
  case (c_start env c opened closed e)
  have nc: "cl_started (cs_client s) \<or> idle_client (cs_client s)"
    using assms(2) unfolding client_inv_def by blast
  note a = ensureStarted_cases [OF c_start(3) nc]
  have op: "cs_open s + mset opened - mset closed = mset (client_held c)" using assms(2) a by (simp add: client_inv_def)
  show ?thesis
  proof (cases "rekeyed (cs_client s) c")
    case True
    then have "client_held c = client_held (cs_client s)" unfolding rekeyed_def by (metis client_held_key)
    then have "s' = s\<lparr>cs_client := c\<rparr>" using c_start(1) op assms(2) by (simp add: client_inv_def)
    then show ?thesis using client_inv_rekeyed [OF assms(2) True] by simp
  next
    case False
    then have st: "\<not> cl_started (cs_client s)" "fully_started c" using a by auto
    have "cl_started c" using st(2) by (simp add: fully_started_def)
    then show ?thesis using st client_inv_idle [OF assms(2) st(1)] op c_start(1,2) by (simp add: client_inv_def)
  qed
next
  case (c_key fresh)
  then show ?thesis using client_inv_rekeyed [OF assms(2)] by (simp add: client_PublicKey_def)
next
  case (c_acquire core server)
  then have "cl_core (cs_client s) = Some core" by (auto simp: acquireCore_def split: option.splits if_splits)
  then show ?thesis using assms(2) c_acquire(1) by (simp add: client_inv_def)
next
  case (c_status core)
  then show ?thesis using assms(2) by (simp add: client_inv_def client_Status_def)
next
  case (c_release core)
  have "set (remove1 core (cs_ops s)) \<subseteq> set (cs_ops s)" by (rule set_remove1_subset)
  then show ?thesis using assms(2) unfolding client_inv_def c_release(1) by (simp, blast)
next
  case (c_close c closed)
  then have c: "c = (cs_client s)\<lparr>cl_cancel := None\<rparr>" "closed = opt_res ResContext (cl_cancel (cs_client s))"
    by (simp_all add: close_cancel_def)
  have op: "cs_open s - mset closed = mset (client_held c)" using assms(2) c by (simp add: client_inv_def client_held_def)
  show ?thesis using assms(2) c op c_close(1) by (auto simp: client_inv_def)
next
  case (c_closed c closed)
  then have c: "c = fst (close_finish (cs_client s))" "closed = opt_res ResPath (cl_path (cs_client s)) @ opt_res ResCore (cl_core (cs_client s))"
    by (simp_all add: close_finish_def)
  have i: "idle_client c" using assms(2) c_closed(2) unfolding c by (simp add: client_inv_def)
  then obtain k where k: "c = new_client k" unfolding idle_client_def by blast
  have "cs_open s - mset closed = {#}" using assms(2) c c_closed(2) by (simp add: client_inv_def client_held_def)
  then show ?thesis using i k c_closed(1,3) by (simp add: client_inv_def new_client_simps)
qed

lemma client_inv_reachable: "client_reachable token s \<Longrightarrow> client_inv s"
proof (induction rule: client_reachable.induct)
  case (c_new k)
  show ?case by (simp add: client_inv_def new_client_simps)
next
  case (c_more s s')
  then show ?case using client_inv_step by blast
qed

section \<open>Properties\<close>

text \<open>
  C23: a server never leaks what it opens. After any history of starts and closes, whatever calls
  failed in between, everything ever opened (sockets, listeners, the relay path, the core, the
  context) has been closed exactly once, except what the running server holds; a stopped server
  holds nothing; and a start that fails leaves the server as it was (but for a key it may have generated), so that it can be started again.
\<close>
theorem server_never_leaks:
  assumes "server_history k ops = (s, opened, closed)"
  shows "mset opened = mset closed + mset (held s) \<and> (s_core s = None \<longrightarrow> held s = []) \<and>
    (\<forall>cfg env s' o' c' e. server_Start cfg env s = (s', o', c', Some e) \<longrightarrow> same_but_key s s' \<and> mset o' = mset c') \<and>
    fst (server_Close s) = stopped (s_Key s) \<and> mset (snd (server_Close s)) = mset (held s)"
proof (intro conjI allI impI)
  note h = server_history_accounts [OF assms]
  then show "mset opened = mset closed + mset (held s)" by blast
  show "held s = []" if "s_core s = None" using h that by (auto simp: runs_or_stopped_def)
  fix cfg env s' o' c' e assume "server_Start cfg env s = (s', o', c', Some e)"
  from server_Start_accounts [OF this] h have *: "same_but_key s s'" "mset (held s) + mset o' = mset c' + mset (held s')" by auto
  have "held s' = held (s\<lparr>s_Key := s_Key s'\<rparr>)" using *(1) unfolding same_but_key_def by metis
  also have "\<dots> = held s" by (simp add: held_def)
  finally show "same_but_key s s'" "mset o' = mset c'" using * by simp_all
qed (simp_all add: server_Close_def)

definition sample_config :: server_config where
  "sample_config = \<lparr>sv_DirectListen = ''h:1'', sv_DirectURL = [], sv_hasCertificate = False,
     sv_RelayURL = ''https://r'', sv_AutomaticDirect = False\<rparr>"

definition sample_calls :: "nat option \<Rightarrow> start_calls" where
  "sample_calls path = \<lparr>sc_newKey = 9, sc_core = Some 1, sc_context = 2, sc_listen = None, sc_h2 = None, sc_h3 = 3,
     sc_path = path, sc_blob = Some ''mc''\<rparr>"

theorem server_never_leaks_witness:
  "\<exists>s opened closed. server_history None [StartOp sample_config (sample_calls (Some 4)), StartOp sample_config (sample_calls None)]
       = (s, opened, closed) \<and> held s = [ResContext 2, ResPath 4, ResCore 1] \<and>
     mset opened = mset closed + {#ResContext 2, ResPath 4, ResCore 1#}"
proof -
  have "validateMasqueURL RelayKind ''https://r'' = None" by code_simp
  then have g: "start_guard sample_config = None" by (simp add: start_guard_def sample_config_def orElse_def)
  have f: "sv_DirectURL sample_config = []" "sv_RelayURL sample_config \<noteq> []" by (simp_all add: sample_config_def)
  have st: "server_history None [StartOp sample_config (sample_calls (Some 4)), StartOp sample_config (sample_calls None)] =
     ((stopped (Some 9))\<lparr>s_core := Some 1, s_cancel := Some 2, s_relayPath := Some 4, s_blob := ''mc''\<rparr>,
      [ResCore 1, ResContext 2, ResCore 1, ResContext 2, ResPath 4], [ResContext 2, ResCore 1])"
    by (simp add: server_Start_def g f sample_calls_def start_direct_def start_relay_def held_def stopped_def ensure_key_def)
  from server_never_leaks [OF st] st show ?thesis by (auto simp: held_def stopped_def)
qed

text \<open>
  C24: a client's core outlives the operations that use it. Under any interleaving of operations,
  lazy starts that fail or succeed, and closes: what is open is exactly what the client holds (its
  context, path and core), nothing before it has started and nothing after it was closed; and every
  operation under way uses the client's current core, which is still open even while
  \<^verbatim>\<open>Close\<close> is waiting.
\<close>
theorem client_core_outlives_operations:
  assumes "client_reachable token s"
  shows "cs_open s = mset (client_held (cs_client s)) \<and>
         (\<not> cl_started (cs_client s) \<longrightarrow> cs_open s = {#} \<and> cs_ops s = []) \<and>
         (cl_started (cs_client s) \<and> \<not> cs_closing s \<longrightarrow> (\<exists>ctx p core. cs_open s = {#ResContext ctx, ResPath p, ResCore core#})) \<and>
         (core \<in> set (cs_ops s) \<longrightarrow> cl_core (cs_client s) = Some core \<and> ResCore core \<in># cs_open s)"
proof -
  note inv = client_inv_reachable [OF assms]
  have op: "cs_open s = mset (client_held (cs_client s))" using inv by (simp add: client_inv_def)
  have run: "\<exists>ctx p core. cs_open s = {#ResContext ctx, ResPath p, ResCore core#}" if started: "cl_started (cs_client s)" "\<not> cs_closing s"
  proof -
    from inv started have "fully_started (cs_client s)" unfolding client_inv_def by blast
    then obtain ctx p core where "cl_cancel (cs_client s) = Some ctx" "cl_path (cs_client s) = Some p"
      "cl_core (cs_client s) = Some core" unfolding fully_started_def by blast
    then show ?thesis using op by (intro exI [of _ ctx] exI [of _ p] exI [of _ core]) (simp add: client_held_def)
  qed
  have use: "cl_core (cs_client s) = Some core \<and> ResCore core \<in># cs_open s" if "core \<in> set (cs_ops s)"
    using inv op that by (simp add: client_inv_def client_held_def)
  with op client_inv_idle [OF inv] run show ?thesis by blast
qed

theorem client_core_outlives_operations_witness:
  "\<exists>s. client_reachable (Some \<lparr>ci_Version = 1, ci_ServerPublic = 7 :: raw_key, ci_ServerDiscoPublic = (),
        ci_DirectURL = ''https://d'', ci_RelayURL = [], ci_AutomaticDirect = False\<rparr>) s \<and>
     cs_ops s = [5] \<and> cs_closing s \<and> ResCore 5 \<in># cs_open s"
proof -
  let ?ci = "\<lparr>ci_Version = 1, ci_ServerPublic = 7 :: raw_key, ci_ServerDiscoPublic = (),
        ci_DirectURL = ''https://d'', ci_RelayURL = [], ci_AutomaticDirect = False\<rparr>"
  let ?env = "\<lparr>cc_newKey = 8, cc_context = 2, cc_direct = \<lparr>dc_over_before = False, dc_path = Some 4, dc_active = True, dc_over_after = False\<rparr>,
     cc_relay = \<lparr>dc_over_before = False, dc_path = None, dc_active = True, dc_over_after = False\<rparr>, cc_core = Some 5, cc_setPath = True\<rparr>"
  let ?c = "\<lparr>cl_Key = Some 8, cl_core = Some 5, cl_serverPublic = Some 7, cl_path = Some 4, cl_pathType = DirectMasque,
     cl_lifecycleCtx = Some 2, cl_cancel = Some 2, cl_started = True\<rparr> :: raw_key MasqueClient"
  let ?s0 = "\<lparr>cs_client = new_client None, cs_ops = [], cs_closing = False, cs_open = {#}\<rparr> :: raw_key client_sys"
  let ?s1 = "?s0\<lparr>cs_client := ?c, cs_open := cs_open ?s0 + mset [ResContext 2, ResPath 4, ResCore 5] - mset []\<rparr>"
  let ?s2 = "?s1\<lparr>cs_ops := [5]\<rparr>"
  have e: "ensureStartedLocked (Some ?ci) ?env (new_client None) = (?c, [ResContext 2, ResPath 4, ResCore 5], [], None)"
    by (simp add: ensureStartedLocked_def choosePath_def dialPath_def new_client_def ensure_key_def Let_def)
  have "client_reachable (Some ?ci) ?s0" by (rule c_new)
  then have "client_reachable (Some ?ci) ?s1"
    by (rule c_more) (rule c_start [where env = ?env and e = None], simp_all add: e)
  then have "client_reachable (Some ?ci) ?s2"
    by (rule c_more) (use c_acquire [of ?s1 5 "Some 7" "Some ?ci"] in \<open>simp add: acquireCore_def\<close>)
  then have r: "client_reachable (Some ?ci) (?s2\<lparr>cs_client := ?c\<lparr>cl_cancel := None\<rparr>, cs_closing := True,
      cs_open := cs_open ?s2 - mset [ResContext 2]\<rparr>)"
    by (rule c_more) (rule c_close, simp_all add: close_cancel_def)
  from client_core_outlives_operations [OF r, of 5] r show ?thesis by fastforce
qed

text \<open>
  A client's choice of path. A token with a direct endpoint is dialed directly first; the relay is
  dialed exactly when that failed or there is no direct endpoint; the reported type is the type of
  the path in use; a path that was opened for a caller that had already gone is closed; and when no
  path can be opened the client keeps nothing and reports an error.
\<close>
theorem client_path_choice:
  "case choosePath ci env of
     (opened, closed, Inr (p, ty)) \<Rightarrow>
       (ty = DirectMasque \<and> ci_DirectURL ci \<noteq> [] \<and> dc_path (cc_direct env) = Some p \<and> dc_active (cc_direct env) \<and>
          opened = [ResPath p] \<and> closed = []
        \<or> ty = RelayMasque \<and> ci_RelayURL ci \<noteq> [] \<and> dc_path (cc_relay env) = Some p \<and> dc_active (cc_relay env) \<and>
          (ci_DirectURL ci = [] \<or> (\<exists>e. snd (snd (dialPath (cc_direct env))) = Inl e))) \<and>
       mset opened = mset closed + {#ResPath p#}
   | (opened, closed, Inl e) \<Rightarrow> mset opened = mset closed \<and>
       (ci_DirectURL ci = [] \<or> (\<exists>e. snd (snd (dialPath (cc_direct env))) = Inl e)) \<and>
       (ci_RelayURL ci = [] \<or> (\<exists>e. snd (snd (dialPath (cc_relay env))) = Inl e))"
proof -
  obtain opened closed r where ch: "choosePath ci env = (opened, closed, r)" using prod_cases3 by blast
  note a = choosePath_accounts [OF ch]
  obtain o1 c1 r1 where d1: "dialPath (cc_direct env) = (o1, c1, r1)" using prod_cases3 by blast
  obtain o2 c2 r2 where d2: "dialPath (cc_relay env) = (o2, c2, r2)" using prod_cases3 by blast
  have ok: "dialPath d = (o', c', Inr p) \<Longrightarrow> dc_path d = Some p \<and> dc_active d \<and> o' = [ResPath p] \<and> c' = []" for d o' c' p
    by (auto simp: dialPath_def split: if_splits option.splits)
  show ?thesis
  proof (cases "ci_DirectURL ci \<noteq> [] \<and> (\<exists>p. r1 = Inr p)")
    case True
    then obtain p where p: "ci_DirectURL ci \<noteq> []" "r1 = Inr p" by blast
    then show ?thesis using ok [OF d1 [unfolded p(2)]] d1 by (simp add: choosePath_def)
  next
    case False
    have dir: "ci_DirectURL ci = [] \<or> (\<exists>e. snd (snd (dialPath (cc_direct env))) = Inl e)"
      using False d1 by (cases r1) auto
    have eq: "\<exists>o' c' e. (if ci_DirectURL ci \<noteq> [] then dialPath (cc_direct env) else ([], [], Inl NoUsablePath)) = (o', c', Inl e)"
      using False d1 by (cases r1) auto
    show ?thesis
    proof (cases "ci_RelayURL ci = []")
      case True
      then show ?thesis using eq a ch dir by (auto simp: choosePath_def)
    next
      case rel: False
      show ?thesis
      proof (cases r2)
        case (Inl e)
        then show ?thesis using rel eq a ch dir d2 by (auto simp: choosePath_def)
      next
        case (Inr p)
        then show ?thesis using rel eq a ch dir d2 ok [OF d2 [unfolded Inr]] by (auto simp: choosePath_def)
      qed
    qed
  qed
qed

end
