(* ===== verification/Browser_Client.thy ===== *)
theory Browser_Client
  imports Browser_Control Browser_Bind Lifecycle
begin

text \<open>
  The browser's carrier and client (\<^verbatim>\<open>masquecat_browser_js.go\<close>): the WebTransport session with its handshake, the
  datagrams on it, and \<^verbatim>\<open>BrowserMasqueClient\<close>. The promises of the browser appear by how they settle; the operations of
  several goroutines on a client are a transition system, whose steps are the sections under its mutex.
\<close>

section \<open>The session\<close>

definition browserWebTransportRoute :: string where
  "browserWebTransportRoute = ''/.well-known/masquecat/webtransport''"

definition browserProtocolVersion :: int where "browserProtocolVersion = 1"

text \<open>\<^verbatim>\<open>URL.String\<close> for a URL with a host; \<open>force\<close> is \<^verbatim>\<open>ForceQuery\<close>, a query mark with nothing behind it.\<close>

definition forceQuery :: "string \<Rightarrow> bool" where
  "forceQuery raw \<longleftrightarrow>
     (let base = fst (Cut raw CHR ''#'') in HasSuffix base ''?'' \<and> length (filter (\<lambda>c. c = CHR ''?'') base) = 1)"

definition userinfo_String :: "(string \<times> string option) option \<Rightarrow> string" where
  "userinfo_String u =
     (case u of
        None \<Rightarrow> []
      | Some (name, pw) \<Rightarrow>
          escape encodeUserPassword name @ (case pw of None \<Rightarrow> [] | Some p \<Rightarrow> '':'' @ escape encodeUserPassword p) @ ''@'')"

definition url_String :: "bool \<Rightarrow> url \<Rightarrow> string" where
  "url_String force u =
     (let path = EscapedPath u in
      u_Scheme u @ ''://'' @ userinfo_String (u_User u) @ escape encodeHost (u_Host u) @
      (if path \<noteq> [] \<and> hd path \<noteq> CHR ''/'' then ''/'' else []) @ path @
      (if force \<or> u_RawQuery u \<noteq> [] then ''?'' @ u_RawQuery u else []) @
      (if u_Fragment u \<noteq> [] then ''#'' @ escape encodeFragment (u_Fragment u) else []))"

datatype wt_error =
  WtUnsupported | WtURL | WtNotHttps | WtReady | WtStream | WtWrite | WtControl control_error | WtChallenge | WtVerifier | WtNotReady

definition webtransport_url :: "url \<Rightarrow> url" where
  "webtransport_url u =
     u\<lparr>u_RawQuery := [], u_Fragment := [], u_Path := TrimSuffix (u_Path u) ''/'' @ browserWebTransportRoute\<rparr>"

definition browserWebTransportURL :: "string \<Rightarrow> wt_error + string" where
  "browserWebTransportURL relayURL =
     (case url_Parse relayURL of
        None \<Rightarrow> Inl WtURL
      | Some u \<Rightarrow>
          if u_Scheme u \<noteq> ''https'' \<or> u_Host u = [] then Inl WtNotHttps
          else Inr (url_String (forceQuery relayURL) (webtransport_url u)))"

text \<open>
  How the promises settle: whether the browser has WebTransport, whether the session becomes ready and the control
  stream opens before the context ends, whether the two messages are taken, what the stream delivers, and the nonce of the box.
\<close>

record wt_calls =
  wt_supported :: bool
  wt_ready :: bool
  wt_stream :: bool
  wt_write1 :: bool
  wt_write2 :: bool
  wt_reads :: "string js_read list"
  wt_nonce :: bytes

definition hello_message :: "'k node_key_api \<Rightarrow> ('p, 'k) node_private_api \<Rightarrow> 'p \<Rightarrow> masqueBrowserControl" where
  "hello_message K P local =
     blank_control\<lparr>bc_Type := ''hello'', bc_Version := browserProtocolVersion, bc_Source := KeyString K (Public P local)\<rparr>"

definition proof_message :: "('p, 'k) node_private_api \<Rightarrow> bytes \<Rightarrow> 'p \<Rightarrow> 'k \<Rightarrow> string \<Rightarrow> masqueBrowserControl" where
  "proof_message P nonce local verifier challenge =
     blank_control\<lparr>bc_Type := ''proof'', bc_Proof := b64_encode (SealTo P local verifier nonce (string_bytes challenge))\<rparr>"

text \<open>What was written to the control stream, whether a session is left open, and the outcome.\<close>

definition newBrowserWebTransportPath ::
  "'k node_key_api \<Rightarrow> ('p, 'k) node_private_api \<Rightarrow> wt_calls \<Rightarrow> string \<Rightarrow> 'p \<Rightarrow> string list \<times> bool \<times> (wt_error + unit)" where
  "newBrowserWebTransportPath K P env relayURL local =
     (if \<not> wt_supported env then ([], False, Inl WtUnsupported)
      else case browserWebTransportURL relayURL of
        Inl e \<Rightarrow> ([], False, Inl e)
      | Inr wtURL \<Rightarrow>
          if \<not> wt_ready env then ([], True, Inl WtReady)
          else if \<not> wt_stream env then ([], False, Inl WtStream)
          else if \<not> wt_write1 env then ([], False, Inl WtWrite)
          else let sent = [sendControl (hello_message K P local)] in
            (case readControl [] (wt_reads env) of
               (Inl e, _, _) \<Rightarrow> (sent, False, Inl (WtControl e))
             | (Inr ch, pending, reads) \<Rightarrow>
                 if bc_Type ch \<noteq> ''challenge'' \<or> bc_Challenge ch = [] \<or> bc_Verifier ch = [] then (sent, False, Inl WtChallenge)
                 else case UnmarshalText K (bc_Verifier ch) of
                   None \<Rightarrow> (sent, False, Inl WtVerifier)
                 | Some verifier \<Rightarrow>
                     if IsZero K verifier then (sent, False, Inl WtVerifier)
                     else if \<not> wt_write2 env then (sent, False, Inl WtWrite)
                     else let sent = sent @ [sendControl (proof_message P (wt_nonce env) local verifier (bc_Challenge ch))] in
                       (case readControl pending reads of
                          (Inl e, _, _) \<Rightarrow> (sent, False, Inl (WtControl e))
                        | (Inr rdy, _, _) \<Rightarrow>
                            if bc_Type rdy \<noteq> ''ready'' \<or> bc_Version rdy \<noteq> browserProtocolVersion then (sent, False, Inl WtNotReady)
                            else (sent, True, Inr ()))))"

definition browserPath_ForwardPacket ::
  "'k node_key_api \<Rightarrow> bytes \<Rightarrow> ('s \<Rightarrow> bytes \<Rightarrow> 's \<times> 'e option) \<Rightarrow> 's \<Rightarrow> 'k \<Rightarrow> 'k \<Rightarrow> bytes \<Rightarrow> 's \<times> 'e option" where
  "browserPath_ForwardPacket K magic write s src dst payload =
     (if HasPrefix payload magic then (s, None) else write s (encodeBrowserMasquePacket K src dst payload))"

datatype 'e run_end = RunFailed | RunEOF | RunHandler 'e

text \<open>The receive loop on what the session delivers; \<open>None\<close> while it runs.\<close>

fun browserPath_run ::
  "'k node_key_api \<Rightarrow> bytes \<Rightarrow> 'k \<Rightarrow> ('s \<Rightarrow> 'k \<Rightarrow> bytes \<Rightarrow> 's \<times> 'e option) \<Rightarrow> bytes js_read list \<Rightarrow> 's \<Rightarrow> 's \<times> 'e run_end option" where
  "browserPath_run K magic local onPacket [] s = (s, None)"
| "browserPath_run K magic local onPacket (JsFailed # rs) s = (s, Some RunFailed)"
| "browserPath_run K magic local onPacket (JsDone # rs) s = (s, Some RunEOF)"
| "browserPath_run K magic local onPacket (JsChunk b # rs) s =
     (case decodeBrowserMasquePacket K b of
        Inl e \<Rightarrow> browserPath_run K magic local onPacket rs s
      | Inr pkt \<Rightarrow>
          if p_dst pkt \<noteq> local \<or> HasPrefix (p_payload pkt) magic then browserPath_run K magic local onPacket rs s
          else (case onPacket s (p_src pkt) (p_payload pkt) of
                  (s', Some e) \<Rightarrow> (s', Some (RunHandler e))
                | (s', None) \<Rightarrow> browserPath_run K magic local onPacket rs s'))"

text \<open>The callback that \<^verbatim>\<open>ensureStarted\<close> gives to the loop.\<close>

definition client_onPacket :: "'k \<Rightarrow> ('s \<Rightarrow> 'k \<Rightarrow> bytes \<Rightarrow> 's \<times> 'e option) \<Rightarrow> 's \<Rightarrow> 'k \<Rightarrow> bytes \<Rightarrow> 's \<times> 'e option" where
  "client_onPacket server inject s src payload = (if src \<noteq> server then (s, None) else inject s src payload)"

section \<open>The client\<close>

record 'k BrowserMasqueClient =
  bm_Key :: "nat option"
  bm_started :: bool
  bm_serverPublic :: "'k option"
  bm_core :: "nat option"
  bm_path :: "nat option"
  bm_ctx :: "nat option"
  bm_cancel :: "nat option"

definition NewBrowserMasqueClient :: "nat option \<Rightarrow> 'k BrowserMasqueClient" where
  "NewBrowserMasqueClient key = \<lparr>bm_Key = key, bm_started = False, bm_serverPublic = None, bm_core = None, bm_path = None,
     bm_ctx = None, bm_cancel = None\<rparr>"

datatype browser_client_error = BcToken | BcNoRelay | BcPath | BcCore

record browser_calls =
  bcl_newKey :: nat
  bcl_path :: "nat option"
  bcl_core :: "nat option"
  bcl_ctx :: nat

definition browser_ensureStarted ::
  "('k, 'd) MasqueConnInfo option \<Rightarrow> browser_calls \<Rightarrow> 'k BrowserMasqueClient \<Rightarrow>
   'k BrowserMasqueClient \<times> resource list \<times> resource list \<times> browser_client_error option" where
  "browser_ensureStarted token env c0 =
     (if bm_started c0 then (c0, [], [], None)
      else case token of
        None \<Rightarrow> (c0, [], [], Some BcToken)
      | Some ci \<Rightarrow>
          if ci_RelayURL ci = [] then (c0, [], [], Some BcNoRelay)
          else let c = c0\<lparr>bm_Key := ensure_key (bcl_newKey env) (bm_Key c0)\<rparr> in
            (case bcl_path env of
               None \<Rightarrow> (c, [], [], Some BcPath)
             | Some p \<Rightarrow>
                 (case bcl_core env of
                    None \<Rightarrow> (c, [ResPath p], [ResPath p], Some BcCore)
                  | Some k \<Rightarrow>
                      (c\<lparr>bm_serverPublic := Some (ci_ServerPublic ci), bm_path := Some p, bm_core := Some k,
                         bm_ctx := Some (bcl_ctx env), bm_cancel := Some (bcl_ctx env), bm_started := True\<rparr>,
                       [ResPath p, ResCore k, ResContext (bcl_ctx env)], [], None))))"

definition browser_cleared :: "'k BrowserMasqueClient \<Rightarrow> 'k BrowserMasqueClient" where
  "browser_cleared c =
     c\<lparr>bm_started := False, bm_serverPublic := None, bm_path := None, bm_core := None, bm_ctx := None, bm_cancel := None\<rparr>"

text \<open>What the goroutine of the receive loop does when the loop has ended: it owns the path, the core and the context it
  was started with.\<close>

definition browser_loop_end ::
  "nat \<Rightarrow> nat \<Rightarrow> nat \<Rightarrow> 'k BrowserMasqueClient \<Rightarrow> 'k BrowserMasqueClient \<times> resource list" where
  "browser_loop_end path core ctx c =
     (if bm_path c \<noteq> Some path \<or> bm_core c \<noteq> Some core then (c, [])
      else (browser_cleared c, [ResContext ctx, ResPath path, ResCore core]))"

definition browser_client_Close :: "'k BrowserMasqueClient \<Rightarrow> 'k BrowserMasqueClient \<times> resource list" where
  "browser_client_Close c =
     (browser_cleared c, opt_res ResContext (bm_cancel c) @ opt_res ResPath (bm_path c) @ opt_res ResCore (bm_core c))"

text \<open>
  An operation (\<^verbatim>\<open>Ping\<close>, \<^verbatim>\<open>DialTCPPort\<close>) starts the client, releases its mutex, and takes it again to read the core, which
  it then uses. \<open>Using None\<close> is the call of a method on a nil core.
\<close>

datatype browser_op = OpStarted | OpFailed browser_client_error | Using "nat option"

record 'k browser_sys =
  bs_client :: "'k BrowserMasqueClient"
  bs_opened :: "resource list"
  bs_closed :: "resource list"
  bs_loops :: "(nat \<times> nat \<times> nat) list"
  bs_ops :: "(nat, browser_op) gomap"

definition browser_sys_init :: "nat option \<Rightarrow> 'k browser_sys" where
  "browser_sys_init key = \<lparr>bs_client = NewBrowserMasqueClient key, bs_opened = [], bs_closed = [], bs_loops = [], bs_ops = []\<rparr>"

definition fresh_calls :: "browser_calls \<Rightarrow> resource list \<Rightarrow> bool" where
  "fresh_calls env opened \<longleftrightarrow>
     set (opt_res ResPath (bcl_path env) @ opt_res ResCore (bcl_core env) @ [ResContext (bcl_ctx env)]) \<inter> set opened = {}"

inductive browser_step :: "('k, 'd) MasqueConnInfo option \<Rightarrow> 'k browser_sys \<Rightarrow> 'k browser_sys \<Rightarrow> bool" for token where
  op_start:
    "map_of (bs_ops s) i = None \<Longrightarrow> fresh_calls env (bs_opened s) \<Longrightarrow>
     browser_ensureStarted token env (bs_client s) = (c', opened, closed, err) \<Longrightarrow>
     browser_step token s
       (s\<lparr>bs_client := c', bs_opened := bs_opened s @ opened, bs_closed := bs_closed s @ closed,
          bs_loops := (if bm_started (bs_client s) \<or> err \<noteq> None then []
                       else [(the (bcl_path env), the (bcl_core env), bcl_ctx env)]) @ bs_loops s,
          bs_ops := AList.update i (case err of None \<Rightarrow> OpStarted | Some e \<Rightarrow> OpFailed e) (bs_ops s)\<rparr>)"
| op_take:
    "map_of (bs_ops s) i = Some OpStarted \<Longrightarrow>
     browser_step token s (s\<lparr>bs_ops := AList.update i (Using (bm_core (bs_client s))) (bs_ops s)\<rparr>)"
| loop_end:
    "(p, k, x) \<in> set (bs_loops s) \<Longrightarrow> browser_loop_end p k x (bs_client s) = (c', closed) \<Longrightarrow>
     browser_step token s (s\<lparr>bs_client := c', bs_closed := bs_closed s @ closed, bs_loops := removeAll (p, k, x) (bs_loops s)\<rparr>)"
| close:
    "browser_client_Close (bs_client s) = (c', closed) \<Longrightarrow>
     browser_step token s (s\<lparr>bs_client := c', bs_closed := bs_closed s @ closed\<rparr>)"

inductive browser_reachable :: "('k, 'd) MasqueConnInfo option \<Rightarrow> 'k browser_sys \<Rightarrow> bool" for token where
  init: "browser_reachable token (browser_sys_init key)"
| step: "browser_reachable token s \<Longrightarrow> browser_step token s s' \<Longrightarrow> browser_reachable token s'"

section \<open>Nothing is leaked or closed twice\<close>

definition browser_held :: "'k BrowserMasqueClient \<Rightarrow> resource list" where
  "browser_held c = opt_res ResContext (bm_cancel c) @ opt_res ResPath (bm_path c) @ opt_res ResCore (bm_core c)"

definition idle :: "'k BrowserMasqueClient \<Rightarrow> bool" where
  "idle c \<longleftrightarrow> \<not> bm_started c \<and> bm_serverPublic c = None \<and> bm_core c = None \<and> bm_path c = None \<and> bm_ctx c = None \<and> bm_cancel c = None"

definition running :: "nat \<times> nat \<times> nat \<Rightarrow> 'k BrowserMasqueClient \<Rightarrow> bool" where
  "running r c \<longleftrightarrow> (case r of (p, k, x) \<Rightarrow>
     bm_started c \<and> bm_serverPublic c \<noteq> None \<and> bm_core c = Some k \<and> bm_path c = Some p \<and> bm_ctx c = Some x \<and> bm_cancel c = Some x)"

definition browser_inv :: "'k browser_sys \<Rightarrow> bool" where
  "browser_inv s \<longleftrightarrow>
     (idle (bs_client s) \<or> (\<exists>r\<in>set (bs_loops s). running r (bs_client s))) \<and>
     mset (bs_opened s) = mset (bs_closed s) + mset (browser_held (bs_client s)) \<and> distinct (bs_opened s) \<and>
     (\<forall>(p, k, x)\<in>set (bs_loops s). ResPath p \<in> set (bs_opened s)) \<and> distinct (map fst (bs_loops s))"

lemma browser_invD:
  assumes "browser_inv s"
  shows "idle (bs_client s) \<or> (\<exists>r\<in>set (bs_loops s). running r (bs_client s))"
    "mset (bs_opened s) = mset (bs_closed s) + mset (browser_held (bs_client s))" "distinct (bs_opened s)"
    "(p, k, x) \<in> set (bs_loops s) \<Longrightarrow> ResPath p \<in> set (bs_opened s)" "distinct (map fst (bs_loops s))"
  using assms unfolding browser_inv_def by auto

lemma idle_held [simp]: "idle c \<Longrightarrow> browser_held c = []"
  by (simp add: idle_def browser_held_def opt_res_def)

lemma idle_cleared [simp]: "idle (browser_cleared c)"
  by (simp add: idle_def browser_cleared_def)

lemma running_held: "running (p, k, x) c \<Longrightarrow> browser_held c = [ResContext x, ResPath p, ResCore k]"
  by (simp add: running_def browser_held_def opt_res_def)

text \<open>What starting the client can do.\<close>

lemma browser_ensureStarted_cases:
  assumes "browser_ensureStarted token env c = (c', opened, closed, err)"
  obtains (started) "bm_started c" "c' = c" "opened = []" "closed = []" "err = None"
  | (failed) e where "\<not> bm_started c" "err = Some e" "idle c \<Longrightarrow> idle c'" "opened = []" "closed = []"
  | (no_core) p where "\<not> bm_started c" "err = Some BcCore" "idle c \<Longrightarrow> idle c'" "bcl_path env = Some p" "opened = [ResPath p]" "closed = [ResPath p]"
  | (opened) p k where "\<not> bm_started c" "err = None" "bcl_path env = Some p" "bcl_core env = Some k" "running (p, k, bcl_ctx env) c'"
      "opened = [ResPath p, ResCore k, ResContext (bcl_ctx env)]" "closed = []"
proof -
  have idle_key: "idle c \<Longrightarrow> idle (c\<lparr>bm_Key := x\<rparr>)" for x by (simp add: idle_def)
  show ?thesis
  proof (cases "bm_started c")
    case True
    show ?thesis by (rule started) (use assms True in \<open>auto simp: browser_ensureStarted_def\<close>)
  next
    case False
    note f = this
    show ?thesis
    proof (cases token)
      case None
      show ?thesis by (rule failed) (use assms False None in \<open>auto simp: browser_ensureStarted_def\<close>)
    next
      case (Some ci)
      show ?thesis
      proof (cases "ci_RelayURL ci = [] \<or> bcl_path env = None")
        case True
        then obtain e where e: "err = Some e" "opened = []" "closed = []" "c' = c \<or> (\<exists>x. c' = c\<lparr>bm_Key := x\<rparr>)"
          using assms False Some by (auto simp: browser_ensureStarted_def Let_def split: if_splits)
        show ?thesis by (rule failed [OF False e(1) _ e(2,3)]) (use e(4) idle_key in auto)
      next
        case False
        then obtain p where p: "bcl_path env = Some p" "ci_RelayURL ci \<noteq> []" by auto
        show ?thesis
        proof (cases "bcl_core env")
          case None
          then show ?thesis using assms f Some p idle_key by (intro no_core) (auto simp: browser_ensureStarted_def)
        next
          case (Some k)
          then show ?thesis using assms f \<open>token = Some ci\<close> p
            by (intro opened) (auto simp: browser_ensureStarted_def running_def)
        qed
      qed
    qed
  qed
qed

lemma browser_inv_init: "browser_inv (browser_sys_init key)"
  by (simp add: browser_inv_def browser_sys_init_def NewBrowserMasqueClient_def idle_def browser_held_def opt_res_def)

lemma browser_inv_start:
  assumes inv: "browser_inv s" and fresh: "fresh_calls env (bs_opened s)"
    and e: "browser_ensureStarted token env (bs_client s) = (c', opened, closed, err)"
    and loops: "loops = (if bm_started (bs_client s) \<or> err \<noteq> None then []
                       else [(the (bcl_path env), the (bcl_core env), bcl_ctx env)]) @ bs_loops s"
  shows "browser_inv (s\<lparr>bs_client := c', bs_opened := bs_opened s @ opened, bs_closed := bs_closed s @ closed, bs_loops := loops, bs_ops := ops\<rparr>)"
  using e
proof (cases rule: browser_ensureStarted_cases)
  case started
  then show ?thesis using inv loops by (simp add: browser_inv_def)
next
  case (failed e)
  then have "idle (bs_client s)" using browser_invD(1) [OF inv] by (auto simp: running_def)
  then show ?thesis using failed inv loops by (simp add: browser_inv_def)
next
  case (no_core p)
  then have i: "idle (bs_client s)" using browser_invD(1) [OF inv] by (auto simp: running_def)
  have "ResPath p \<notin> set (bs_opened s)" using fresh no_core by (simp add: fresh_calls_def opt_res_def)
  then show ?thesis using no_core i inv loops by (auto simp: browser_inv_def)
next
  case (opened p k)
  then have i: "idle (bs_client s)" using browser_invD(1) [OF inv] by (auto simp: running_def)
  have n: "ResPath p \<notin> set (bs_opened s)" "ResCore k \<notin> set (bs_opened s)" "ResContext (bcl_ctx env) \<notin> set (bs_opened s)"
    using fresh opened by (auto simp: fresh_calls_def opt_res_def)
  have "p \<notin> fst ` set (bs_loops s)" using browser_invD(4) [OF inv] n(1) by force
  moreover have "mset (bs_opened s @ opened) = mset (bs_closed s) + mset (browser_held c')"
    using browser_invD(2) [OF inv] i opened running_held [OF opened(5)] by simp
  ultimately show ?thesis using opened inv loops n by (auto simp: browser_inv_def)
qed

lemma browser_inv_close:
  assumes "browser_inv s" "browser_client_Close (bs_client s) = (c', closed)"
  shows "browser_inv (s\<lparr>bs_client := c', bs_closed := bs_closed s @ closed\<rparr>)"
  using assms by (auto simp: browser_inv_def browser_client_Close_def browser_held_def [symmetric])

lemma browser_inv_loop_end:
  assumes inv: "browser_inv s" and r: "(p, k, x) \<in> set (bs_loops s)" and e: "browser_loop_end p k x (bs_client s) = (c', closed)"
  shows "browser_inv (s\<lparr>bs_client := c', bs_closed := bs_closed s @ closed, bs_loops := removeAll (p, k, x) (bs_loops s)\<rparr>)"
proof (cases "bm_path (bs_client s) = Some p \<and> bm_core (bs_client s) = Some k")
  case False
  then have eq: "c' = bs_client s" "closed = []" using e by (auto simp: browser_loop_end_def)
  have "\<not> running (p, k, x) (bs_client s)" using False by (auto simp: running_def)
  then have "idle (bs_client s) \<or> (\<exists>r\<in>set (removeAll (p, k, x) (bs_loops s)). running r (bs_client s))"
    using browser_invD(1) [OF inv] by auto
  moreover have "distinct (map fst (removeAll (p, k, x) (bs_loops s)))"
    using browser_invD(5) [OF inv] by (auto simp: distinct_map inj_on_def distinct_removeAll)
  ultimately show ?thesis using inv eq by (auto simp: browser_inv_def)
next
  case True
  then obtain r' where r': "r' \<in> set (bs_loops s)" "running r' (bs_client s)" using browser_invD(1) [OF inv] by (auto simp: idle_def)
  then have "fst r' = p" using True by (auto simp: running_def)
  then have "r' = (p, k, x)" using r r'(1) browser_invD(5) [OF inv] by (metis distinct_map inj_onD fst_conv)
  then have held: "browser_held (bs_client s) = [ResContext x, ResPath p, ResCore k]" using r'(2) by (simp add: running_held)
  have eq: "c' = browser_cleared (bs_client s)" "closed = [ResContext x, ResPath p, ResCore k]"
    using e True by (auto simp: browser_loop_end_def)
  have "distinct (map fst (removeAll (p, k, x) (bs_loops s)))"
    using browser_invD(5) [OF inv] by (auto simp: distinct_map inj_on_def distinct_removeAll)
  then show ?thesis using inv held eq by (auto simp: browser_inv_def)
qed

lemma browser_inv_step:
  assumes "browser_inv s" "browser_step token s s'"
  shows "browser_inv s'"
  using assms(2)
proof cases
  case (op_start i env c' opened closed err)
  show ?thesis unfolding op_start(1) by (rule browser_inv_start [OF assms(1) op_start(3,4) refl])
next
  case (op_take i)
  then show ?thesis using assms(1) by (simp add: browser_inv_def)
next
  case (loop_end p k x c' closed)
  then show ?thesis using browser_inv_loop_end [OF assms(1)] by simp
next
  case (close c' closed)
  then show ?thesis using browser_inv_close [OF assms(1)] by simp
qed

lemma browser_inv_reachable: "browser_reachable token s \<Longrightarrow> browser_inv s"
  by (induction rule: browser_reachable.induct) (auto intro: browser_inv_init browser_inv_step)

section \<open>Properties\<close>


definition started_sys :: "('k, 'd) MasqueConnInfo \<Rightarrow> 'k browser_sys" where
  "started_sys ci = \<lparr>bs_client = \<lparr>bm_Key = Some 0, bm_started = True, bm_serverPublic = Some (ci_ServerPublic ci), bm_core = Some 2,
       bm_path = Some 1, bm_ctx = Some 3, bm_cancel = Some 3\<rparr>,
     bs_opened = [ResPath 1, ResCore 2, ResContext 3], bs_closed = [], bs_loops = [(1, 2, 3)], bs_ops = [(0, OpStarted)]\<rparr>"

lemma started_reachable:
  assumes "ci_RelayURL ci \<noteq> []"
  shows "browser_reachable (Some ci) (started_sys ci)"
proof -
  let ?s = "browser_sys_init (Some 0)" and ?env = "\<lparr>bcl_newKey = 9, bcl_path = Some 1, bcl_core = Some 2, bcl_ctx = 3\<rparr>"
  let ?c = "\<lparr>bm_Key = Some 0, bm_started = True, bm_serverPublic = Some (ci_ServerPublic ci), bm_core = Some 2,
       bm_path = Some 1, bm_ctx = Some 3, bm_cancel = Some 3\<rparr>"
  have e: "browser_ensureStarted (Some ci) ?env (bs_client ?s) = (?c, [ResPath 1, ResCore 2, ResContext 3], [], None)"
    using assms by (simp add: browser_ensureStarted_def browser_sys_init_def NewBrowserMasqueClient_def ensure_key_def)
  have "browser_step (Some ci) ?s (started_sys ci)"
    using browser_step.op_start [OF _ _ e, of 0]
    by (simp add: browser_sys_init_def NewBrowserMasqueClient_def fresh_calls_def started_sys_def)
  then show ?thesis by (rule browser_reachable.step [OF browser_reachable.init])
qed


text \<open>
  C31: an operation of the browser client can find no core. \<^verbatim>\<open>Ping\<close> and \<^verbatim>\<open>DialTCPPort\<close> release the mutex after \<^verbatim>\<open>ensureStarted\<close> and
  take it again to read \<^verbatim>\<open>c.core\<close>; if \<^verbatim>\<open>Close\<close> runs in between, or if the receive loop ends in between, the operation goes
  on to call a method on a nil core. For every token with a relay both are possible.
\<close>
theorem browser_core_may_be_nil:
  "ci_RelayURL ci = [] \<or>
   (\<exists>s closed. browser_reachable (Some ci) s \<and> map_of (bs_ops s) 0 = Some OpStarted \<and>
      browser_client_Close (bs_client s) = (browser_cleared (bs_client s), closed) \<and>
      browser_loop_end 1 2 3 (bs_client s) = (browser_cleared (bs_client s), closed) \<and>
      (\<exists>s'. browser_reachable (Some ci) s' \<and> map_of (bs_ops s') 0 = Some (Using None)))"
proof (cases "ci_RelayURL ci = []")
  case False
  note r = started_reachable [OF this]
  let ?s = "started_sys ci" and ?held = "[ResContext 3, ResPath 1, ResCore 2]"
  have cl: "browser_client_Close (bs_client ?s) = (browser_cleared (bs_client ?s), ?held)"
    "browser_loop_end 1 2 3 (bs_client ?s) = (browser_cleared (bs_client ?s), ?held)"
    by (simp_all add: browser_client_Close_def browser_loop_end_def started_sys_def opt_res_def)
  define s1 where "s1 = ?s\<lparr>bs_client := browser_cleared (bs_client ?s), bs_closed := bs_closed ?s @ ?held\<rparr>"
  define s2 where "s2 = s1\<lparr>bs_ops := AList.update 0 (Using (bm_core (bs_client s1))) (bs_ops s1)\<rparr>"
  have r1: "browser_reachable (Some ci) s1"
    unfolding s1_def by (rule browser_reachable.step [OF r browser_step.close [OF cl(1)]])
  have "map_of (bs_ops s1) 0 = Some OpStarted" by (simp add: s1_def started_sys_def)
  from browser_reachable.step [OF r1 browser_step.op_take [OF this]] have r2: "browser_reachable (Some ci) s2"
    by (simp only: s2_def)
  have "map_of (bs_ops s2) 0 = Some (Using None)"
    by (simp add: s2_def s1_def browser_cleared_def map_of_update)
  then show ?thesis using r r2 cl by (intro disjI2 exI [of _ ?s] exI [of _ ?held] conjI exI [of _ s2]) (simp_all add: started_sys_def)
qed simp

text \<open>An injection that records the packets, and what a read of the session should contribute to them.\<close>

definition record_inject :: "('k \<times> bytes) list \<Rightarrow> 'k \<Rightarrow> bytes \<Rightarrow> ('k \<times> bytes) list \<times> unit option" where
  "record_inject s src p = (s @ [(src, p)], None)"

definition acceptable :: "'k node_key_api \<Rightarrow> bytes \<Rightarrow> 'k \<Rightarrow> 'k \<Rightarrow> bytes js_read \<Rightarrow> ('k \<times> bytes) list" where
  "acceptable K magic local server r =
     (case r of
        JsChunk b \<Rightarrow>
          (case decodeMasquePacket K b of
             Inr pkt \<Rightarrow> if p_dst pkt = local \<and> p_src pkt = server \<and> \<not> HasPrefix (p_payload pkt) magic then [(server, p_payload pkt)] else []
           | Inl _ \<Rightarrow> [])
      | _ \<Rightarrow> [])"

lemma onPacket_record:
  "client_onPacket server record_inject s src p = (if src = server then s @ [(src, p)] else s, None)"
  by (simp add: client_onPacket_def record_inject_def)

text \<open>
  What reaches the WireGuard device of a browser. Whatever the session delivers, the receive loop of a client
  injects exactly the payloads of the datagrams from the server to the client's own key that are not disco messages, in the
  order of the datagrams, until the session ends.
\<close>
theorem browser_accepts_server_only:
  "fst (browserPath_run K magic local (client_onPacket server record_inject) reads s) =
   s @ concat (map (acceptable K magic local server) (takeWhile (\<lambda>r. r \<noteq> JsDone \<and> r \<noteq> JsFailed) reads))"
proof (induction reads arbitrary: s)
  case (Cons r reads)
  have dec: "decodeBrowserMasquePacket K b = decodeMasquePacket K b" for b
    by (simp add: decodeBrowserMasquePacket_def decodeMasquePacket_def go_consts)
  show ?case
  proof (cases r)
    case (JsChunk b)
    show ?thesis
    proof (cases "decodeMasquePacket K b")
      case (Inr pkt)
      then show ?thesis using JsChunk acceptable_def [of K magic local server "JsChunk b"]
        by (simp add: dec Cons.IH onPacket_record [of server s "p_src pkt" "p_payload pkt"])
    qed (use JsChunk acceptable_def [of K magic local server "JsChunk b"] in \<open>simp add: dec Cons.IH\<close>)
  qed simp_all
qed simp

end
