(* ===== verification/Browser_Login.thy ===== *)
theory Browser_Login
  imports Browser_Client
begin

text \<open>
  The handshake of a browser with the relay: \<^verbatim>\<open>newBrowserWebTransportPath\<close> of the browser against the control
  exchange of \<^verbatim>\<open>serveBrowserWebTransport\<close>, with the JSON lines of \<^verbatim>\<open>Browser_Control\<close> in between.
\<close>

section \<open>Lines and messages\<close>

lemma valid_utf8_key: "key_laws K \<Longrightarrow> valid_utf8 (KeyString K k)"
  using key_lawsD(4) [of K k] hex_ascii by (auto intro!: valid_utf8_ascii simp: nodePublicTextPrefix_def)

lemma json_body_plain: "list_all (\<lambda>c. (of_char c :: nat) < 0x80 \<and> json_escape c = [c]) s \<Longrightarrow> json_body s = s"
  by (induction s) auto

lemma b64_plain:
  assumes "b64_value c \<noteq> None"
  shows "(of_char c :: nat) < 0x80 \<and> json_escape c = [c]"
proof -
  from assms have "(of_char c :: nat) \<in> {45, 95} \<union> {48..57} \<union> {65..90} \<union> {97..122}"
    by (auto simp: b64_value_def Let_def split: if_splits)
  then have n: "(of_char c :: nat) < 0x80" "32 \<le> (of_char c :: nat)" "(of_char c :: nat) \<notin> {0x22, 0x5C, 0x3C, 0x3E, 0x26}" by auto
  moreover have "(of_char d :: nat) \<in> {0x22, 0x5C, 0x3C, 0x3E, 0x26} \<or> (of_char d :: nat) < 32"
    if "d \<in> {CHR 0x22, CHR 0x5C, CHR 0x08, CHR 0x0C, CHR 0x0A, CHR 0x0D, CHR 0x09} \<union> set ''<>&''" for d
    using that by auto
  ultimately have "c \<notin> {CHR 0x22, CHR 0x5C, CHR 0x08, CHR 0x0C, CHR 0x0A, CHR 0x0D, CHR 0x09} \<union> set ''<>&''"
    by (metis not_less)
  with n show ?thesis by (simp add: json_escape_def Let_def)
qed

lemma json_body_b64: "json_body (b64_encode b) = b64_encode b"
  using set_b64_encode [of _ b] b64_plain by (intro json_body_plain) (simp add: list_all_iff)

lemma valid_utf8_b64: "valid_utf8 (b64_encode b)"
  using set_b64_encode [of _ b] b64_plain by (intro valid_utf8_ascii) (simp add: list_all_iff)

lemma itoa_1: "itoa 1 = ''1''"
  by code_simp

lemma hello_ok:
  assumes "key_laws K"
  shows "control_ok (hello_message K P local)" "length (control_Marshal (hello_message K P local)) < masqueBrowserControlMax"
proof -
  let ?k = "KeyString K (Public P local)"
  show "control_ok (hello_message K P local)"
    using valid_utf8_key [OF assms] by (simp add: control_ok_def hello_message_def blank_control_def browserProtocolVersion_def)
  have "length ?k = 72" using key_lawsD(1,4) [OF assms, of "Public P local"] by (simp add: nodePublicTextPrefix_def go_consts)
  moreover have "length (json_body ?k) \<le> 6 * length ?k"
    using hex_ascii by (intro json_body_ascii_length) (simp add: key_lawsD(4) [OF assms] nodePublicTextPrefix_def)
  ultimately show "length (control_Marshal (hello_message K P local)) < masqueBrowserControlMax"
    by (simp add: control_Marshal_def control_members_def control_member_def json_struct_def json_member_def hello_message_def blank_control_def
        json_quote_def json_int_def browserProtocolVersion_def itoa_1 [simplified] go_consts json_escape_def)
qed

lemma proof_ok:
  assumes "length (SealTo P local v nonce (string_bytes ch)) \<le> 4000"
  shows "control_ok (proof_message P nonce local v ch)" "length (control_Marshal (proof_message P nonce local v ch)) < masqueBrowserControlMax"
proof -
  let ?b = "SealTo P local v nonce (string_bytes ch)"
  show "control_ok (proof_message P nonce local v ch)"
    using valid_utf8_b64 by (simp add: control_ok_def proof_message_def blank_control_def)
  have "length (b64_encode ?b) \<le> 8000" using length_b64_encode [of ?b] assms by simp
  then show "length (control_Marshal (proof_message P nonce local v ch)) < masqueBrowserControlMax"
    by (simp add: control_Marshal_def control_members_def control_member_def json_struct_def json_member_def proof_message_def blank_control_def
        json_quote_def json_body_b64 go_consts json_escape_def)
qed

lemma browser_reads_control:
  assumes "control_ok m" "bc_Type m \<noteq> ''error''" "length (control_Marshal m) < browserControlMax"
    "concat cs = control_Marshal m @ [CHR 0x0A]"
  shows "\<exists>cs'. readControl [] (map JsChunk cs @ reads) = (Inr m, [], map JsChunk cs' @ reads) \<and> concat cs' = []"
proof -
  have "\<exists>cs'. readLine [] (map JsChunk cs @ reads) = (Inr (control_Marshal m), [], map JsChunk cs' @ reads) \<and> concat cs' = []"
    by (rule browser_reads_line) (use assms control_no_newline in auto)
  then show ?thesis using assms(2) control_roundtrip [OF assms(1)] by (auto simp: readControl_def)
qed

definition ready_message :: masqueBrowserControl where
  "ready_message = blank_control\<lparr>bc_Type := ''ready'', bc_Version := masqueBrowserProtocolVersion\<rparr>"

lemma ready_ok: "control_ok ready_message" "length (control_Marshal ready_message) < browserControlMax"
  by (simp_all add: control_ok_def ready_message_def blank_control_def masqueBrowserProtocolVersion_def control_Marshal_def control_members_def
      control_member_def json_struct_def json_member_def json_quote_def json_int_def itoa_1 [simplified] go_consts json_escape_def)

lemma browser_hello_ok:
  assumes "key_laws K" "browser_hello K P now nonce addr (Some (hello_message K P local)) a = (a1, reply, Some k)"
  shows "k = Public P local" "issue now nonce k k masqueModeRelay addr a = (a1, Inr (bc_Challenge reply))"
    "reply = blank_control\<lparr>bc_Type := ''challenge'', bc_Challenge := bc_Challenge reply, bc_Verifier := KeyString K (Public P (auth_priv a1))\<rparr>"
    "\<not> IsZero K k"
  using assms key_lawsD(5) [OF assms(1), of "Public P local"]
  by (auto simp: browser_hello_def hello_message_def blank_control_def browserProtocolVersion_def masqueBrowserProtocolVersion_def
      split: if_splits prod.splits sum.splits)

text \<open>The relay's challenge, and that the browser's answer to it is accepted.\<close>

lemma challenge_text:
  assumes "issue now nonce k k mode addr a = (a1, Inr ch)" "map_of (auth_pending a1) ch = Some c"
    "\<forall>t\<in>fst ` set (auth_pending a). t \<noteq> [] \<and> valid_utf8 t" "nonce \<noteq> Some []"
  shows "ch \<noteq> [] \<and> valid_utf8 ch"
proof -
  have "b64_encode n = [] \<Longrightarrow> n = []" for n by (cases n rule: b64_encode.cases) (simp_all add: Let_def)
  then show ?thesis
    using issue_pending_subset [OF assms(1) map_of_SomeD [OF assms(2)]] assms(3,4) valid_utf8_b64 by force
qed

lemma browser_proof_accepted:
  assumes "seal_laws P" "auth_inv a" "issue t1 nonce (Public P local) (Public P local) masqueModeRelay addr a = (a1, Inr ch)"
    "map_of (auth_pending a1) ch = Some c" "\<not> IsZero K (Public P local)"
    "\<forall>op\<in>set ops. op_time op < ch_expires c \<and> \<not> op_presents P (auth_priv a) ch op" "t2 < ch_expires c"
  shows "\<exists>a3. browser_proof K P t2 (Public P local)
    (Some (proof_message P sn local (Public P (auth_priv a)) ch)) (auth_run K P ops a1) = (a3, None)"
proof -
  have priv: "auth_priv a1 = auth_priv a" using auth_priv_issue assms(3) by (metis fst_conv)
  have inv1: "auth_inv a1" using auth_inv_issue [OF assms(2)] assms(3) by (metis fst_conv)
  have c: "same_request (Public P local) (Public P local) masqueModeRelay addr c"
    using issue_success [OF assms(2,3)] assms(4) by auto
  let ?ep = "b64_encode (SealTo P local (Public P (auth_priv a)) sn (string_bytes ch))"
  have tok: "proof_token P (auth_priv a) (Public P local) ?ep = Some ch"
    using assms(1) by (simp add: proof_token_def seal_laws_def)
  have pend: "map_of (auth_pending (auth_run K P ops a1)) ch = Some c"
    by (rule run_keeps [OF inv1 assms(4)]) (use assms(6) priv in simp)
  have "\<exists>a3. verify K P t2 ?ep (Public P local) (Public P local) masqueModeRelay (auth_run K P ops a1) = (a3, True)"
    using tok pend assms(5,7) c by (auto simp: verify_eq priv live_def same_request_def)
  then show ?thesis by (auto simp: browser_proof_def proof_message_def blank_control_def)
qed

section \<open>Properties\<close>

text \<open>
  C29: a browser can log in. If the relay issues a challenge for the browser's hello, then the two messages that the browser writes
  are read by the relay as that hello and as a proof which the relay accepts, whatever other challenges and proofs it handled in
  between, as long as the challenge has not expired and no one else presented a proof for it; and when the relay's two lines reach
  the browser, cut into chunks in any way, \<^verbatim>\<open>newBrowserWebTransportPath\<close> returns an open session.
\<close>
theorem browser_login_completes:
  assumes laws: "key_laws K" "seal_laws P"
    and auth: "auth_inv a" "\<forall>t\<in>fst ` set (auth_pending a). t \<noteq> [] \<and> valid_utf8 t" "nonce \<noteq> Some []"
      "\<not> IsZero K (Public P (auth_priv a))"
    and hello: "browser_hello K P t1 nonce addr (Some (hello_message K P local)) a = (a1, reply, Some k)"
    and pending: "map_of (auth_pending a1) (bc_Challenge reply) = Some c"
      "\<forall>op\<in>set ops. op_time op < ch_expires c \<and> \<not> op_presents P (auth_priv a) (bc_Challenge reply) op" "t2 < ch_expires c"
    and env: "wt_supported env" "wt_ready env" "wt_stream env" "wt_write1 env" "wt_write2 env" "browserWebTransportURL relayURL = Inr u"
    and sealed: "length (SealTo P local (Public P (auth_priv a)) (wt_nonce env) (string_bytes (bc_Challenge reply))) \<le> 4000"
    and lines: "writeMasqueBrowserControl True reply = Inr line1" "writeMasqueBrowserControl True ready_message = Inr line2"
      "wt_reads env = map JsChunk (cs1 @ cs2)" "concat cs1 = line1" "concat cs2 = line2"
  shows "\<exists>m1 m2 p a3. newBrowserWebTransportPath K P env relayURL local = ([m1, m2], True, Inr ()) \<and>
    readMasqueBrowserControl m1 = Inr (hello_message K P local, []) \<and> k = Public P local \<and>
    readMasqueBrowserControl m2 = Inr (p, []) \<and> browser_proof K P t2 k (Some p) (auth_run K P ops a1) = (a3, None)"
proof -
  note h = browser_hello_ok [OF laws(1) hello]
  let ?ch = "bc_Challenge reply" and ?V = "Public P (auth_priv a)"
  have priv: "auth_priv a1 = auth_priv a" using auth_priv_issue h(2) by (metis fst_conv)
  have ch: "?ch \<noteq> []" "valid_utf8 ?ch" using challenge_text [OF h(2) pending(1) auth(2,3)] by simp_all
  have reply: "bc_Type reply = ''challenge''" "bc_Verifier reply = KeyString K ?V" "control_ok reply"
    using ch valid_utf8_key [OF laws(1), of ?V] by (subst h(3), simp add: priv control_ok_def blank_control_def)+
  have text1: "line1 = control_Marshal reply @ [CHR 0x0A]" "length (control_Marshal reply) < browserControlMax"
    and text2: "line2 = control_Marshal ready_message @ [CHR 0x0A]"
    using lines(1,2) by (auto simp: writeMasqueBrowserControl_def Let_def go_consts split: if_splits)
  from browser_reads_control [OF reply(3) _ text1(2), of cs1 "map JsChunk cs2"] obtain cs' where
    r1: "readControl [] (wt_reads env) = (Inr reply, [], map JsChunk cs' @ map JsChunk cs2)" "concat cs' = []"
    using lines(3,4) text1(1) reply(1) by auto
  from browser_reads_control [OF ready_ok(1) _ ready_ok(2), of "cs' @ cs2" "[]"] obtain cs'' where
    r2: "readControl [] (map JsChunk cs' @ map JsChunk cs2) = (Inr ready_message, [], map JsChunk cs'')"
    using lines(5) text2 r1(2) by (auto simp: ready_message_def)
  let ?p = "proof_message P (wt_nonce env) local ?V ?ch"
  have key: "KeyString K ?V \<noteq> []" "UnmarshalText K (KeyString K ?V) = Some ?V"
    using key_lawsD(4,5) [OF laws(1), of ?V] by (simp_all add: nodePublicTextPrefix_def)
  have path: "newBrowserWebTransportPath K P env relayURL local =
      ([sendControl (hello_message K P local), sendControl ?p], True, Inr ())"
    using env ch reply key auth(4) r1 r2
    by (simp add: newBrowserWebTransportPath_def ready_message_def browserProtocolVersion_def masqueBrowserProtocolVersion_def)
  have m1: "readMasqueBrowserControl (sendControl (hello_message K P local)) = Inr (hello_message K P local, [])"
    unfolding sendControl_def by (rule relay_reads_line [OF hello_ok [OF laws(1)]])
  have m2: "readMasqueBrowserControl (sendControl ?p) = Inr (?p, [])"
    unfolding sendControl_def by (rule relay_reads_line [OF proof_ok [OF sealed]])
  have "\<exists>a3. browser_proof K P t2 k (Some ?p) (auth_run K P ops a1) = (a3, None)"
    unfolding h(1) by (rule browser_proof_accepted [OF laws(2) auth(1) h(2) [unfolded h(1)] pending(1) _ pending(2,3)])
      (use h(1,4) in simp)
  with path m1 m2 h(1) show ?thesis by blast
qed

text \<open>
  How opening a session ends. The browser writes at most a hello and, if a challenge was read, a proof sealed with its own key
  for the verifier named there; it reports success only after the relay's ready message of the right version; and
  a failure leaves no session open, except when the wait for the session to become ready fails: that exit does not close it.
\<close>
theorem browser_path_outcomes:
  "case newBrowserWebTransportPath K P env relayURL local of (sent, left_open, result) \<Rightarrow>
     (case result of
        Inr _ \<Rightarrow> left_open \<and> wt_ready env \<and>
          (\<exists>ch pending reads v. fst (readControl [] (wt_reads env)) = Inr ch \<and> snd (readControl [] (wt_reads env)) = (pending, reads) \<and>
             bc_Type ch = ''challenge'' \<and> UnmarshalText K (bc_Verifier ch) = Some v \<and> \<not> IsZero K v \<and>
             sent = [sendControl (hello_message K P local), sendControl (proof_message P (wt_nonce env) local v (bc_Challenge ch))] \<and>
             (\<exists>rdy. fst (readControl pending reads) = Inr rdy \<and> bc_Type rdy = ''ready'' \<and> bc_Version rdy = browserProtocolVersion))
      | Inl e \<Rightarrow> left_open = (e = WtReady \<and> wt_supported env) \<and> length sent \<le> 2 \<and>
          (sent = [] \<or> hd sent = sendControl (hello_message K P local)))"
  unfolding newBrowserWebTransportPath_def Let_def
  by (auto simp: browserWebTransportURL_def split: if_splits sum.splits option.splits prod.splits)

definition sample_reply :: masqueBrowserControl where
  "sample_reply = blank_control\<lparr>bc_Type := ''challenge'', bc_Challenge := b64_encode [1], bc_Verifier := KeyString raw_keys 2\<rparr>"

lemma sample_lines:
  "writeMasqueBrowserControl True sample_reply = Inr (control_Marshal sample_reply @ [CHR 0x0A])"
  "writeMasqueBrowserControl True ready_message = Inr (control_Marshal ready_message @ [CHR 0x0A])"
proof -
  let ?k = "KeyString raw_keys 2"
  have "length ?k = 72" by (simp add: raw_keys_def nodePublicTextPrefix_def)
  moreover have "length (json_body ?k) \<le> 6 * length ?k"
    by (rule json_body_ascii_length) (simp add: raw_keys_def nodePublicTextPrefix_def hex_ascii)
  moreover have "length (b64_encode [1]) \<le> 2" using length_b64_encode [of "[1]"] by simp
  ultimately have "length (control_Marshal sample_reply) < 1000"
    by (simp add: control_Marshal_def control_members_def control_member_def json_struct_def json_member_def sample_reply_def blank_control_def
        json_quote_def json_body_b64 json_escape_def del: b64_encode.simps)
  then show "writeMasqueBrowserControl True sample_reply = Inr (control_Marshal sample_reply @ [CHR 0x0A])"
    by (simp add: writeMasqueBrowserControl_def go_consts)
  show "writeMasqueBrowserControl True ready_message = Inr (control_Marshal ready_message @ [CHR 0x0A])"
    using ready_ok(2) by (simp add: writeMasqueBrowserControl_def go_consts)
qed

definition sample_calls :: wt_calls where
  "sample_calls = \<lparr>wt_supported = True, wt_ready = True, wt_stream = True, wt_write1 = True, wt_write2 = True,
     wt_reads = map JsChunk ([control_Marshal sample_reply @ [CHR 0x0A]] @ [control_Marshal ready_message @ [CHR 0x0A]]), wt_nonce = []\<rparr>"

theorem browser_login_completes_witness:
  "\<exists>m1 m2. newBrowserWebTransportPath raw_keys raw_privates sample_calls ''https://r'' 7 = ([m1, m2], True, Inr ())"
proof -
  let ?a = "newMasqueAuthenticator raw_privates 1 2 :: (raw_key, raw_key) masqueAuthenticator"
  let ?t = "b64_encode [1]"
  let ?c = "\<lparr>ch_src = 7, ch_target = 7, ch_mode = masqueModeRelay, ch_clientID = ''h'', ch_expires = seconds 30\<rparr> :: raw_key masqueChallenge"
  let ?a1 = "?a\<lparr>auth_pending := [(?t, ?c)]\<rparr>"
  have i: "issue 0 (Some [1]) 7 7 masqueModeRelay ''h'' ?a = (?a1, Inr ?t)"
    by (simp add: issue_def newMasqueAuthenticator_def Let_def go_consts masqueChallengeTTL_def)
  have pub: "Public raw_privates q = q" for q by (simp add: raw_privates_def)
  have priv: "auth_priv ?a = 2" by (simp add: newMasqueAuthenticator_def raw_privates_def)
  have z: "\<not> IsZero raw_keys 7" "\<not> IsZero raw_keys 2" by (simp_all add: raw_keys_def)
  have hello: "browser_hello raw_keys raw_privates 0 (Some [1]) ''h'' (Some (hello_message raw_keys raw_privates 7)) ?a = (?a1, sample_reply, Some 7)"
    using key_lawsD(5) [OF key_laws_raw_keys, of 7] z
    by (simp add: browser_hello_def hello_message_def blank_control_def browserProtocolVersion_def masqueBrowserProtocolVersion_def
        pub i priv sample_reply_def del: b64_encode.simps)
  have "(case browserWebTransportURL ''https://r'' of Inr _ \<Rightarrow> True | Inl _ \<Rightarrow> False)" by code_simp
  then obtain u where u: "browserWebTransportURL ''https://r'' = Inr u" by (auto split: sum.splits)
  have ch: "bc_Challenge sample_reply = ?t" by (simp add: sample_reply_def)
  have len: "length (string_bytes ?t) \<le> 2" using length_b64_encode [of "[1]"] by (simp add: string_bytes_def)
  have "\<exists>m1 m2 p a3. newBrowserWebTransportPath raw_keys raw_privates sample_calls ''https://r'' 7 = ([m1, m2], True, Inr ()) \<and>
    readMasqueBrowserControl m1 = Inr (hello_message raw_keys raw_privates 7, []) \<and> 7 = Public raw_privates 7 \<and>
    readMasqueBrowserControl m2 = Inr (p, []) \<and>
    browser_proof raw_keys raw_privates 5 7 (Some p) (auth_run raw_keys raw_privates [] ?a1) = (a3, None)"
    by (rule browser_login_completes [OF key_laws_raw_keys seal_laws_raw auth_inv_new _ _ _ hello _ _ _ _ _ _ _ _ u _ sample_lines,
          where c = ?c and ?cs1.0 = "[control_Marshal sample_reply @ [CHR 0x0A]]" and ?cs2.0 = "[control_Marshal ready_message @ [CHR 0x0A]]"])
       (use len z in \<open>simp_all add: newMasqueAuthenticator_def raw_privates_def pub ch sample_calls_def seconds_def del: b64_encode.simps\<close>)
  then show ?thesis by blast
qed

end
