(* ===== verification/Derp_Wire.thy ===== *)
theory Derp_Wire
  imports Token
begin

text \<open>
  Addresses of the original DERP transport, \<^verbatim>\<open>tc\<close> tokens: the wire types of \<^verbatim>\<open>wire.go\<close> and the encoding and
  decoding functions of \<^verbatim>\<open>tailcat.go\<close>. The CBOR codec is a library, the record \<open>cbor_api\<close>; a pointer that CBOR
  null leaves nil is \<open>None\<close>. Region numbers are Go integers.
\<close>

section \<open>Model\<close>

subsection \<open>Regions\<close>

record DERPNode =
  dn_Name :: string
  dn_RegionID :: int
  dn_HostName :: string
  dn_CertName :: string
  dn_IPv4 :: string
  dn_IPv6 :: string
  dn_STUNPort :: int
  dn_STUNOnly :: bool
  dn_DERPPort :: int
  dn_InsecureForTests :: bool
  dn_CanPort80 :: bool

record DERPRegion =
  dr_RegionID :: int
  dr_RegionCode :: string
  dr_RegionName :: string
  dr_Nodes :: "DERPNode list"

record wireNode =
  wn_Name :: string
  wn_RegionID :: int
  wn_HostName :: string
  wn_CertName :: string
  wn_IPv4 :: string
  wn_IPv6 :: string
  wn_STUNPort :: int
  wn_DERPPort :: int
  wn_InsecureForTests :: bool

record wireRegion =
  wr_RegionID :: int
  wr_RegionCode :: string
  wr_RegionName :: string
  wr_Nodes :: "wireNode option list"

record ('k, 'd) wireConnInfo =
  w_ServerPublic :: 'k
  w_ServerDiscoPublic :: "'d option"
  w_Region :: "wireRegion option list"
  w_RegionID :: int

record ('k, 'd) ConnInfo =
  t_ServerPublic :: 'k
  t_ServerDiscoPublic :: 'd
  t_Region :: "DERPRegion list"
  t_RegionID :: int

definition wire_node_of :: "DERPNode \<Rightarrow> wireNode" where
  "wire_node_of n =
     \<lparr>wn_Name = dn_Name n, wn_RegionID = dn_RegionID n, wn_HostName = dn_HostName n, wn_CertName = dn_CertName n,
      wn_IPv4 = dn_IPv4 n, wn_IPv6 = dn_IPv6 n, wn_STUNPort = dn_STUNPort n, wn_DERPPort = dn_DERPPort n,
      wn_InsecureForTests = dn_InsecureForTests n\<rparr>"

definition wireRegionOf :: "DERPRegion \<Rightarrow> wireRegion" where
  "wireRegionOf r =
     \<lparr>wr_RegionID = dr_RegionID r, wr_RegionCode = dr_RegionCode r, wr_RegionName = dr_RegionName r,
      wr_Nodes = map (\<lambda>n. Some (wire_node_of n)) (filter (\<lambda>n. \<not> dn_STUNOnly n) (dr_Nodes r))\<rparr>"

text \<open>The fields that the wire types do not have are zero in what is decoded.\<close>

definition derp_node_of :: "wireNode \<Rightarrow> DERPNode" where
  "derp_node_of n =
     \<lparr>dn_Name = wn_Name n, dn_RegionID = wn_RegionID n, dn_HostName = wn_HostName n, dn_CertName = wn_CertName n,
      dn_IPv4 = wn_IPv4 n, dn_IPv6 = wn_IPv6 n, dn_STUNPort = wn_STUNPort n, dn_STUNOnly = False,
      dn_DERPPort = wn_DERPPort n, dn_InsecureForTests = wn_InsecureForTests n, dn_CanPort80 = False\<rparr>"

text \<open>\<^verbatim>\<open>derpRegion\<close> dereferences every node; its caller has checked that none is nil.\<close>

definition derpRegion :: "wireRegion \<Rightarrow> DERPRegion" where
  "derpRegion w =
     \<lparr>dr_RegionID = wr_RegionID w, dr_RegionCode = wr_RegionCode w, dr_RegionName = wr_RegionName w,
      dr_Nodes = map (\<lambda>n. derp_node_of (the n)) (wr_Nodes w)\<rparr>"

subsection \<open>Tokens\<close>

record ('k, 'd) cbor_api =
  cbor_Marshal :: "('k, 'd) wireConnInfo \<Rightarrow> bytes option"
  cbor_Unmarshal :: "bytes \<Rightarrow> ('k, 'd) wireConnInfo option"

text \<open>The size reductions before encoding.\<close>

definition shrink_node :: "wireNode \<Rightarrow> wireNode" where
  "shrink_node n = (let n = n\<lparr>wn_RegionID := 0\<rparr> in if wn_HostName n \<noteq> [] then n\<lparr>wn_Name := []\<rparr> else n)"

definition shrink_region :: "wireRegion \<Rightarrow> wireRegion" where
  "shrink_region wr =
     wr\<lparr>wr_RegionID := 0, wr_RegionCode := [], wr_RegionName := [], wr_Nodes := map (map_option shrink_node) (wr_Nodes wr)\<rparr>"

definition conn_wire :: "('d \<Rightarrow> bool) \<Rightarrow> ('k, 'd) ConnInfo \<Rightarrow> ('k, 'd) wireConnInfo" where
  "conn_wire discoZero ci =
     \<lparr>w_ServerPublic = t_ServerPublic ci,
      w_ServerDiscoPublic = (if discoZero (t_ServerDiscoPublic ci) then None else Some (t_ServerDiscoPublic ci)),
      w_Region = map (\<lambda>r. Some (shrink_region (wireRegionOf r))) (t_Region ci),
      w_RegionID = t_RegionID ci\<rparr>"

text \<open>\<open>None\<close> is the panic of an encoder that fails.\<close>

definition tc_ConnBlob :: "('k, 'd) cbor_api \<Rightarrow> ('d \<Rightarrow> bool) \<Rightarrow> ('k, 'd) ConnInfo \<Rightarrow> string option" where
  "tc_ConnBlob C discoZero ci =
     (case cbor_Marshal C (conn_wire discoZero ci) of
        None \<Rightarrow> None
      | Some x \<Rightarrow> Some (''tc'' @ b64_encode x))"

datatype tc_error = NoTcPrefix | TcBase64 | TcCBOR | NullRegion nat | NullNode nat nat

definition parseWire :: "('k, 'd) cbor_api \<Rightarrow> string \<Rightarrow> tc_error + ('k, 'd) wireConnInfo" where
  "parseWire C cb =
     (case CutPrefix cb ''tc'' of
        (_, False) \<Rightarrow> Inl NoTcPrefix
      | (rest, True) \<Rightarrow>
          (case b64_decode rest of
             None \<Rightarrow> Inl TcBase64
           | Some x \<Rightarrow> (case cbor_Unmarshal C x of None \<Rightarrow> Inl TcCBOR | Some w \<Rightarrow> Inr w)))"

fun first_null :: "nat \<Rightarrow> 'a option list \<Rightarrow> nat option" where
  "first_null j [] = None"
| "first_null j (x # xs) = (if x = None then Some j else first_null (Suc j) xs)"

fun decode_regions :: "nat \<Rightarrow> wireRegion option list \<Rightarrow> tc_error + DERPRegion list" where
  "decode_regions i [] = Inr []"
| "decode_regions i (None # wrs) = Inl (NullRegion i)"
| "decode_regions i (Some wr # wrs) =
     (case first_null 0 (wr_Nodes wr) of
        Some j \<Rightarrow> Inl (NullNode i j)
      | None \<Rightarrow>
          (case decode_regions (Suc i) wrs of
             Inl e \<Rightarrow> Inl e
           | Inr rs \<Rightarrow> Inr (derpRegion wr # rs)))"

definition Sprint_int :: "int \<Rightarrow> string" where
  "Sprint_int n = (if n < 0 then CHR ''-'' # itoa (nat (- n)) else itoa (nat n))"

definition restore_node :: "int \<Rightarrow> DERPNode \<Rightarrow> DERPNode" where
  "restore_node rid n =
     (let n = (if dn_Name n = [] then n\<lparr>dn_Name := dn_HostName n\<rparr> else n) in
      if dn_RegionID n = 0 then n\<lparr>dn_RegionID := rid\<rparr> else n)"

definition restore_region :: "nat \<Rightarrow> DERPRegion \<Rightarrow> DERPRegion" where
  "restore_region ri r =
     (let r = (if dr_RegionID r = 0 then r\<lparr>dr_RegionID := int ri + 1\<rparr> else r);
          r = (if dr_RegionCode r = [] then r\<lparr>dr_RegionCode := Sprint_int (dr_RegionID r)\<rparr> else r)
      in r\<lparr>dr_Nodes := map (restore_node (dr_RegionID r)) (dr_Nodes r)\<rparr>)"

definition restore_regions :: "DERPRegion list \<Rightarrow> DERPRegion list" where
  "restore_regions rs = map (\<lambda>(i, r). restore_region i r) (enumerate 0 rs)"

text \<open>\<open>zeroDisco\<close> is the zero disco key.\<close>

definition ParseConnBlob :: "('k, 'd) cbor_api \<Rightarrow> 'd \<Rightarrow> string \<Rightarrow> tc_error + ('k, 'd) ConnInfo" where
  "ParseConnBlob C zeroDisco cb =
     (case parseWire C cb of
        Inl e \<Rightarrow> Inl e
      | Inr w \<Rightarrow>
          (case decode_regions 0 (w_Region w) of
             Inl e \<Rightarrow> Inl e
           | Inr rs \<Rightarrow>
               Inr \<lparr>t_ServerPublic = w_ServerPublic w,
                    t_ServerDiscoPublic = (case w_ServerDiscoPublic w of None \<Rightarrow> zeroDisco | Some d \<Rightarrow> d),
                    t_Region = restore_regions rs, t_RegionID = w_RegionID w\<rparr>))"

subsection \<open>What the codec promises\<close>

text \<open>Text fields are encoded as UTF-8 strings, and what was encoded is decoded to the same value.\<close>

definition node_utf8 :: "wireNode \<Rightarrow> bool" where
  "node_utf8 n \<longleftrightarrow> list_all valid_utf8 [wn_Name n, wn_HostName n, wn_CertName n, wn_IPv4 n, wn_IPv6 n]"

definition region_utf8 :: "wireRegion \<Rightarrow> bool" where
  "region_utf8 r \<longleftrightarrow> valid_utf8 (wr_RegionCode r) \<and> valid_utf8 (wr_RegionName r) \<and>
     list_all (\<lambda>n. case n of None \<Rightarrow> True | Some n \<Rightarrow> node_utf8 n) (wr_Nodes r)"

definition wire_utf8 :: "('k, 'd) wireConnInfo \<Rightarrow> bool" where
  "wire_utf8 w \<longleftrightarrow> list_all (\<lambda>r. case r of None \<Rightarrow> True | Some r \<Rightarrow> region_utf8 r) (w_Region w)"

definition cbor_laws :: "('k, 'd) cbor_api \<Rightarrow> bool" where
  "cbor_laws C \<longleftrightarrow> (\<forall>w x. wire_utf8 w \<and> cbor_Marshal C w = Some x \<longrightarrow> cbor_Unmarshal C x = Some w)"

section \<open>What survives the encoding\<close>

text \<open>
  The connection information a token stands for: regions and nodes are numbered by position, STUN-only nodes are
  dropped, and names, codes and the fields of no use to the client are rebuilt.
\<close>

definition canonical_node :: "int \<Rightarrow> DERPNode \<Rightarrow> DERPNode" where
  "canonical_node rid n = n\<lparr>dn_Name := (if dn_HostName n = [] then dn_Name n else dn_HostName n), dn_RegionID := rid,
     dn_STUNOnly := False, dn_CanPort80 := False\<rparr>"

definition canonical_region :: "nat \<Rightarrow> DERPRegion \<Rightarrow> DERPRegion" where
  "canonical_region i r =
     \<lparr>dr_RegionID = int i + 1, dr_RegionCode = itoa (i + 1), dr_RegionName = [],
      dr_Nodes = map (canonical_node (int i + 1)) (filter (\<lambda>n. \<not> dn_STUNOnly n) (dr_Nodes r))\<rparr>"

definition canonical :: "('k, 'd) ConnInfo \<Rightarrow> ('k, 'd) ConnInfo" where
  "canonical ci = ci\<lparr>t_Region := map (\<lambda>(i, r). canonical_region i r) (enumerate 0 (t_Region ci))\<rparr>"

lemma restore_shrunk_node:
  "rid \<noteq> 0 \<Longrightarrow> restore_node rid (derp_node_of (shrink_node (wire_node_of n))) = canonical_node rid n"
  by (cases n) (simp add: restore_node_def derp_node_of_def shrink_node_def wire_node_of_def canonical_node_def Let_def)

lemma restore_shrunk_region:
  "restore_region i (derpRegion (shrink_region (wireRegionOf r))) = canonical_region i r"
  by (simp add: restore_region_def derpRegion_def shrink_region_def wireRegionOf_def canonical_region_def Let_def
      restore_shrunk_node Sprint_int_def nat_add_distrib)

lemma first_null_Some [simp]: "first_null j (map (\<lambda>x. Some (f x)) xs) = None"
  by (induction xs arbitrary: j) auto

lemma decode_shrunk_regions:
  "decode_regions i (map (\<lambda>r. Some (shrink_region (wireRegionOf r))) rs) =
     Inr (map (\<lambda>r. derpRegion (shrink_region (wireRegionOf r))) rs)"
  by (induction rs arbitrary: i) (simp_all add: shrink_region_def wireRegionOf_def comp_def)

lemma canonical_wire_node: "shrink_node (wire_node_of (canonical_node rid n)) = shrink_node (wire_node_of n)"
  by (cases n) (simp add: shrink_node_def wire_node_of_def canonical_node_def Let_def)

lemma canonical_wire_region: "shrink_region (wireRegionOf (canonical_region i r)) = shrink_region (wireRegionOf r)"
  by (simp add: shrink_region_def wireRegionOf_def canonical_region_def filter_map comp_def canonical_node_def
      canonical_wire_node [unfolded canonical_node_def])

lemma map_snd_enumerate_fun: "map (\<lambda>x. f (snd x)) (enumerate n xs) = map f xs"
  by (induction xs arbitrary: n) auto

lemma enumerate_map_fun: "enumerate n (map f xs) = map (\<lambda>x. (fst x, f (snd x))) (enumerate n xs)"
  by (induction xs arbitrary: n) auto

lemma canonical_wire: "conn_wire discoZero (canonical ci) = conn_wire discoZero ci"
  using map_snd_enumerate_fun [of "\<lambda>r. Some (shrink_region (wireRegionOf r))" 0 "t_Region ci"]
  by (simp add: conn_wire_def canonical_def comp_def case_prod_unfold canonical_wire_region)

text \<open>No pointer that could be nil is followed.\<close>

lemma first_null_None: "first_null j xs = None \<longleftrightarrow> None \<notin> set xs"
  by (induction xs arbitrary: j) auto

lemma decode_regions_total:
  "(\<exists>rs. decode_regions i wrs = Inr rs) \<longleftrightarrow> (\<forall>wr\<in>set wrs. wr \<noteq> None \<and> None \<notin> set (wr_Nodes (the wr)))"
proof (induction i wrs rule: decode_regions.induct)
  case (3 i wr wrs)
  show ?case
  proof (cases "first_null 0 (wr_Nodes wr)")
    case None
    then show ?thesis using 3 first_null_None [of 0 "wr_Nodes wr"] by (auto split: sum.splits)
  next
    case (Some j)
    then have "None \<in> set (wr_Nodes wr)" using first_null_None [of 0 "wr_Nodes wr"] by auto
    then show ?thesis using Some by auto
  qed
qed auto

text \<open>
  C32: legacy addresses survive their text. The token of a connection information parses to its canonical form: the
  server's keys and region number exactly, and every relay region by position, without the STUN-only nodes. Encoding
  the parsed value again gives the same token, so reading and printing an address any number of times never changes it.
\<close>
theorem legacy_token_roundtrip:
  assumes "cbor_laws C" "tc_ConnBlob C discoZero ci = Some blob" "wire_utf8 (conn_wire discoZero ci)"
    "discoZero (t_ServerDiscoPublic ci) \<longrightarrow> t_ServerDiscoPublic ci = zeroDisco"
  shows "ParseConnBlob C zeroDisco blob = Inr (canonical ci) \<and> tc_ConnBlob C discoZero (canonical ci) = Some blob"
proof -
  from assms(2) obtain x where x: "cbor_Marshal C (conn_wire discoZero ci) = Some x" "blob = ''tc'' @ b64_encode x"
    by (auto simp: tc_ConnBlob_def split: option.splits)
  then have "cbor_Unmarshal C x = Some (conn_wire discoZero ci)" using assms(1,3) by (simp add: cbor_laws_def)
  then have pw: "parseWire C blob = Inr (conn_wire discoZero ci)"
    using CutPrefix_append [of "''tc''" "b64_encode x"] by (simp add: parseWire_def x(2))
  have rr: "restore_regions (map (\<lambda>r. derpRegion (shrink_region (wireRegionOf r))) (t_Region ci)) = t_Region (canonical ci)"
    by (simp add: restore_regions_def canonical_def enumerate_map_fun restore_shrunk_region comp_def case_prod_unfold)
  have "ParseConnBlob C zeroDisco blob = Inr (canonical ci)"
    using pw assms(4) rr decode_shrunk_regions [of 0 "t_Region ci"]
    by (cases ci) (auto simp: ParseConnBlob_def conn_wire_def canonical_def)
  moreover have "tc_ConnBlob C discoZero (canonical ci) = Some blob"
    using assms(2) by (simp add: tc_ConnBlob_def canonical_wire)
  ultimately show ?thesis by blast
qed


definition sample_conn :: "(raw_key, raw_key) ConnInfo" where
  "sample_conn = \<lparr>t_ServerPublic = 5, t_ServerDiscoPublic = 7,
     t_Region = [\<lparr>dr_RegionID = 9, dr_RegionCode = ''nyc'', dr_RegionName = ''New York'',
       dr_Nodes = [\<lparr>dn_Name = ''9a'', dn_RegionID = 9, dn_HostName = ''derp.example'', dn_CertName = [], dn_IPv4 = [], dn_IPv6 = [],
           dn_STUNPort = 0, dn_STUNOnly = False, dn_DERPPort = 443, dn_InsecureForTests = False, dn_CanPort80 = True\<rparr>,
         \<lparr>dn_Name = ''9s'', dn_RegionID = 9, dn_HostName = ''stun.example'', dn_CertName = [], dn_IPv4 = [], dn_IPv6 = [],
           dn_STUNPort = 0, dn_STUNOnly = True, dn_DERPPort = 0, dn_InsecureForTests = False, dn_CanPort80 = False\<rparr>]\<rparr>],
     t_RegionID = 0\<rparr>"

text \<open>A codec that knows one value.\<close>

definition one_value_cbor :: "('k, 'd) wireConnInfo \<Rightarrow> ('k, 'd) cbor_api" where
  "one_value_cbor v = \<lparr>cbor_Marshal = (\<lambda>w. if w = v then Some [1, 2, 3] else None),
     cbor_Unmarshal = (\<lambda>x. if x = [1, 2, 3] then Some v else None)\<rparr>"

lemma cbor_laws_one_value: "cbor_laws (one_value_cbor v)"
  by (simp add: cbor_laws_def one_value_cbor_def)

theorem legacy_token_roundtrip_witness:
  "ParseConnBlob (one_value_cbor (conn_wire (\<lambda>d. d = 0) sample_conn)) 0 (''tc'' @ b64_encode [1, 2, 3]) =
     Inr (canonical sample_conn) \<and>
   map dn_Name (dr_Nodes (hd (t_Region (canonical sample_conn)))) = [''derp.example'']"
proof -
  have blob: "tc_ConnBlob (one_value_cbor (conn_wire (\<lambda>d. d = 0) sample_conn)) (\<lambda>d. d = 0) sample_conn =
      Some (''tc'' @ b64_encode [1, 2, 3])"
    by (simp add: tc_ConnBlob_def one_value_cbor_def)
  have utf8: "wire_utf8 (conn_wire (\<lambda>d. d = 0) sample_conn)"
    by (simp add: wire_utf8_def conn_wire_def sample_conn_def shrink_region_def wireRegionOf_def region_utf8_def node_utf8_def
        shrink_node_def wire_node_of_def valid_utf8_ascii)
  have "map dn_Name (dr_Nodes (hd (t_Region (canonical sample_conn)))) = [''derp.example'']"
    by (simp add: canonical_def sample_conn_def canonical_region_def canonical_node_def)
  with legacy_token_roundtrip [OF cbor_laws_one_value blob utf8, of 0] show ?thesis by simp
qed

end
