(* ===== verification/Go_Addr.thy ===== *)
theory Go_Addr
  imports Go_Net
begin

text \<open>
  The text of network addresses, \<^verbatim>\<open>netip.Addr.String\<close>, with the classes of addresses of
  \<^verbatim>\<open>net/netip\<close> (loopback, multicast, link-local, private, global unicast) and prefixes of any bit length.
  Printing an address and parsing the text gives the address back.
\<close>

section \<open>Text\<close>

definition String4 :: "bytes \<Rightarrow> string" where
  "String4 b = concat (map (\<lambda>i. (if i = 0 then [] else ''.'') @ itoa (unat (b ! i))) [0..<4])"

text \<open>\<^verbatim>\<open>Addr.String\<close> of an address with no zone that is not IPv4-mapped.\<close>

definition addr_String :: "addr \<Rightarrow> string" where
  "addr_String a = (if Is4 a then String4 (fst a) else if Is6 a then String6 (fst a) else ''invalid IP'')"

section \<open>Classes of addresses\<close>

definition addr_IsValid :: "addr \<Rightarrow> bool" where
  "addr_IsValid a \<longleftrightarrow> Is4 a \<or> Is6 a"

definition unmapped :: "addr \<Rightarrow> addr" where
  "unmapped a = (if Is4In6 a then Unmap a else a)"

definition IsLoopback :: "addr \<Rightarrow> bool" where
  "IsLoopback a \<longleftrightarrow> (let a = unmapped a in
     (Is4 a \<and> fst a ! 0 = 127) \<or> (Is6 a \<and> fst a = replicate 15 0 @ [1]))"

definition IsMulticast :: "addr \<Rightarrow> bool" where
  "IsMulticast a \<longleftrightarrow> (let a = unmapped a in
     (Is4 a \<and> unat (fst a ! 0) div 16 = 0xE) \<or> (Is6 a \<and> fst a ! 0 = 0xFF))"

definition IsLinkLocalUnicast :: "addr \<Rightarrow> bool" where
  "IsLinkLocalUnicast a \<longleftrightarrow> (let a = unmapped a in
     (Is4 a \<and> fst a ! 0 = 169 \<and> fst a ! 1 = 254) \<or>
     (Is6 a \<and> fst a ! 0 = 0xFE \<and> unat (fst a ! 1) div 64 = 2))"

definition IsPrivate :: "addr \<Rightarrow> bool" where
  "IsPrivate a \<longleftrightarrow> (let a = unmapped a in
     (Is4 a \<and> (fst a ! 0 = 10 \<or> (fst a ! 0 = 172 \<and> unat (fst a ! 1) div 16 = 1) \<or>
        (fst a ! 0 = 192 \<and> fst a ! 1 = 168))) \<or>
     (Is6 a \<and> unat (fst a ! 0) div 2 = 0x7E))"

definition IsGlobalUnicast :: "addr \<Rightarrow> bool" where
  "IsGlobalUnicast a \<longleftrightarrow> (let a = unmapped a in
     addr_IsValid a \<and> a \<noteq> ([0, 0, 0, 0], []) \<and> a \<noteq> ([255, 255, 255, 255], []) \<and>
     a \<noteq> (replicate 16 0, []) \<and> \<not> IsLoopback a \<and> \<not> IsMulticast a \<and> \<not> IsLinkLocalUnicast a)"

text \<open>\<^verbatim>\<open>Prefix.Contains\<close>: the same family, no zone, and the same first \<open>n\<close> bits.\<close>

definition Prefix_Contains_bits :: "bytes \<times> nat \<Rightarrow> addr \<Rightarrow> bool" where
  "Prefix_Contains_bits p a \<longleftrightarrow>
     (case p of (b, n) \<Rightarrow>
        snd a = [] \<and> addr_IsValid a \<and> length (fst a) = length b \<and>
        be_get (fst a) div 2 ^ (8 * length b - n) = be_get b div 2 ^ (8 * length b - n))"

section \<open>Dotted addresses\<close>

lemma itoa_byte:
  assumes "n < 256"
  shows "length (itoa n) \<le> 3 \<and> (length (itoa n) = 1 \<or> hd (itoa n) \<noteq> CHR ''0'')"
proof -
  have d: "char_of (48 + k) \<noteq> CHR ''0''" if "0 < k" "k < 10" for k :: nat
  proof
    assume "char_of (48 + k) = CHR ''0''"
    then have "of_char (char_of (48 + k)) = (48 :: nat)" by simp
    with that show False by simp
  qed
  consider "n < 10" | "10 \<le> n" "n < 100" | "100 \<le> n" "n div 10 div 10 < 10" using assms by linarith
  then show ?thesis
  proof cases
    case 1
    then show ?thesis by (subst (1 2 3) itoa.simps) simp
  next
    case 2
    then have "n div 10 < 10" "0 < n div 10" by auto
    with 2 d [of "n div 10"] show ?thesis
      by (subst (1 2 3) itoa.simps, subst (1 2 3) itoa.simps) simp
  next
    case 3
    then have "\<not> n div 10 < 10" "0 < n div 10 div 10" "\<not> n < 10" by auto
    with 3 d [of "n div 10 div 10"] show ?thesis
      by (subst (1 2 3) itoa.simps, subst (1 2 3) itoa.simps, subst (1 2 3) itoa.simps) simp
  qed
qed

lemma ipv4_field_itoa: "ipv4_field (itoa (unat b)) = Some b"
  using itoa_byte [OF unat_byte_less, of b] itoa_digits [of "unat b"] unat_byte_less [of b]
  by (auto simp: ipv4_field_def digits_value_itoa)

lemma itoa_no_dot: "CHR ''.'' \<notin> set (itoa n)" "CHR '':'' \<notin> set (itoa n)" "CHR ''%'' \<notin> set (itoa n)"
  using itoa_digits [of n] by (auto simp: list_all_iff is_digit_def)

lemma parseIPv4_String4:
  assumes "length b = 4"
  shows "parseIPv4 (String4 b) = Some b"
proof -
  obtain p q r s where b: "b = [p, q, r, s]" using assms
    by (auto simp: length_Suc_conv eval_nat_numeral)
  have "String4 b = itoa (unat p) @ CHR ''.'' # itoa (unat q) @ CHR ''.'' # itoa (unat r) @ CHR ''.'' # itoa (unat s)"
    by (simp add: String4_def b upt_rec)
  then have "split_on CHR ''.'' (String4 b) = map (\<lambda>x. itoa (unat x)) b"
    by (simp add: split_on_append split_on_absent itoa_no_dot b)
  then show ?thesis by (simp add: parseIPv4_def Let_def b ipv4_field_itoa)
qed

section \<open>Colon-separated addresses\<close>

declare parse6_fields.simps [simp del]

lemma hex_run_text:
  assumes "v < 16 ^ n"
  shows "hex_run (hex_text n v @ s) acc off =
    hex_run s (16 ^ length (hex_text n v) * acc + v) (off + length (hex_text n v))"
  using assms
proof (induction n arbitrary: v s)
  case (Suc n)
  show ?case
  proof (cases "v < 16")
    case True
    then show ?thesis by (simp add: hex_value_digit)
  next
    case False
    have "v div 16 < 16 ^ n" using Suc.prems by (simp add: less_mult_imp_div_less mult.commute)
    then have "hex_run (hex_text (Suc n) v @ s) acc off =
        hex_run s (16 * (16 ^ length (hex_text n (v div 16)) * acc + v div 16) + v mod 16)
          (Suc (off + length (hex_text n (v div 16))))"
      using False by (simp add: Suc.IH hex_value_digit)
    then show ?thesis using False by (simp add: algebra_simps)
  qed
qed simp

lemma hex_text_length: "0 < v \<or> 0 < n \<Longrightarrow> v < 16 ^ n \<Longrightarrow> 0 < length (hex_text n v) \<and> length (hex_text n v) \<le> n"
proof (induction n arbitrary: v)
  case (Suc n)
  have "v div 16 < 16 ^ n" using Suc.prems by (simp add: less_mult_imp_div_less mult.commute)
  moreover have "0 < v div 16" if "\<not> v < 16" using that by simp
  ultimately show ?case using Suc.IH [of "v div 16"] by auto
qed simp

lemma field_text:
  assumes "w < 65536"
  shows "\<exists>c t. hex_text 4 w = c # t \<and> hex_value c \<noteq> None" "length (hex_text 4 w) \<le> 4" "hex_text 4 w \<noteq> []"
    "s = [] \<or> hex_value (hd s) = None \<Longrightarrow> hex_run (hex_text 4 w @ s) 0 0 = (w, length (hex_text 4 w), s)"
proof -
  have w: "w < 16 ^ 4" using assms by simp
  then show l: "length (hex_text 4 w) \<le> 4" "hex_text 4 w \<noteq> []" using hex_text_length [of w 4] by auto
  then show "\<exists>c t. hex_text 4 w = c # t \<and> hex_value c \<noteq> None"
    by (metis hex_text_chars list.set_intros(1) neq_Nil_conv)
  show "hex_run (hex_text 4 w @ s) 0 0 = (w, length (hex_text 4 w), s)" if "s = [] \<or> hex_value (hd s) = None"
    using that hex_run_text [OF w, of "[]"] by (cases s) (simp_all add: hex_run_text [OF w])
qed

lemma colon_not_hex: "hex_value CHR '':'' = None" by (simp add: hex_value_def)

lemma join_words_Cons: "ws \<noteq> [] \<Longrightarrow> join_words (w # ws) = w @ CHR '':'' # join_words ws"
  by (cases ws) auto

lemma join_words_hd:
  assumes "ws \<noteq> []" "\<forall>w\<in>set ws. w < 65536"
  obtains c t where "join_words (map (hex_text 4) ws) = c # t" "c \<noteq> CHR '':''"
proof -
  obtain w ws' where ws: "ws = w # ws'" using assms(1) by (cases ws) auto
  then obtain c t where c: "hex_text 4 w = c # t" "hex_value c \<noteq> None" using assms(2) field_text(1) [of w] by auto
  then have "c \<noteq> CHR '':''" using colon_not_hex by auto
  with c that show thesis by (cases ws') (auto simp: ws)
qed

lemma parse6_words:
  assumes "ws \<noteq> []" "\<forall>w\<in>set ws. w < 65536" "length ip + 2 * length ws \<le> 16"
  shows "parse6_fields ip e (join_words (map (hex_text 4) ws)) = expand6 (ip @ concat (map (be_put 2) ws)) e []"
  using assms
proof (induction ws arbitrary: ip)
  case (Cons w ws)
  have w: "w < 65536" using Cons.prems by simp
  show ?case
  proof (cases "ws = []")
    case True
    then show ?thesis using Cons.prems(3) field_text(2,3) [OF w] field_text(4) [OF w, of "[]"]
      by (subst parse6_fields.simps) (simp add: Let_def)
  next
    case False
    obtain c t where ct: "join_words (map (hex_text 4) ws) = c # t" "c \<noteq> CHR '':''"
      using join_words_hd False Cons.prems(2) by (metis list.set_intros(2))
    have "parse6_fields ip e (hex_text 4 w @ CHR '':'' # c # t) = parse6_fields (ip @ be_put 2 w) e (c # t)"
      using Cons.prems(3) field_text(2,3) [OF w] field_text(4) [OF w, of "CHR '':'' # c # t"] ct(2)
      by (subst parse6_fields.simps) (simp add: Let_def colon_not_hex)
    moreover have "parse6_fields (ip @ be_put 2 w) e (c # t) =
        expand6 ((ip @ be_put 2 w) @ concat (map (be_put 2) ws)) e []"
      unfolding ct(1) [symmetric] using Cons.prems False by (intro Cons.IH) auto
    ultimately show ?thesis using False ct(1) by (simp add: join_words_Cons)
  qed
qed simp

lemma parse6_ellipsis:
  assumes "ws \<noteq> []" "\<forall>w\<in>set ws. w < 65536" "length ip + 2 * length ws < 16"
  shows "parse6_fields ip None (join_words (map (hex_text 4) ws) @ ''::'' @ r) =
    (let b = ip @ concat (map (be_put 2) ws) in
     if r = [] then expand6 b (Some (length b)) [] else parse6_fields b (Some (length b)) r)"
  using assms
proof (induction ws arbitrary: ip)
  case (Cons w ws)
  have w: "w < 65536" using Cons.prems by simp
  show ?case
  proof (cases "ws = []")
    case True
    then show ?thesis using Cons.prems(3) field_text(2,3) [OF w] field_text(4) [OF w, of "''::'' @ r"]
      by (subst parse6_fields.simps) (simp add: Let_def colon_not_hex)
  next
    case False
    obtain c t where ct: "join_words (map (hex_text 4) ws) = c # t" "c \<noteq> CHR '':''"
      using join_words_hd False Cons.prems(2) by (metis list.set_intros(2))
    have "parse6_fields ip None (hex_text 4 w @ CHR '':'' # c # t @ ''::'' @ r) =
        parse6_fields (ip @ be_put 2 w) None (c # t @ ''::'' @ r)"
      using Cons.prems(3) field_text(2,3) [OF w] field_text(4) [OF w, of "CHR '':'' # c # t @ ''::'' @ r"] ct(2)
      by (subst parse6_fields.simps) (simp add: Let_def colon_not_hex)
    moreover have "length (ip @ be_put 2 w) + 2 * length ws < 16" "\<forall>w\<in>set ws. w < 65536" using Cons.prems by auto
    note Cons.IH [OF False this(2,1)]
    ultimately show ?thesis using False ct(1) by (simp add: join_words_Cons)
  qed
qed simp

lemma words6_bound: "w \<in> set (words6 b) \<Longrightarrow> w < 65536"
  using be_get_bound [of "[_, _]"] by (induction b rule: words6.induct) auto

lemma words6_inverse: "even (length b) \<Longrightarrow> concat (map (be_put 2) (words6 b)) = b"
proof (induction b rule: words6.induct)
  case (1 a b r)
  have hi: "(unat a * 256 + unat b) div 256 = unat a" using unat_byte_less [of b] by simp
  have lo: "(word_of_nat (unat a * 256 + unat b) :: byte) = b" using unat_byte_less [of b] by (intro byte_eqI) simp
  have "be_get [a, b] = unat a * 256 + unat b" by (simp add: be_get_def)
  then have "be_put 2 (be_get [a, b]) = [a, b]"
    by (simp only: numeral_2_eq_2 be_put.simps hi lo word_of_nat_byte append.simps)
  with 1 show ?case by simp
qed auto

lemma length_words6: "length (words6 b) = length b div 2"
  by (induction b rule: words6.induct) auto

lemma zero_run_take: "l \<le> zero_run ws \<Longrightarrow> take l ws = replicate l 0 \<and> l \<le> length ws"
proof (induction ws arbitrary: l)
  case (Cons w ws)
  then show ?case by (cases l) (auto split: if_splits)
qed simp

lemma longest_run_spec:
  "longest_run i ws best = Some (j, l) \<Longrightarrow>
     best = Some (j, l) \<or> (\<exists>k. j = i + k \<and> 2 \<le> l \<and> k + l \<le> length ws \<and> take l (drop k ws) = replicate l 0)"
proof (induction ws arbitrary: i best)
  case (Cons w ws)
  define best' where "best' = (if zero_run (w # ws) \<ge> 2 \<and>
      (case best of None \<Rightarrow> True | Some (_, m) \<Rightarrow> zero_run (w # ws) > m) then Some (i, zero_run (w # ws)) else best)"
  have "longest_run (Suc i) ws best' = Some (j, l)" using Cons.prems unfolding longest_run.simps Let_def best'_def .
  then consider "best' = Some (j, l)"
    | k where "j = Suc i + k" "2 \<le> l" "k + l \<le> length ws" "take l (drop k ws) = replicate l 0"
    using Cons.IH by blast
  then show ?case
  proof cases
    case 1
    show ?thesis
    proof (cases "best = Some (j, l)")
      case False
      with 1 have "j = i" "l = zero_run (w # ws)" "2 \<le> l" by (auto simp: best'_def split: if_splits)
      then show ?thesis using zero_run_take [of l "w # ws"] by (intro disjI2 exI [of _ 0]) auto
    qed simp
  next
    case 2
    then show ?thesis by (intro disjI2 exI [of _ "Suc k"]) auto
  qed
qed simp

lemma parseIPv6_no_zone:
  assumes "CHR ''%'' \<notin> set s"
  shows "parseIPv6 s = map_option (\<lambda>b. (b, []))
    (if HasPrefix s ''::'' then (if length s = 2 then Some (replicate 16 0)
      else parse6_fields [] (Some 0) (drop 2 s)) else parse6_fields [] None s)"
proof -
  have "IndexByte s CHR ''%'' = None" using assms by simp
  then show ?thesis unfolding parseIPv6_def by (simp only: option.case)
qed

lemma parse6_String6:
  assumes "length b = 16"
  shows "parseIPv6 (String6 b) = Some (b, [])"
proof -
  define ws where "ws = words6 b"
  have len: "length ws = 8" and bound: "\<forall>w\<in>set ws. w < 65536" and inv: "concat (map (be_put 2) ws) = b"
    using assms words6_bound words6_inverse by (auto simp: ws_def length_words6)
  have ne: "ws \<noteq> []" using len by auto
  have no: "CHR ''%'' \<notin> set (String6 b)" using String6_chars [of "CHR ''%''" b] by (auto simp: hex_value_def)
  have blen: "length (concat (map (be_put 2) vs)) = 2 * length vs" for vs by (induction vs) auto
  have zeros: "concat (map (be_put 2) (replicate l 0)) = replicate (2 * l) 0" for l
    by (induction l) (auto simp: numeral_2_eq_2)
  show ?thesis
  proof (cases "longest_run 0 ws None")
    case None
    obtain c t where ct: "join_words (map (hex_text 4) ws) = c # t" "c \<noteq> CHR '':''"
      using join_words_hd [OF ne bound] .
    have "parse6_fields [] None (join_words (map (hex_text 4) ws)) = Some b"
      using parse6_words [OF ne bound, of "[]" None] len inv assms by (simp add: expand6_def)
    then show ?thesis using None ct parseIPv6_no_zone [OF no] by (simp add: String6_def ws_def [symmetric] HasPrefix_def)
  next
    case (Some p)
    obtain i l where p: "p = (i, l)" by fastforce
    have il: "2 \<le> l" "i + l \<le> 8" and z: "take l (drop i ws) = replicate l 0"
      using longest_run_spec [OF Some [unfolded p]] len by auto
    define xs where "xs = take i ws"
    define ys where "ys = drop (i + l) ws"
    have ws: "ws = xs @ replicate l 0 @ ys"
      unfolding xs_def ys_def z [symmetric] by (metis append_take_drop_id add.commute drop_drop)
    have lens: "length xs = i" "length ys = 8 - (i + l)" using il len by (auto simp: xs_def ys_def)
    have bnd: "\<forall>w\<in>set xs. w < 65536" "\<forall>w\<in>set ys. w < 65536" using bound ws by auto
    let ?X = "concat (map (be_put 2) xs)" and ?Y = "concat (map (be_put 2) ys)"
    have b: "b = ?X @ replicate (2 * l) 0 @ ?Y" using inv ws zeros by simp
    have str: "String6 b = join_words (map (hex_text 4) xs) @ ''::'' @ join_words (map (hex_text 4) ys)"
      using Some p by (simp add: String6_def ws_def [symmetric] take_map drop_map xs_def ys_def)
    have tail: "(if ys = [] then expand6 ?X (Some (2 * i)) []
        else parse6_fields ?X (Some (2 * i)) (join_words (map (hex_text 4) ys))) = Some b"
    proof -
      have "expand6 (?X @ ?Y) (Some (2 * i)) [] = Some b"
      proof -
        have "2 * i + 2 * (8 - (i + l)) < 16" "16 - (2 * i + 2 * (8 - (i + l))) = 2 * l" using il by auto
        then show ?thesis using lens b by (simp add: expand6_def blen)
      qed
      then show ?thesis using parse6_words [of ys ?X "Some (2 * i)"] bnd lens il by (auto simp: blen)
    qed
    have jn: "join_words (map (hex_text 4) ys) = [] \<longleftrightarrow> ys = []"
      using join_words_hd [of ys] bnd by (metis join_words.simps(1) list.distinct(1) list.map_disc_iff)
    show ?thesis
    proof (cases "xs = []")
      case True
      then have "i = 0" using lens by simp
      then show ?thesis
        using tail True jn b assms unfolding parseIPv6_no_zone [OF no] unfolding str
        by (auto simp: HasPrefix_def expand6_def split: if_splits)
    next
      case False
      obtain c t where ct: "join_words (map (hex_text 4) xs) = c # t" "c \<noteq> CHR '':''"
        using join_words_hd [OF False bnd(1)] .
      have "parse6_fields [] None (String6 b) = Some b"
        using parse6_ellipsis [OF False bnd(1), of "[]" "join_words (map (hex_text 4) ys)"] tail jn lens il
        unfolding str by (auto simp: Let_def blen)
      then show ?thesis using ct unfolding parseIPv6_no_zone [OF no] unfolding str by (simp add: HasPrefix_def)
    qed
  qed
qed

lemma String6_colon:
  assumes "length b = 16"
  shows "CHR '':'' \<in> set (String6 b)"
proof -
  obtain w v ws where "words6 b = w # v # ws" using length_words6 [of b] assms
    by (cases "words6 b"; cases "tl (words6 b)") auto
  then show ?thesis by (auto simp: String6_def Let_def split: option.splits)
qed

lemma ParseAddr_String6:
  assumes "length b = 16"
  shows "ParseAddr (String6 b) = Some (b, [])"
proof -
  have chars: "c = CHR '':''" if "c \<in> set (String6 b)" "c \<in> {CHR ''.'', CHR '':'', CHR ''%''}" for c
    using String6_chars [OF that(1)] that(2) by (auto simp: hex_value_def)
  let ?f = "filter (\<lambda>c. c \<in> {CHR ''.'', CHR '':'', CHR ''%''}) (String6 b)"
  have "\<exists>r. ?f = CHR '':'' # r"
  proof (cases ?f)
    case Nil
    then have "CHR '':'' \<notin> set (String6 b)" by (auto simp: filter_empty_conv)
    then show ?thesis using String6_colon [OF assms] by simp
  next
    case (Cons c r)
    then have "c \<in> set ?f" by (metis list.set_intros(1))
    then show ?thesis using chars [of c] Cons by simp
  qed
  then show ?thesis using parse6_String6 [OF assms] by (auto simp: ParseAddr_def)
qed

lemma ParseAddr_String4:
  assumes "length b = 4"
  shows "ParseAddr (String4 b) = Some (b, [])"
proof -
  have "\<exists>r. filter (\<lambda>c. c \<in> {CHR ''.'', CHR '':'', CHR ''%''}) (String4 b) = CHR ''.'' # r"
  proof -
    have "filter (\<lambda>c. c \<in> {CHR ''.'', CHR '':'', CHR ''%''}) (itoa n) = []" for n
      using itoa_no_dot [of n] by (auto simp: filter_empty_conv)
    then show ?thesis by (simp add: String4_def upt_rec)
  qed
  then show ?thesis using parseIPv4_String4 [OF assms] by (auto simp: ParseAddr_def)
qed

text \<open>The text of an address parses to that address.\<close>

theorem addr_text_roundtrip:
  "addr_IsValid a \<Longrightarrow> snd a = [] \<Longrightarrow> ParseAddr (addr_String a) = Some a"
  using ParseAddr_String4 [of "fst a"] ParseAddr_String6 [of "fst a"]
  by (cases a) (auto simp: addr_IsValid_def addr_String_def Is4_def Is6_def)

end
