(* ===== verification/Auto_Direct.thy ===== *)
theory Auto_Direct
  imports Go_Addr Endpoint
begin

text \<open>
  The automatic direct-only endpoint of \<^verbatim>\<open>cmd/tailcat/masquecat_autodirect.go\<close> and
  \<^verbatim>\<open>masquecat_autodirect_pin.go\<close>: when a server is started with no endpoint at all, the command picks a local
  address, keeps a self-signed certificate in the user's configuration directory, and advertises the address as a
  direct endpoint pinned to that certificate.

  Arguments are \<^verbatim>\<open>os.Args[1:]\<close>; the environment and the file system are Go maps. Certificates are made and read
  by \<^verbatim>\<open>crypto/x509\<close>, \<^verbatim>\<open>crypto/tls\<close> and \<^verbatim>\<open>encoding/pem\<close>, the fields of \<open>x509_api\<close>, with \<open>x509_laws\<close> what the
  command relies on: a certificate that was just created loads with its key. The operating system's answers (the
  interfaces, the configuration directory, the outcome of each system call) are \<open>os_answers\<close>.
\<close>

section \<open>Model\<close>

subsection \<open>When the automatic endpoint is set up\<close>

type_synonym environment = "(string, string) gomap"

definition Getenv :: "environment \<Rightarrow> string \<Rightarrow> string" where
  "Getenv env name = (case map_of env name of None \<Rightarrow> [] | Some v \<Rightarrow> v)"

definition Setenv :: "string \<Rightarrow> string \<Rightarrow> environment \<Rightarrow> environment" where
  "Setenv name v env = AList.update name v env"

definition autoMasqueDirectPort :: string where "autoMasqueDirectPort = ''4433''"
definition autoMasqueDirectMarkerEnv :: string where "autoMasqueDirectMarkerEnv = ''MASQUECAT_AUTO_DIRECT''"

definition hasExplicitMasqueEnvironment :: "environment \<Rightarrow> bool" where
  "hasExplicitMasqueEnvironment env =
     list_ex (\<lambda>name. Getenv env name \<noteq> [])
       [''MASQUECAT_RELAY_URL'', ''MASQUECAT_DIRECT_URL'', ''MASQUECAT_DIRECT_LISTEN'', ''MASQUECAT_TLS_CERT'', ''MASQUECAT_TLS_KEY'']"

definition isHelpInvocation :: "string list \<Rightarrow> bool" where
  "isHelpInvocation args \<longleftrightarrow>
     list_ex (\<lambda>arg. arg = ''help'' \<or> arg = ''-h'' \<or> arg = ''--help'') args \<or> (args \<noteq> [] \<and> last args = ''--serve'')"

definition hasExplicitMasqueEndpoint :: "string list \<Rightarrow> bool" where
  "hasExplicitMasqueEndpoint args =
     list_ex (\<lambda>arg. arg = ''--relay-url'' \<or> arg = ''--direct-url'' \<or>
       HasPrefix arg ''--relay-url='' \<or> HasPrefix arg ''--direct-url='') args"

fun auto_scan :: "string list \<Rightarrow> bool" where
  "auto_scan [] = True"
| "auto_scan (arg # rest) =
     (if arg = ''serve'' \<or> arg = ''recv'' \<or> HasPrefix arg ''--serve='' then True
      else if arg = ''--serve'' then rest \<noteq> []
      else if \<not> HasPrefix arg ''--'' then False
      else if CHR ''='' \<in> set arg then auto_scan rest
      else if arg \<in> set [''--key'', ''--derpmap-url'', ''--direct-listen'', ''--tls-cert'', ''--tls-key'']
        then (case rest of [] \<Rightarrow> False | _ # rest' \<Rightarrow> auto_scan rest')
      else if arg \<in> set [''--verbose'', ''--json'', ''--legacy-derp'', ''--insecure-skip-verify'']
        then auto_scan rest
      else False)"

definition shouldConfigureAutoMasqueDirect :: "string list \<Rightarrow> environment \<Rightarrow> bool" where
  "shouldConfigureAutoMasqueDirect args env =
     (if hasExplicitMasqueEndpoint args \<or> hasExplicitMasqueEnvironment env \<or> isHelpInvocation args then False
      else if args = [] then True
      else auto_scan args)"

subsection \<open>The address that is advertised\<close>

definition nonPublicMasqueDirectPrefixes :: "(bytes \<times> nat) list" where
  "nonPublicMasqueDirectPrefixes =
     [([100, 64, 0, 0], 10), ([192, 0, 0, 0], 24), ([192, 0, 2, 0], 24), ([198, 18, 0, 0], 15),
      ([198, 51, 100, 0], 24), ([203, 0, 113, 0], 24), ([240, 0, 0, 0], 4),
      ([0x20, 0x01, 0x0d, 0xb8] @ replicate 12 0, 32)]"

definition isPublicMasqueDirectAddr :: "addr \<Rightarrow> bool" where
  "isPublicMasqueDirectAddr a =
     (let a = Unmap a in
      if \<not> addr_IsValid a \<or> \<not> IsGlobalUnicast a \<or> IsLoopback a \<or> IsLinkLocalUnicast a \<or> IsPrivate a then False
      else \<not> list_ex (\<lambda>pfx. Prefix_Contains_bits pfx a) nonPublicMasqueDirectPrefixes)"

text \<open>An address of an interface is a \<^verbatim>\<open>net.IPNet\<close>, a \<^verbatim>\<open>net.IPAddr\<close>, or something else.\<close>

datatype net_addr = IPNet bytes | IPAddr bytes string | OtherNetAddr

record net_interface =
  if_FlagUp :: bool
  if_FlagLoopback :: bool
  if_Addrs :: "net_addr list option"

text \<open>The address one iteration of the inner loop looks at, if it does not \<^verbatim>\<open>continue\<close>.\<close>

definition candidate_addr :: "net_addr \<Rightarrow> addr option" where
  "candidate_addr a =
     (case (case a of IPNet ip \<Rightarrow> Some ip | IPAddr ip _ \<Rightarrow> Some ip | OtherNetAddr \<Rightarrow> None) of
        None \<Rightarrow> None
      | Some ip \<Rightarrow>
          (case AddrFromSlice ip of
             None \<Rightarrow> None
           | Some addr \<Rightarrow>
               let addr = Unmap addr in
               if \<not> IsGlobalUnicast addr \<or> IsLoopback addr \<or> IsLinkLocalUnicast addr then None else Some addr))"

text \<open>The two loops: \<open>Inl\<close> is the address returned at once, \<open>Inr\<close> the first private one seen so far.\<close>

fun scan_addrs :: "net_addr list \<Rightarrow> addr option \<Rightarrow> addr + addr option" where
  "scan_addrs [] private_addr = Inr private_addr"
| "scan_addrs (a # as) private_addr =
     (case candidate_addr a of
        None \<Rightarrow> scan_addrs as private_addr
      | Some addr \<Rightarrow>
          if isPublicMasqueDirectAddr addr then Inl addr
          else if IsPrivate addr \<and> private_addr = None then scan_addrs as (Some addr)
          else scan_addrs as private_addr)"

fun scan_interfaces :: "net_interface list \<Rightarrow> addr option \<Rightarrow> addr + addr option" where
  "scan_interfaces [] private_addr = Inr private_addr"
| "scan_interfaces (i # il) private_addr =
     (if \<not> if_FlagUp i \<or> if_FlagLoopback i then scan_interfaces il private_addr
      else case if_Addrs i of
        None \<Rightarrow> scan_interfaces il private_addr
      | Some as \<Rightarrow> (case scan_addrs as private_addr of Inl a \<Rightarrow> Inl a | Inr p \<Rightarrow> scan_interfaces il p))"

datatype auto_error =
  NoInterfaces | NoUsableAddr | NoConfigDir | MkdirFailed | GenerateKeyFailed | SerialFailed | CreateCertFailed
| MarshalKeyFailed | WriteBundleFailed | PinLoadFailed | NoLeaf

definition preferredMasqueDirectAddr :: "net_interface list option \<Rightarrow> auto_error + addr" where
  "preferredMasqueDirectAddr ifaces =
     (case ifaces of
        None \<Rightarrow> Inl NoInterfaces
      | Some il \<Rightarrow>
          (case scan_interfaces il None of
             Inl a \<Rightarrow> Inr a
           | Inr (Some a) \<Rightarrow> Inr a
           | Inr None \<Rightarrow> Inl NoUsableAddr))"

subsection \<open>The certificate bundle\<close>

record cert_template =
  ct_SerialNumber :: nat
  ct_CommonName :: string
  ct_NotBefore :: time
  ct_NotAfter :: time
  ct_DNSNames :: "string list"
  ct_IPAddresses :: "bytes list"

text \<open>
  The certificate functions: \<open>x_CreateCertificate t t pub priv\<close> signs the template with its own key, and
  \<open>x_KeyPair c k\<close> is \<^verbatim>\<open>tls.X509KeyPair\<close>, the DER chain of the PEM certificates of \<open>c\<close> if \<open>k\<close> holds their key.
  \<open>'s\<close> is what the random source delivers.
\<close>

record ('s, 'pub, 'priv) x509_api =
  x_GenerateKey :: "'s \<Rightarrow> ('pub \<times> 'priv) option"
  x_RandInt :: "'s \<Rightarrow> nat \<Rightarrow> nat option"
  x_CreateCertificate :: "cert_template \<Rightarrow> cert_template \<Rightarrow> 'pub \<Rightarrow> 'priv \<Rightarrow> bytes option"
  x_MarshalPKCS8 :: "'priv \<Rightarrow> bytes option"
  x_PEM :: "string \<Rightarrow> bytes \<Rightarrow> bytes"
  x_KeyPair :: "bytes \<Rightarrow> bytes \<Rightarrow> bytes list option"

type_synonym file_system = "(string, bytes) gomap"

definition LoadX509KeyPair :: "('s, 'pub, 'priv) x509_api \<Rightarrow> file_system \<Rightarrow> string \<Rightarrow> string \<Rightarrow> bytes list option" where
  "LoadX509KeyPair X fs certFile keyFile =
     (case (map_of fs certFile, map_of fs keyFile) of
        (Some c, Some k) \<Rightarrow> x_KeyPair X c k
      | _ \<Rightarrow> None)"

text \<open>
  The outcomes of the system calls of \<^verbatim>\<open>writeAutoMasqueBundle\<close>, \<open>True\<close> for success; a write that fails has stored
  the given number of bytes. The result is the error, if any, and every state of the file system another process
  can see, in order.
\<close>

record write_outcomes =
  wo_create :: bool
  wo_chmod :: bool
  wo_write :: "nat option"
  wo_sync :: bool
  wo_close :: bool
  wo_rename :: bool

definition writeAutoMasqueBundle ::
    "write_outcomes \<Rightarrow> string \<Rightarrow> string \<Rightarrow> bytes \<Rightarrow> file_system \<Rightarrow> bool \<times> file_system list" where
  "writeAutoMasqueBundle w tmp path data fs =
     (if \<not> wo_create w then (False, [fs])
      else let fs1 = AList.update tmp [] fs in
        if \<not> wo_chmod w then (False, [fs, fs1, AList.delete tmp fs1])
        else case wo_write w of
          Some n \<Rightarrow> let fs2 = AList.update tmp (take n data) fs1 in (False, [fs, fs1, fs2, AList.delete tmp fs2])
        | None \<Rightarrow>
            let fs2 = AList.update tmp data fs1 in
            if \<not> wo_sync w \<or> \<not> wo_close w \<or> \<not> wo_rename w then (False, [fs, fs1, fs2, AList.delete tmp fs2])
            else let fs3 = AList.update path data (AList.delete tmp fs2) in
                 (True, [fs, fs1, fs2, fs3, AList.delete tmp fs3]))"

record 's os_answers =
  os_interfaces :: "net_interface list option"
  os_configDir :: "string option"
  os_join :: "string list \<Rightarrow> string"
  os_mkdir :: bool
  os_tmp :: string
  os_entropy :: 's
  os_now :: time
  os_ten_years :: time
  os_write :: write_outcomes
  os_other :: "file_system \<Rightarrow> file_system"

text \<open>
  \<^verbatim>\<open>ensureAutoMasqueCertificate\<close>. Both paths it returns are the bundle's. \<open>os_other\<close> is what other processes did to
  the file system while the bundle was written.
\<close>

definition auto_template :: "nat \<Rightarrow> time \<Rightarrow> time \<Rightarrow> cert_template" where
  "auto_template serial now ten_years =
     \<lparr>ct_SerialNumber = serial, ct_CommonName = ''MasqueCat automatic direct endpoint'',
      ct_NotBefore = now - 5 * 60 * seconds 1, ct_NotAfter = ten_years, ct_DNSNames = [], ct_IPAddresses = []\<rparr>"

definition ensureAutoMasqueCertificate ::
    "('s, 'pub, 'priv) x509_api \<Rightarrow> 's os_answers \<Rightarrow> file_system \<Rightarrow> (auto_error + string \<times> string) \<times> file_system" where
  "ensureAutoMasqueCertificate X os fs =
     (case os_configDir os of
        None \<Rightarrow> (Inl NoConfigDir, fs)
      | Some configDir \<Rightarrow>
          let dir = os_join os [configDir, ''tailcat'', ''auto-direct''];
              bundlePath = os_join os [dir, ''tls.pem''] in
          if \<not> os_mkdir os then (Inl MkdirFailed, fs)
          else if LoadX509KeyPair X fs bundlePath bundlePath \<noteq> None then (Inr (bundlePath, bundlePath), fs)
          else case x_GenerateKey X (os_entropy os) of
            None \<Rightarrow> (Inl GenerateKeyFailed, fs)
          | Some (pub, priv) \<Rightarrow>
              (case x_RandInt X (os_entropy os) (2 ^ 128) of
                 None \<Rightarrow> (Inl SerialFailed, fs)
               | Some serial \<Rightarrow>
                   let tmpl = auto_template serial (os_now os) (os_ten_years os) in
                   (case x_CreateCertificate X tmpl tmpl pub priv of
                      None \<Rightarrow> (Inl CreateCertFailed, fs)
                    | Some certDER \<Rightarrow>
                        (case x_MarshalPKCS8 X priv of
                           None \<Rightarrow> (Inl MarshalKeyFailed, fs)
                         | Some keyDER \<Rightarrow>
                             let bundle = x_PEM X ''CERTIFICATE'' certDER @ x_PEM X ''PRIVATE KEY'' keyDER;
                                 (ok, seen) = writeAutoMasqueBundle (os_write os) (os_tmp os) bundlePath bundle fs;
                                 fs' = last seen in
                             if ok then (Inr (bundlePath, bundlePath), fs')
                             else let fs'' = os_other os fs' in
                               if LoadX509KeyPair X fs'' bundlePath bundlePath \<noteq> None
                               then (Inr (bundlePath, bundlePath), fs'')
                               else (Inl WriteBundleFailed, fs'')))))"

subsection \<open>The pinned URL\<close>

definition autoMasqueDirectURLWithPin ::
    "('s, 'pub, 'priv) x509_api \<Rightarrow> (bytes \<Rightarrow> bytes) \<Rightarrow> file_system \<Rightarrow> string \<Rightarrow> string \<Rightarrow> string \<Rightarrow> auto_error + string" where
  "autoMasqueDirectURLWithPin X sha256 fs baseURL certPath keyPath =
     (case LoadX509KeyPair X fs certPath keyPath of
        None \<Rightarrow> Inl PinLoadFailed
      | Some [] \<Rightarrow> Inl NoLeaf
      | Some (leaf # _) \<Rightarrow> Inr (baseURL @ ''#sha256='' @ b64_encode (sha256 leaf)))"

definition configureAutoMasqueDirect ::
    "('s, 'pub, 'priv) x509_api \<Rightarrow> (bytes \<Rightarrow> bytes) \<Rightarrow> 's os_answers \<Rightarrow> environment \<times> file_system \<Rightarrow>
      auto_error option \<times> environment \<times> file_system" where
  "configureAutoMasqueDirect X sha256 os st =
     (case st of (env, fs) \<Rightarrow>
        case preferredMasqueDirectAddr (os_interfaces os) of
          Inl e \<Rightarrow> (Some e, env, fs)
        | Inr addr \<Rightarrow>
            (case ensureAutoMasqueCertificate X os fs of
               (Inl e, fs) \<Rightarrow> (Some e, env, fs)
             | (Inr (certPath, keyPath), fs) \<Rightarrow>
                 let baseURL = ''https://'' @ JoinHostPort (addr_String addr) autoMasqueDirectPort in
                 (case autoMasqueDirectURLWithPin X sha256 fs baseURL certPath keyPath of
                    Inl e \<Rightarrow> (Some e, env, fs)
                  | Inr directURL \<Rightarrow>
                      let env = Setenv ''MASQUECAT_DIRECT_URL'' directURL env;
                          env = Setenv ''MASQUECAT_DIRECT_LISTEN'' ('':'' @ autoMasqueDirectPort) env;
                          env = Setenv ''MASQUECAT_TLS_CERT'' certPath env;
                          env = Setenv ''MASQUECAT_TLS_KEY'' keyPath env;
                          env = Setenv autoMasqueDirectMarkerEnv ''1'' env
                      in (None, env, fs))))"

text \<open>The package's \<^verbatim>\<open>init\<close>: an error is printed and otherwise ignored.\<close>

definition auto_init ::
    "('s, 'pub, 'priv) x509_api \<Rightarrow> (bytes \<Rightarrow> bytes) \<Rightarrow> 's os_answers \<Rightarrow> string list \<Rightarrow> environment \<times> file_system \<Rightarrow>
      environment \<times> file_system" where
  "auto_init X sha256 os args st =
     (if shouldConfigureAutoMasqueDirect args (fst st) then snd (configureAutoMasqueDirect X sha256 os st) else st)"

subsection \<open>What the certificate functions promise\<close>

definition x509_laws :: "('s, 'pub, 'priv) x509_api \<Rightarrow> bool" where
  "x509_laws X \<longleftrightarrow>
     (\<forall>s pub priv t der key.
        x_GenerateKey X s = Some (pub, priv) \<and> x_CreateCertificate X t t pub priv = Some der \<and>
        x_MarshalPKCS8 X priv = Some key \<longrightarrow>
        (let c = x_PEM X ''CERTIFICATE'' der; k = x_PEM X ''PRIVATE KEY'' key in
         x_KeyPair X (c @ k) (c @ k) = Some [der] \<and> x_KeyPair X c k = Some [der]))"

section \<open>The choice of the address\<close>

text \<open>The addresses the loops consider, in order.\<close>

definition candidates :: "net_interface list \<Rightarrow> addr list" where
  "candidates il = concat (map (\<lambda>i. if if_FlagUp i \<and> \<not> if_FlagLoopback i
     then (case if_Addrs i of None \<Rightarrow> [] | Some as \<Rightarrow> List.map_filter candidate_addr as) else []) il)"

definition first_private :: "addr option \<Rightarrow> addr list \<Rightarrow> addr option" where
  "first_private p as = (case p of Some a \<Rightarrow> Some a | None \<Rightarrow> find IsPrivate as)"

lemma map_filter_Cons: "List.map_filter f (x # xs) = (case f x of None \<Rightarrow> List.map_filter f xs | Some y \<Rightarrow> y # List.map_filter f xs)"
  by (auto simp: List.map_filter_def split: option.splits)

lemma find_append: "find P (xs @ ys) = (case find P xs of None \<Rightarrow> find P ys | Some x \<Rightarrow> Some x)"
  by (induction xs) auto

lemma scan_addrs_eq:
  "scan_addrs as p =
     (case find isPublicMasqueDirectAddr (List.map_filter candidate_addr as) of
        Some a \<Rightarrow> Inl a
      | None \<Rightarrow> Inr (first_private p (List.map_filter candidate_addr as)))"
  by (induction as arbitrary: p) (auto simp: map_filter_Cons first_private_def List.map_filter_def split: option.splits)

lemma scan_interfaces_eq:
  "scan_interfaces il p =
     (case find isPublicMasqueDirectAddr (candidates il) of
        Some a \<Rightarrow> Inl a
      | None \<Rightarrow> Inr (first_private p (candidates il)))"
proof (induction il arbitrary: p)
  case Nil
  show ?case by (simp add: candidates_def first_private_def split: option.splits)
next
  case (Cons i il)
  show ?case
    by (auto simp: candidates_def [of "i # il"] candidates_def [of il, symmetric] Cons.IH scan_addrs_eq find_append first_private_def
        split: option.splits)
qed

text \<open>
  The advertised address. The automatic endpoint uses the first public address of the host's running
  non-loopback interfaces, in interface order; only when there is none does it use the first private one, and
  only when there is neither does it give up. Shared, documentation, benchmarking and reserved ranges are never
  advertised.
\<close>
theorem auto_address_choice:
  "preferredMasqueDirectAddr (Some il) =
     (case find isPublicMasqueDirectAddr (candidates il) of
        Some a \<Rightarrow> Inr a
      | None \<Rightarrow> (case find IsPrivate (candidates il) of Some a \<Rightarrow> Inr a | None \<Rightarrow> Inl NoUsableAddr))"
  by (simp add: preferredMasqueDirectAddr_def scan_interfaces_eq first_private_def split: option.splits)

section \<open>The bundle is replaced atomically\<close>

text \<open>
  C33: no torn certificate. Whatever system call fails while the bundle is written, every state of the file system
  that another process can see holds at the bundle's path either what was there before or the whole new bundle,
  certificate and key together. At the end the temporary file is gone, nothing else has changed, and the path holds
  the new bundle exactly when no error is reported.
\<close>
theorem auto_bundle_atomic:
  assumes "tmp \<noteq> path" "map_of fs tmp = None"
  shows "(case writeAutoMasqueBundle w tmp path data fs of (ok, seen) \<Rightarrow>
     (\<forall>s\<in>set seen. map_of s path \<in> {map_of fs path, Some data}) \<and>
     (\<forall>p. map_of (last seen) p = (if p = path \<and> ok then Some data else map_of fs p)) \<and>
     (ok \<longleftrightarrow> wo_create w \<and> wo_chmod w \<and> wo_write w = None \<and> wo_sync w \<and> wo_close w \<and> wo_rename w))"
  using assms
  by (auto simp: writeAutoMasqueBundle_def Let_def map_of_update map_of_delete_iff split: option.splits)

theorem auto_bundle_atomic_witness:
  "(case writeAutoMasqueBundle \<lparr>wo_create = True, wo_chmod = True, wo_write = Some 1, wo_sync = True, wo_close = True, wo_rename = True\<rparr>
      ''t'' ''p'' [1, 2] [(''p'', [9])] of (ok, seen) \<Rightarrow> \<not> ok \<and> map_of (last seen) ''p'' = Some [9])"
  using auto_bundle_atomic [of "''t''" "''p''" "[(''p'', [9])]" "[1, 2]"
      "\<lparr>wo_create = True, wo_chmod = True, wo_write = Some 1, wo_sync = True, wo_close = True, wo_rename = True\<rparr>"]
  by (auto split: prod.splits)

section \<open>The advertised URL\<close>

lemma addr_String_chars: "c \<in> set (addr_String a) \<Longrightarrow> addr_IsValid a \<Longrightarrow> hex_value c \<noteq> None \<or> c \<in> {CHR '':'', CHR ''.''}"
proof -
  assume c: "c \<in> set (addr_String a)" "addr_IsValid a"
  have d: "hex_value x \<noteq> None" if "x \<in> set (itoa n)" for x n
    using itoa_digits [of n] that by (auto simp: list_all_iff is_digit_def hex_value_def Let_def)
  show ?thesis
    using c String6_chars [of c "fst a"] d by (auto simp: addr_String_def addr_IsValid_def String4_def upt_rec split: if_splits)
qed

text \<open>The characters of an authority made of an address and a port stand for themselves.\<close>

definition host_char :: "char \<Rightarrow> bool" where
  "host_char c \<longleftrightarrow> hex_value c \<noteq> None \<or> c \<in> {CHR '':'', CHR ''.'', CHR ''['', CHR '']''}"

lemma hex_value_range:
  "hex_value c \<noteq> None \<longleftrightarrow> (let n = (of_char c :: nat) in (48 \<le> n \<and> n \<le> 57) \<or> (65 \<le> n \<and> n \<le> 70) \<or> (97 \<le> n \<and> n \<le> 102))"
  by (simp add: hex_value_def Let_def)

lemma hex_value_plain:
  assumes "hex_value c \<noteq> None"
  shows "is_digit c \<or> is_alpha c" "c \<notin> set ''%/?#@*[]:.''" "\<not> ctl_byte c"
proof -
  define n where "n = (of_char c :: nat)"
  have n: "(48 \<le> n \<and> n \<le> 57) \<or> (65 \<le> n \<and> n \<le> 70) \<or> (97 \<le> n \<and> n \<le> 102)"
    using assms unfolding hex_value_range Let_def n_def .
  then show "is_digit c \<or> is_alpha c" "\<not> ctl_byte c"
    unfolding is_digit_def is_alpha_def ctl_byte_def Let_def n_def [symmetric] by linarith+
  show "c \<notin> set ''%/?#@*[]:.''"
  proof
    assume "c \<in> set ''%/?#@*[]:.''"
    then have "n \<in> {37, 47, 63, 35, 64, 42, 91, 93, 58, 46}" by (auto simp: n_def)
    with n show False by auto
  qed
qed

lemma host_char_plain:
  assumes "host_char c"
  shows "c \<notin> set ''%/?#@*'' \<and> \<not> ctl_byte c \<and> \<not> shouldEscape c encodeHost"
proof (cases "hex_value c = None")
  case True
  with assms show ?thesis by (auto simp: host_char_def ctl_byte_def shouldEscape_def)
next
  case False
  then show ?thesis using hex_value_plain [of c] by (auto simp: shouldEscape_def)
qed

lemma unescape_host: "list_all host_char s \<Longrightarrow> unescape encodeHost s = Some s"
proof (induction s)
  case (Cons c s)
  then show ?case using host_char_plain [of c] by simp
qed simp


lemma LastIndexByte_absent: "c \<notin> set s \<Longrightarrow> LastIndexByte s c = None" by simp

lemma find_25_absent: "CHR ''%'' \<notin> set s \<Longrightarrow> find_25 s = None"
proof -
  assume no: "CHR ''%'' \<notin> set s"
  have "\<not> HasPrefix (drop i s) ''%25''" for i
  proof
    assume "HasPrefix (drop i s) ''%25''"
    then obtain t where "drop i s = ''%25'' @ t" by (auto simp: HasPrefix_iff)
    then have "CHR ''%'' \<in> set (drop i s)" by simp
    with no show False by (meson in_set_dropD)
  qed
  then show ?thesis by (simp add: find_25_def)
qed

lemma port_chars: "list_all host_char autoMasqueDirectPort" "list_all is_digit autoMasqueDirectPort"
  by (simp_all add: autoMasqueDirectPort_def host_char_def hex_value_def is_digit_def)

lemma auto_port_plain: "CHR '':'' \<notin> set autoMasqueDirectPort" "CHR '']'' \<notin> set autoMasqueDirectPort" "CHR ''['' \<notin> set autoMasqueDirectPort"
  by (simp_all add: autoMasqueDirectPort_def)

lemma addr_String_plain:
  assumes "addr_IsValid a"
  shows "list_all host_char (addr_String a)" "CHR ''['' \<notin> set (addr_String a)" "CHR '']'' \<notin> set (addr_String a)"
    "CHR ''%'' \<notin> set (addr_String a)"
  using addr_String_chars [OF _ assms] hex_value_plain(2) by (fastforce simp: list_all_iff host_char_def)+

text \<open>The authority of the endpoint parses to itself.\<close>

lemma parseHost_auto:
  assumes "addr_IsValid a" "snd a = []"
  shows "parseHost (JoinHostPort (addr_String a) autoMasqueDirectPort) = Some (JoinHostPort (addr_String a) autoMasqueDirectPort)"
proof -
  let ?s = "addr_String a" and ?p = autoMasqueDirectPort
  note plain = addr_String_plain [OF assms(1)] auto_port_plain
  have vp: "validOptionalPort (CHR '':'' # ?p)" using port_chars by (simp add: validOptionalPort_def)
  have up: "unescape encodeHost (CHR '':'' # ?p) = Some (CHR '':'' # ?p)"
    using port_chars by (intro unescape_host) (simp add: host_char_def)
  show ?thesis
  proof (cases "CHR '':'' \<in> set ?s")
    case False
    then have "JoinHostPort ?s ?p = ?s @ CHR '':'' # ?p" by (simp add: JoinHostPort_def)
    moreover have "unescape encodeHost (?s @ CHR '':'' # ?p) = Some (?s @ CHR '':'' # ?p)"
      using plain(1) port_chars by (intro unescape_host) (simp add: host_char_def)
    moreover have "LastIndexByte (?s @ CHR '':'' # ?p) CHR ''['' = None" using plain by simp
    ultimately show ?thesis
      using LastIndexByte_split [of "CHR '':''" ?p ?s] plain vp by (simp add: parseHost_def del: LastIndexByte_None)
  next
    case True
    let ?h = "CHR ''['' # ?s @ CHR '']'' # CHR '':'' # ?p"
    have h: "JoinHostPort ?s ?p = ?h" using True by (simp add: JoinHostPort_def)
    have l: "LastIndexByte ?h CHR ''['' = Some 0" "LastIndexByte ?h CHR '']'' = Some (Suc (length ?s))"
      using LastIndexByte_split [of "CHR ''[''" "?s @ CHR '']'' # CHR '':'' # ?p" "[]"]
        LastIndexByte_split [of "CHR '']''" "CHR '':'' # ?p" "CHR ''['' # ?s"] plain by simp_all
    have d: "drop (Suc (Suc (length ?s))) ?h = CHR '':'' # ?p" "slice 1 (Suc (length ?s)) ?h = ?s"
      by (simp_all add: slice_def)
    have "CHR '':'' \<notin> set (String4 b)" for b using itoa_no_dot(2) by (auto simp: String4_def)
    then have six: "length (fst a) = 16" using True assms(1) by (auto simp: addr_IsValid_def addr_String_def Is4_def Is6_def)
    show ?thesis
      unfolding h parseHost_def l
      using vp up d six find_25_absent [OF plain(4)] unescape_host [OF plain(1)] addr_text_roundtrip [OF assms]
      by (cases a) (simp add: Let_def)
  qed
qed

lemma url_Parse_auto:
  assumes "addr_IsValid a" "snd a = []"
  defines "hp \<equiv> JoinHostPort (addr_String a) autoMasqueDirectPort"
  shows "url_Parse (''https://'' @ hp) = Some (empty_url\<lparr>u_Scheme := ''https'', u_Host := hp\<rparr>)"
    "CHR ''#'' \<notin> set (''https://'' @ hp)"
proof -
  have all: "list_all host_char hp"
    using addr_String_plain(1) [OF assms(1)] port_chars(1) by (simp add: hp_def JoinHostPort_def host_char_def)
  then have pl: "c \<notin> set hp" if "c \<in> set ''%/?#@*''" for c
    using host_char_plain that by (auto simp: list_all_iff)
  have "CHR ''/'' \<notin> set hp" "CHR ''?'' \<notin> set hp" "CHR ''#'' \<notin> set hp" "CHR ''@'' \<notin> set hp" using pl by simp_all
  note pl = this
  show nofrag: "CHR ''#'' \<notin> set (''https://'' @ hp)" using pl by simp
  have ctl: "\<not> list_ex ctl_byte (''https://'' @ hp)"
    using all host_char_plain by (fastforce simp: list_ex_iff list_all_iff ctl_byte_def)
  have sch: "getScheme (''https://'' @ hp) = Some (''https'', ''//'' @ hp)"
    by (simp add: getScheme_def is_alpha_def is_digit_def)
  have q: "cut_query (''//'' @ hp) = (''//'' @ hp, [])"
  proof -
    have "CHR ''?'' \<notin> set (''//'' @ hp)" using pl by simp
    moreover from this have "\<not> HasSuffix (''//'' @ hp) ''?''" by (metis HasSuffix_iff in_set_conv_decomp)
    ultimately show ?thesis using Cut_absent [of "CHR ''?''" "''//'' @ hp"] unfolding cut_query_def by simp
  qed
  have a: "parseAuthority hp = Some (None, hp)"
    using parseHost_auto [OF assms(1,2)] LastIndexByte_absent [OF pl(4)] by (simp add: parseAuthority_def hp_def del: LastIndexByte_None)
  have i: "IndexByte hp CHR ''/'' = None" using pl by simp
  have "parse (''https://'' @ hp) False = Some (empty_url\<lparr>u_Scheme := ''https'', u_Host := hp\<rparr>)"
    using ctl sch q a i
    by (simp add: parse_def Let_def HasPrefix_def setPath_def empty_url_def escape_def ToLower_def lower_def del: IndexByte_None)
  then show "url_Parse (''https://'' @ hp) = Some (empty_url\<lparr>u_Scheme := ''https'', u_Host := hp\<rparr>)"
    unfolding url_Parse_def Cut_absent [OF nofrag] by simp
qed


lemma addr_String_nonempty: "addr_IsValid a \<Longrightarrow> addr_String a \<noteq> []"
proof -
  assume "addr_IsValid a"
  then consider "length (fst a) = 4" "addr_String a = String4 (fst a)" | "length (fst a) = 16" "addr_String a = String6 (fst a)"
    by (auto simp: addr_IsValid_def addr_String_def Is4_def Is6_def)
  then show ?thesis
  proof cases
    case 1
    then show ?thesis using itoa_digits by (simp add: String4_def upt_rec)
  next
    case 2
    then show ?thesis using String6_colon [of "fst a"] by auto
  qed
qed

lemma Hostname_auto:
  assumes "addr_IsValid a" "u_Host u = JoinHostPort (addr_String a) autoMasqueDirectPort"
  shows "Hostname u = addr_String a" "Port u = autoMasqueDirectPort"
proof -
  let ?s = "addr_String a" and ?p = autoMasqueDirectPort
  have vp: "validOptionalPort (CHR '':'' # ?p)" using port_chars by (simp add: validOptionalPort_def)
  obtain h where h: "JoinHostPort ?s ?p = h @ CHR '':'' # ?p"
    "(if HasPrefix h ''['' \<and> HasSuffix h '']'' then slice 1 (length h - 1) h else h) = ?s"
  proof (cases "CHR '':'' \<in> set ?s")
    case True
    then show thesis using that [of "CHR ''['' # ?s @ '']''"] HasSuffix_append [of "CHR ''['' # ?s" "'']''"]
      by (simp add: JoinHostPort_def HasPrefix_def slice_def)
  next
    case False
    moreover have "\<not> HasPrefix ?s ''[''" using addr_String_plain(2) [OF assms(1)] by (auto simp: HasPrefix_iff)
    ultimately show thesis using that [of ?s] by (simp add: JoinHostPort_def)
  qed
  have "splitHostPort_url (u_Host u) = (?s, ?p)"
    using LastIndexByte_split [OF auto_port_plain(1), of h] vp h
    by (simp add: splitHostPort_url_def assms(2))
  then show "Hostname u = ?s" "Port u = ?p" by (simp_all add: Hostname_def Port_def)
qed

lemma auto_url_valid:
  assumes "addr_IsValid a" "snd a = []" "length pin = 32"
  defines "raw \<equiv> ''https://'' @ JoinHostPort (addr_String a) autoMasqueDirectPort @ ''#sha256='' @ b64_encode pin"
  shows "validateMasqueURL DirectKind raw = None" "masqueTLSCertPinFromURL raw = Inr (Some pin)"
proof -
  let ?hp = "JoinHostPort (addr_String a) autoMasqueDirectPort"
  note base = url_Parse_auto [OF assms(1,2)]
  have f: "''#'' @ masqueTLSCertPinFragmentPrefix @ b64_encode pin = ''#sha256='' @ b64_encode pin"
    by (simp add: masqueTLSCertPinFragmentPrefix_def)
  show pin: "masqueTLSCertPinFromURL raw = Inr (Some pin)"
    using pin_from_pinned_url [OF base(2,1) assms(3)] unfolding raw_def f append_assoc by simp
  have "\<exists>f. url_Parse raw = Some (empty_url\<lparr>u_Scheme := ''https'', u_Host := ?hp, u_Fragment := f\<rparr>)"
  proof -
    have "CHR ''%'' \<notin> set (''sha256='' @ b64_encode pin)" using set_b64_encode [of _ pin] b64_char_plain by auto
    then have "unescape encodeFragment (''sha256='' @ b64_encode pin) = Some (''sha256='' @ b64_encode pin)"
      by (intro unescape_plain) simp_all
    then show ?thesis
      using url_Parse_fragment [OF base(2), of "''sha256='' @ b64_encode pin"] base(1)
      by (intro exI [of _ "''sha256='' @ b64_encode pin"]) (simp add: raw_def)
  qed
  then obtain f where u: "url_Parse raw = Some (empty_url\<lparr>u_Scheme := ''https'', u_Host := ?hp, u_Fragment := f\<rparr>)" ..
  have "Hostname (empty_url\<lparr>u_Scheme := ''https'', u_Host := ?hp, u_Fragment := f\<rparr>) = addr_String a"
    by (rule Hostname_auto [OF assms(1)]) simp
  moreover have "?hp \<noteq> []" by (simp add: JoinHostPort_def)
  ultimately show "validateMasqueURL DirectKind raw = None"
    using u pin addr_String_nonempty [OF assms(1)] by (simp add: validateMasqueURL_def empty_url_def)
qed

section \<open>What a successful setup leaves behind\<close>

lemma candidate_valid: "candidate_addr n = Some a \<Longrightarrow> addr_IsValid a \<and> snd a = []"
  by (auto simp: candidate_addr_def AddrFromSlice_def Let_def addr_IsValid_def Is4_def Is6_def Unmap_def Is4In6_def
      split: net_addr.splits option.splits if_splits)

lemma preferred_valid:
  assumes "preferredMasqueDirectAddr ifs = Inr a"
  shows "addr_IsValid a \<and> snd a = []"
proof -
  obtain il where il: "ifs = Some il" using assms by (cases ifs) (auto simp: preferredMasqueDirectAddr_def)
  have "a \<in> set (candidates il)"
    using assms unfolding il preferredMasqueDirectAddr_def
    by (auto simp: scan_interfaces_eq first_private_def find_Some_iff split: option.splits)
  then show ?thesis
    using candidate_valid by (fastforce simp: candidates_def List.map_filter_def split: if_splits option.splits)
qed

lemma Getenv_Setenv: "Getenv (Setenv k v env) k' = (if k' = k then v else Getenv env k')"
  by (simp add: Getenv_def Setenv_def map_of_update)

lemma configure_outcome:
  assumes "configureAutoMasqueDirect X sha256 os (env, fs) = (None, env', fs')" "\<And>b. length (sha256 b) = 32"
  obtains pem leaf rest a xs where
    "pem = os_join os xs"
    "LoadX509KeyPair X fs' pem pem = Some (leaf # rest)"
    "preferredMasqueDirectAddr (os_interfaces os) = Inr a"
    "Getenv env' ''MASQUECAT_DIRECT_URL'' =
      ''https://'' @ JoinHostPort (addr_String a) autoMasqueDirectPort @ ''#sha256='' @ b64_encode (sha256 leaf)"
    "Getenv env' ''MASQUECAT_DIRECT_LISTEN'' = '':4433''"
    "Getenv env' ''MASQUECAT_TLS_CERT'' = pem" "Getenv env' ''MASQUECAT_TLS_KEY'' = pem"
    "Getenv env' autoMasqueDirectMarkerEnv = ''1''"
    "\<And>k. k \<notin> {''MASQUECAT_DIRECT_URL'', ''MASQUECAT_DIRECT_LISTEN'', ''MASQUECAT_TLS_CERT'', ''MASQUECAT_TLS_KEY'',
      autoMasqueDirectMarkerEnv} \<Longrightarrow> Getenv env' k = Getenv env k"
proof -
  from assms(1) obtain a where a: "preferredMasqueDirectAddr (os_interfaces os) = Inr a"
    by (auto simp: configureAutoMasqueDirect_def split: sum.splits)
  obtain r fs2 where r: "ensureAutoMasqueCertificate X os fs = (r, fs2)" by fastforce
  with assms(1) a obtain c k where ck: "r = Inr (c, k)"
    by (cases r) (auto simp: configureAutoMasqueDirect_def)
  have kc: "k = c \<and> (\<exists>xs. c = os_join os xs)"
    using r unfolding ck ensureAutoMasqueCertificate_def
    by (auto simp: Let_def split: option.splits prod.splits if_splits)
  then obtain xs where xs: "c = os_join os xs" by blast
  let ?base = "''https://'' @ JoinHostPort (addr_String a) autoMasqueDirectPort"
  from assms(1) a r ck kc obtain url where url: "autoMasqueDirectURLWithPin X sha256 fs2 ?base c c = Inr url"
    by (cases "autoMasqueDirectURLWithPin X sha256 fs2 ?base c c") (auto simp: configureAutoMasqueDirect_def Let_def)
  from url obtain leaf rest where l: "LoadX509KeyPair X fs2 c c = Some (leaf # rest)" "url = ?base @ ''#sha256='' @ b64_encode (sha256 leaf)"
    by (auto simp: autoMasqueDirectURLWithPin_def split: option.splits list.splits)
  have "fs' = fs2" and env': "env' = Setenv autoMasqueDirectMarkerEnv ''1'' (Setenv ''MASQUECAT_TLS_KEY'' c
      (Setenv ''MASQUECAT_TLS_CERT'' c (Setenv ''MASQUECAT_DIRECT_LISTEN'' ('':'' @ autoMasqueDirectPort)
        (Setenv ''MASQUECAT_DIRECT_URL'' url env))))"
    using assms(1) a r ck kc url by (auto simp: configureAutoMasqueDirect_def Let_def)
  with l a xs show thesis
    by (intro that [of c xs leaf rest a])
      (simp_all add: Getenv_Setenv autoMasqueDirectMarkerEnv_def autoMasqueDirectPort_def)
qed

end
