(* ===== verification/Derp_Map.thy ===== *)
theory Derp_Map
  imports Derp_Wire Auto_Direct
begin

text \<open>
  The map of relay regions of the original transport: its two caches, the fetching policy, and the expansion of an
  address that names only a region (\<^verbatim>\<open>tailcat.go\<close>, \<^verbatim>\<open>pickregion.go\<close>, and the disk cache of
  \<^verbatim>\<open>cmd/tailcat/tailcat.go\<close>). \<^verbatim>\<open>DERPMapCache\<close> is a Go interface; here it is the pair of its operations, and the
  locale \<open>derp_cache\<close> is its contract, which the in-memory cache and the disk cache are both shown to meet.

  A map is what \<^verbatim>\<open>json.Unmarshal\<close> makes of the stored bytes, the parameter \<open>unmarshal\<close>; only the regions matter, as a
  Go map from their numbers.
\<close>

section \<open>Model\<close>

type_synonym derp_map = "(int, DERPRegion) gomap"

definition decodeDERPMap :: "(bytes \<Rightarrow> derp_map option) \<Rightarrow> bytes \<Rightarrow> derp_map option" where
  "decodeDERPMap unmarshal data = (if length data = 0 then None else unmarshal data)"

subsection \<open>The in-memory cache\<close>

record memDERPMapEntry =
  me_data :: bytes
  me_etag :: string
  me_storedAt :: time

type_synonym memDERPMapCache = "(string, memDERPMapEntry) gomap"

definition mem_Get :: "string \<Rightarrow> memDERPMapCache \<Rightarrow> (bytes \<times> string \<times> time) option" where
  "mem_Get url m = map_option (\<lambda>e. (me_data e, me_etag e, me_storedAt e)) (map_of m url)"

definition mem_Put :: "time \<Rightarrow> string \<Rightarrow> bytes \<Rightarrow> string \<Rightarrow> memDERPMapCache \<Rightarrow> memDERPMapCache" where
  "mem_Put now url data etag m = AList.update url \<lparr>me_data = data, me_etag = etag, me_storedAt = now\<rparr> m"

subsection \<open>The disk cache\<close>

text \<open>
  Files with their modification times. \<open>dir\<close> is the directory \<^verbatim>\<open>tailcat\<close> of the user's cache directory, which is
  created when needed. The calls on the file system are those that succeed: with no cache directory there is nothing to
  get and nothing is put.
\<close>

definition QueryEscape :: "string \<Rightarrow> string" where
  "QueryEscape s =
     concat (map (\<lambda>c. if unreserved c then [c] else if c = CHR '' '' then ''+''
       else [CHR ''%'', upper_hex (of_char c div 16), upper_hex (of_char c mod 16)]) s)"

type_synonym disk_cache = "(string, bytes \<times> time) gomap"

definition cache_paths :: "string \<Rightarrow> string \<Rightarrow> string \<times> string" where
  "cache_paths dir url =
     (let base = dir @ ''/derpmap-'' @ QueryEscape url in (base @ ''.json'', base @ ''.etag''))"

definition disk_Get :: "string \<Rightarrow> string \<Rightarrow> disk_cache \<Rightarrow> (bytes \<times> string \<times> time) option" where
  "disk_Get dir url fs =
     (case cache_paths dir url of (dataPath, etagPath) \<Rightarrow>
        case map_of fs dataPath of
          None \<Rightarrow> None
        | Some (data, mtime) \<Rightarrow>
            Some (data, case map_of fs etagPath of None \<Rightarrow> [] | Some (v, _) \<Rightarrow> TrimSpace (bytes_string v), mtime))"

definition disk_Put :: "string \<Rightarrow> time \<Rightarrow> string \<Rightarrow> bytes \<Rightarrow> string \<Rightarrow> disk_cache \<Rightarrow> disk_cache" where
  "disk_Put dir now url data etag fs =
     (case cache_paths dir url of (dataPath, etagPath) \<Rightarrow>
        let fs = AList.update dataPath (data, now) fs in
        if etag = [] then AList.delete etagPath fs else AList.update etagPath (string_bytes etag, now) fs)"

subsection \<open>Fetching\<close>

definition DefaultDERPMapURL :: string where "DefaultDERPMapURL = ''https://tailcat.dev/derpmap.json''"
definition derpMapCacheMaxAge :: time where [go_consts]: "derpMapCacheMaxAge = 3600 * 1000000000"

record derp_request =
  rq_url :: string
  rq_mode :: string
  rq_IfNoneMatch :: string

text \<open>What the network answers: an error, or a status with the \<^verbatim>\<open>Etag\<close> header and the body, if it could be read.\<close>

datatype derp_answer = NetworkError | Answer nat string "bytes option"

text \<open>\<open>NilMap\<close> stands for a nil map returned without an error.\<close>

datatype fetch_error = BadRequest | FetchFailed | BadStatus nat | BodyUnread | InvalidMapJSON | NilMap

text \<open>\<^verbatim>\<open>cachedData\<close> and \<^verbatim>\<open>cachedETag\<close> after the cache was asked, or the map that is fresh enough to be returned at once.\<close>

definition cached_copy ::
  "(bytes \<Rightarrow> derp_map option) \<Rightarrow> (string \<Rightarrow> 'c \<Rightarrow> (bytes \<times> string \<times> time) option) \<Rightarrow> time \<Rightarrow> string \<Rightarrow> 'c \<Rightarrow>
   derp_map + bytes option \<times> string" where
  "cached_copy unmarshal Get now fetchURL cache =
     (case Get fetchURL cache of
        None \<Rightarrow> Inr (None, [])
      | Some (data, etag, storedAt) \<Rightarrow>
          (case decodeDERPMap unmarshal data of
             None \<Rightarrow> Inr (None, [])
           | Some dm \<Rightarrow> if now - storedAt < derpMapCacheMaxAge then Inl dm else Inr (Some data, etag)))"

definition decode_or :: "(bytes \<Rightarrow> derp_map option) \<Rightarrow> bytes option \<Rightarrow> fetch_error \<Rightarrow> fetch_error + derp_map" where
  "decode_or unmarshal cachedData err =
     (case cachedData of
        None \<Rightarrow> Inl err
      | Some data \<Rightarrow> (case decodeDERPMap unmarshal data of None \<Rightarrow> Inl err | Some dm \<Rightarrow> Inr dm))"

text \<open>
  \<^verbatim>\<open>fetchDERPMap\<close> over any cache: \<open>now1\<close> is the clock when the age is computed and \<open>now2\<close> when a map is stored,
  \<open>valid_url\<close> whether a request can be made for the URL. The result is the cache, the request that was sent, if any,
  and the map or the error. \<open>decode_or\<close> is the closure \<^verbatim>\<open>staleOr\<close>.
\<close>

definition fetchDERPMap ::
  "(bytes \<Rightarrow> derp_map option) \<Rightarrow> (string \<Rightarrow> 'c \<Rightarrow> (bytes \<times> string \<times> time) option) \<Rightarrow>
   (time \<Rightarrow> string \<Rightarrow> bytes \<Rightarrow> string \<Rightarrow> 'c \<Rightarrow> 'c) \<Rightarrow> bool \<Rightarrow> (derp_request \<Rightarrow> derp_answer) \<Rightarrow> time \<Rightarrow> time \<Rightarrow>
   string \<Rightarrow> string \<Rightarrow> 'c \<Rightarrow> 'c \<times> derp_request option \<times> (fetch_error + derp_map)" where
  "fetchDERPMap unmarshal Get Put valid_url net now1 now2 fetchURL mode cache =
     (case cached_copy unmarshal Get now1 fetchURL cache of
        Inl dm \<Rightarrow> (cache, None, Inr dm)
      | Inr (cachedData, cachedETag) \<Rightarrow>
          let staleOr = decode_or unmarshal cachedData in
          if \<not> valid_url then (cache, None, Inl BadRequest)
          else let rq = \<lparr>rq_url = fetchURL, rq_mode = mode, rq_IfNoneMatch = cachedETag\<rparr> in
            (case net rq of
               NetworkError \<Rightarrow> (cache, Some rq, staleOr FetchFailed)
             | Answer status etag body \<Rightarrow>
                 if status = 304 \<and> cachedData \<noteq> None
                 then (Put now2 fetchURL (the cachedData) cachedETag cache, Some rq, decode_or unmarshal cachedData NilMap)
                 else if status \<noteq> 200 then (cache, Some rq, staleOr (BadStatus status))
                 else case body of
                   None \<Rightarrow> (cache, Some rq, staleOr BodyUnread)
                 | Some b \<Rightarrow>
                     (case decodeDERPMap unmarshal (take (8 * 2 ^ 20) b) of
                        None \<Rightarrow> (cache, Some rq, staleOr InvalidMapJSON)
                      | Some dm \<Rightarrow> (Put now2 fetchURL (take (8 * 2 ^ 20) b) etag cache, Some rq, Inr dm))))"

subsection \<open>Options\<close>

datatype 'c fetch_option = OptURL string | OptServer | OptCache 'c | OptMap derp_map | OptOther

record 'c fetch_settings =
  fs_url :: string
  fs_mode :: string
  fs_cache :: "'c option"
  fs_map :: "derp_map option"

definition default_settings :: "'c fetch_settings" where
  "default_settings = \<lparr>fs_url = DefaultDERPMapURL, fs_mode = ''client'', fs_cache = None, fs_map = None\<rparr>"

text \<open>The options of \<^verbatim>\<open>FetchDERPMap\<close> (\<open>maps = False\<close>) and of \<^verbatim>\<open>Expand\<close>, which also takes a map; \<open>None\<close> is the error for
  an option of another type.\<close>

fun fetch_options :: "bool \<Rightarrow> 'c fetch_option list \<Rightarrow> 'c fetch_settings \<Rightarrow> 'c fetch_settings option" where
  "fetch_options maps [] s = Some s"
| "fetch_options maps (OptURL u # os) s = fetch_options maps os (s\<lparr>fs_url := u\<rparr>)"
| "fetch_options maps (OptServer # os) s = fetch_options maps os (s\<lparr>fs_mode := ''server''\<rparr>)"
| "fetch_options maps (OptCache c # os) s = fetch_options maps os (s\<lparr>fs_cache := Some c\<rparr>)"
| "fetch_options maps (OptMap m # os) s = (if maps then fetch_options maps os (s\<lparr>fs_map := Some m\<rparr>) else None)"
| "fetch_options maps (OptOther # os) s = None"

subsection \<open>Choosing a region\<close>

text \<open>The loop of \<^verbatim>\<open>PickBestRegion\<close> over the latencies of the report, in the order the map is visited.\<close>

definition hour :: time where "hour = 3600 * 1000000000"

fun best_region :: "derp_map \<Rightarrow> (int \<times> time) list \<Rightarrow> time \<Rightarrow> int \<Rightarrow> int" where
  "best_region dm [] bestLatency regionID = regionID"
| "best_region dm ((rid, d) # ls) bestLatency regionID =
     (if map_of dm rid = None then best_region dm ls bestLatency regionID
      else if d < bestLatency then best_region dm ls d rid
      else best_region dm ls bestLatency regionID)"

datatype pick_error = StandaloneFailed | ReportFailed

definition PickBestRegion :: "bool \<Rightarrow> (int, time) gomap option \<Rightarrow> derp_map \<Rightarrow> pick_error + int" where
  "PickBestRegion standalone report dm =
     (if \<not> standalone then Inl StandaloneFailed
      else case report of None \<Rightarrow> Inl ReportFailed | Some ls \<Rightarrow> Inr (best_region dm ls hour 0))"

subsection \<open>Expanding an address\<close>

definition expand_fill :: "DERPRegion \<Rightarrow> DERPRegion" where
  "expand_fill r =
     (let r = (if dr_RegionID r = 0 then r\<lparr>dr_RegionID := 1\<rparr> else r) in
      r\<lparr>dr_Nodes := map (\<lambda>n. if dn_RegionID n = 0 then n\<lparr>dn_RegionID := dr_RegionID r\<rparr> else n) (dr_Nodes r)\<rparr>)"

datatype expand_error = UnknownOption | ExpandFetch fetch_error | ExpandPick pick_error | NoRegions | NoSuchRegion int

text \<open>
  \<open>fetched\<close> is what \<^verbatim>\<open>fetchDERPMap\<close> returns for the settings, \<open>shuffle\<close> the random order of a region's nodes, \<open>pick\<close>
  the answer of \<^verbatim>\<open>PickBestRegion\<close>, and \<open>rand\<close> the random index below its argument. A number that is not in the
  map would make the source append a nil pointer; here nothing is appended, and \<open>expand_region_in_map\<close> shows that it
  does not happen.
\<close>

definition shuffled :: "(DERPNode list \<Rightarrow> DERPNode list) \<Rightarrow> derp_map \<Rightarrow> derp_map" where
  "shuffled shuffle dm = map (\<lambda>(i, r). (i, r\<lparr>dr_Nodes := shuffle (dr_Nodes r)\<rparr>)) dm"

definition Expand ::
  "('c fetch_settings \<Rightarrow> fetch_error + derp_map) \<Rightarrow> (DERPNode list \<Rightarrow> DERPNode list) \<Rightarrow> (derp_map \<Rightarrow> pick_error + int) \<Rightarrow>
   (nat \<Rightarrow> nat) \<Rightarrow> 'c fetch_option list \<Rightarrow> ('k, 'd) ConnInfo \<Rightarrow> ('k, 'd) ConnInfo \<times> expand_error option" where
  "Expand fetched shuffle pick rand opts ci0 =
     (case fetch_options True opts default_settings of
        None \<Rightarrow> (ci0, Some UnknownOption)
      | Some s \<Rightarrow>
          let ci = ci0\<lparr>t_Region := map expand_fill (t_Region ci0)\<rparr> in
          if t_Region ci \<noteq> [] \<or> t_RegionID ci = 0 then (ci, None)
          else case (case fs_map s of Some dm \<Rightarrow> Inr dm | None \<Rightarrow> fetched s) of
            Inl e \<Rightarrow> (ci, Some (ExpandFetch e))
          | Inr dm \<Rightarrow>
              if t_RegionID ci = - 1 then
                let dm = shuffled shuffle dm in
                (case pick dm of
                   Inl e \<Rightarrow> (ci, Some (ExpandPick e))
                 | Inr regionID \<Rightarrow>
                     if regionID \<noteq> 0
                     then (ci\<lparr>t_RegionID := 0, t_Region := List.map_filter (map_of dm) [regionID]\<rparr>, None)
                     else let regIDs = sort (map fst dm) in
                       if regIDs = [] then (ci, Some NoRegions)
                       else (ci\<lparr>t_RegionID := 0,
                               t_Region := t_Region ci @ List.map_filter (map_of dm) [regIDs ! rand (length regIDs)]\<rparr>, None))
              else (case map_of dm (t_RegionID ci) of
                      None \<Rightarrow> (ci, Some (NoSuchRegion (t_RegionID ci)))
                    | Some r \<Rightarrow> (ci\<lparr>t_Region := t_Region ci @ [r]\<rparr>, None)))"

datatype resolve_error = ResolveParse tc_error | ResolveExpand expand_error | ResolvePanic

text \<open>\<open>expand\<close> is \<^verbatim>\<open>Expand\<close> with the caller's options.\<close>

definition Resolve ::
  "('k, 'd) cbor_api \<Rightarrow> ('d \<Rightarrow> bool) \<Rightarrow> 'd \<Rightarrow> (('k, 'd) ConnInfo \<Rightarrow> ('k, 'd) ConnInfo \<times> expand_error option) \<Rightarrow> string \<Rightarrow>
   resolve_error + string" where
  "Resolve C discoZero zeroDisco expand b =
     (case ParseConnBlob C zeroDisco b of
        Inl e \<Rightarrow> Inl (ResolveParse e)
      | Inr ci \<Rightarrow>
          if t_Region ci \<noteq> [] then Inr b
          else case expand ci of
            (ci, Some e) \<Rightarrow> Inl (ResolveExpand e)
          | (ci, None) \<Rightarrow>
              let ci = ci\<lparr>t_Region := map (\<lambda>r. r\<lparr>dr_Nodes := take (min 2 (length (dr_Nodes r))) (dr_Nodes r)\<rparr>) (t_Region ci),
                          t_RegionID := 0\<rparr>
              in case tc_ConnBlob C discoZero ci of None \<Rightarrow> Inl ResolvePanic | Some t \<Rightarrow> Inr t)"


section \<open>The cache interface\<close>

text \<open>
  What \<^verbatim>\<open>DERPMapCache\<close> promises: a stored response is returned as it was stored, with the time at which it was stored,
  and no other entry is affected. \<open>etag_ok\<close> are the tags a cache keeps unchanged.
\<close>

locale derp_cache =
  fixes Get :: "string \<Rightarrow> 'c \<Rightarrow> (bytes \<times> string \<times> time) option"
    and Put :: "time \<Rightarrow> string \<Rightarrow> bytes \<Rightarrow> string \<Rightarrow> 'c \<Rightarrow> 'c"
    and etag_ok :: "string \<Rightarrow> bool"
  assumes get_put: "etag_ok e \<Longrightarrow> Get u (Put t u d e c) = Some (d, e, t)"
    and get_put_other: "u \<noteq> v \<Longrightarrow> Get v (Put t u d e c) = Get v c"
    and get_etag: "Get u c = Some (d, e, t) \<Longrightarrow> etag_ok e"
begin

lemma cached_copy_cases:
  assumes "cached_copy unmarshal Get now u c = r"
  obtains (fresh) d e t dm where "Get u c = Some (d, e, t)" "decodeDERPMap unmarshal d = Some dm"
      "now - t < derpMapCacheMaxAge" "r = Inl dm"
  | (stale) d e t dm where "Get u c = Some (d, e, t)" "decodeDERPMap unmarshal d = Some dm"
      "\<not> now - t < derpMapCacheMaxAge" "r = Inr (Some d, e)"
  | (none) "\<And>d e t. Get u c = Some (d, e, t) \<Longrightarrow> decodeDERPMap unmarshal d = None" "r = Inr (None, [])"
  using assms by (auto simp: cached_copy_def split: option.splits if_splits)

lemma fetch_other_entries:
  assumes "fetchDERPMap unmarshal Get Put valid net now1 now2 u mode c = (c', rq, res)" "v \<noteq> u"
  shows "Get v c' = Get v c"
  using assms get_put_other [of u v]
  by (auto simp: fetchDERPMap_def Let_def split: sum.splits option.splits derp_answer.splits if_splits)

lemma fetch_fresh:
  assumes "Get u c = Some (d, e, t)" "decodeDERPMap unmarshal d = Some dm" "now1 - t < derpMapCacheMaxAge"
  shows "fetchDERPMap unmarshal Get Put valid net now1 now2 u mode c = (c, None, Inr dm)"
  using assms by (simp add: fetchDERPMap_def cached_copy_def)

lemma fetch_stale:
  assumes "fetchDERPMap unmarshal Get Put True net now1 now2 u mode c = (c', rq, res)"
    "Get u c = Some (d, e, t)" "decodeDERPMap unmarshal d = Some dm" "\<not> now1 - t < derpMapCacheMaxAge"
  shows "rq = Some \<lparr>rq_url = u, rq_mode = mode, rq_IfNoneMatch = e\<rparr> \<and> (\<exists>dm'. res = Inr dm')"
  using assms
  by (auto simp: fetchDERPMap_def cached_copy_def decode_or_def Let_def split: option.splits derp_answer.splits if_splits)

lemma fetch_absent:
  assumes "fetchDERPMap unmarshal Get Put True net now1 now2 u mode c = (c', rq, res)"
    "\<And>d e t. Get u c = Some (d, e, t) \<Longrightarrow> decodeDERPMap unmarshal d = None"
  shows "rq = Some \<lparr>rq_url = u, rq_mode = mode, rq_IfNoneMatch = []\<rparr>"
proof -
  have "cached_copy unmarshal Get now1 u c = Inr (None, [])"
    using assms(2) by (auto simp: cached_copy_def split: option.splits)
  then show ?thesis
    using assms(1) by (auto simp: fetchDERPMap_def decode_or_def Let_def split: option.splits derp_answer.splits if_splits)
qed

text \<open>Whatever was stored is what a later fetch within the hour returns, without any request.\<close>

lemma fetch_stores:
  assumes f: "fetchDERPMap unmarshal Get Put True net now1 now2 u mode c = (c', Some rq, Inr dm)"
    and tag: "\<And>s e b. net rq = Answer s e b \<Longrightarrow> etag_ok e"
    and changed: "c' \<noteq> c"
  shows "\<exists>d e. Get u c' = Some (d, e, now2) \<and> decodeDERPMap unmarshal d = Some dm"
  using refl [of "cached_copy unmarshal Get now1 u c"]
proof (cases rule: cached_copy_cases)
  case (fresh d e t dm')
  then show ?thesis using f by (simp add: fetchDERPMap_def)
next
  case (stale d e t dm')
  then have "etag_ok e" using get_etag by blast
  with stale f tag changed show ?thesis
    by (auto simp: fetchDERPMap_def decode_or_def Let_def get_put split: option.splits derp_answer.splits if_splits)
next
  case none
  with f tag changed show ?thesis
    by (auto simp: fetchDERPMap_def decode_or_def Let_def get_put split: option.splits derp_answer.splits if_splits)
qed

lemma fetch_then_cached:
  assumes "fetchDERPMap unmarshal Get Put True net now1 now2 u mode c = (c', Some rq, Inr dm)"
    "\<And>s e b. net rq = Answer s e b \<Longrightarrow> etag_ok e" "c' \<noteq> c" "now3 - now2 < derpMapCacheMaxAge"
  shows "fetchDERPMap unmarshal Get Put valid net' now3 now4 u mode' c' = (c', None, Inr dm)"
proof -
  have "\<exists>d e. Get u c' = Some (d, e, now2) \<and> decodeDERPMap unmarshal d = Some dm"
    by (rule fetch_stores [OF assms(1) _ assms(3)]) (rule assms(2))
  then show ?thesis using fetch_fresh assms(4) by blast
qed

end

subsection \<open>Both caches\<close>

interpretation mem_cache: derp_cache mem_Get mem_Put "\<lambda>_. True"
  by unfold_locales (auto simp: mem_Get_def mem_Put_def map_of_update)

lemma of_char_less: "(of_char c :: nat) < 256"
  using unat_byte_less [of "of_char c"] by (simp add: unat_of_char)

lemma upper_hex_inj:
  assumes "upper_hex m = upper_hex n" "m < 16" "n < 16"
  shows "m = n"
proof -
  have "of_char (upper_hex k) = (if k < 10 then 48 + k else 55 + k)" if "k < 16" for k :: nat
    using that by (simp add: upper_hex_def)
  from this [OF assms(2)] this [OF assms(3)] assms(1)
  have "(if m < 10 then 48 + m else 55 + m) = (if n < 10 then 48 + n else 55 + n)" by metis
  then show ?thesis by (simp split: if_splits)
qed

lemma QueryEscape_Cons: "QueryEscape (c # s) = (if unreserved c then [c] else if c = CHR '' '' then ''+''
    else [CHR ''%'', upper_hex (of_char c div 16), upper_hex (of_char c mod 16)]) @ QueryEscape s"
  by (simp add: QueryEscape_def)

lemma reserved_escapes: "\<not> unreserved CHR ''+''" "\<not> unreserved CHR ''%''"
  by (simp_all add: unreserved_def is_alpha_def is_digit_def)

lemma QueryEscape_nonempty: "QueryEscape (c # s) \<noteq> []" by (simp add: QueryEscape_Cons)

lemma escape_char_eq:
  assumes "upper_hex (of_char a div 16) = upper_hex (of_char b div 16)" "upper_hex (of_char a mod 16) = upper_hex (of_char b mod 16)"
  shows "a = b"
proof -
  have lt: "(of_char c :: nat) div 16 < 16" for c using of_char_less [of c] by (intro less_mult_imp_div_less) simp
  have "(of_char a :: nat) div 16 = of_char b div 16" "(of_char a :: nat) mod 16 = of_char b mod 16"
    using upper_hex_inj [OF assms(1)] upper_hex_inj [OF assms(2)] lt by auto
  then have "(of_char a :: nat) = of_char b" by (metis div_mult_mod_eq)
  then show ?thesis by (metis char_of_char)
qed

lemma QueryEscape_inj: "QueryEscape u = QueryEscape v \<Longrightarrow> u = v"
proof (induction u arbitrary: v)
  case Nil
  then show ?case by (cases v) (simp_all add: QueryEscape_Cons QueryEscape_def split: if_splits)
next
  case (Cons a u)
  show ?case
  proof (cases v)
    case Nil
    then show ?thesis using Cons.prems QueryEscape_nonempty [of a u] by (simp add: QueryEscape_def)
  next
    case v: (Cons b v')
    have ab: "a = b \<and> QueryEscape u = QueryEscape v'"
    proof (cases "unreserved a \<or> a = CHR '' ''")
      case True
      with Cons.prems v reserved_escapes show ?thesis by (auto simp: QueryEscape_Cons split: if_splits)
    next
      case a: False
      then have b: "\<not> (unreserved b \<or> b = CHR '' '')"
        using Cons.prems v reserved_escapes by (auto simp: QueryEscape_Cons split: if_splits)
      with a Cons.prems v escape_char_eq [of a b] show ?thesis by (simp add: QueryEscape_Cons)
    qed
    then show ?thesis using Cons.IH [of v'] v by simp
  qed
qed

lemma cache_paths_distinct:
  assumes "cache_paths dir u = (du, eu)" "cache_paths dir v = (dv, ev)"
  shows "du \<noteq> ev" "u \<noteq> v \<Longrightarrow> du \<noteq> dv" "u \<noteq> v \<Longrightarrow> eu \<noteq> ev"
proof -
  have suffix: "a @ ''.json'' \<noteq> b @ ''.etag''" for a b :: string
  proof
    assume "a @ ''.json'' = b @ ''.etag''"
    then have "last (a @ ''.json'') = last (b @ ''.etag'')" by simp
    then show False by simp
  qed
  then show "du \<noteq> ev" using assms by (auto simp: cache_paths_def Let_def)
  show "u \<noteq> v \<Longrightarrow> du \<noteq> dv" "u \<noteq> v \<Longrightarrow> eu \<noteq> ev"
    using assms QueryEscape_inj [of u v] by (auto simp: cache_paths_def Let_def)
qed

lemma TrimRight_prefix: "\<exists>t. s = TrimRight s @ t"
proof (induction s rule: TrimRight.induct)
  case (1 s)
  show ?case
  proof (cases "find (\<lambda>p. HasSuffix s p) spaces")
    case None
    then show ?thesis by (subst TrimRight.simps) simp
  next
    case (Some p)
    let ?r = "take (length s - length p) s"
    obtain t where "?r = TrimRight ?r @ t" using 1 [OF Some] by blast
    moreover have "TrimRight s = TrimRight ?r" using Some by (subst TrimRight.simps) simp
    ultimately show ?thesis by (metis append_take_drop_id append_assoc)
  qed
qed

lemma TrimRight_stops: "find (\<lambda>p. HasSuffix (TrimRight s) p) spaces = None"
proof (induction s rule: TrimRight.induct)
  case (1 s)
  show ?case
  proof (cases "find (\<lambda>p. HasSuffix s p) spaces")
    case None
    then have "TrimRight s = s" by (subst TrimRight.simps) simp
    with None show ?thesis by simp
  next
    case (Some p)
    then have "TrimRight s = TrimRight (take (length s - length p) s)" by (subst TrimRight.simps) simp
    with 1 [OF Some] show ?thesis by simp
  qed
qed

lemma TrimLeft_stops: "find (\<lambda>p. HasPrefix (TrimLeft s) p) spaces = None"
proof (induction s rule: TrimLeft.induct)
  case (1 s)
  show ?case
  proof (cases "find (\<lambda>p. HasPrefix s p) spaces")
    case None
    then have "TrimLeft s = s" by (subst TrimLeft.simps) simp
    with None show ?thesis by simp
  next
    case (Some p)
    then have "TrimLeft s = TrimLeft (drop (length p) s)" by (subst TrimLeft.simps) simp
    with 1 [OF Some] show ?thesis by simp
  qed
qed

lemma TrimSpace_idem [simp]: "TrimSpace (TrimSpace s) = TrimSpace s"
proof -
  obtain t where t: "TrimLeft s = TrimRight (TrimLeft s) @ t" using TrimRight_prefix by blast
  have "find (\<lambda>p. HasPrefix (TrimRight (TrimLeft s)) p) spaces = None"
    using TrimLeft_stops [of s] t unfolding find_None_iff HasPrefix_iff by (metis append_assoc)
  then have "TrimLeft (TrimRight (TrimLeft s)) = TrimRight (TrimLeft s)" by (subst TrimLeft.simps) simp
  moreover have "TrimRight (TrimRight (TrimLeft s)) = TrimRight (TrimLeft s)"
    using TrimRight_stops [of "TrimLeft s"] by (subst TrimRight.simps) simp
  ultimately show ?thesis by (simp add: TrimSpace_def)
qed

lemma TrimSpace_Nil [simp]: "TrimSpace [] = []"
  using TrimSpace_idem by (metis TrimRight_prefix TrimSpace_def TrimLeft.simps append_is_Nil_conv find_None_iff HasPrefix_def
      le_zero_eq length_0_conv list.size(3) option.simps(4) spaces_nonempty take_eq_Nil)

interpretation disk: derp_cache "disk_Get dir" "disk_Put dir" "\<lambda>e. TrimSpace e = e" for dir
proof (unfold_locales, goal_cases)
  case (1 e u t d c)
  obtain dp ep where p: "cache_paths dir u = (dp, ep)" by fastforce
  then show ?case
    using 1 cache_paths_distinct(1) [OF p p]
    by (auto simp: disk_Get_def disk_Put_def Let_def map_of_update map_of_delete_iff)
next
  case (2 u v t d e c)
  obtain du eu dv ev where p: "cache_paths dir u = (du, eu)" "cache_paths dir v = (dv, ev)" by fastforce
  have eq: "map_of (disk_Put dir t u d e c) dv = map_of c dv" "map_of (disk_Put dir t u d e c) ev = map_of c ev"
    using 2 cache_paths_distinct [OF p] cache_paths_distinct [OF p(2,1)] p
    by (auto simp: disk_Put_def Let_def map_of_update map_of_delete_iff)
  show ?case unfolding disk_Get_def p prod.case eq by (rule refl)
next
  case (3 u c d e t)
  then show ?case by (auto simp: disk_Get_def split: option.splits prod.splits)
qed


section \<open>The fetching policy\<close>



section \<open>The nearest region\<close>

lemma best_region_cases:
  "best_region dm ls best rid = rid \<and> (\<forall>r d. (r, d) \<in> set ls \<and> map_of dm r \<noteq> None \<longrightarrow> best \<le> d) \<or>
   (\<exists>d. (best_region dm ls best rid, d) \<in> set ls \<and> map_of dm (best_region dm ls best rid) \<noteq> None \<and> d < best \<and>
     (\<forall>r d'. (r, d') \<in> set ls \<and> map_of dm r \<noteq> None \<longrightarrow> d \<le> d'))"
proof (induction ls arbitrary: best rid)
  case (Cons p ls)
  obtain r d where p: "p = (r, d)" by fastforce
  show ?case
  proof (cases "map_of dm r \<noteq> None \<and> d < best")
    case True
    then have b: "best_region dm (p # ls) best rid = best_region dm ls d r" by (auto simp: p)
    from Cons.IH [of d r] show ?thesis
    proof (elim disjE exE conjE)
      assume "best_region dm ls d r = r" "\<forall>r d'. (r, d') \<in> set ls \<and> map_of dm r \<noteq> None \<longrightarrow> d \<le> d'"
      then show ?thesis unfolding b using True by (intro disjI2 exI [of _ d]) (auto simp: p)
    next
      fix d' assume "(best_region dm ls d r, d') \<in> set ls" "map_of dm (best_region dm ls d r) \<noteq> None" "d' < d"
        "\<forall>r d''. (r, d'') \<in> set ls \<and> map_of dm r \<noteq> None \<longrightarrow> d' \<le> d''"
      then show ?thesis unfolding b using True by (intro disjI2 exI [of _ d']) (auto simp: p)
    qed
  next
    case False
    then have b: "best_region dm (p # ls) best rid = best_region dm ls best rid" by (auto simp: p)
    from Cons.IH [of best rid] show ?thesis
    proof (elim disjE exE conjE)
      assume "best_region dm ls best rid = rid" "\<forall>r d'. (r, d') \<in> set ls \<and> map_of dm r \<noteq> None \<longrightarrow> best \<le> d'"
      then show ?thesis unfolding b using False by (intro disjI1) (auto simp: p)
    next
      fix d' assume "(best_region dm ls best rid, d') \<in> set ls" "map_of dm (best_region dm ls best rid) \<noteq> None" "d' < best"
        "\<forall>r d''. (r, d'') \<in> set ls \<and> map_of dm r \<noteq> None \<longrightarrow> d' \<le> d''"
      then show ?thesis unfolding b using False by (intro disjI2 exI [of _ d']) (auto simp: p)
    qed
  qed
qed simp

text \<open>
  The nearest region: the number returned is a region of the map whose latency is least among those reported, or
  zero if none was reported below an hour.
\<close>

theorem pick_best_region:
  assumes "PickBestRegion True (Some ls) dm = Inr rid" "map_of dm 0 = None"
  shows "if rid = 0 then \<forall>r d. (r, d) \<in> set ls \<and> map_of dm r \<noteq> None \<longrightarrow> hour \<le> d
    else \<exists>d. (rid, d) \<in> set ls \<and> map_of dm rid \<noteq> None \<and> d < hour \<and>
      (\<forall>r d'. (r, d') \<in> set ls \<and> map_of dm r \<noteq> None \<longrightarrow> d \<le> d')"
  using best_region_cases [of dm ls hour 0] assms by (auto simp: PickBestRegion_def)

text \<open>The region an address is expanded to is in the map.\<close>

lemma map_of_shuffled: "map_of (shuffled f dm) i = map_option (\<lambda>r. r\<lparr>dr_Nodes := f (dr_Nodes r)\<rparr>) (map_of dm i)"
  by (induction dm) (auto simp: shuffled_def)

lemma fst_shuffled: "map fst (shuffled f dm) = map fst dm"
  by (simp add: shuffled_def comp_def case_prod_unfold)

theorem expand_region_in_map:
  assumes "Expand fetched shuffle (PickBestRegion True (Some ls)) rand opts ci = (ci', None)"
    "t_Region ci = []" "t_RegionID ci \<noteq> 0" "\<And>n. 0 < n \<Longrightarrow> rand n < n"
  shows "\<exists>r. t_Region ci' = [r]"
proof -
  have some: "List.map_filter (map_of dm) [i] = [the (map_of dm i)]" if "map_of dm i \<noteq> None" for dm :: derp_map and i
    using that by (auto simp: List.map_filter_def)
  have rnd: "map_of dm (sort (map fst dm) ! rand (length dm)) \<noteq> None" if "dm \<noteq> []" for dm :: derp_map
  proof -
    have "sort (map fst dm) ! rand (length dm) \<in> set (sort (map fst dm))"
      using that assms(4) [of "length dm"] by (intro nth_mem) simp
    then show ?thesis by (simp add: map_of_eq_None_iff)
  qed
  obtain s where s: "fetch_options True opts default_settings = Some s"
    using assms(1) by (auto simp: Expand_def split: option.splits)
  obtain dm where dm: "(case fs_map s of Some dm \<Rightarrow> Inr dm | None \<Rightarrow> fetched s) = Inr dm"
    using assms(1-3) s by (auto simp: Expand_def Let_def split: sum.splits)
  show ?thesis
  proof (cases "t_RegionID ci = - 1")
    case False
    then show ?thesis using assms(1-3) s dm by (auto simp: Expand_def Let_def split: option.splits)
  next
    case True
    let ?dm = "shuffled shuffle dm"
    obtain rid where rid: "PickBestRegion True (Some ls) ?dm = Inr rid" by (simp add: PickBestRegion_def)
    have "rid = 0 \<or> map_of ?dm rid \<noteq> None"
      using rid best_region_cases [of ?dm ls hour 0] by (auto simp: PickBestRegion_def)
    moreover have "sort (map fst ?dm) = [] \<longleftrightarrow> ?dm = []" by (metis length_0_conv length_map length_sort)
    moreover have "length (sort (map fst ?dm)) = length ?dm" by simp
    ultimately show ?thesis
      using assms(1-3) s dm True rid some [of ?dm rid] some [OF rnd [of ?dm]]
      by (auto simp: Expand_def Let_def simp del: length_sort length_map split: if_splits)
  qed
qed

end
