(* ===== verification/Ports.thy ===== *)
theory Ports
  imports Go_Url
begin

text \<open>
  The ports a server offers: the specification of \<^verbatim>\<open>--serve\<close> and the ranges of the packet filter, from
  \<^verbatim>\<open>cmd/tailcat/tailcat.go\<close> (\<^verbatim>\<open>parsePortSet\<close>, \<^verbatim>\<open>portRanges\<close>). A port is 16 bits wide. The two sets that
  \<^verbatim>\<open>parsePortSet\<close> returns are Go maps that are only asked for membership, their size and their sorted keys, so they are
  sets here; \<open>ssh\<close> is the build tag \<^verbatim>\<open>tailCatSSHEnabled\<close>.
\<close>

section \<open>Model\<close>

definition numRx :: "string \<Rightarrow> bool" where
  "numRx r \<longleftrightarrow> r \<noteq> [] \<and> list_all is_digit r"

definition portRangeRx :: "string \<Rightarrow> bool" where
  "portRangeRx r \<longleftrightarrow> CHR ''-'' \<in> set r \<and> numRx (fst (Cut r CHR ''-'')) \<and> numRx (snd (Cut r CHR ''-''))"

text \<open>\<^verbatim>\<open>strconv.ParseUint(s, 10, 16)\<close> of a string of digits.\<close>

definition ParseUint16 :: "string \<Rightarrow> nat option" where
  "ParseUint16 s = (if numRx s \<and> digits_value s \<le> 65535 then Some (digits_value s) else None)"

datatype port_error = NoSSHSupport | UnknownService string | InvalidPort string

definition add_ports :: "nat \<Rightarrow> nat \<Rightarrow> u16 set \<Rightarrow> u16 set" where
  "add_ports lo hi ret = ret \<union> set (map word_of_nat [lo..<Suc hi])"

definition parse_port_item ::
    "bool \<Rightarrow> string \<Rightarrow> u16 set \<times> string set \<Rightarrow> port_error + u16 set \<times> string set" where
  "parse_port_item ssh r st =
     (case st of (ret, services) \<Rightarrow>
        if r = ''all'' then Inr (add_ports 1 65535 ret, services)
        else if r = ''no-auth-ssh'' \<or> r = ''files'' then
          (if \<not> ssh then Inl NoSSHSupport else Inr (ret, insert r services))
        else if r = ''exit-node'' then Inr (ret, insert r services)
        else if \<not> numRx r \<and> \<not> portRangeRx r then Inl (UnknownService r)
        else let (a, b) = (if portRangeRx r then Cut r CHR ''-'' else (r, [])) in
          case ParseUint16 a of
            None \<Rightarrow> Inl (InvalidPort a)
          | Some lo \<Rightarrow>
              (case (if b \<noteq> [] then ParseUint16 b else Some lo) of
                 None \<Rightarrow> Inl (InvalidPort b)
               | Some hi \<Rightarrow>
                   let (lo, hi) = (if hi < lo then (hi, lo) else (lo, hi)) in
                   Inr (add_ports lo hi ret, services)))"

fun parse_port_items ::
    "bool \<Rightarrow> string list \<Rightarrow> u16 set \<times> string set \<Rightarrow> port_error + u16 set \<times> string set" where
  "parse_port_items ssh [] st = Inr st"
| "parse_port_items ssh (r # rs) st =
     (case parse_port_item ssh (TrimSpace r) st of Inl e \<Rightarrow> Inl e | Inr st \<Rightarrow> parse_port_items ssh rs st)"

definition parsePortSet :: "bool \<Rightarrow> string \<Rightarrow> port_error + u16 set \<times> string set" where
  "parsePortSet ssh s =
     (if s = [] then Inr ({}, {}) else parse_port_items ssh (split_on CHR '','' (TrimSpace s)) ({}, {}))"

record PortRange =
  pr_First :: u16
  pr_Last :: u16

text \<open>One iteration of \<^verbatim>\<open>portRanges\<close>; \<^verbatim>\<open>ret[n-1].Last+1\<close> is computed in 16 bits.\<close>

definition add_range :: "PortRange list \<Rightarrow> u16 \<Rightarrow> PortRange list" where
  "add_range ret p =
     (if ret \<noteq> [] \<and> pr_Last (last ret) + 1 = p then butlast ret @ [last ret\<lparr>pr_Last := p\<rparr>]
      else ret @ [\<lparr>pr_First = p, pr_Last = p\<rparr>])"

definition portRanges :: "u16 list \<Rightarrow> PortRange list" where
  "portRanges sorted_ports = foldl add_range [] sorted_ports"

text \<open>What a list of ranges admits, as the packet filter reads it (\<^verbatim>\<open>PortRange.contains\<close>).\<close>

definition ranges_contain :: "PortRange list \<Rightarrow> u16 \<Rightarrow> bool" where
  "ranges_contain rs p = list_ex (\<lambda>r. pr_First r \<le> p \<and> p \<le> pr_Last r) rs"

section \<open>Ranges\<close>

lemma portRanges_snoc: "portRanges (ps @ [p]) = add_range (portRanges ps) p"
  by (simp add: portRanges_def)

text \<open>The last range ends at the last port.\<close>

lemma portRanges_last: "ps \<noteq> [] \<Longrightarrow> portRanges ps \<noteq> [] \<and> pr_Last (last (portRanges ps)) = last ps"
proof (induction ps rule: rev_induct)
  case (snoc p ps)
  show ?case by (simp add: portRanges_snoc add_range_def)
qed simp

lemma portRanges_Nil [simp]: "portRanges [] = []" by (simp add: portRanges_def)

lemma word16_succ:
  fixes a p :: u16
  assumes "a + 1 = p" "p \<noteq> 0"
  shows "unat p = unat a + 1"
proof -
  have "unat (a + 1) = (unat a + 1) mod 65536" by (simp add: unat_word_ariths)
  moreover have "unat a < 65536" using unsigned_less [of a, where 'a = nat] by simp
  moreover have "unat p \<noteq> 0" using assms(2) by (simp add: unat_eq_0)
  ultimately show ?thesis using assms(1) by (cases "unat a = 65535") auto
qed

lemma ranges_contain_append [simp]: "ranges_contain (xs @ ys) p \<longleftrightarrow> ranges_contain xs p \<or> ranges_contain ys p"
  by (auto simp: ranges_contain_def)

lemma ranges_contain_Nil [simp]: "\<not> ranges_contain [] p" by (simp add: ranges_contain_def)

lemma ranges_contain_Cons [simp]:
  "ranges_contain (r # rs) p \<longleftrightarrow> (pr_First r \<le> p \<and> p \<le> pr_Last r) \<or> ranges_contain rs p"
  by (simp add: ranges_contain_def)

definition range_ok :: "PortRange \<Rightarrow> bool" where
  "range_ok r \<longleftrightarrow> pr_First r \<le> pr_Last r"

lemma add_range_contains:
  assumes "\<forall>r\<in>set ret. range_ok r" "ret \<noteq> [] \<and> pr_Last (last ret) = 65535 \<Longrightarrow> p \<noteq> 0"
  shows "ranges_contain (add_range ret p) q \<longleftrightarrow> ranges_contain ret q \<or> q = p" "\<forall>r\<in>set (add_range ret p). range_ok r"
proof -
  have "(ranges_contain (add_range ret p) q \<longleftrightarrow> ranges_contain ret q \<or> q = p) \<and> (\<forall>r\<in>set (add_range ret p). range_ok r)"
  proof (cases "ret \<noteq> [] \<and> pr_Last (last ret) + 1 = p")
    case True
    let ?l = "last ret"
    have p0: "p \<noteq> 0"
    proof
      assume "p = 0"
      with True have "pr_Last ?l = - 1" by (simp add: eq_neg_iff_add_eq_0)
      with True \<open>p = 0\<close> assms(2) show False by simp
    qed
    have ret: "ret = butlast ret @ [?l]" using True by simp
    have ok: "range_ok ?l" using assms(1) True by simp
    have succ: "unat p = unat (pr_Last ?l) + 1" using word16_succ True p0 by blast
    have "pr_First ?l \<le> q \<and> q \<le> p \<longleftrightarrow> (pr_First ?l \<le> q \<and> q \<le> pr_Last ?l) \<or> q = p"
      using succ ok by (auto simp: range_ok_def word_le_nat_alt unat_arith_simps)
    moreover have "range_ok (?l\<lparr>pr_Last := p\<rparr>)" using ok succ by (simp add: range_ok_def word_le_nat_alt)
    moreover have "ranges_contain ret q \<longleftrightarrow> ranges_contain (butlast ret) q \<or> (pr_First ?l \<le> q \<and> q \<le> pr_Last ?l)"
      by (subst ret) simp
    moreover have "add_range ret p = butlast ret @ [?l\<lparr>pr_Last := p\<rparr>]" using True by (simp add: add_range_def)
    moreover have "\<forall>r\<in>set (butlast ret). range_ok r" using assms(1) by (auto dest: in_set_butlastD)
    ultimately show ?thesis by auto
  next
    case False
    then show ?thesis using assms(1) by (auto simp: add_range_def range_ok_def)
  qed
  then show "ranges_contain (add_range ret p) q \<longleftrightarrow> ranges_contain ret q \<or> q = p" "\<forall>r\<in>set (add_range ret p). range_ok r"
    by blast+
qed

text \<open>Ports that never step from 65535 to 0, as ascending lists and those with 22 in front do not.\<close>

fun no_wrap :: "u16 list \<Rightarrow> bool" where
  "no_wrap (a # b # ps) \<longleftrightarrow> \<not> (a = 65535 \<and> b = 0) \<and> no_wrap (b # ps)"
| "no_wrap _ \<longleftrightarrow> True"

lemma no_wrap_snoc: "no_wrap (ps @ [p]) \<Longrightarrow> no_wrap ps \<and> (ps \<noteq> [] \<and> last ps = 65535 \<longrightarrow> p \<noteq> 0)"
  by (induction ps rule: no_wrap.induct) auto

lemma portRanges_contain_ok:
  "no_wrap ps \<Longrightarrow> (ranges_contain (portRanges ps) q \<longleftrightarrow> q \<in> set ps) \<and> (\<forall>r\<in>set (portRanges ps). range_ok r)"
proof (induction ps arbitrary: q rule: rev_induct)
  case (snoc p ps)
  note nw = no_wrap_snoc [OF snoc.prems]
  then have ih: "\<And>q. ranges_contain (portRanges ps) q \<longleftrightarrow> q \<in> set ps" "\<forall>r\<in>set (portRanges ps). range_ok r"
    using snoc.IH by auto
  have "p \<noteq> 0" if "portRanges ps \<noteq> [] \<and> pr_Last (last (portRanges ps)) = 65535"
    using that nw portRanges_last [of ps] by (cases "ps = []") auto
  from add_range_contains [OF ih(2) this] ih(1) show ?case by (auto simp: portRanges_snoc)
qed simp

lemma ascending_no_wrap: "sorted_wrt (<) ps \<Longrightarrow> no_wrap ps"
  by (induction ps rule: no_wrap.induct) auto

lemmas portRanges_contain = portRanges_contain_ok [THEN conjunct1]

text \<open>No two neighbouring ranges could be one.\<close>

definition separated :: "PortRange \<Rightarrow> PortRange \<Rightarrow> bool" where
  "separated r s \<longleftrightarrow> unat (pr_Last r) + 1 < unat (pr_First s)"

lemma portRanges_first_last:
  assumes "sorted_wrt (<) ps"
  shows "\<forall>r\<in>set (portRanges ps). pr_Last r \<le> last ps" "sorted_wrt separated (portRanges ps)"
proof -
  have "(\<forall>r\<in>set (portRanges ps). pr_Last r \<le> last ps) \<and> sorted_wrt separated (portRanges ps)"
    using assms
  proof (induction ps rule: rev_induct)
    case (snoc p ps)
    show ?case
    proof (cases "ps = []")
      case True
      then show ?thesis by (simp add: portRanges_def add_range_def)
    next
      case False
      let ?R = "portRanges ps"
      have asc: "sorted_wrt (<) ps" "last ps < p" using snoc.prems False by (auto simp: sorted_wrt_append)
      note ih = snoc.IH [OF asc(1)] and l = portRanges_last [OF False]
      have R: "?R = butlast ?R @ [last ?R]" using l by simp
      have sep: "sorted_wrt separated (butlast ?R @ [last ?R])" using ih R by simp
      have lt: "unat (pr_Last r) < unat p" if "r \<in> set ?R" for r
        using ih asc(2) that by (meson le_less_trans word_less_nat_alt)
      show ?thesis
      proof (cases "pr_Last (last ?R) + 1 = p")
        case True
        have "sorted_wrt separated (butlast ?R @ [last ?R\<lparr>pr_Last := p\<rparr>])"
          using sep by (auto simp: sorted_wrt_append separated_def)
        then show ?thesis using True l ih lt
          by (auto simp: portRanges_snoc add_range_def word_le_nat_alt less_imp_le dest: in_set_butlastD)
      next
        case neq: False
        have "unat (last ps) + 1 < unat p"
        proof -
          have "unat (last ps) < unat p" using asc(2) by (simp add: word_less_nat_alt)
          moreover have "unat (last ps) + 1 \<noteq> unat p"
          proof
            assume "unat (last ps) + 1 = unat p"
            then have "last ps + 1 = p" using unsigned_less [of p, where 'a = nat] by (simp add: word_unat_eq_iff unat_word_ariths)
            with neq l show False by simp
          qed
          ultimately show ?thesis by simp
        qed
        then have "separated r \<lparr>pr_First = p, pr_Last = p\<rparr>" if "r \<in> set ?R" for r
          using ih that by (auto simp: separated_def word_le_nat_alt)
        then show ?thesis using neq ih lt
          by (auto simp: portRanges_snoc add_range_def sorted_wrt_append word_le_nat_alt less_imp_le)
      qed
    qed
  qed simp
  then show "\<forall>r\<in>set (portRanges ps). pr_Last r \<le> last ps" "sorted_wrt separated (portRanges ps)" by blast+
qed

text \<open>
  Port ranges. For an ascending list of ports the ranges admit exactly those ports, each range runs upwards,
  and between two ranges at least one port is missing, so the list is the shortest one: 65535 and 0 are never
  joined although the sum that compares neighbours wraps around.
\<close>
theorem port_ranges_exact:
  assumes "sorted_wrt (<) ps"
  shows "(\<forall>p. ranges_contain (portRanges ps) p \<longleftrightarrow> p \<in> set ps) \<and>
    (\<forall>r\<in>set (portRanges ps). pr_First r \<le> pr_Last r) \<and> sorted_wrt separated (portRanges ps)"
  using portRanges_contain_ok [OF ascending_no_wrap [OF assms]] portRanges_first_last(2) [OF assms]
  by (auto simp: range_ok_def)

theorem port_ranges_exact_witness:
  "ranges_contain (portRanges [0, 22, 23, 65535]) 23 \<and> \<not> ranges_contain (portRanges [0, 22, 23, 65535]) 24"
proof -
  have "sorted_wrt (<) [0, 22, 23, 65535 :: u16]" by simp
  from port_ranges_exact [OF this] show ?thesis by simp
qed


section \<open>Specifications\<close>

text \<open>Text of printable ASCII characters has no white space to trim.\<close>

definition graphic :: "char \<Rightarrow> bool" where
  "graphic c \<longleftrightarrow> 32 < (of_char c :: nat) \<and> (of_char c :: nat) < 127"

lemma spaces_ends: "p \<in> set spaces \<Longrightarrow> \<not> graphic (hd p) \<and> \<not> graphic (last p)"
  by (auto simp: spaces_def graphic_def upt_rec)

lemma TrimSpace_graphic:
  assumes "s = [] \<or> (graphic (hd s) \<and> graphic (last s))"
  shows "TrimSpace s = s"
proof -
  have l: "find (\<lambda>p. HasPrefix s p) spaces = None"
  proof (rule ccontr)
    assume "find (\<lambda>p. HasPrefix s p) spaces \<noteq> None"
    then obtain p where p: "p \<in> set spaces" "HasPrefix s p" by (auto simp: find_None_iff)
    then have "p \<noteq> []" using spaces_nonempty by blast
    moreover obtain t where "s = p @ t" using p(2) by (auto simp: HasPrefix_iff)
    ultimately show False using assms spaces_ends [OF p(1)] by auto
  qed
  have r: "find (\<lambda>p. HasSuffix s p) spaces = None"
  proof (rule ccontr)
    assume "find (\<lambda>p. HasSuffix s p) spaces \<noteq> None"
    then obtain p where p: "p \<in> set spaces" "HasSuffix s p" by (auto simp: find_None_iff)
    then have "p \<noteq> []" using spaces_nonempty by blast
    moreover obtain t where "s = t @ p" using p(2) by (auto simp: HasSuffix_iff)
    ultimately show False using assms spaces_ends [OF p(1)] by auto
  qed
  from l have "TrimLeft s = s" by (subst TrimLeft.simps) simp
  moreover from r have "TrimRight s = s" by (subst TrimRight.simps) simp
  ultimately show ?thesis by (simp add: TrimSpace_def)
qed

text \<open>The specifications the manual describes, what they mean, and their text.\<close>

datatype port_item = AllPorts | OnePort u16 | PortSpan u16 u16 | NamedService string

fun item_text :: "port_item \<Rightarrow> string" where
  "item_text AllPorts = ''all''"
| "item_text (OnePort p) = itoa (unat p)"
| "item_text (PortSpan p q) = itoa (unat p) @ ''-'' @ itoa (unat q)"
| "item_text (NamedService s) = s"

fun item_ports :: "port_item \<Rightarrow> u16 set" where
  "item_ports AllPorts = {p. p \<noteq> 0}"
| "item_ports (OnePort p) = {p}"
| "item_ports (PortSpan p q) = {min p q .. max p q}"
| "item_ports (NamedService s) = {}"

fun item_services :: "port_item \<Rightarrow> string set" where
  "item_services (NamedService s) = {s}"
| "item_services _ = {}"

fun item_ok :: "bool \<Rightarrow> port_item \<Rightarrow> bool" where
  "item_ok ssh (NamedService s) \<longleftrightarrow> s = ''exit-node'' \<or> (ssh \<and> s \<in> {''no-auth-ssh'', ''files''})"
| "item_ok ssh _ \<longleftrightarrow> True"

fun join_items :: "string list \<Rightarrow> string" where
  "join_items [] = []"
| "join_items [w] = w"
| "join_items (w # ws) = w @ CHR '','' # join_items ws"

lemma add_ports_interval:
  assumes "lo \<le> hi" "hi \<le> 65535"
  shows "add_ports lo hi ret = ret \<union> {p. lo \<le> unat p \<and> unat p \<le> hi}"
proof -
  have "word_of_nat ` {lo..<Suc hi} = {p :: u16. lo \<le> unat p \<and> unat p \<le> hi}"
  proof (intro equalityI subsetI)
    fix p :: u16 assume "p \<in> {p. lo \<le> unat p \<and> unat p \<le> hi}"
    then show "p \<in> word_of_nat ` {lo..<Suc hi}" by (intro image_eqI [of _ _ "unat p"]) auto
  qed (use assms in \<open>auto simp: unat_of_nat\<close>)
  then show ?thesis unfolding add_ports_def set_map set_upt by simp
qed

lemma numRx_itoa: "numRx (itoa n)"
  using itoa_digits [of n] by (simp add: numRx_def)

lemma digit_text: "list_all is_digit s \<Longrightarrow> s \<noteq> [] \<Longrightarrow> s \<notin> {''all'', ''no-auth-ssh'', ''files'', ''exit-node''} \<and> CHR ''-'' \<notin> set s"
  by (auto simp: is_digit_def list_all_iff)

lemma ParseUint16_itoa: "ParseUint16 (itoa (unat (p :: u16))) = Some (unat p)"
  using unsigned_less [of p, where 'a = nat] by (simp add: ParseUint16_def numRx_itoa digits_value_itoa)

lemma Cut_span: "Cut (itoa a @ CHR ''-'' # itoa b) CHR ''-'' = (itoa a, itoa b)"
  using digit_text [of "itoa a"] itoa_digits [of a] by (intro Cut_append) simp

lemma span_not_named:
  "itoa a @ CHR ''-'' # t \<notin> {''all'', ''no-auth-ssh'', ''files'', ''exit-node''}"
proof -
  obtain c r where c: "itoa a = c # r" using itoa_digits [of a] by (cases "itoa a") auto
  then have "is_digit c" using itoa_digits [of a] by simp
  then show ?thesis using c by (auto simp: is_digit_def)
qed

lemma unat_le65535: "unat (p :: u16) \<le> 65535"
  using unsigned_less [of p, where 'a = nat] by simp

lemma parse_item:
  assumes "item_ok ssh i"
  shows "parse_port_item ssh (item_text i) (ret, services) = Inr (ret \<union> item_ports i, services \<union> item_services i)"
proof (cases i)
  case AllPorts
  have "{p :: u16. 1 \<le> unat p \<and> unat p \<le> 65535} = {p. p \<noteq> 0}"
    using unat_le65535 by (auto simp: Suc_le_eq unat_gt_0)
  then show ?thesis using AllPorts add_ports_interval [of 1 65535 ret] by (simp add: parse_port_item_def)
next
  case (OnePort p)
  have "{q :: u16. unat p \<le> unat q \<and> unat q \<le> unat p} = {p}" by (auto simp: word_unat_eq_iff)
  then show ?thesis
    using OnePort digit_text [of "itoa (unat p)"] itoa_digits [of "unat p"] numRx_itoa [of "unat p"] ParseUint16_itoa [of p]
      add_ports_interval [of "unat p" "unat p" ret] unat_le65535 [of p]
    by (simp add: parse_port_item_def portRangeRx_def)
next
  case (PortSpan p q)
  have iv: "{r :: u16. min (unat p) (unat q) \<le> unat r \<and> unat r \<le> max (unat p) (unat q)} = {min p q .. max p q}"
    by (auto simp: word_le_nat_alt min_def max_def)
  have ap: "add_ports (min (unat p) (unat q)) (max (unat p) (unat q)) ret = ret \<union> {min p q .. max p q}"
    using add_ports_interval [of "min (unat p) (unat q)" "max (unat p) (unat q)" ret] unat_le65535 [of p] unat_le65535 [of q]
    unfolding iv by simp
  have rx: "portRangeRx (itoa (unat p) @ CHR ''-'' # itoa (unat q))"
    by (simp add: portRangeRx_def Cut_span numRx_itoa)
  have ne: "itoa (unat q) \<noteq> []" using itoa_digits by simp
  have nn: "itoa (unat p) @ CHR ''-'' # itoa (unat q) \<noteq> ''all''" "itoa (unat p) @ CHR ''-'' # itoa (unat q) \<noteq> ''no-auth-ssh''"
    "itoa (unat p) @ CHR ''-'' # itoa (unat q) \<noteq> ''files''" "itoa (unat p) @ CHR ''-'' # itoa (unat q) \<noteq> ''exit-node''"
    using span_not_named [of "unat p" "itoa (unat q)"] by auto
  have sw: "(let (lo, hi) = (if unat q < unat p then (unat q, unat p) else (unat p, unat q)) in
      Inr (add_ports lo hi ret, services)) = (Inr (ret \<union> {min p q .. max p q}, services) :: port_error + _)"
    using ap by (simp add: min_def max_def split: if_splits)
  show ?thesis
    unfolding PortSpan item_text.simps append.simps parse_port_item_def
    using rx ne nn sw by (simp add: Cut_span ParseUint16_itoa)
next
  case (NamedService s)
  then show ?thesis using assms by (auto simp: parse_port_item_def)
qed

lemma item_text_plain:
  assumes "item_ok ssh i"
  shows "item_text i \<noteq> []" "list_all graphic (item_text i)" "CHR '','' \<notin> set (item_text i)"
proof -
  have d: "graphic c \<and> c \<noteq> CHR '',''" if "is_digit c" for c
    using that by (auto simp: is_digit_def graphic_def Let_def)
  have "list_all (\<lambda>c. graphic c \<and> c \<noteq> CHR '','') (itoa n)" for n
    using itoa_digits [of n] d by (auto simp: list_all_iff)
  then have "item_text i \<noteq> [] \<and> list_all (\<lambda>c. graphic c \<and> c \<noteq> CHR '','') (item_text i)"
    using assms itoa_digits by (cases i) (auto simp: graphic_def)
  then show "item_text i \<noteq> []" "list_all graphic (item_text i)" "CHR '','' \<notin> set (item_text i)"
    by (auto simp: list_all_iff)
qed

lemma graphic_TrimSpace: "list_all graphic s \<Longrightarrow> TrimSpace s = s"
  by (rule TrimSpace_graphic) (cases "s = []", auto simp: list_all_iff)

lemma split_join_items:
  assumes "ws \<noteq> []" "\<forall>w\<in>set ws. CHR '','' \<notin> set w"
  shows "split_on CHR '','' (join_items ws) = ws"
  using assms by (induction ws rule: join_items.induct) (auto simp: split_on_append split_on_absent)

lemma parse_items:
  assumes "\<forall>i\<in>set its. item_ok ssh i"
  shows "parse_port_items ssh (map item_text its) (ret, services) =
    Inr (ret \<union> (\<Union>i\<in>set its. item_ports i), services \<union> (\<Union>i\<in>set its. item_services i))"
  using assms
proof (induction its arbitrary: ret services)
  case (Cons i its)
  have "TrimSpace (item_text i) = item_text i" using graphic_TrimSpace item_text_plain(2) Cons.prems by auto
  then show ?case using Cons.prems Cons.IH parse_item [of ssh i ret services] by (simp add: Un_assoc)
qed simp

lemma join_items_graphic:
  "\<forall>w\<in>set ws. list_all graphic w \<Longrightarrow> list_all graphic (join_items ws)"
  by (induction ws rule: join_items.induct) (auto simp: graphic_def)

lemma join_items_nonempty: "ws \<noteq> [] \<Longrightarrow> \<forall>w\<in>set ws. w \<noteq> [] \<Longrightarrow> join_items ws \<noteq> []"
  by (induction ws rule: join_items.induct) auto

lemma parsePortSet_items:
  assumes "its \<noteq> []" "\<forall>i\<in>set its. item_ok ssh i"
  shows "parsePortSet ssh (join_items (map item_text its)) =
    Inr (\<Union>i\<in>set its. item_ports i, \<Union>i\<in>set its. item_services i)"
proof -
  let ?ws = "map item_text its"
  have w: "\<forall>w\<in>set ?ws. w \<noteq> []" "\<forall>w\<in>set ?ws. list_all graphic w" "\<forall>w\<in>set ?ws. CHR '','' \<notin> set w"
    using assms(2) item_text_plain by auto
  have "join_items ?ws \<noteq> []" using w(1) assms(1) by (intro join_items_nonempty) simp_all
  then show ?thesis
    using parse_items [OF assms(2), of "{}" "{}"] split_join_items [of ?ws] w(3) assms(1)
      graphic_TrimSpace [OF join_items_graphic [OF w(2)]]
    by (simp add: parsePortSet_def)
qed

text \<open>
  The \<^verbatim>\<open>--serve\<close> language. A comma-separated list of ports, ranges (in either direction), \<^verbatim>\<open>all\<close> and the named
  services parses to exactly the ports and services it lists: \<^verbatim>\<open>all\<close> is every port but 0, a range includes both
  ends, and the services that need SSH are accepted only where the binary has it.
\<close>
theorem port_spec_roundtrip:
  assumes "its \<noteq> []" "\<forall>i\<in>set its. item_ok ssh i"
  shows "parsePortSet ssh (join_items (map item_text its)) =
    Inr (\<Union>i\<in>set its. item_ports i, \<Union>i\<in>set its. item_services i)"
  by (rule parsePortSet_items [OF assms])

theorem port_spec_roundtrip_witness:
  "parsePortSet True (join_items (map item_text [PortSpan 9000 8998, NamedService ''files''])) =
    Inr ({8998..9000}, {''files''})"
proof -
  have "min 9000 8998 = (8998 :: u16)" "max 9000 8998 = (9000 :: u16)" by (simp_all add: min_def max_def)
  then show ?thesis
    using port_spec_roundtrip [of "[PortSpan 9000 8998, NamedService ''files'']" True] by simp
qed

end
