(* ===== verification/Meow.thy ===== *)
theory Meow
  imports Core Derp_Map Ports "HOL-Library.List_Lexorder" "HOL-Library.Char_ord" "HOL-Library.Product_Lexorder"
begin

text \<open>
  The original DERP transport: its handshake packets (\<^verbatim>\<open>disco.go\<close>) and the backend that both ends share
  (\<^verbatim>\<open>locoBackend\<close> of \<^verbatim>\<open>tailcat.go\<close>), with the callbacks by which a server learns its clients. The WireGuard engine,
  magicsock and netstack are libraries: what the backend tells them is a list of effects.
\<close>

section \<open>Handshake packets\<close>

text \<open>\<open>DiscoAppendTo\<close> and \<open>DiscoFromRaw32\<close> are the raw form of disco keys, of 32 bytes.\<close>

record 'd disco_raw_api =
  DiscoAppendTo :: "'d \<Rightarrow> bytes"
  DiscoFromRaw32 :: "bytes \<Rightarrow> 'd"
  RawDiscoIsZero :: "'d \<Rightarrow> bool"

definition DiscoPublicRawLen :: nat where [go_consts]: "DiscoPublicRawLen = 32"

definition disco_raw_laws :: "'d disco_raw_api \<Rightarrow> bool" where
  "disco_raw_laws D \<longleftrightarrow> (\<forall>d. length (DiscoAppendTo D d) = DiscoPublicRawLen \<and> DiscoFromRaw32 D (DiscoAppendTo D d) = d)"

definition raw_disco_bytes :: "raw_key disco_raw_api" where
  "raw_disco_bytes = \<lparr>DiscoAppendTo = (\<lambda>d. be_put 32 (unat d)), DiscoFromRaw32 = (\<lambda>b. word_of_nat (be_get b)),
     RawDiscoIsZero = (\<lambda>d. d = 0)\<rparr>"

definition meowMagic :: bytes where "meowMagic = [0x6D, 0x65, 0x6F, 0x77]"
definition meowTypePing :: byte where "meowTypePing = 1"
definition meowTypePong :: byte where "meowTypePong = 2"

definition IsMeowPacket :: "bytes \<Rightarrow> bool" where
  "IsMeowPacket pkt \<longleftrightarrow> 4 \<le> length pkt \<and> take 4 pkt = meowMagic"

definition EncodeMeowPing :: "'k node_key_api \<Rightarrow> 'd disco_raw_api \<Rightarrow> 'k \<Rightarrow> 'd \<Rightarrow> bytes" where
  "EncodeMeowPing K D nodeKey discoKey = meowMagic @ [meowTypePing] @ AppendTo K nodeKey @ DiscoAppendTo D discoKey"

definition EncodeMeowed :: bytes where "EncodeMeowed = meowMagic @ [meowTypePong]"

definition ParseMeowPing :: "'k node_key_api \<Rightarrow> 'd disco_raw_api \<Rightarrow> bytes \<Rightarrow> ('k \<times> 'd) option" where
  "ParseMeowPing K D pkt =
     (if length pkt < 4 + 1 + NodePublicRawLen + DiscoPublicRawLen then None
      else if pkt ! 4 \<noteq> meowTypePing then None
      else let discoKey = DiscoFromRaw32 D (slice (5 + NodePublicRawLen) (5 + NodePublicRawLen + DiscoPublicRawLen) pkt) in
        if RawDiscoIsZero D discoKey then None
        else Some (FromRaw32 K (slice 5 (5 + NodePublicRawLen) pkt), discoKey))"

definition IsMeowedPacket :: "bytes \<Rightarrow> bool" where
  "IsMeowedPacket pkt \<longleftrightarrow> 5 \<le> length pkt \<and> take 4 pkt = meowMagic \<and> pkt ! 4 = meowTypePong"

section \<open>The backend\<close>

type_synonym prefix = "bytes \<times> nat"

record ('k, 'd) tc_node =
  n_ID :: nat
  n_Name :: string
  n_Key :: 'k
  n_DiscoKey :: 'd
  n_Addresses :: "prefix list"
  n_AllowedIPs :: "prefix list"
  n_HomeDERP :: int

record ('k, 'd) network_map =
  nm_SelfNode :: "('k, 'd) tc_node"
  nm_Peers :: "('k, 'd) tc_node list"

text \<open>\<open>lb_serverPub\<close> is the server's key at a client and \<open>None\<close>, the zero key, at a server; a nil allowlist is \<open>None\<close>.\<close>

record ('k, 'd) locoBackend =
  lb_pub :: 'k
  lb_disco :: 'd
  lb_serverPub :: "'k option"
  lb_dm :: derp_map
  lb_clients :: "('k, ('k, 'd) tc_node) gomap"
  lb_nm :: "('k, 'd) network_map option"
  lb_allowedClients :: "('k, bool) gomap option"
  lb_eps :: "addr_port list"

definition allIPv6 :: prefix where "allIPv6 = (replicate 16 0, 0)"

definition pfxOf :: "addr \<Rightarrow> prefix" where "pfxOf a = (fst a, 8 * length (fst a))"

definition newLocoBackend :: "'k \<Rightarrow> 'd \<Rightarrow> ('k, 'd) locoBackend" where
  "newLocoBackend pub disco = \<lparr>lb_pub = pub, lb_disco = disco, lb_serverPub = None, lb_dm = [], lb_clients = [], lb_nm = None,
     lb_allowedClients = None, lb_eps = []\<rparr>"

text \<open>The first region of the map, in the order it is visited; \<open>None\<close> is the panic.\<close>

definition derpRegionID :: "('k, 'd) locoBackend \<Rightarrow> int option" where
  "derpRegionID b = (case lb_dm b of [] \<Rightarrow> None | (_, r) # _ \<Rightarrow> Some (dr_RegionID r))"

definition peerAllowedIPs :: "'k node_key_api \<Rightarrow> 'k \<Rightarrow> ('k, 'd) locoBackend \<Rightarrow> prefix list option" where
  "peerAllowedIPs K k b =
     (case lb_serverPub b of
        Some server \<Rightarrow> if k = server then Some [pfxOf (tcAddrForKey K k), allIPv6] else None
      | None \<Rightarrow> map_option n_AllowedIPs (map_of (lb_clients b) k))"

definition peerByIP :: "'k node_key_api \<Rightarrow> addr \<Rightarrow> ('k, 'd) locoBackend \<Rightarrow> 'k option" where
  "peerByIP K dst b =
     (case lb_serverPub b of
        Some server \<Rightarrow> Some server
      | None \<Rightarrow> find (\<lambda>k. tcAddrForKey K k = dst) (map fst (lb_clients b)))"

definition nodeHasAddr :: "('k, 'd) tc_node \<Rightarrow> addr \<Rightarrow> bool" where
  "nodeHasAddr n ip = list_ex (\<lambda>pfx. (fst pfx, []) = ip) (n_Addresses n)"

definition peerForIP :: "addr \<Rightarrow> ('k, 'd) locoBackend \<Rightarrow> (('k, 'd) tc_node \<times> bool) option" where
  "peerForIP ip b =
     (case lb_nm b of
        None \<Rightarrow> None
      | Some nm \<Rightarrow>
          if nodeHasAddr (nm_SelfNode nm) ip then Some (nm_SelfNode nm, True)
          else map_option (\<lambda>p. (p, False)) (find (\<lambda>p. nodeHasAddr p ip) (nm_Peers nm)))"

subsection \<open>Endpoints\<close>

text \<open>\<^verbatim>\<open>netip.AddrPort.Compare\<close>: the family, the bytes, the zone, and then the port.\<close>

definition ep_key :: "addr_port \<Rightarrow> nat \<times> nat \<times> string \<times> nat" where
  "ep_key ep = (length (fst (fst ep)), be_get (fst (fst ep)), snd (fst ep), unat (snd ep))"

text \<open>The result says whether the endpoints are advertised.\<close>

definition onEngineStatus :: "addr_port list option \<Rightarrow> ('k, 'd) locoBackend \<Rightarrow> ('k, 'd) locoBackend \<times> bool" where
  "onEngineStatus st b =
     (case st of
        None \<Rightarrow> (b, False)
      | Some localAddrs \<Rightarrow>
          let eps = remdups_adj (sort_key ep_key localAddrs); changed = (eps \<noteq> lb_eps b) in
          (if changed then b\<lparr>lb_eps := eps\<rparr> else b, changed \<and> eps \<noteq> []))"

text \<open>The packets \<^verbatim>\<open>advertiseEndpoints\<close> sends: \<open>marshal\<close> is the CallMeMaybe message and \<open>seal\<close> the encryption to a peer's disco key.\<close>

definition advertiseEndpoints ::
  "'d disco_raw_api \<Rightarrow> bytes \<Rightarrow> (addr_port list \<Rightarrow> bytes) \<Rightarrow> ('d \<Rightarrow> bytes \<Rightarrow> bytes) \<Rightarrow> bool \<Rightarrow> ('k, 'd) locoBackend \<Rightarrow> ('k \<times> bytes) list" where
  "advertiseEndpoints D magic marshal seal js b =
     (let peers = (case lb_nm b of None \<Rightarrow> [] | Some nm \<Rightarrow> nm_Peers nm) in
      if js \<or> lb_eps b = [] \<or> peers = [] then []
      else map (\<lambda>p. (n_Key p, magic @ DiscoAppendTo D (lb_disco b) @ seal (n_DiscoKey p) (marshal (lb_eps b)))) peers)"

subsection \<open>Admission\<close>

definition server_node :: "'k node_key_api \<Rightarrow> int \<Rightarrow> 'k \<Rightarrow> 'd \<Rightarrow> ('k, 'd) tc_node" where
  "server_node K region pub disco =
     \<lparr>n_ID = 1, n_Name = ''server.tailcat.'', n_Key = pub, n_DiscoKey = disco, n_Addresses = [pfxOf (tcAddrForKey K pub)],
      n_AllowedIPs = [pfxOf (tcAddrForKey K pub), allIPv6], n_HomeDERP = region\<rparr>"

definition client_node :: "'k node_key_api \<Rightarrow> int \<Rightarrow> nat \<Rightarrow> 'k \<Rightarrow> 'd \<Rightarrow> ('k, 'd) tc_node" where
  "client_node K region i src disco =
     \<lparr>n_ID = i, n_Name = ''client'' @ itoa i @ ''.tailcat.'', n_Key = src, n_DiscoKey = disco,
      n_Addresses = [pfxOf (tcAddrForKey K src)], n_AllowedIPs = [pfxOf (tcAddrForKey K src)], n_HomeDERP = region\<rparr>"

text \<open>\<open>None\<close> is the panic of a backend without a region.\<close>

definition onMeow ::
  "'k node_key_api \<Rightarrow> 'k \<Rightarrow> 'd \<Rightarrow> ('k, 'd) locoBackend \<Rightarrow> (('k, 'd) locoBackend \<times> bool) option" where
  "onMeow K src discoPub b =
     (if (case lb_allowedClients b of None \<Rightarrow> False | Some l \<Rightarrow> map_of l src \<noteq> Some True) then Some (b, False)
      else if map_of (lb_clients b) src \<noteq> None then Some (b, True)
      else let i = length (lb_clients b) + 2 in
        case derpRegionID b of
          None \<Rightarrow> None
        | Some region \<Rightarrow>
            let clients = AList.update src (client_node K region i src discoPub) (lb_clients b);
                nm = \<lparr>nm_SelfNode = server_node K region (lb_pub b) (lb_disco b), nm_Peers = sort_key n_ID (map snd clients)\<rparr>
            in Some (b\<lparr>lb_clients := clients, lb_nm := Some nm\<rparr>, True))"

definition lb_AddAllowedClient :: "'k \<Rightarrow> ('k, 'd) locoBackend \<Rightarrow> ('k, 'd) locoBackend" where
  "lb_AddAllowedClient k b =
     b\<lparr>lb_allowedClients := Some (AList.update k True (case lb_allowedClients b of None \<Rightarrow> [] | Some l \<Rightarrow> l))\<rparr>"

text \<open>The network map \<^verbatim>\<open>locoBackend.Start\<close> installs at either end; \<open>None\<close> is the panic.\<close>

definition lb_Start :: "'k node_key_api \<Rightarrow> 'd \<Rightarrow> ('k, 'd) locoBackend \<Rightarrow> ('k, 'd) locoBackend option" where
  "lb_Start K serverDisco b =
     (case derpRegionID b of
        None \<Rightarrow> None
      | Some region \<Rightarrow>
          Some (b\<lparr>lb_nm := Some
            (case lb_serverPub b of
               None \<Rightarrow> \<lparr>nm_SelfNode = server_node K region (lb_pub b) (lb_disco b), nm_Peers = []\<rparr>
             | Some server \<Rightarrow>
                 \<lparr>nm_SelfNode = \<lparr>n_ID = 2, n_Name = ''client.tailcat.'', n_Key = lb_pub b, n_DiscoKey = lb_disco b,
                     n_Addresses = [pfxOf (tcAddrForKey K (lb_pub b))], n_AllowedIPs = [], n_HomeDERP = region\<rparr>,
                  nm_Peers = [server_node K region server serverDisco]\<rparr>)\<rparr>))"

subsection \<open>DERP packets\<close>

text \<open>
  The callbacks for packets that are not disco packets. Each returns whether the packet was consumed; the server's also
  starts a goroutine for a valid ping, and the client's one that acknowledges.
\<close>

datatype 'd server_recv = PassOn | Consume | StartMeow 'd

definition server_onDERPRecv :: "'k node_key_api \<Rightarrow> 'd disco_raw_api \<Rightarrow> bytes \<Rightarrow> 'd server_recv" where
  "server_onDERPRecv K D pkt =
     (if \<not> IsMeowPacket pkt then PassOn
      else if IsMeowedPacket pkt then Consume
      else case ParseMeowPing K D pkt of
             Some (_, discoPub) \<Rightarrow> StartMeow discoPub
           | None \<Rightarrow> PassOn)"

text \<open>The goroutine: the reply, if any, goes to the DERP source.\<close>

definition server_meow ::
  "'k node_key_api \<Rightarrow> 'k \<Rightarrow> 'd \<Rightarrow> ('k, 'd) locoBackend \<Rightarrow> (('k, 'd) locoBackend \<times> ('k \<times> bytes) list) option" where
  "server_meow K src discoPub b =
     (case onMeow K src discoPub b of
        None \<Rightarrow> None
      | Some (b', ok) \<Rightarrow> Some (b', if ok then [(src, EncodeMeowed)] else []))"

text \<open>At the client, \<open>waiting\<close> is whether \<^verbatim>\<open>meowWait\<close> is still open; the result is whether the packet was consumed and the
  channel's state once the goroutine has run. The source of the packet is not looked at.\<close>

definition client_onDERPRecv :: "'k \<Rightarrow> bytes \<Rightarrow> bool \<Rightarrow> bool \<times> bool" where
  "client_onDERPRecv src pkt waiting =
     (if \<not> IsMeowPacket pkt then (False, waiting)
      else if IsMeowedPacket pkt then (True, False)
      else (True, waiting))"

text \<open>\<^verbatim>\<open>Client.ping\<close>: what was sent, and the outcome of the \<^verbatim>\<open>select\<close> when the acknowledgement has or has not arrived.\<close>

datatype meow_result = MeowSendFailed | MeowNotSent | MeowTimeout | MeowPong time

definition client_ping :: "'k node_key_api \<Rightarrow> 'd disco_raw_api \<Rightarrow> bool option \<Rightarrow> bool \<Rightarrow> time \<Rightarrow> time \<Rightarrow> 'k \<Rightarrow> ('k, 'd) locoBackend \<Rightarrow>
   ('k \<times> bytes) list \<times> meow_result" where
  "client_ping K D sent waiting t0 now server b =
     (let pkt = EncodeMeowPing K D (lb_pub b) (lb_disco b) in
      case sent of
        None \<Rightarrow> ([], MeowSendFailed)
      | Some False \<Rightarrow> ([], MeowNotSent)
      | Some True \<Rightarrow> ([(server, pkt)], if waiting then MeowTimeout else MeowPong (now - t0)))"

subsection \<open>The packet filter\<close>

record filter_match =
  fm_Srcs :: "prefix list"
  fm_Dsts :: "(prefix \<times> PortRange) list"

definition allTCPPorts :: PortRange where "allTCPPorts = \<lparr>pr_First = 0, pr_Last = 65535\<rparr>"

text \<open>The TCP matches \<^verbatim>\<open>buildFilter\<close> installs and the addresses that are local to it.\<close>

definition buildFilter ::
  "'k node_key_api \<Rightarrow> PortRange list option \<Rightarrow> bool \<Rightarrow> ('k, 'd) locoBackend \<Rightarrow> filter_match list \<times> prefix list" where
  "buildFilter K servedPorts forwards b =
     (let addrPrefix = pfxOf (tcAddrForKey K (lb_pub b));
          selfPorts = (case servedPorts of None \<Rightarrow> [allTCPPorts] | Some ps \<Rightarrow> ps);
          own = \<lparr>fm_Srcs = [allIPv6], fm_Dsts = map (\<lambda>pr. (addrPrefix, pr)) selfPorts\<rparr>
      in if forwards
         then ([own, \<lparr>fm_Srcs = [allIPv6], fm_Dsts = [(allIPv6, allTCPPorts)]\<rparr>], [addrPrefix, allIPv6])
         else ([own], [addrPrefix]))"

text \<open>How the filter reads them for a new connection.\<close>

definition filter_admits :: "filter_match list \<times> prefix list \<Rightarrow> addr \<Rightarrow> addr \<Rightarrow> u16 \<Rightarrow> bool" where
  "filter_admits f src dst port =
     (case f of (matches, localNets) \<Rightarrow>
        list_ex (\<lambda>p. Prefix_Contains_bits p dst) localNets \<and>
        list_ex (\<lambda>m. list_ex (\<lambda>p. Prefix_Contains_bits p src) (fm_Srcs m) \<and>
          list_ex (\<lambda>(p, pr). Prefix_Contains_bits p dst \<and> pr_First pr \<le> port \<and> port \<le> pr_Last pr) (fm_Dsts m)) matches)"

text \<open>\<^verbatim>\<open>GetTCPHandlerForFlow\<close> of the server; every flow is intercepted.\<close>

definition server_tcp_flow ::
  "'k node_key_api \<Rightarrow> (u16 \<Rightarrow> 'h option) option \<Rightarrow> (addr_port \<Rightarrow> 'h option) option \<Rightarrow> addr_port \<Rightarrow> ('k, 'd) locoBackend \<Rightarrow> 'h option" where
  "server_tcp_flow K onTCP onTCPForward dst b =
     (if fst dst = tcAddrForKey K (lb_pub b) then (case onTCP of None \<Rightarrow> None | Some f \<Rightarrow> f (snd dst))
      else case onTCPForward of
        None \<Rightarrow> None
      | Some f \<Rightarrow> f (if Prefix_Contains nat64PrefixBytes 12 (fst dst) then ((drop 12 (fst (fst dst)), []), snd dst) else dst))"


section \<open>Handshake\<close>

lemma disco_raw_laws_bytes: "disco_raw_laws raw_disco_bytes"
  unfolding disco_raw_laws_def raw_disco_bytes_def go_consts by (simp add: raw_key_of_bytes del: be_put.simps)

lemma ping_is_meow:
  "IsMeowPacket (EncodeMeowPing K D k d)" "\<not> IsMeowedPacket (EncodeMeowPing K D k d)" "IsMeowPacket EncodeMeowed" "IsMeowedPacket EncodeMeowed"
  by (simp_all add: IsMeowPacket_def IsMeowedPacket_def EncodeMeowPing_def EncodeMeowed_def meowMagic_def meowTypePing_def meowTypePong_def)

lemma ParseMeowPing_Encode:
  assumes "key_laws K" "disco_raw_laws D" "\<not> RawDiscoIsZero D d"
  shows "ParseMeowPing K D (EncodeMeowPing K D k d) = Some (k, d)"
proof -
  have k: "length (AppendTo K k) = 32" "FromRaw32 K (AppendTo K k) = k" using key_lawsD(1,2) [OF assms(1)] by (simp_all add: go_consts)
  have d: "length (DiscoAppendTo D d) = 32" "DiscoFromRaw32 D (DiscoAppendTo D d) = d"
    using assms(2) by (simp_all add: disco_raw_laws_def go_consts)
  let ?p = "EncodeMeowPing K D k d"
  have p: "?p = (meowMagic @ [meowTypePing]) @ AppendTo K k @ DiscoAppendTo D d" by (simp add: EncodeMeowPing_def)
  have h: "length (meowMagic @ [meowTypePing]) = 5" by (simp add: meowMagic_def)
  have "slice 5 37 ?p = AppendTo K k" "slice 37 69 ?p = DiscoAppendTo D d"
    using k(1) d(1) h unfolding p slice_def by simp_all
  moreover have "?p ! 4 = meowTypePing" by (simp add: EncodeMeowPing_def meowMagic_def)
  moreover have "length ?p = 69" using k d h by (simp add: p)
  ultimately show ?thesis using k(2) d(2) assms(3) by (simp add: ParseMeowPing_def go_consts)
qed

lemma onMeow_admits:
  assumes "(case lb_allowedClients b of None \<Rightarrow> True | Some l \<Rightarrow> map_of l src = Some True)" "lb_dm b \<noteq> []"
  shows "\<exists>b'. onMeow K src d b = Some (b', True) \<and> map_of (lb_clients b') src \<noteq> None"
proof -
  obtain r where "derpRegionID b = Some r" using assms(2) by (cases "lb_dm b") (auto simp: derpRegionID_def)
  then show ?thesis using assms(1) by (auto simp: onMeow_def Let_def map_of_update split: option.splits)
qed

text \<open>
  The handshake of the original transport. The ping a client encodes is recognised by the server; if the client is
  admitted, the server has it as a peer before it acknowledges, the acknowledgement goes to that client only, and the
  client's wait ends with it. A server with an allowlist the client is not on stays silent and unchanged.
\<close>
theorem meow_handshake:
  assumes "key_laws K" "disco_raw_laws D" "\<not> RawDiscoIsZero D (lb_disco cl)" "lb_dm b \<noteq> []"
  shows "server_onDERPRecv K D (EncodeMeowPing K D (lb_pub cl) (lb_disco cl)) = StartMeow (lb_disco cl) \<and>
    (if (case lb_allowedClients b of None \<Rightarrow> True | Some l \<Rightarrow> map_of l (lb_pub cl) = Some True)
     then \<exists>b'. server_meow K (lb_pub cl) (lb_disco cl) b = Some (b', [(lb_pub cl, EncodeMeowed)]) \<and> map_of (lb_clients b') (lb_pub cl) \<noteq> None
     else server_meow K (lb_pub cl) (lb_disco cl) b = Some (b, [])) \<and>
    client_onDERPRecv src EncodeMeowed waiting = (True, False)"
proof -
  let ?ok = "case lb_allowedClients b of None \<Rightarrow> True | Some l \<Rightarrow> map_of l (lb_pub cl) = Some True"
  have one: "server_onDERPRecv K D (EncodeMeowPing K D (lb_pub cl) (lb_disco cl)) = StartMeow (lb_disco cl)"
    using ParseMeowPing_Encode [OF assms(1-3), of "lb_pub cl"] ping_is_meow(1,2) [of K D "lb_pub cl" "lb_disco cl"] by (simp add: server_onDERPRecv_def)
  have three: "client_onDERPRecv src EncodeMeowed waiting = (True, False)" by (simp add: client_onDERPRecv_def ping_is_meow)
  show ?thesis
  proof (cases ?ok)
    case True
    obtain b' where "onMeow K (lb_pub cl) (lb_disco cl) b = Some (b', True)" "map_of (lb_clients b') (lb_pub cl) \<noteq> None"
      using onMeow_admits [OF True assms(4)] by blast
    then show ?thesis using one three True by (auto simp: server_meow_def)
  next
    case False
    then have "onMeow K (lb_pub cl) (lb_disco cl) b = Some (b, False)" by (auto simp: onMeow_def split: option.splits)
    then show ?thesis using one three False by (simp add: server_meow_def)
  qed
qed

definition sample_backend :: "raw_key \<Rightarrow> (raw_key, raw_key) locoBackend" where
  "sample_backend k = (newLocoBackend k 9)\<lparr>lb_dm := [(1, \<lparr>dr_RegionID = 1, dr_RegionCode = [], dr_RegionName = [], dr_Nodes = []\<rparr>)]\<rparr>"

theorem meow_handshake_witness:
  "\<exists>b'. server_meow raw_keys 5 9 (sample_backend 4) = Some (b', [(5, EncodeMeowed)]) \<and> map_of (lb_clients b') 5 \<noteq> None"
  using meow_handshake [OF key_laws_raw_keys disco_raw_laws_bytes, of "sample_backend 5" "sample_backend 4" 0 False]
  by (auto simp: sample_backend_def newLocoBackend_def raw_disco_bytes_def)

section \<open>Clients\<close>

text \<open>What can happen to a server's backend.\<close>

inductive loco_reachable :: "'k node_key_api \<Rightarrow> ('k, 'd) locoBackend \<Rightarrow> ('k, 'd) locoBackend \<Rightarrow> bool" for K b0 where
  lr_start: "loco_reachable K b0 b0"
| lr_meow: "loco_reachable K b0 b \<Longrightarrow> onMeow K src d b = Some (b', ok) \<Longrightarrow> loco_reachable K b0 b'"
| lr_allow: "loco_reachable K b0 b \<Longrightarrow> loco_reachable K b0 (lb_AddAllowedClient k b)"
| lr_status: "loco_reachable K b0 b \<Longrightarrow> onEngineStatus st b = (b', adv) \<Longrightarrow> loco_reachable K b0 b'"

definition loco_clients_ok :: "'k node_key_api \<Rightarrow> ('k, 'd) locoBackend \<Rightarrow> bool" where
  "loco_clients_ok K b \<longleftrightarrow>
     lb_serverPub b = None \<and> gomap_ok (lb_clients b) \<and>
     map (\<lambda>e. n_ID (snd e)) (lb_clients b) = [2..<length (lb_clients b) + 2] \<and>
     (\<forall>k n. (k, n) \<in> set (lb_clients b) \<longrightarrow> n_Key n = k \<and> n_AllowedIPs n = [pfxOf (tcAddrForKey K k)] \<and>
        n_Addresses n = [pfxOf (tcAddrForKey K k)]) \<and>
     (case lb_nm b of None \<Rightarrow> lb_clients b = [] | Some nm \<Rightarrow> nm_Peers nm = map snd (lb_clients b))"

definition allowlist_kept :: "('k, 'd) locoBackend \<Rightarrow> bool" where
  "allowlist_kept b \<longleftrightarrow> (case lb_allowedClients b of None \<Rightarrow> False
     | Some l \<Rightarrow> \<forall>k \<in> fst ` set (lb_clients b). map_of l k = Some True)"

lemma onMeow_cases:
  assumes "onMeow K src d b = Some (b', ok)"
  obtains (unchanged) "b' = b"
  | (added) r where "map_of (lb_clients b) src = None"
      "case lb_allowedClients b of None \<Rightarrow> True | Some l \<Rightarrow> map_of l src = Some True"
      "b' = b\<lparr>lb_clients := lb_clients b @ [(src, client_node K r (length (lb_clients b) + 2) src d)],
         lb_nm := Some \<lparr>nm_SelfNode = server_node K r (lb_pub b) (lb_disco b),
           nm_Peers = sort_key n_ID (map snd (lb_clients b) @ [client_node K r (length (lb_clients b) + 2) src d])\<rparr>\<rparr>"
proof -
  have "AList.update src v (lb_clients b) = lb_clients b @ [(src, v)]" if "map_of (lb_clients b) src = None" for v
    using that by (intro update_absent) (simp add: map_of_eq_None_iff)
  then show thesis using assms unchanged added
    by (auto simp: onMeow_def Let_def split: option.splits if_splits)
qed

lemma sorted_ids:
  assumes "map (\<lambda>e. n_ID (snd e)) cs = [2..<length cs + 2]" "n_ID x = length cs + 2"
  shows "sort_key n_ID (map snd cs @ [x]) = map snd cs @ [x]"
proof -
  have "map n_ID (map snd cs @ [x]) = [2..<length cs + 3]"
    using assms by (simp add: comp_def numeral_3_eq_3)
  then have "sorted (map n_ID (map snd cs @ [x]))" by (simp only: sorted_upt)
  then show ?thesis by (rule sort_key_id_if_sorted)
qed

lemma onMeow_ok:
  assumes "onMeow K src d b = Some (b', ok)" "loco_clients_ok K b"
  shows "loco_clients_ok K b'"
  using assms(1)
proof (cases rule: onMeow_cases)
  case unchanged
  then show ?thesis using assms(2) by simp
next
  case (added r)
  have "src \<notin> fst ` set (lb_clients b)" using added(1) by (simp add: map_of_eq_None_iff)
  moreover have "sort_key n_ID (map snd (lb_clients b) @ [client_node K r (length (lb_clients b) + 2) src d]) =
      map snd (lb_clients b) @ [client_node K r (length (lb_clients b) + 2) src d]"
    using assms(2) by (intro sorted_ids) (simp_all add: loco_clients_ok_def client_node_def)
  ultimately show ?thesis
    using assms(2) unfolding added(3) by (auto simp: loco_clients_ok_def gomap_ok_def client_node_def)
qed

lemma onMeow_allowlist:
  assumes "onMeow K src d b = Some (b', ok)" "allowlist_kept b"
  shows "allowlist_kept b'"
  using assms(1)
proof (cases rule: onMeow_cases)
  case unchanged
  then show ?thesis using assms(2) by simp
next
  case (added r)
  then show ?thesis using assms(2) by (auto simp: allowlist_kept_def split: option.splits)
qed

lemma onEngineStatus_same:
  assumes "onEngineStatus st b = (b', adv)"
  shows "lb_clients b' = lb_clients b" "lb_nm b' = lb_nm b" "lb_serverPub b' = lb_serverPub b" "lb_allowedClients b' = lb_allowedClients b"
  using assms by (auto simp: onEngineStatus_def Let_def split: option.splits if_splits)

lemma loco_cong:
  assumes "lb_clients b' = lb_clients b"
  shows "lb_nm b' = lb_nm b \<Longrightarrow> lb_serverPub b' = lb_serverPub b \<Longrightarrow> loco_clients_ok K b' = loco_clients_ok K b"
    "lb_allowedClients b' = lb_allowedClients b \<Longrightarrow> allowlist_kept b' = allowlist_kept b"
  unfolding loco_clients_ok_def allowlist_kept_def assms by (simp_all only:)

lemma loco_clients_kept: "loco_reachable K b0 b \<Longrightarrow> loco_clients_ok K b0 \<Longrightarrow> loco_clients_ok K b"
proof (induction rule: loco_reachable.induct)
  case (lr_meow b src d b' ok)
  show ?case by (rule onMeow_ok [OF lr_meow.hyps(2) lr_meow.IH [OF lr_meow.prems]])
next
  case (lr_allow b k)
  have "loco_clients_ok K (lb_AddAllowedClient k b) = loco_clients_ok K b"
    by (rule loco_cong(1)) (simp_all add: lb_AddAllowedClient_def)
  then show ?case using lr_allow.IH [OF lr_allow.prems] by blast
next
  case (lr_status b st b' adv)
  note same = onEngineStatus_same [OF lr_status.hyps(2)]
  show ?case using lr_status.IH [OF lr_status.prems] loco_cong(1) [OF same(1-3)] by blast
qed simp

lemma loco_allowlist_kept: "loco_reachable K b0 b \<Longrightarrow> allowlist_kept b0 \<Longrightarrow> allowlist_kept b"
proof (induction rule: loco_reachable.induct)
  case (lr_meow b src d b' ok)
  show ?case by (rule onMeow_allowlist [OF lr_meow.hyps(2) lr_meow.IH [OF lr_meow.prems]])
next
  case (lr_allow b k)
  then show ?case by (auto simp: allowlist_kept_def lb_AddAllowedClient_def map_of_update split: option.splits)
next
  case (lr_status b st b' adv)
  note same = onEngineStatus_same [OF lr_status.hyps(2)]
  show ?case using lr_status.IH [OF lr_status.prems] loco_cong(2) [OF same(1,4)] by blast
qed simp




section \<open>The packet filter\<close>

lemma be_get_inj: "length a = length b \<Longrightarrow> be_get a = be_get b \<longleftrightarrow> a = b"
  by (metis be_put_get)

lemma contains_all6: "Prefix_Contains_bits allIPv6 a \<longleftrightarrow> Is6 a \<and> snd a = []"
proof -
  have "be_get (fst a) < 2 ^ 128" if "length (fst a) = 16" using be_get_bound [of "fst a"] that by simp
  moreover have "be_get (replicate 16 (0 :: byte)) = 0" by (simp add: be_get_def numeral_eq_Suc)
  ultimately show ?thesis
    by (auto simp: Prefix_Contains_bits_def allIPv6_def addr_IsValid_def Is4_def Is6_def)
qed

lemma contains_own:
  assumes "Is6 x" "snd x = []"
  shows "Prefix_Contains_bits (pfxOf x) a \<longleftrightarrow> a = x"
  using assms be_get_inj [of "fst a" "fst x"]
  by (cases a; cases x) (auto simp: Prefix_Contains_bits_def pfxOf_def addr_IsValid_def Is4_def Is6_def)

lemma tcAddr_is6: "key_laws K \<Longrightarrow> Is6 (tcAddrForKey K k) \<and> snd (tcAddrForKey K k) = []"
  using key_lawsD(1) [of K k] by (simp add: tcAddrForKey_def Is6_def go_consts)

text \<open>
  What the packet filter of a legacy server lets in. A new TCP connection from an IPv6 address is admitted to the
  server's own address exactly for the served ports (all of them if none are named), and to any other IPv6 address
  exactly when the server forwards; nothing else is admitted.
\<close>
theorem legacy_filter_exact:
  assumes "key_laws K"
  shows "filter_admits (buildFilter K served forwards b) src dst port \<longleftrightarrow>
    Is6 src \<and> snd src = [] \<and>
    ((dst = tcAddrForKey K (lb_pub b) \<and> (case served of None \<Rightarrow> True | Some rs \<Rightarrow> ranges_contain rs port)) \<or>
     (forwards \<and> Is6 dst \<and> snd dst = []))"
proof -
  let ?own = "tcAddrForKey K (lb_pub b)"
  have own: "Is6 ?own" "snd ?own = []" using tcAddr_is6 [OF assms] by auto
  have top: "port \<le> 65535" by (simp add: word_le_nat_alt unat_le65535)
  show ?thesis
    using own top
    by (auto simp: filter_admits_def buildFilter_def Let_def contains_own [OF own] contains_all6 list_ex_iff ranges_contain_def
        allTCPPorts_def split: option.splits if_splits)
qed

theorem legacy_filter_exact_witness:
  "filter_admits (buildFilter raw_keys (Some [\<lparr>pr_First = 22, pr_Last = 22\<rparr>]) False (sample_backend 4))
     (tcAddrForKey raw_keys 5) (tcAddrForKey raw_keys 4) 22"
  using legacy_filter_exact [OF key_laws_raw_keys, of "Some [\<lparr>pr_First = 22, pr_Last = 22\<rparr>]" False "sample_backend 4"
      "tcAddrForKey raw_keys 5" "tcAddrForKey raw_keys 4" 22] tcAddr_is6 [OF key_laws_raw_keys]
  by (simp add: sample_backend_def newLocoBackend_def)

end
