(* ===== verification/Sftp.thy ===== *)
theory Sftp
  imports Go_Url
begin

text \<open>
  The SFTP file service (\<^verbatim>\<open>tailcat_sftp.go\<close>, \<^verbatim>\<open>tailcat_files.go\<close>): the request handlers over a directory opened with
  \<^verbatim>\<open>os.OpenRoot\<close>, in each of the three modes. The directory is a set of names for inodes, with symbolic and hard links.
  The SFTP library decodes requests, keeps the open files and calls \<^verbatim>\<open>ReadAt\<close> and \<^verbatim>\<open>WriteAt\<close> on them.
\<close>

section \<open>Paths\<close>

text \<open>\<^verbatim>\<open>path.Clean\<close>: the elements read so far are a stack.\<close>

fun clean_elems :: "bool \<Rightarrow> string list \<Rightarrow> string list \<Rightarrow> string list" where
  "clean_elems rooted st [] = rev st"
| "clean_elems rooted st (c # cs) =
     (if c = [] \<or> c = ''.'' then clean_elems rooted st cs
      else if c = ''..'' then
        (case st of
           [] \<Rightarrow> clean_elems rooted (if rooted then [] else [''..'']) cs
         | x # st' \<Rightarrow> clean_elems rooted (if x = ''..'' then ''..'' # st else st') cs)
      else clean_elems rooted (c # st) cs)"

fun join_path :: "string list \<Rightarrow> string" where
  "join_path [] = []"
| "join_path [c] = c"
| "join_path (c # cs) = c @ CHR ''/'' # join_path cs"

definition Clean :: "string \<Rightarrow> string" where
  "Clean path =
     (if path = [] then ''.''
      else let rooted = (hd path = CHR ''/''); out = join_path (clean_elems rooted [] (split_on CHR ''/'' path)) in
        if rooted then CHR ''/'' # out else if out = [] then ''.'' else out)"

definition rel :: "string \<Rightarrow> string" where
  "rel requestPath = (let p = TrimPrefix (Clean requestPath) ''/'' in if p = [] then ''.'' else p)"

section \<open>The directory\<close>

datatype node_kind = DirNode | FileNode bytes | LinkNode string

record inode =
  i_kind :: node_kind
  i_perm :: nat
  i_times :: "int \<times> int"

text \<open>Names are paths from the root, whose name is the empty list.\<close>

record root_fs =
  fs_names :: "(string list, nat) gomap"
  fs_inodes :: "(nat, inode) gomap"

datatype root_error = NotExist | AlreadyExists | PathEscapes | NotDirectory | IsDirectory | NotEmpty | TooManyLinks | InvalidArgument

definition node_at :: "root_fs \<Rightarrow> string list \<Rightarrow> inode option" where
  "node_at fs p = (case map_of (fs_names fs) p of None \<Rightarrow> None | Some i \<Rightarrow> map_of (fs_inodes fs) i)"

text \<open>
  How \<^verbatim>\<open>os.Root\<close> resolves a path element by element from the directory \<open>dir\<close>, never leaving the root: the last element
  need not exist, and a symbolic link there is followed if \<open>follow\<close>. At most \<open>hops\<close> links are followed.
\<close>

function walk :: "nat \<Rightarrow> bool \<Rightarrow> root_fs \<Rightarrow> string list \<Rightarrow> string list \<Rightarrow> root_error + string list" where
  "walk hops follow fs dir [] = Inr dir"
| "walk hops follow fs dir (c # cs) =
     (if c = [] \<or> c = ''.'' then walk hops follow fs dir cs
      else if c = ''..'' then (if dir = [] then Inl PathEscapes else walk hops follow fs (butlast dir) cs)
      else let p = dir @ [c] in
        case node_at fs p of
          None \<Rightarrow> if cs = [] then Inr p else Inl NotExist
        | Some n \<Rightarrow>
            (case i_kind n of
               DirNode \<Rightarrow> walk hops follow fs p cs
             | FileNode _ \<Rightarrow> if cs = [] then Inr p else Inl NotDirectory
             | LinkNode t \<Rightarrow>
                 if cs = [] \<and> \<not> follow then Inr p
                 else (case hops of
                   0 \<Rightarrow> Inl TooManyLinks
                 | Suc h \<Rightarrow> if HasPrefix t ''/'' then Inl PathEscapes else walk h follow fs dir (split_on CHR ''/'' t @ cs))))"
  by pat_completeness auto
termination by (relation "measures [\<lambda>(hops, follow, fs, dir, cs). hops, \<lambda>(hops, follow, fs, dir, cs). length cs]") auto

text \<open>\<open>hops\<close> is the limit of the implementation.\<close>

definition resolve :: "nat \<Rightarrow> bool \<Rightarrow> string \<Rightarrow> root_fs \<Rightarrow> root_error + string list" where
  "resolve hops follow p fs = walk hops follow fs [] (split_on CHR ''/'' p)"

definition existing :: "nat \<Rightarrow> bool \<Rightarrow> string \<Rightarrow> root_fs \<Rightarrow> root_error + nat \<times> inode" where
  "existing hops follow p fs =
     (case resolve hops follow p fs of
        Inl e \<Rightarrow> Inl e
      | Inr q \<Rightarrow>
          (case map_of (fs_names fs) q of
             None \<Rightarrow> Inl NotExist
           | Some i \<Rightarrow> (case map_of (fs_inodes fs) i of None \<Rightarrow> Inl NotExist | Some n \<Rightarrow> Inr (i, n))))"

definition fresh_inode :: "root_fs \<Rightarrow> nat" where
  "fresh_inode fs = Suc (fold max (map fst (fs_inodes fs) @ map snd (fs_names fs)) 0)"

definition add_node :: "string list \<Rightarrow> inode \<Rightarrow> root_fs \<Rightarrow> root_fs" where
  "add_node q n fs =
     fs\<lparr>fs_names := AList.update q (fresh_inode fs) (fs_names fs), fs_inodes := AList.update (fresh_inode fs) n (fs_inodes fs)\<rparr>"

definition set_inode :: "nat \<Rightarrow> inode \<Rightarrow> root_fs \<Rightarrow> root_fs" where
  "set_inode i n fs = fs\<lparr>fs_inodes := AList.update i n (fs_inodes fs)\<rparr>"

section \<open>Operations of os.Root\<close>

record open_flags =
  fl_Read :: bool
  fl_Write :: bool
  fl_Append :: bool
  fl_Creat :: bool
  fl_Trunc :: bool
  fl_Excl :: bool

record open_file =
  of_inode :: nat
  of_read :: bool
  of_write :: bool
  of_append :: bool

definition OpenFile :: "nat \<Rightarrow> string \<Rightarrow> open_flags \<Rightarrow> nat \<Rightarrow> root_fs \<Rightarrow> root_fs \<times> (root_error + open_file)" where
  "OpenFile hops p fl perm fs =
     (let handle = (\<lambda>i. \<lparr>of_inode = i, of_read = fl_Read fl, of_write = fl_Write fl, of_append = fl_Append fl\<rparr>) in
      case resolve hops (\<not> (fl_Creat fl \<and> fl_Excl fl)) p fs of
        Inl e \<Rightarrow> (fs, Inl e)
      | Inr q \<Rightarrow>
          (case map_of (fs_names fs) q of
             None \<Rightarrow>
               if \<not> fl_Creat fl then (fs, Inl NotExist)
               else (add_node q \<lparr>i_kind = FileNode [], i_perm = perm, i_times = (0, 0)\<rparr> fs, Inr (handle (fresh_inode fs)))
           | Some i \<Rightarrow>
               if fl_Creat fl \<and> fl_Excl fl then (fs, Inl AlreadyExists)
               else (case map_of (fs_inodes fs) i of
                  None \<Rightarrow> (fs, Inl NotExist)
                | Some n \<Rightarrow>
                    (case i_kind n of
                       DirNode \<Rightarrow> if fl_Write fl \<or> fl_Creat fl then (fs, Inl IsDirectory) else (fs, Inr (handle i))
                     | LinkNode _ \<Rightarrow> (fs, Inl TooManyLinks)
                     | FileNode b \<Rightarrow>
                         (if fl_Trunc fl then set_inode i (n\<lparr>i_kind := FileNode []\<rparr>) fs else fs, Inr (handle i))))))"

definition read_flags :: open_flags where
  "read_flags = \<lparr>fl_Read = True, fl_Write = False, fl_Append = False, fl_Creat = False, fl_Trunc = False, fl_Excl = False\<rparr>"

definition root_Open :: "nat \<Rightarrow> string \<Rightarrow> root_fs \<Rightarrow> root_error + open_file" where
  "root_Open hops p fs = snd (OpenFile hops p read_flags 0 fs)"

definition root_Mkdir :: "nat \<Rightarrow> string \<Rightarrow> nat \<Rightarrow> root_fs \<Rightarrow> root_fs \<times> root_error option" where
  "root_Mkdir hops p perm fs =
     (case resolve hops False p fs of
        Inl e \<Rightarrow> (fs, Some e)
      | Inr q \<Rightarrow>
          if q = [] \<or> map_of (fs_names fs) q \<noteq> None then (fs, Some AlreadyExists)
          else (add_node q \<lparr>i_kind = DirNode, i_perm = perm, i_times = (0, 0)\<rparr> fs, None))"

definition has_children :: "root_fs \<Rightarrow> string list \<Rightarrow> bool" where
  "has_children fs q \<longleftrightarrow> list_ex (\<lambda>p. p \<noteq> [] \<and> butlast p = q) (map fst (fs_names fs))"

definition root_Remove :: "nat \<Rightarrow> string \<Rightarrow> root_fs \<Rightarrow> root_fs \<times> root_error option" where
  "root_Remove hops p fs =
     (case resolve hops False p fs of
        Inl e \<Rightarrow> (fs, Some e)
      | Inr q \<Rightarrow>
          if q = [] then (fs, Some InvalidArgument)
          else if map_of (fs_names fs) q = None then (fs, Some NotExist)
          else if has_children fs q then (fs, Some NotEmpty)
          else (fs\<lparr>fs_names := AList.delete q (fs_names fs)\<rparr>, None))"

text \<open>Renaming moves the names below a directory with it.\<close>

definition moved :: "string list \<Rightarrow> string list \<Rightarrow> string list \<Rightarrow> string list" where
  "moved q q' p = (if take (length q) p = q then q' @ drop (length q) p else p)"

definition root_Rename :: "nat \<Rightarrow> string \<Rightarrow> string \<Rightarrow> root_fs \<Rightarrow> root_fs \<times> root_error option" where
  "root_Rename hops p p' fs =
     (case (resolve hops False p fs, resolve hops False p' fs) of
        (Inl e, _) \<Rightarrow> (fs, Some e)
      | (_, Inl e) \<Rightarrow> (fs, Some e)
      | (Inr q, Inr q') \<Rightarrow>
          if q = [] \<or> q' = [] then (fs, Some InvalidArgument)
          else (case node_at fs q of
             None \<Rightarrow> (fs, Some NotExist)
           | Some n \<Rightarrow>
               if map_of (fs_names fs) q' = map_of (fs_names fs) q then (fs, None)
               else if i_kind n = DirNode \<and> take (length q) q' = q then (fs, Some InvalidArgument)
               else (case node_at fs q' of
                  Some n' \<Rightarrow>
                    if i_kind n' = DirNode \<and> i_kind n \<noteq> DirNode then (fs, Some IsDirectory)
                    else if i_kind n = DirNode \<and> i_kind n' \<noteq> DirNode then (fs, Some NotDirectory)
                    else if has_children fs q' then (fs, Some NotEmpty)
                    else (fs\<lparr>fs_names := map (\<lambda>(r, i). (moved q q' r, i)) (AList.delete q' (fs_names fs))\<rparr>, None)
                | None \<Rightarrow> (fs\<lparr>fs_names := map (\<lambda>(r, i). (moved q q' r, i)) (fs_names fs)\<rparr>, None))))"

definition root_Link :: "nat \<Rightarrow> string \<Rightarrow> string \<Rightarrow> root_fs \<Rightarrow> root_fs \<times> root_error option" where
  "root_Link hops p p' fs =
     (case (existing hops False p fs, resolve hops False p' fs) of
        (Inl e, _) \<Rightarrow> (fs, Some e)
      | (_, Inl e) \<Rightarrow> (fs, Some e)
      | (Inr (i, n), Inr q') \<Rightarrow>
          if i_kind n = DirNode then (fs, Some IsDirectory)
          else if q' = [] \<or> map_of (fs_names fs) q' \<noteq> None then (fs, Some AlreadyExists)
          else (fs\<lparr>fs_names := AList.update q' i (fs_names fs)\<rparr>, None))"

definition root_Symlink :: "nat \<Rightarrow> string \<Rightarrow> string \<Rightarrow> root_fs \<Rightarrow> root_fs \<times> root_error option" where
  "root_Symlink hops text p' fs =
     (case resolve hops False p' fs of
        Inl e \<Rightarrow> (fs, Some e)
      | Inr q' \<Rightarrow>
          if q' = [] \<or> map_of (fs_names fs) q' \<noteq> None then (fs, Some AlreadyExists)
          else (add_node q' \<lparr>i_kind = LinkNode text, i_perm = 511, i_times = (0, 0)\<rparr> fs, None))"

definition root_Chmod :: "nat \<Rightarrow> string \<Rightarrow> nat \<Rightarrow> root_fs \<Rightarrow> root_fs \<times> root_error option" where
  "root_Chmod hops p perm fs =
     (case existing hops True p fs of Inl e \<Rightarrow> (fs, Some e) | Inr (i, n) \<Rightarrow> (set_inode i (n\<lparr>i_perm := perm\<rparr>) fs, None))"

definition root_Chtimes :: "nat \<Rightarrow> string \<Rightarrow> int \<times> int \<Rightarrow> root_fs \<Rightarrow> root_fs \<times> root_error option" where
  "root_Chtimes hops p ts fs =
     (case existing hops True p fs of Inl e \<Rightarrow> (fs, Some e) | Inr (i, n) \<Rightarrow> (set_inode i (n\<lparr>i_times := ts\<rparr>) fs, None))"

record file_info =
  fi_Name :: string
  fi_IsDir :: bool
  fi_Size :: nat
  fi_Perm :: nat
  fi_Times :: "int \<times> int"

definition info_of :: "string \<Rightarrow> inode \<Rightarrow> file_info" where
  "info_of name n =
     \<lparr>fi_Name = name, fi_IsDir = (i_kind n = DirNode),
      fi_Size = (case i_kind n of FileNode b \<Rightarrow> length b | LinkNode t \<Rightarrow> length t | DirNode \<Rightarrow> 0),
      fi_Perm = i_perm n, fi_Times = i_times n\<rparr>"

definition base_name :: "string \<Rightarrow> string" where
  "base_name p = last (split_on CHR ''/'' p)"

definition root_Stat :: "nat \<Rightarrow> bool \<Rightarrow> root_fs \<Rightarrow> string \<Rightarrow> root_error + file_info" where
  "root_Stat hops follow fs p =
     (case existing hops follow p fs of Inl e \<Rightarrow> Inl e | Inr (i, n) \<Rightarrow> Inr (info_of (base_name p) n))"

definition root_Readlink :: "nat \<Rightarrow> string \<Rightarrow> root_fs \<Rightarrow> root_error + string" where
  "root_Readlink hops p fs =
     (case existing hops False p fs of
        Inl e \<Rightarrow> Inl e
      | Inr (i, n) \<Rightarrow> (case i_kind n of LinkNode t \<Rightarrow> Inr t | _ \<Rightarrow> Inl InvalidArgument))"

text \<open>\<^verbatim>\<open>Open\<close> and \<^verbatim>\<open>Readdir(0)\<close> of a directory.\<close>

definition root_Readdir :: "nat \<Rightarrow> string \<Rightarrow> root_fs \<Rightarrow> root_error + file_info list" where
  "root_Readdir hops p fs =
     (case resolve hops True p fs of
        Inl e \<Rightarrow> Inl e
      | Inr q \<Rightarrow>
          (case node_at fs q of
             None \<Rightarrow> Inl NotExist
           | Some n \<Rightarrow>
               if i_kind n \<noteq> DirNode then Inl NotDirectory
               else Inr (List.map_filter (\<lambda>(r, i). if r \<noteq> [] \<and> butlast r = q
                      then map_option (info_of (last r)) (map_of (fs_inodes fs) i) else None) (fs_names fs))))"

text \<open>\<^verbatim>\<open>Truncate\<close> takes a signed size.\<close>

definition file_Truncate :: "open_file \<Rightarrow> 64 word \<Rightarrow> root_fs \<Rightarrow> root_fs \<times> root_error option" where
  "file_Truncate f sz fs =
     (if sint sz < 0 then (fs, Some InvalidArgument)
      else case map_of (fs_inodes fs) (of_inode f) of
        Some n \<Rightarrow>
          (case i_kind n of
             FileNode b \<Rightarrow>
               (set_inode (of_inode f) (n\<lparr>i_kind := FileNode (take (unat sz) b @ replicate (unat sz - length b) 0)\<rparr>) fs, None)
           | _ \<Rightarrow> (fs, Some InvalidArgument))
      | None \<Rightarrow> (fs, Some InvalidArgument))"

text \<open>\<^verbatim>\<open>WriteAt\<close> returns an error on a file opened with \<^verbatim>\<open>O_APPEND\<close>.\<close>

definition file_WriteAt :: "open_file \<Rightarrow> nat \<Rightarrow> bytes \<Rightarrow> root_fs \<Rightarrow> root_fs \<times> root_error option" where
  "file_WriteAt f off data fs =
     (if of_append f \<or> \<not> of_write f then (fs, Some InvalidArgument)
      else case map_of (fs_inodes fs) (of_inode f) of
        Some n \<Rightarrow>
          (case i_kind n of
             FileNode b \<Rightarrow>
               (set_inode (of_inode f)
                  (n\<lparr>i_kind := FileNode (take off (b @ replicate (off - length b) 0) @ data @ drop (off + length data) b)\<rparr>) fs, None)
           | _ \<Rightarrow> (fs, Some InvalidArgument))
      | None \<Rightarrow> (fs, Some InvalidArgument))"

definition file_ReadAt :: "open_file \<Rightarrow> nat \<Rightarrow> nat \<Rightarrow> root_fs \<Rightarrow> root_error + bytes" where
  "file_ReadAt f off len fs =
     (if \<not> of_read f then Inl InvalidArgument
      else case map_of (fs_inodes fs) (of_inode f) of
        Some n \<Rightarrow> (case i_kind n of FileNode b \<Rightarrow> Inr (take len (drop off b)) | _ \<Rightarrow> Inl IsDirectory)
      | None \<Rightarrow> Inl InvalidArgument)"

section \<open>Request handlers\<close>

datatype FileServeMode = FileServeRO | FileServeRW | FileServeWO

record rootedFiles =
  h_mode :: FileServeMode
  h_wrote :: "string list"

definition markOwn :: "string \<Rightarrow> rootedFiles \<Rightarrow> rootedFiles" where
  "markOwn p h = h\<lparr>h_wrote := List.insert p (h_wrote h)\<rparr>"

definition isOwn :: "rootedFiles \<Rightarrow> string \<Rightarrow> bool" where
  "isOwn h p \<longleftrightarrow> p \<in> set (h_wrote h)"

datatype sftp_error = PermissionDenied | OpUnsupported | NoSuchFile | RootError root_error

definition Fileread :: "nat \<Rightarrow> string \<Rightarrow> rootedFiles \<Rightarrow> root_fs \<Rightarrow> sftp_error + open_file" where
  "Fileread hops path h fs =
     (if h_mode h = FileServeWO then Inl PermissionDenied
      else case root_Open hops (rel path) fs of Inl e \<Rightarrow> Inl (RootError e) | Inr f \<Rightarrow> Inr f)"

text \<open>\<open>pf\<close> are the flags of the request. Without both \<^verbatim>\<open>Read\<close> and \<^verbatim>\<open>Write\<close> the file is opened for writing only.\<close>

definition Filewrite ::
  "nat \<Rightarrow> string \<Rightarrow> open_flags \<Rightarrow> rootedFiles \<Rightarrow> root_fs \<Rightarrow> root_fs \<times> rootedFiles \<times> (sftp_error + open_file)" where
  "Filewrite hops path pf h fs =
     (if h_mode h = FileServeRO then (fs, h, Inl PermissionDenied)
      else if fl_Read pf \<and> h_mode h = FileServeWO then (fs, h, Inl PermissionDenied)
      else let flags = pf\<lparr>fl_Read := fl_Read pf \<and> fl_Write pf, fl_Write := True\<rparr>; p = rel path in
        case OpenFile hops p flags 420 fs of
          (fs, Inl e) \<Rightarrow> (fs, h, Inl (RootError e))
        | (fs, Inr f) \<Rightarrow> (fs, if h_mode h = FileServeWO then markOwn p h else h, Inr f))"

record sftp_attrs =
  at_Permissions :: bool
  at_Acmodtime :: bool
  at_SizeSet :: bool
  at_Mode :: nat
  at_Atime :: nat
  at_Mtime :: nat
  at_Size :: "64 word"

text \<open>An operation after the ones before it succeeded.\<close>

definition and_then :: "root_fs \<times> root_error option \<Rightarrow> (root_fs \<Rightarrow> root_fs \<times> root_error option) \<Rightarrow> root_fs \<times> root_error option" where
  "and_then r f = (case r of (fs, Some e) \<Rightarrow> (fs, Some e) | (fs, None) \<Rightarrow> f fs)"

definition write_flags :: open_flags where
  "write_flags = \<lparr>fl_Read = False, fl_Write = True, fl_Append = False, fl_Creat = False, fl_Trunc = False, fl_Excl = False\<rparr>"

definition setstat :: "nat \<Rightarrow> sftp_attrs \<Rightarrow> string \<Rightarrow> root_fs \<Rightarrow> root_fs \<times> root_error option" where
  "setstat hops at p fs =
     and_then (and_then
       (if at_Permissions at then root_Chmod hops p (at_Mode at mod 512) fs else (fs, None))
       (\<lambda>fs. if at_Acmodtime at then root_Chtimes hops p (int (at_Atime at), int (at_Mtime at)) fs else (fs, None)))
       (\<lambda>fs. if at_SizeSet at then
          (case OpenFile hops p write_flags 0 fs of
             (fs, Inl e) \<Rightarrow> (fs, Some e)
           | (fs, Inr f) \<Rightarrow> file_Truncate f (at_Size at) fs)
        else (fs, None))"

definition root_result :: "root_fs \<times> root_error option \<Rightarrow> rootedFiles \<Rightarrow> root_fs \<times> rootedFiles \<times> sftp_error option" where
  "root_result r h = (fst r, h, map_option RootError (snd r))"

definition Filecmd ::
  "nat \<Rightarrow> string \<Rightarrow> string \<Rightarrow> string \<Rightarrow> sftp_attrs \<Rightarrow> rootedFiles \<Rightarrow> root_fs \<Rightarrow> root_fs \<times> rootedFiles \<times> sftp_error option" where
  "Filecmd hops Method path target at h fs =
     (let p = rel path in
      case h_mode h of
        FileServeRO \<Rightarrow> (fs, h, Some PermissionDenied)
      | FileServeWO \<Rightarrow>
          if Method = ''Mkdir'' then
            (case root_Mkdir hops p 493 fs of
               (fs, Some e) \<Rightarrow> (fs, h, Some (RootError e))
             | (fs, None) \<Rightarrow> (fs, markOwn p h, None))
          else if Method = ''Setstat'' then
            (if \<not> isOwn h p then (fs, h, Some PermissionDenied) else root_result (setstat hops at p fs) h)
          else (fs, h, Some PermissionDenied)
      | FileServeRW \<Rightarrow>
          if Method = ''Setstat'' then root_result (setstat hops at p fs) h
          else if Method = ''Rename'' then root_result (root_Rename hops p (rel target) fs) h
          else if Method = ''Rmdir'' \<or> Method = ''Remove'' then root_result (root_Remove hops p fs) h
          else if Method = ''Mkdir'' then root_result (root_Mkdir hops p 493 fs) h
          else if Method = ''Link'' then root_result (root_Link hops p (rel target) fs) h
          else if Method = ''Symlink'' then root_result (root_Symlink hops p (rel target) fs) h
          else (fs, h, Some OpUnsupported))"

definition sftp_stat :: "rootedFiles \<Rightarrow> string \<Rightarrow> (string \<Rightarrow> root_error + file_info) \<Rightarrow> sftp_error + file_info" where
  "sftp_stat h p statf =
     (if h_mode h \<noteq> FileServeWO \<or> isOwn h p then (case statf p of Inl e \<Rightarrow> Inl (RootError e) | Inr fi \<Rightarrow> Inr fi)
      else case statf p of
        Inl e \<Rightarrow> Inl NoSuchFile
      | Inr fi \<Rightarrow> if fi_IsDir fi then Inr fi else Inl NoSuchFile)"

definition Filelist :: "nat \<Rightarrow> string \<Rightarrow> string \<Rightarrow> rootedFiles \<Rightarrow> root_fs \<Rightarrow> sftp_error + file_info list" where
  "Filelist hops Method path h fs =
     (let p = rel path in
      if Method = ''List'' then
        (if h_mode h = FileServeWO then Inl PermissionDenied
         else case root_Readdir hops p fs of Inl e \<Rightarrow> Inl (RootError e) | Inr fis \<Rightarrow> Inr fis)
      else if Method = ''Stat'' then
        (case sftp_stat h p (root_Stat hops True fs) of Inl e \<Rightarrow> Inl e | Inr fi \<Rightarrow> Inr [fi])
      else Inl OpUnsupported)"

definition Lstat :: "nat \<Rightarrow> string \<Rightarrow> rootedFiles \<Rightarrow> root_fs \<Rightarrow> sftp_error + file_info list" where
  "Lstat hops path h fs =
     (case sftp_stat h (rel path) (root_Stat hops False fs) of Inl e \<Rightarrow> Inl e | Inr fi \<Rightarrow> Inr [fi])"

definition Readlink :: "nat \<Rightarrow> string \<Rightarrow> rootedFiles \<Rightarrow> root_fs \<Rightarrow> sftp_error + string" where
  "Readlink hops path h fs =
     (if h_mode h = FileServeWO then Inl PermissionDenied
      else case root_Readlink hops (rel path) fs of Inl e \<Rightarrow> Inl (RootError e) | Inr t \<Rightarrow> Inr t)"

text \<open>\<^verbatim>\<open>ListAt\<close> copies from \<open>off\<close> into a buffer of \<open>room\<close> entries; the flag is \<^verbatim>\<open>io.EOF\<close>.\<close>

definition ListAt :: "'a list \<Rightarrow> nat \<Rightarrow> nat \<Rightarrow> 'a list \<times> bool" where
  "ListAt l room off =
     (if length l \<le> off then ([], True)
      else let got = take room (drop off l) in (got, length got < room))"

section \<open>Sessions\<close>

text \<open>The requests of a client, and the reads and writes of the \<open>k\<close>-th file it opened.\<close>

datatype sftp_event =
  ReqGet string | ReqPut string open_flags | ReqCmd string string string sftp_attrs | ReqList string string | ReqLstat string
| ReqReadlink string | DataRead nat nat nat | DataWrite nat nat bytes

datatype sftp_reply = Refused sftp_error | FileOpened open_file | CmdDone | Infos "file_info list" | LinkText string | FileData bytes

record sftp_state =
  ss_fs :: root_fs
  ss_h :: rootedFiles
  ss_open :: "open_file list"

text \<open>\<^verbatim>\<open>newRootedSFTPServer\<close>: a session of its own for each connection.\<close>

definition newRootedSFTPServer :: "FileServeMode \<Rightarrow> root_fs \<Rightarrow> sftp_state" where
  "newRootedSFTPServer mode fs = \<lparr>ss_fs = fs, ss_h = \<lparr>h_mode = mode, h_wrote = []\<rparr>, ss_open = []\<rparr>"

definition cmd_reply :: "sftp_error option \<Rightarrow> sftp_reply" where
  "cmd_reply e = (case e of None \<Rightarrow> CmdDone | Some e \<Rightarrow> Refused e)"

fun sftp_step :: "nat \<Rightarrow> sftp_event \<Rightarrow> sftp_state \<Rightarrow> sftp_state \<times> sftp_reply" where
  "sftp_step hops (ReqGet path) s =
     (case Fileread hops path (ss_h s) (ss_fs s) of
        Inl e \<Rightarrow> (s, Refused e)
      | Inr f \<Rightarrow> (s\<lparr>ss_open := ss_open s @ [f]\<rparr>, FileOpened f))"
| "sftp_step hops (ReqPut path pf) s =
     (case Filewrite hops path pf (ss_h s) (ss_fs s) of
        (fs, h, Inl e) \<Rightarrow> (s\<lparr>ss_fs := fs, ss_h := h\<rparr>, Refused e)
      | (fs, h, Inr f) \<Rightarrow> (s\<lparr>ss_fs := fs, ss_h := h, ss_open := ss_open s @ [f]\<rparr>, FileOpened f))"
| "sftp_step hops (ReqCmd Method path target at) s =
     (case Filecmd hops Method path target at (ss_h s) (ss_fs s) of (fs, h, e) \<Rightarrow> (s\<lparr>ss_fs := fs, ss_h := h\<rparr>, cmd_reply e))"
| "sftp_step hops (ReqList Method path) s =
     (s, case Filelist hops Method path (ss_h s) (ss_fs s) of Inl e \<Rightarrow> Refused e | Inr fis \<Rightarrow> Infos fis)"
| "sftp_step hops (ReqLstat path) s =
     (s, case Lstat hops path (ss_h s) (ss_fs s) of Inl e \<Rightarrow> Refused e | Inr fis \<Rightarrow> Infos fis)"
| "sftp_step hops (ReqReadlink path) s =
     (s, case Readlink hops path (ss_h s) (ss_fs s) of Inl e \<Rightarrow> Refused e | Inr t \<Rightarrow> LinkText t)"
| "sftp_step hops (DataRead k off len) s =
     (s, if k < length (ss_open s)
         then (case file_ReadAt (ss_open s ! k) off len (ss_fs s) of Inl e \<Rightarrow> Refused (RootError e) | Inr b \<Rightarrow> FileData b)
         else Refused OpUnsupported)"
| "sftp_step hops (DataWrite k off data) s =
     (if k < length (ss_open s)
      then (case file_WriteAt (ss_open s ! k) off data (ss_fs s) of (fs, e) \<Rightarrow> (s\<lparr>ss_fs := fs\<rparr>, cmd_reply (map_option RootError e)))
      else (s, Refused OpUnsupported))"

text \<open>The states a session can reach from a directory, with its history.\<close>

inductive sftp_session :: "nat \<Rightarrow> FileServeMode \<Rightarrow> root_fs \<Rightarrow> sftp_state \<Rightarrow> (sftp_event \<times> sftp_reply) list \<Rightarrow> bool"
  for hops mode fs where
  session_start: "sftp_session hops mode fs (newRootedSFTPServer mode fs) []"
| session_step: "sftp_session hops mode fs s hist \<Longrightarrow> sftp_step hops ev s = (s', r) \<Longrightarrow> sftp_session hops mode fs s' (hist @ [(ev, r)])"

text \<open>The paths a session uploaded to or created as directories, according to its history.\<close>

definition own_paths :: "(sftp_event \<times> sftp_reply) list \<Rightarrow> string set" where
  "own_paths hist =
     {rel p | p pf f. (ReqPut p pf, FileOpened f) \<in> set hist} \<union> {rel p | p t at. (ReqCmd ''Mkdir'' p t at, CmdDone) \<in> set hist}"

fun event_path :: "sftp_event \<Rightarrow> string option" where
  "event_path (ReqList m p) = Some (rel p)"
| "event_path (ReqLstat p) = Some (rel p)"
| "event_path _ = None"

section \<open>Read-only service\<close>

lemma OpenFile_read: "fst (OpenFile hops p read_flags perm fs) = fs"
  by (auto simp: OpenFile_def read_flags_def Let_def split: sum.splits option.splits node_kind.splits)

lemma OpenFile_handle:
  "OpenFile hops p fl perm fs = (fs', Inr f) \<Longrightarrow> of_read f = fl_Read fl \<and> of_write f = fl_Write fl \<and> of_append f = fl_Append fl"
  by (auto simp: OpenFile_def Let_def split: sum.splits option.splits node_kind.splits if_splits)

lemma Fileread_handle: "Fileread hops path h fs = Inr f \<Longrightarrow> \<not> of_write f"
  using OpenFile_handle [of hops "rel path" read_flags 0 fs]
  by (cases "OpenFile hops (rel path) read_flags 0 fs")
    (auto simp: Fileread_def root_Open_def read_flags_def split: if_splits sum.splits)

lemma read_only_session:
  assumes "sftp_session hops FileServeRO fs s hist"
  shows "ss_fs s = fs \<and> h_mode (ss_h s) = FileServeRO \<and> (\<forall>f\<in>set (ss_open s). \<not> of_write f)"
  using assms
proof induction
  case (session_step s hist ev s' r)
  then show ?case
    by (cases ev) (auto simp: Filewrite_def Filecmd_def file_WriteAt_def Let_def split: sum.splits prod.splits if_splits dest: Fileread_handle nth_mem)
qed (simp add: newRootedSFTPServer_def)

section \<open>Growing directories\<close>

text \<open>\<open>fs_ext\<close>: names stay, and inodes keep their kind and the text of links.\<close>

definition shape :: "inode \<Rightarrow> node_kind" where
  "shape n = (case i_kind n of FileNode _ \<Rightarrow> FileNode [] | k \<Rightarrow> k)"

definition fs_ext :: "root_fs \<Rightarrow> root_fs \<Rightarrow> bool" where
  "fs_ext fs fs' \<longleftrightarrow>
     (\<forall>p i. map_of (fs_names fs) p = Some i \<longrightarrow> map_of (fs_names fs') p = Some i) \<and>
     (\<forall>i n. map_of (fs_inodes fs) i = Some n \<longrightarrow> (\<exists>n'. map_of (fs_inodes fs') i = Some n' \<and> shape n' = shape n))"

lemma fs_ext_refl [simp]: "fs_ext fs fs"
  by (simp add: fs_ext_def)

lemma fs_ext_trans: "fs_ext a b \<Longrightarrow> fs_ext b c \<Longrightarrow> fs_ext a c"
  unfolding fs_ext_def by metis

lemma le_fold_max: "x \<in> set xs \<or> x \<le> m \<Longrightarrow> (x :: nat) \<le> fold max xs m"
proof (induction xs arbitrary: m)
  case (Cons y ys)
  have "x \<in> set ys \<or> x \<le> max y m" using Cons.prems by (auto intro: le_max_iff_disj [THEN iffD2])
  then show ?case using Cons.IH [of "max y m"] by simp
qed simp

lemma fresh_inode_new:
  "map_of (fs_inodes fs) (fresh_inode fs) = None" "map_of (fs_names fs) p \<noteq> Some (fresh_inode fs)"
proof -
  let ?l = "map fst (fs_inodes fs) @ map snd (fs_names fs)"
  have below: "i < fresh_inode fs" if "i \<in> set ?l" for i
    using le_fold_max [of i ?l 0] that unfolding fresh_inode_def less_Suc_eq_le by blast
  show "map_of (fs_inodes fs) (fresh_inode fs) = None"
    using below [of "fresh_inode fs"] by (force simp: map_of_eq_None_iff)
  show "map_of (fs_names fs) p \<noteq> Some (fresh_inode fs)"
    using below [of "fresh_inode fs"] by (force dest: map_of_SomeD)
qed

lemma names_add_node [simp]: "map_of (fs_names (add_node q n fs)) = (map_of (fs_names fs))(q \<mapsto> fresh_inode fs)"
  and inodes_add_node [simp]: "map_of (fs_inodes (add_node q n fs)) = (map_of (fs_inodes fs))(fresh_inode fs \<mapsto> n)"
  and names_set_inode [simp]: "fs_names (set_inode i n fs) = fs_names fs"
  and inodes_set_inode [simp]: "map_of (fs_inodes (set_inode i n fs)) = (map_of (fs_inodes fs))(i \<mapsto> n)"
  by (simp_all add: add_node_def set_inode_def update_conv')

lemma add_node_ext: "map_of (fs_names fs) q = None \<Longrightarrow> fs_ext fs (add_node q n fs)"
  using fresh_inode_new [of fs] by (auto simp: fs_ext_def)

lemma set_inode_ext: "map_of (fs_inodes fs) i = Some n \<Longrightarrow> shape n' = shape n \<Longrightarrow> fs_ext fs (set_inode i n' fs)"
  by (auto simp: fs_ext_def)

lemma node_at_ext: "fs_ext fs fs' \<Longrightarrow> node_at fs p = Some n \<Longrightarrow> \<exists>n'. node_at fs' p = Some n' \<and> shape n' = shape n"
  unfolding fs_ext_def node_at_def by (auto split: option.splits)

lemma shape_kinds:
  "shape n' = shape n \<Longrightarrow> i_kind n = DirNode \<Longrightarrow> i_kind n' = DirNode"
  "shape n' = shape n \<Longrightarrow> i_kind n = LinkNode t \<Longrightarrow> i_kind n' = LinkNode t"
  "shape n' = shape n \<Longrightarrow> i_kind n = FileNode b \<Longrightarrow> \<exists>b'. i_kind n' = FileNode b'"
  by (auto simp: shape_def split: node_kind.splits)

text \<open>A path that leads to something keeps leading there, and one that leads to a new node leads to it.\<close>

lemma walk_ext:
  assumes "walk hops follow fs dir cs = Inr q" "map_of (fs_names fs) q = Some i" "map_of (fs_inodes fs) i = Some n" "fs_ext fs fs'"
  shows "walk hops follow fs' dir cs = Inr q"
  using assms
proof (induction hops follow fs dir cs rule: walk.induct)
  case (2 hops follow fs dir c cs)
  consider "c = [] \<or> c = ''.''" | "c = ''..''" | "\<not> (c = [] \<or> c = ''.'')" "c \<noteq> ''..''" by blast
  then show ?case
  proof cases
    case 3
    show ?thesis
    proof (cases "node_at fs (dir @ [c])")
      case None
      with 3 "2.prems" show ?thesis by (auto simp: node_at_def split: if_splits option.splits)
    next
      case (Some m)
      obtain m' where m': "node_at fs' (dir @ [c]) = Some m'" "shape m' = shape m" using node_at_ext [OF "2.prems"(4) Some] by blast
      show ?thesis
        using "2.IH" (3,4) "2.prems" 3 Some m'(1) shape_kinds [OF m'(2)]
        by (cases "i_kind m") (auto simp: Let_def split: if_splits nat.splits)
    qed
  qed (use "2.IH"(1,2) "2.prems" in \<open>auto split: if_splits\<close>)
qed simp

lemma walk_new:
  assumes "walk hops follow fs dir cs = Inr q" "map_of (fs_names fs) q = None" "\<And>t. i_kind n \<noteq> LinkNode t"
  shows "walk hops True (add_node q n fs) dir cs = Inr q"
  using assms(1,2)
proof (induction hops follow fs dir cs rule: walk.induct)
  case (2 hops follow fs dir c cs)
  consider "c = [] \<or> c = ''.''" | "c = ''..''" | "\<not> (c = [] \<or> c = ''.'')" "c \<noteq> ''..''" by blast
  then show ?case
  proof cases
    case 3
    show ?thesis
    proof (cases "node_at fs (dir @ [c])")
      case None
      then have "q = dir @ [c]" "cs = []" using 3 "2.prems" by (auto simp: Let_def split: if_splits)
      moreover have "node_at (add_node q n fs) q = Some n" by (simp add: node_at_def)
      ultimately show ?thesis using 3 assms(3) by (cases "i_kind n") (auto simp: Let_def)
    next
      case (Some m)
      then obtain j where j: "map_of (fs_names fs) (dir @ [c]) = Some j" "map_of (fs_inodes fs) j = Some m"
        by (auto simp: node_at_def split: option.splits)
      then have ne: "j \<noteq> fresh_inode fs" "dir @ [c] \<noteq> q" using fresh_inode_new(1) [of fs] "2.prems"(2) by auto
      then have "node_at (add_node q n fs) (dir @ [c]) = Some m" using j by (simp add: node_at_def)
      then show ?thesis
        using "2.IH"(3,4) "2.prems" 3 Some ne(2) by (cases "i_kind m") (auto simp: Let_def split: if_splits nat.splits)
    qed
  qed (use "2.IH"(1,2) "2.prems" in \<open>auto split: if_splits\<close>)
qed simp

text \<open>One inode at most changes, and keeps its kind.\<close>

definition changes_only :: "nat \<Rightarrow> root_fs \<Rightarrow> root_fs \<Rightarrow> bool" where
  "changes_only i fs fs' \<longleftrightarrow>
     fs_ext fs fs' \<and> fs_names fs' = fs_names fs \<and> (\<forall>j. j \<noteq> i \<longrightarrow> map_of (fs_inodes fs') j = map_of (fs_inodes fs) j)"

lemma changes_only_refl [simp]: "changes_only i fs fs"
  by (simp add: changes_only_def)

lemma changes_only_trans: "changes_only i a b \<Longrightarrow> changes_only i b c \<Longrightarrow> changes_only i a c"
  unfolding changes_only_def using fs_ext_trans by auto

lemma changes_only_set:
  "map_of (fs_inodes fs) i = Some n \<Longrightarrow> shape n' = shape n \<Longrightarrow> changes_only i fs (set_inode i n' fs)"
  by (simp add: changes_only_def set_inode_ext)

lemma existing_ext:
  assumes "existing hops follow p fs = Inr (i, n)" "fs_ext fs fs'"
  shows "\<exists>n'. existing hops follow p fs' = Inr (i, n')"
proof -
  obtain q where q: "resolve hops follow p fs = Inr q" "map_of (fs_names fs) q = Some i" "map_of (fs_inodes fs) i = Some n"
    using assms(1) by (auto simp: existing_def split: sum.splits option.splits)
  then have "resolve hops follow p fs' = Inr q" using walk_ext assms(2) unfolding resolve_def by blast
  moreover obtain n' where "map_of (fs_names fs') q = Some i" "map_of (fs_inodes fs') i = Some n'" using q assms(2) unfolding fs_ext_def by blast
  ultimately show ?thesis by (simp add: existing_def)
qed

lemma existing_inode: "existing hops follow p fs = Inr (i, n) \<Longrightarrow> map_of (fs_inodes fs) i = Some n"
  by (auto simp: existing_def split: sum.splits option.splits)

lemma shape_update [simp]: "shape (n\<lparr>i_perm := x\<rparr>) = shape n" "shape (n\<lparr>i_times := y\<rparr>) = shape n"
  "i_kind n = FileNode b \<Longrightarrow> shape (n\<lparr>i_kind := FileNode c\<rparr>) = shape n"
  by (simp_all add: shape_def)

lemma and_then_changes:
  assumes "changes_only i fs (fst r)" "snd r = None \<Longrightarrow> changes_only i fs (fst r) \<Longrightarrow> changes_only i (fst r) (fst (f (fst r)))"
  shows "changes_only i fs (fst (and_then r f))"
  using assms changes_only_trans by (cases r) (auto simp: and_then_def split: option.splits)

lemma Truncate_changes: "changes_only (of_inode f) fs (fst (file_Truncate f sz fs))"
  by (auto simp: file_Truncate_def intro!: changes_only_set split: option.splits node_kind.splits)

lemma WriteAt_changes: "changes_only (of_inode f) fs (fst (file_WriteAt f off data fs))"
  by (auto simp: file_WriteAt_def intro!: changes_only_set split: option.splits node_kind.splits)

lemma OpenFile_existing:
  assumes "existing hops True p fs = Inr (i, n)" "\<not> (fl_Creat fl \<and> fl_Excl fl)" "OpenFile hops p fl perm fs = (fs', r)"
  shows "changes_only i fs fs' \<and> (\<forall>f. r = Inr f \<longrightarrow> of_inode f = i)"
  using assms
  by (auto simp: existing_def OpenFile_def Let_def intro!: changes_only_set split: sum.splits option.splits node_kind.splits if_splits)

lemma setstat_changes:
  assumes "existing hops True p fs = Inr (i, n)"
  shows "changes_only i fs (fst (setstat hops at p fs))"
proof -
  have keep: "\<exists>n'. existing hops True p fs' = Inr (i, n')" if "changes_only i fs fs'" for fs'
    using existing_ext [OF assms] that by (simp add: changes_only_def)
  have meta: "changes_only i fs' (fst (root_Chmod hops p x fs'))" "changes_only i fs' (fst (root_Chtimes hops p y fs'))"
    if c: "changes_only i fs fs'" for fs' x y
    using keep [OF c] by (auto simp: root_Chmod_def root_Chtimes_def intro!: changes_only_set dest: existing_inode)
  have size: "changes_only i fs' (fst (case OpenFile hops p write_flags 0 fs' of (fs, Inl e) \<Rightarrow> (fs, Some e) | (fs, Inr f) \<Rightarrow> file_Truncate f sz fs))"
    if c: "changes_only i fs fs'" for fs' sz
  proof -
    obtain n' where e: "existing hops True p fs' = Inr (i, n')" using keep [OF c] by blast
    obtain fs2 r where o: "OpenFile hops p write_flags 0 fs' = (fs2, r)" by fastforce
    have "changes_only i fs' fs2" "\<And>f. r = Inr f \<Longrightarrow> of_inode f = i" using OpenFile_existing [OF e _ o] by (auto simp: write_flags_def)
    then show ?thesis using o Truncate_changes changes_only_trans by (cases r) auto
  qed
  have first: "changes_only i fs (fst (and_then (if at_Permissions at then root_Chmod hops p x fs else (fs, None))
      (\<lambda>fs. if at_Acmodtime at then root_Chtimes hops p y fs else (fs, None))))" for x y
    by (rule and_then_changes) (use meta in auto)
  show ?thesis unfolding setstat_def
    by (rule and_then_changes [OF first]) (use size in auto)
qed

lemma existing_new:
  assumes "resolve hops follow p fs = Inr q" "map_of (fs_names fs) q = None" "\<And>t. i_kind n \<noteq> LinkNode t"
  shows "existing hops True p (add_node q n fs) = Inr (fresh_inode fs, n)"
  using walk_new [OF _ assms(2,3)] assms(1) by (simp add: existing_def resolve_def)

section \<open>Drop boxes\<close>

definition touched :: "(sftp_event \<times> sftp_reply) list \<Rightarrow> nat \<Rightarrow> bool" where
  "touched hist i \<longleftrightarrow> (\<exists>ev f. (ev, FileOpened f) \<in> set hist \<and> of_inode f = i)"

text \<open>
  What a write-only session may have done to the directory \<open>fs0\<close> it started with: it only added to it, and the inodes
  that were there are as they were unless it opened them.
\<close>

definition only_added :: "root_fs \<Rightarrow> (sftp_event \<times> sftp_reply) list \<Rightarrow> root_fs \<Rightarrow> bool" where
  "only_added fs0 hist fs \<longleftrightarrow> fs_ext fs0 fs \<and>
     (\<forall>i n. map_of (fs_inodes fs0) i = Some n \<and> \<not> touched hist i \<longrightarrow> map_of (fs_inodes fs) i = Some n)"

text \<open>The inodes it may change.\<close>

definition may_change :: "root_fs \<Rightarrow> (sftp_event \<times> sftp_reply) list \<Rightarrow> nat \<Rightarrow> bool" where
  "may_change fs0 hist i \<longleftrightarrow> touched hist i \<or> map_of (fs_inodes fs0) i = None"

definition dropbox_inv :: "nat \<Rightarrow> root_fs \<Rightarrow> sftp_state \<Rightarrow> (sftp_event \<times> sftp_reply) list \<Rightarrow> bool" where
  "dropbox_inv hops fs0 s hist \<longleftrightarrow>
     h_mode (ss_h s) = FileServeWO \<and> only_added fs0 hist (ss_fs s) \<and> set (h_wrote (ss_h s)) \<subseteq> own_paths hist \<and>
     (\<forall>f\<in>set (ss_open s). \<not> of_read f \<and> touched hist (of_inode f)) \<and>
     (\<forall>p\<in>set (h_wrote (ss_h s)). \<exists>i n. existing hops True p (ss_fs s) = Inr (i, n) \<and> may_change fs0 hist i)"

lemma touched_append [simp]: "touched (hist @ h) i \<longleftrightarrow> touched hist i \<or> touched h i"
  and may_change_append [simp]: "may_change fs0 (hist @ h) i \<longleftrightarrow> may_change fs0 hist i \<or> touched h i"
  and own_paths_append [simp]: "own_paths (hist @ h) = own_paths hist \<union> own_paths h"
  by (auto simp: touched_def may_change_def own_paths_def)

lemma only_added_changes:
  assumes "only_added fs0 hist fs" "changes_only i fs fs'" "may_change fs0 (hist @ h) i"
  shows "only_added fs0 (hist @ h) fs'"
  unfolding only_added_def
proof (intro conjI allI impI)
  show "fs_ext fs0 fs'" using assms(1,2) fs_ext_trans unfolding only_added_def changes_only_def by blast
  fix j n assume j: "map_of (fs_inodes fs0) j = Some n \<and> \<not> touched (hist @ h) j"
  then have "j \<noteq> i" using assms(3) by (auto simp: may_change_def)
  moreover have "map_of (fs_inodes fs) j = Some n" using j assms(1) by (simp add: only_added_def)
  ultimately show "map_of (fs_inodes fs') j = Some n" using assms(2) by (simp add: changes_only_def)
qed

lemma only_added_new:
  assumes "only_added fs0 hist fs" "map_of (fs_names fs) q = None"
  shows "only_added fs0 (hist @ h) (add_node q n fs)" "map_of (fs_inodes fs0) (fresh_inode fs) = None"
proof -
  show new: "map_of (fs_inodes fs0) (fresh_inode fs) = None"
    using assms(1) fresh_inode_new(1) [of fs] unfolding only_added_def fs_ext_def by (metis not_Some_eq)
  show "only_added fs0 (hist @ h) (add_node q n fs)"
    using assms new fs_ext_trans [OF _ add_node_ext [OF assms(2)]]
    unfolding only_added_def by auto
qed

lemma dropbox_keep:
  assumes inv: "dropbox_inv hops fs0 s hist" and ext: "only_added fs0 (hist @ [e]) fs'" "fs_ext (ss_fs s) fs'"
  shows "dropbox_inv hops fs0 (s\<lparr>ss_fs := fs'\<rparr>) (hist @ [e])"
  using inv ext(1) existing_ext [OF _ ext(2)] unfolding dropbox_inv_def by fastforce

lemma dropbox_same: "dropbox_inv hops fs0 s hist \<Longrightarrow> dropbox_inv hops fs0 s (hist @ [e])"
  by (auto simp: dropbox_inv_def only_added_def)

lemma OpenFile_cases:
  assumes "OpenFile hops p fl perm fs = (fs', r)"
  obtains (failed) e where "r = Inl e" "fs' = fs"
  | (created) q f n where "r = Inr f" "resolve hops (\<not> (fl_Creat fl \<and> fl_Excl fl)) p fs = Inr q" "map_of (fs_names fs) q = None"
      "\<And>t. i_kind n \<noteq> LinkNode t" "fs' = add_node q n fs" "of_inode f = fresh_inode fs"
  | (there) i n f where "r = Inr f" "existing hops True p fs = Inr (i, n)" "changes_only i fs fs'" "of_inode f = i"
proof (cases r)
  case (Inl e)
  then have "fs' = fs" using assms by (auto simp: OpenFile_def Let_def split: sum.splits option.splits node_kind.splits if_splits)
  then show thesis using Inl failed by blast
next
  case (Inr f)
  then obtain q where q: "resolve hops (\<not> (fl_Creat fl \<and> fl_Excl fl)) p fs = Inr q"
    using assms by (auto simp: OpenFile_def split: sum.splits)
  show thesis
  proof (cases "map_of (fs_names fs) q")
    case None
    then show thesis using assms Inr q by (intro created [OF Inr q None, of "\<lparr>i_kind = FileNode [], i_perm = perm, i_times = (0, 0)\<rparr>"])
        (auto simp: OpenFile_def Let_def split: if_splits)
  next
    case (Some i)
    then have ne: "\<not> (fl_Creat fl \<and> fl_Excl fl)" using assms Inr q by (auto simp: OpenFile_def Let_def)
    then obtain n where "existing hops True p fs = Inr (i, n)"
      using assms Inr q Some by (auto simp: OpenFile_def existing_def Let_def split: option.splits)
    then show thesis using OpenFile_existing [OF _ ne assms] Inr there by blast
  qed
qed

lemma dropbox_put:
  assumes inv: "dropbox_inv hops fs0 s hist" and put: "Filewrite hops path pf (ss_h s) (ss_fs s) = (fs, h, Inr f)"
  shows "dropbox_inv hops fs0 (s\<lparr>ss_fs := fs, ss_h := h, ss_open := ss_open s @ [f]\<rparr>) (hist @ [(ReqPut path pf, FileOpened f)])"
proof -
  let ?e = "(ReqPut path pf, FileOpened f)"
  let ?fl = "pf\<lparr>fl_Read := fl_Read pf \<and> fl_Write pf, fl_Write := True\<rparr>"
  have wo: "h_mode (ss_h s) = FileServeWO" using inv by (simp add: dropbox_inv_def)
  then have o: "\<not> fl_Read pf" "OpenFile hops (rel path) ?fl 420 (ss_fs s) = (fs, Inr f)" "h = markOwn (rel path) (ss_h s)"
    using put by (auto simp: Filewrite_def Let_def split: if_splits prod.splits sum.splits)
  have rd: "\<not> of_read f" using OpenFile_handle [OF o(2)] o(1) by simp
  have t: "touched [?e] (of_inode f)" and own: "rel path \<in> own_paths [?e]" by (auto simp: touched_def own_paths_def)
  have add: "only_added fs0 hist (ss_fs s)" using inv by (simp add: dropbox_inv_def)
  have "only_added fs0 (hist @ [?e]) fs \<and> fs_ext (ss_fs s) fs \<and> (\<exists>n. existing hops True (rel path) fs = Inr (of_inode f, n))"
    using o(2)
  proof (cases rule: OpenFile_cases)
    case (created q f' n)
    then show ?thesis using only_added_new(1) [OF add] existing_new [OF created(2-4)] add_node_ext by auto
  next
    case (there i n f')
    then have "only_added fs0 (hist @ [?e]) fs" using only_added_changes [OF add there(3)] t by auto
    then show ?thesis using existing_ext [OF there(2)] there by (auto simp: changes_only_def)
  qed simp
  then have ok: "dropbox_inv hops fs0 (s\<lparr>ss_fs := fs\<rparr>) (hist @ [?e])" "\<exists>n. existing hops True (rel path) fs = Inr (of_inode f, n)"
    using dropbox_keep [OF inv] by blast+
  then show ?thesis using rd t own wo unfolding o(3) dropbox_inv_def by (auto simp: markOwn_def List.insert_def)
qed

lemma Mkdir_cases:
  assumes "root_Mkdir hops p perm fs = (fs', x)"
  obtains (failed) e where "x = Some e" "fs' = fs"
  | (created) q n where "x = None" "resolve hops False p fs = Inr q" "map_of (fs_names fs) q = None" "\<And>t. i_kind n \<noteq> LinkNode t"
      "fs' = add_node q n fs"
proof (cases x)
  case (Some e)
  then have "fs' = fs" using assms by (auto simp: root_Mkdir_def split: sum.splits if_splits)
  then show thesis using Some failed by blast
next
  case None
  then obtain q where "resolve hops False p fs = Inr q" "map_of (fs_names fs) q = None"
    "fs' = add_node q \<lparr>i_kind = DirNode, i_perm = perm, i_times = (0, 0)\<rparr> fs"
    using assms by (auto simp: root_Mkdir_def split: sum.splits if_splits)
  then show thesis using None created by (metis inode.select_convs(1) node_kind.distinct(4))
qed

lemma dropbox_cmd:
  assumes inv: "dropbox_inv hops fs0 s hist" and cmd: "Filecmd hops Method path target at (ss_h s) (ss_fs s) = (fs, h, e)"
  shows "dropbox_inv hops fs0 (s\<lparr>ss_fs := fs, ss_h := h\<rparr>) (hist @ [(ReqCmd Method path target at, cmd_reply e)])"
proof -
  let ?e = "(ReqCmd Method path target at, cmd_reply e)"
  have wo: "h_mode (ss_h s) = FileServeWO" and add: "only_added fs0 hist (ss_fs s)" using inv by (auto simp: dropbox_inv_def)
  consider "fs = ss_fs s" "h = ss_h s"
    | q n where "Method = ''Mkdir''" "e = None" "resolve hops False (rel path) (ss_fs s) = Inr q" "map_of (fs_names (ss_fs s)) q = None"
        "\<And>t. i_kind n \<noteq> LinkNode t" "fs = add_node q n (ss_fs s)" "h = markOwn (rel path) (ss_h s)"
    | "isOwn (ss_h s) (rel path)" "fs = fst (setstat hops at (rel path) (ss_fs s))" "h = ss_h s"
  proof (cases "Method = ''Mkdir''")
    case True
    obtain fs1 x where mk: "root_Mkdir hops (rel path) 493 (ss_fs s) = (fs1, x)" by fastforce
    then show thesis
    proof (cases rule: Mkdir_cases)
      case (failed e')
      then show thesis using that(1) cmd mk wo True by (simp add: Filecmd_def)
    next
      case (created q n)
      have "fs = fs1" "h = markOwn (rel path) (ss_h s)" "e = None" using cmd mk wo True created(1) by (auto simp: Filecmd_def)
      then show thesis using that(2) [OF True _ created(2-4)] created(5) by blast
    qed
  next
    case False
    then have "if Method = ''Setstat'' \<and> isOwn (ss_h s) (rel path) then fs = fst (setstat hops at (rel path) (ss_fs s)) \<and> h = ss_h s
        else fs = ss_fs s \<and> h = ss_h s"
      using cmd wo by (auto simp: Filecmd_def root_result_def Let_def split: if_splits)
    then show thesis using that(1,3) by (metis (full_types))
  qed
  then show ?thesis
  proof cases
    case 1
    then show ?thesis using dropbox_same [OF inv] by simp
  next
    case (2 q n)
    have own: "rel path \<in> own_paths [?e]" using 2(1,2) by (auto simp: own_paths_def cmd_reply_def)
    have "only_added fs0 (hist @ [?e]) fs" "map_of (fs_inodes fs0) (fresh_inode (ss_fs s)) = None"
      using only_added_new [OF add 2(4)] 2(6) by auto
    moreover from this have "dropbox_inv hops fs0 (s\<lparr>ss_fs := fs\<rparr>) (hist @ [?e])" using dropbox_keep [OF inv] add_node_ext 2(4,6) by blast
    moreover have "existing hops True (rel path) fs = Inr (fresh_inode (ss_fs s), n)" using existing_new [OF 2(3-5)] 2(6) by simp
    ultimately show ?thesis using own wo unfolding 2(7) dropbox_inv_def by (auto simp: markOwn_def List.insert_def may_change_def)
  next
    case 3
    then obtain i n where i: "existing hops True (rel path) (ss_fs s) = Inr (i, n)" "may_change fs0 hist i"
      using inv by (auto simp: dropbox_inv_def isOwn_def)
    have c: "changes_only i (ss_fs s) fs" using setstat_changes [OF i(1)] 3(2) by simp
    have "only_added fs0 (hist @ [?e]) fs" by (rule only_added_changes [OF add c]) (simp add: i(2))
    then show ?thesis using dropbox_keep [OF inv] c 3(3) by (simp add: changes_only_def)
  qed
qed

lemma dropbox_step:
  assumes inv: "dropbox_inv hops fs0 s hist" and step: "sftp_step hops ev s = (s', r)"
  shows "dropbox_inv hops fs0 s' (hist @ [(ev, r)])"
proof (cases ev)
  case (ReqPut path pf)
  obtain fs h x where f: "Filewrite hops path pf (ss_h s) (ss_fs s) = (fs, h, x)" by (metis prod_cases3)
  show ?thesis
  proof (cases x)
    case (Inl e)
    have "fs = ss_fs s" "h = ss_h s"
      using f Inl by (auto simp: Filewrite_def Let_def split: if_splits prod.splits sum.splits elim!: OpenFile_cases)
    then show ?thesis using dropbox_same [OF inv] step f Inl ReqPut by auto
  next
    case (Inr f')
    then show ?thesis using dropbox_put [OF inv] step f ReqPut by auto
  qed
next
  case (ReqCmd m path t at)
  then show ?thesis using step dropbox_cmd [OF inv] by (auto split: prod.splits)
next
  case (DataWrite k off data)
  show ?thesis
  proof (cases "k < length (ss_open s)")
    case True
    let ?f = "ss_open s ! k"
    have c: "changes_only (of_inode ?f) (ss_fs s) (fst (file_WriteAt ?f off data (ss_fs s)))" by (rule WriteAt_changes)
    have t: "touched hist (of_inode ?f)" and add: "only_added fs0 hist (ss_fs s)" using inv True by (auto simp: dropbox_inv_def)
    have "only_added fs0 (hist @ [(ev, r)]) (fst (file_WriteAt ?f off data (ss_fs s)))"
      by (rule only_added_changes [OF add c]) (use t in \<open>simp add: may_change_def\<close>)
    then show ?thesis using dropbox_keep [OF inv] c step True DataWrite by (auto simp: changes_only_def split: prod.splits)
  next
    case False
    then show ?thesis using step DataWrite dropbox_same [OF inv] by auto
  qed
next
  case (ReqGet path)
  then show ?thesis using step dropbox_same [OF inv] inv by (auto simp: Fileread_def dropbox_inv_def)
qed (use step dropbox_same [OF inv] in auto)

lemma stat_visible:
  assumes "h_mode h = FileServeWO" "sftp_stat h p statf = Inr fi"
  shows "fi_IsDir fi \<or> p \<in> set (h_wrote h)"
  using assms by (auto simp: sftp_stat_def isOwn_def split: sum.splits if_splits)

text \<open>What a write-only session is told: nothing but that files were opened for writing, that commands were carried out,
  and information about directories and its own paths.\<close>

fun discreet :: "string set \<Rightarrow> sftp_event \<times> sftp_reply \<Rightarrow> bool" where
  "discreet own (ev, FileOpened f) = (\<not> of_read f)"
| "discreet own (ev, Infos fis) = (\<exists>fi p. fis = [fi] \<and> event_path ev = Some p \<and> (fi_IsDir fi \<or> p \<in> own))"
| "discreet own (ev, LinkText t) = False"
| "discreet own (ev, FileData b) = False"
| "discreet own (ev, CmdDone) = True"
| "discreet own (ev, Refused e) = True"

lemma dropbox_discreet:
  assumes inv: "dropbox_inv hops fs0 s hist" and step: "sftp_step hops ev s = (s', r)"
  shows "discreet (own_paths hist) (ev, r)"
proof -
  have wo: "h_mode (ss_h s) = FileServeWO" and own: "set (h_wrote (ss_h s)) \<subseteq> own_paths hist" and files: "\<forall>f\<in>set (ss_open s). \<not> of_read f"
    using inv by (auto simp: dropbox_inv_def)
  show ?thesis
  proof (cases ev)
    case (ReqPut path pf)
    then show ?thesis using step wo
      by (auto simp: Filewrite_def Let_def split: prod.splits sum.splits if_splits dest!: OpenFile_handle)
  next
    case (ReqCmd m path t at)
    then show ?thesis using step by (auto simp: cmd_reply_def split: prod.splits option.splits)
  next
    case (ReqList m path)
    then show ?thesis using step wo own by (auto simp: Filelist_def Let_def split: sum.splits if_splits dest!: stat_visible)
  next
    case (ReqLstat path)
    then show ?thesis using step wo own by (auto simp: Lstat_def split: sum.splits dest!: stat_visible)
  next
    case (DataRead k off len)
    then show ?thesis using step files by (auto simp: file_ReadAt_def split: sum.splits if_splits)
  next
    case (DataWrite k off data)
    then show ?thesis using step by (auto simp: cmd_reply_def split: prod.splits option.splits if_splits)
  qed (use step wo in \<open>auto simp: Fileread_def Readlink_def\<close>)
qed

lemma dropbox_session:
  assumes "sftp_session hops FileServeWO fs s hist"
  shows "dropbox_inv hops fs s hist \<and> (\<forall>h1 x h2. hist = h1 @ x # h2 \<longrightarrow> discreet (own_paths h1) x)"
  using assms
proof induction
  case session_start
  show ?case by (simp add: dropbox_inv_def newRootedSFTPServer_def only_added_def)
next
  case (session_step s hist ev s' r)
  have "discreet (own_paths h1) x" if "hist @ [(ev, r)] = h1 @ x # h2" for h1 x h2
  proof (cases h2 rule: rev_cases)
    case Nil
    then show ?thesis using that session_step dropbox_discreet by auto
  next
    case (snoc ys y)
    then have "hist = h1 @ x # ys" using that by simp
    then show ?thesis using session_step.IH by blast
  qed
  then show ?case using session_step dropbox_step by blast
qed

text \<open>
  C39: the modes of the file service, over every sequence of requests, reads and writes of a connection. Read-only: the
  directory does not change. Write-only: no content, no listing and no link target is ever returned and no file is
  opened for reading; information is given only about directories and about paths the connection itself uploaded to or
  created; every name and every link stays what it was, and everything that was there before is unchanged except the
  files that the connection opened for writing.
\<close>
theorem sftp_modes:
  assumes "sftp_session hops mode fs s hist"
  shows "(mode = FileServeRO \<longrightarrow> ss_fs s = fs) \<and>
    (mode = FileServeWO \<longrightarrow>
       (\<forall>h1 x h2. hist = h1 @ x # h2 \<longrightarrow> discreet (own_paths h1) x) \<and>
       (\<forall>p i. map_of (fs_names fs) p = Some i \<longrightarrow> map_of (fs_names (ss_fs s)) p = Some i) \<and>
       (\<forall>i n. map_of (fs_inodes fs) i = Some n \<and> (\<forall>ev f. (ev, FileOpened f) \<in> set hist \<longrightarrow> of_inode f \<noteq> i) \<longrightarrow>
          map_of (fs_inodes (ss_fs s)) i = Some n) \<and>
       (\<forall>i n t. map_of (fs_inodes fs) i = Some n \<and> i_kind n = LinkNode t \<longrightarrow>
          (\<exists>n'. map_of (fs_inodes (ss_fs s)) i = Some n' \<and> i_kind n' = LinkNode t)))"
proof (cases mode)
  case FileServeWO
  have d: "only_added fs hist (ss_fs s)" "\<forall>h1 x h2. hist = h1 @ x # h2 \<longrightarrow> discreet (own_paths h1) x"
    using dropbox_session assms FileServeWO unfolding dropbox_inv_def by blast+
  have links: "\<exists>n'. map_of (fs_inodes (ss_fs s)) i = Some n' \<and> i_kind n' = LinkNode t"
    if "map_of (fs_inodes fs) i = Some n" "i_kind n = LinkNode t" for i n t
    using d(1) that shape_kinds(2) unfolding only_added_def fs_ext_def by blast
  show ?thesis using d links FileServeWO unfolding only_added_def fs_ext_def touched_def by blast
next
  case FileServeRO
  then show ?thesis using read_only_session assms by auto
qed simp

definition sample_dir :: root_fs where
  "sample_dir = \<lparr>fs_names = [([], 1), ([''a''], 2)],
     fs_inodes = [(1, \<lparr>i_kind = DirNode, i_perm = 493, i_times = (0, 0)\<rparr>), (2, \<lparr>i_kind = FileNode [7], i_perm = 420, i_times = (0, 0)\<rparr>)]\<rparr>"

theorem sftp_modes_witness:
  "\<exists>s r. sftp_session 8 FileServeWO sample_dir s [(ReqGet ''/a'', r)] \<and> discreet {} (ReqGet ''/a'', r) \<and>
     map_of (fs_names (ss_fs s)) [''a''] = Some 2"
proof -
  obtain s r where st: "sftp_step 8 (ReqGet ''/a'') (newRootedSFTPServer FileServeWO sample_dir) = (s, r)" by fastforce
  have ses: "sftp_session 8 FileServeWO sample_dir s [(ReqGet ''/a'', r)]"
    using session_step [OF session_start st] by simp
  have "map_of (fs_names sample_dir) [''a''] = Some 2" by (simp add: sample_dir_def)
  moreover have "own_paths [] = {}" by (simp add: own_paths_def)
  ultimately show ?thesis using sftp_modes [OF ses] ses by (metis append_Nil)
qed

section \<open>What a drop box does not prevent\<close>

text \<open>The flags with which upload tools open a file.\<close>

definition upload_flags :: open_flags where
  "upload_flags = write_flags\<lparr>fl_Creat := True, fl_Trunc := True\<rparr>"

definition probe_flags :: open_flags where
  "probe_flags = write_flags\<lparr>fl_Creat := True, fl_Excl := True\<rparr>"

text \<open>
  C40: existing files of a drop box are not protected. A new write-only connection that uploads to the path of any file that
  is already there empties that file and is from then on allowed to look at it and to change its attributes; and an
  upload that insists on a new file is refused in a way that tells the sender that the name is taken.
\<close>
theorem dropbox_overwrites:
  assumes "existing hops True (rel path) fs = Inr (i, n)" "i_kind n = FileNode b"
  shows "(\<exists>s f fi. sftp_step hops (ReqPut path upload_flags) (newRootedSFTPServer FileServeWO fs) = (s, FileOpened f) \<and>
      map_of (fs_inodes (ss_fs s)) i = Some (n\<lparr>i_kind := FileNode []\<rparr>) \<and> isOwn (ss_h s) (rel path) \<and>
      sftp_step hops (ReqList ''Stat'' path) s = (s, Infos [fi]) \<and> \<not> fi_IsDir fi) \<and>
    (existing hops False (rel path) fs = Inr (i, n) \<longrightarrow>
      sftp_step hops (ReqPut path probe_flags) (newRootedSFTPServer FileServeWO fs) =
        (newRootedSFTPServer FileServeWO fs, Refused (RootError AlreadyExists)))"
proof
  let ?p = "rel path"
  let ?init = "newRootedSFTPServer FileServeWO fs"
  let ?n = "n\<lparr>i_kind := FileNode []\<rparr>"
  let ?fs = "set_inode i ?n fs"
  let ?f = "\<lparr>of_inode = i, of_read = False, of_write = True, of_append = False\<rparr>"
  let ?s = "?init\<lparr>ss_fs := ?fs, ss_h := markOwn ?p (ss_h ?init), ss_open := [?f]\<rparr>"
  have op: "OpenFile hops ?p upload_flags 420 fs = (?fs, Inr ?f)"
    using assms by (auto simp: OpenFile_def existing_def upload_flags_def write_flags_def Let_def split: sum.splits option.splits)
  have flags: "upload_flags\<lparr>fl_Read := False, fl_Write := True\<rparr> = upload_flags"
    "\<not> fl_Read upload_flags" by (simp_all add: upload_flags_def write_flags_def)
  have put: "sftp_step hops (ReqPut path upload_flags) ?init = (?s, FileOpened ?f)"
    using op by (simp add: newRootedSFTPServer_def Filewrite_def flags Let_def)
  obtain n' where "existing hops True ?p ?fs = Inr (i, n')"
    using existing_ext [OF assms(1)] set_inode_ext [OF existing_inode [OF assms(1)], of ?n] assms(2) by auto
  moreover from this have "n' = ?n" using existing_inode by fastforce
  ultimately have st: "sftp_step hops (ReqList ''Stat'' path) ?s = (?s, Infos [info_of (base_name ?p) ?n])"
    by (simp add: Filelist_def sftp_stat_def root_Stat_def isOwn_def markOwn_def)
  show "\<exists>s f fi. sftp_step hops (ReqPut path upload_flags) ?init = (s, FileOpened f) \<and> map_of (fs_inodes (ss_fs s)) i = Some ?n \<and>
      isOwn (ss_h s) ?p \<and> sftp_step hops (ReqList ''Stat'' path) s = (s, Infos [fi]) \<and> \<not> fi_IsDir fi"
    using put st by (intro exI [of _ ?s] exI [of _ ?f] exI) (auto simp: isOwn_def markOwn_def info_of_def simp del: sftp_step.simps)
  show "existing hops False ?p fs = Inr (i, n) \<longrightarrow>
      sftp_step hops (ReqPut path probe_flags) ?init = (?init, Refused (RootError AlreadyExists))"
    by (auto simp: newRootedSFTPServer_def Filewrite_def OpenFile_def existing_def probe_flags_def write_flags_def Let_def
        split: sum.splits option.splits)
qed

theorem dropbox_overwrites_witness:
  "\<exists>s f. sftp_step 8 (ReqPut ''/a'' upload_flags) (newRootedSFTPServer FileServeWO sample_dir) = (s, FileOpened f) \<and>
     map_option i_kind (map_of (fs_inodes (ss_fs s)) 2) = Some (FileNode []) \<and> map_option i_kind (map_of (fs_inodes sample_dir) 2) = Some (FileNode [7])"
proof -
  have "rel ''/a'' = ''a''" by code_simp
  moreover have "split_on CHR ''/'' ''a'' = [''a'']" by (simp add: split_on_absent)
  ultimately have e: "existing 8 True (rel ''/a'') sample_dir = Inr (2, \<lparr>i_kind = FileNode [7], i_perm = 420, i_times = (0, 0)\<rparr>)"
    by (simp add: existing_def resolve_def sample_dir_def node_at_def)
  have "map_option i_kind (map_of (fs_inodes sample_dir) 2) = Some (FileNode [7])" by (simp add: sample_dir_def)
  with dropbox_overwrites [OF e] show ?thesis by fastforce
qed

text \<open>What is uploaded in append mode is never written: the file is opened in a mode in which \<^verbatim>\<open>WriteAt\<close> fails.\<close>

lemma append_upload_fails:
  assumes "Filewrite hops path pf h fs = (fs', h', Inr f)" "fl_Append pf"
  shows "file_WriteAt f off data fs2 = (fs2, Some InvalidArgument)"
  using assms by (auto simp: Filewrite_def file_WriteAt_def Let_def split: if_splits prod.splits sum.splits dest!: OpenFile_handle)

section \<open>Paths of requests stay inside\<close>

lemma clean_rooted:
  assumes "''..'' \<notin> set st" "[] \<notin> set st" "''.'' \<notin> set st"
  shows "set (clean_elems True st cs) \<subseteq> (set st \<union> set cs) - {[], ''.'', ''..''}"
  using assms
proof (induction cs arbitrary: st)
  case (Cons c cs)
  consider "c = [] \<or> c = ''.''" | "c = ''..''" | "c \<notin> {[], ''.'', ''..''}" by auto
  then show ?case
  proof cases
    case 2
    show ?thesis
    proof (cases st)
      case (Cons x st')
      have "set (clean_elems True st' cs) \<subseteq> (set st' \<union> set cs) - {[], ''.'', ''..''}"
        by (rule Cons.IH) (use Cons.prems Cons in auto)
      then show ?thesis using 2 Cons Cons.prems by auto
    qed (use 2 Cons.IH [of "[]"] in auto)
  next
    case 3
    have "set (clean_elems True (c # st) cs) \<subseteq> (set (c # st) \<union> set cs) - {[], ''.'', ''..''}"
      by (rule Cons.IH) (use Cons.prems 3 in auto)
    then show ?thesis using 3 by auto
  qed (use Cons in auto)
qed auto

lemma split_join_path: "ws \<noteq> [] \<Longrightarrow> \<forall>w\<in>set ws. CHR ''/'' \<notin> set w \<Longrightarrow> split_on CHR ''/'' (join_path ws) = ws"
  by (induction ws rule: join_path.induct) (auto simp: split_on_append split_on_absent)

lemma split_on_elems: "w \<in> set (split_on c s) \<Longrightarrow> c \<notin> set w"
  by (induction s arbitrary: w) (auto split: if_splits list.splits)

text \<open>The elements of an absolute request path, as handed to the root, never go up.\<close>

lemma rel_elems:
  assumes "HasPrefix path ''/''"
  shows "''..'' \<notin> set (split_on CHR ''/'' (rel path)) \<and> (rel path = ''.'' \<or> [] \<notin> set (split_on CHR ''/'' (rel path)))"
proof -
  let ?ws = "clean_elems True [] (split_on CHR ''/'' path)"
  have path: "path \<noteq> []" "hd path = CHR ''/''" using assms by (cases path; simp add: HasPrefix_iff)+
  have ws: "set ?ws \<subseteq> set (split_on CHR ''/'' path) - {[], ''.'', ''..''}" using clean_rooted [of "[]"] by auto
  have rel: "rel path = (if join_path ?ws = [] then ''.'' else join_path ?ws)"
    using path TrimPrefix_append [of "''/''" "join_path ?ws"] by (simp add: rel_def Clean_def Let_def)
  show ?thesis
  proof (cases "?ws = []")
    case True
    then show ?thesis using rel by (simp add: split_on_absent)
  next
    case False
    have "\<forall>w\<in>set ?ws. CHR ''/'' \<notin> set w" using ws split_on_elems by blast
    then have "split_on CHR ''/'' (join_path ?ws) = ?ws" using False split_join_path by blast
    then show ?thesis using rel ws by (auto simp: split_on_absent)
  qed
qed

end
