(* ===== verification/Ssh.thy ===== *)
theory Ssh
  imports Sftp Auto_Direct
begin

text \<open>
  The decisions of the SSH server (\<^verbatim>\<open>tailcat_ssh.go\<close> and the subsystem handler of \<^verbatim>\<open>tailcat_sftp.go\<close>): which sessions and
  subsystems a connection offers, the end of an SFTP session, the environment taken from clients, and the host key. The
  SSH protocol and the processes behind sessions belong to libraries and the operating system.
\<close>

section \<open>Host key\<close>

text \<open>What writing a file did: \<open>Truncated b\<close> is a file that was opened, so emptied, and then failed after \<open>b\<close>.\<close>

datatype file_write = Written | NotOpened | Truncated bytes

definition write_file :: "file_write \<Rightarrow> string \<Rightarrow> bytes \<Rightarrow> file_system \<Rightarrow> file_system" where
  "write_file w path content fs =
     (case w of Written \<Rightarrow> AList.update path content fs | NotOpened \<Rightarrow> fs | Truncated b \<Rightarrow> AList.update path b fs)"

text \<open>\<open>readable\<close> is whether an existing file can be read, and \<open>new\<close> the PEM text of a new key, if one could be made.\<close>

definition hostKeyFileOrCreate :: "bool \<Rightarrow> bytes option \<Rightarrow> file_write \<Rightarrow> string \<Rightarrow> file_system \<Rightarrow> file_system \<times> bytes option" where
  "hostKeyFileOrCreate readable new w path fs =
     (case map_of fs path of
        Some v \<Rightarrow> (fs, if readable then Some v else None)
      | None \<Rightarrow>
          (case new of
             None \<Rightarrow> (fs, None)
           | Some pemData \<Rightarrow> (write_file w path pemData fs, if w = Written then Some pemData else None)))"

text \<open>\<open>dir\<close> is the directory \<^verbatim>\<open>tailcat/ssh\<close> if it exists or could be made, \<open>join\<close> is \<^verbatim>\<open>filepath.Join\<close>, and \<open>parse_key\<close> reads a private key.\<close>

definition getHostKeys ::
  "(bytes \<Rightarrow> 'sig option) \<Rightarrow> (string \<Rightarrow> string \<Rightarrow> string) \<Rightarrow> string option \<Rightarrow> bool \<Rightarrow> bytes option \<Rightarrow> file_write \<Rightarrow> file_system \<Rightarrow>
   file_system \<times> 'sig list option" where
  "getHostKeys parse_key join dir readable new w fs =
     (case dir of
        None \<Rightarrow> (fs, None)
      | Some d \<Rightarrow>
          (case hostKeyFileOrCreate readable new w (join d ''ssh_host_ed25519_key'') fs of
             (fs, None) \<Rightarrow> (fs, None)
           | (fs, Some pem) \<Rightarrow> (fs, map_option (\<lambda>k. [k]) (parse_key pem))))"

text \<open>The host key does not change: once a connection was served with a key, every later one that can read the file gets
  the same key, whatever new key it could make.\<close>

lemma host_key_stable:
  assumes "getHostKeys parse_key join (Some d) readable new w fs = (fs', Some keys)"
  shows "getHostKeys parse_key join (Some d) True new' w' fs' = (fs', Some keys)"
  using assms by (auto simp: getHostKeys_def hostKeyFileOrCreate_def write_file_def map_of_update split: option.splits prod.splits if_splits)

text \<open>The file is not replaced atomically: after a write that failed half way every later connection finds the broken
  text.\<close>

lemma host_key_broken:
  assumes "map_of fs (join d ''ssh_host_ed25519_key'') = None" "getHostKeys parse_key join (Some d) readable (Some pem) (Truncated b) fs = (fs', r)"
    "parse_key b = None"
  shows "r = None \<and> getHostKeys parse_key join (Some d) True new w fs' = (fs', None)"
  using assms by (auto simp: getHostKeys_def hostKeyFileOrCreate_def write_file_def map_of_update)

section \<open>Connections\<close>

record SSHOptions =
  so_Shell :: bool
  so_Files :: "(string \<times> FileServeMode) option"

datatype sftp_backend = RootedSFTP string FileServeMode | FullSFTP

text \<open>Which backend the handler of the subsystem uses; \<open>None\<close> is no subsystem.\<close>

definition sftpSubsystemHandler :: "SSHOptions \<Rightarrow> sftp_backend option" where
  "sftpSubsystemHandler opts =
     (case so_Files opts of
        Some (dir, mode) \<Rightarrow> Some (RootedSFTP dir mode)
      | None \<Rightarrow> if so_Shell opts then Some FullSFTP else None)"

datatype session_act = LogError | ExitStatus nat | CloseServer | CloseRoot

text \<open>What the handler does; \<open>opened\<close> is whether the directory and the server could be opened, \<open>ok\<close> whether serving ended with
  the end of the stream.\<close>

definition sftp_session_acts :: "sftp_backend \<Rightarrow> bool \<Rightarrow> bool \<Rightarrow> session_act list" where
  "sftp_session_acts backend opened ok =
     (if \<not> opened then [LogError, ExitStatus 1]
      else (if ok then [ExitStatus 0] else [LogError, ExitStatus 1]) @ [CloseServer] @
        (case backend of RootedSFTP _ _ \<Rightarrow> [CloseRoot] | FullSFTP \<Rightarrow> []))"

datatype ssh_handler = ShellHandler | FilesOnlyHandler

record 'sig ssh_server =
  sv_Handler :: ssh_handler
  sv_Subsystems :: "(string \<times> sftp_backend) list"
  sv_HostKeys :: "'sig list"

text \<open>\<open>None\<close> is the connection closed for want of a host key.\<close>

definition SSHConnHandler :: "SSHOptions \<Rightarrow> 'sig list option \<Rightarrow> 'sig ssh_server option" where
  "SSHConnHandler opts keys =
     (case keys of
        None \<Rightarrow> None
      | Some ks \<Rightarrow>
          Some \<lparr>sv_Handler = (if so_Shell opts then ShellHandler else FilesOnlyHandler),
                sv_Subsystems = (case sftpSubsystemHandler opts of None \<Rightarrow> [] | Some b \<Rightarrow> [(''sftp'', b)]),
                sv_HostKeys = ks\<rparr>)"

definition acceptEnvPair :: "string \<Rightarrow> bool" where
  "acceptEnvPair kv =
     (case IndexByte kv CHR ''='' of
        None \<Rightarrow> False
      | Some i \<Rightarrow> let k = take i kv in k = ''TERM'' \<or> k = ''LANG'' \<or> HasPrefix k ''LC_'')"

definition exitCode :: "nat option \<Rightarrow> nat" where
  "exitCode exitErr = (case exitErr of Some c \<Rightarrow> c | None \<Rightarrow> 1)"

text \<open>A server that offers files only never hands out a shell, and its sessions are confined to the directory.\<close>

lemma files_only_confined:
  assumes "SSHConnHandler opts keys = Some srv" "\<not> so_Shell opts"
  shows "sv_Handler srv = FilesOnlyHandler \<and>
    (\<forall>(name, b)\<in>set (sv_Subsystems srv). \<exists>dir mode. b = RootedSFTP dir mode \<and> so_Files opts = Some (dir, mode))"
  using assms by (auto simp: SSHConnHandler_def sftpSubsystemHandler_def split: option.splits)

text \<open>The exit status is sent once and before the channel is closed.\<close>

lemma exit_before_close:
  "\<exists>pre c post. sftp_session_acts backend opened ok = pre @ ExitStatus c # post \<and>
     CloseServer \<notin> set pre \<and> (\<forall>c. ExitStatus c \<notin> set pre \<union> set post) \<and> (c = 0 \<longleftrightarrow> opened \<and> ok)"
proof -
  let ?pre = "if opened \<and> ok then [] else [LogError]" and ?c = "if opened \<and> ok then 0 else 1 :: nat"
  let ?post = "if opened then CloseServer # (case backend of RootedSFTP _ _ \<Rightarrow> [CloseRoot] | FullSFTP \<Rightarrow> []) else []"
  have "sftp_session_acts backend opened ok = ?pre @ ExitStatus ?c # ?post" by (simp add: sftp_session_acts_def)
  moreover have "CloseServer \<notin> set ?pre \<and> (\<forall>c. ExitStatus c \<notin> set ?pre \<union> set ?post) \<and> (?c = 0 \<longleftrightarrow> opened \<and> ok)"
    by (simp split: sftp_backend.splits)
  ultimately show ?thesis by (intro exI [of _ ?pre] exI [of _ ?c] exI [of _ ?post]) simp
qed

end
