(* ===== verification/Cli.thy ===== *)
theory Cli
  imports Lifecycle Meow Ssh
begin

text \<open>
  The command line of MasqueCat: what \<^verbatim>\<open>cmd/tailcat/masquecat_cli.go\<close> makes of flags, environment and key files, with the
  helpers of \<^verbatim>\<open>cmd/tailcat/tailcat.go\<close> it shares with the original transport. Flags are parsed by a library; the model
  starts from their values. The outcomes of system calls and the readings of the clock are arguments.
\<close>

section \<open>Flags\<close>

record cli_flags =
  fl_legacyDERP :: bool
  fl_relayURL :: string
  fl_directURL :: string
  fl_directListen :: string
  fl_tlsCert :: string
  fl_tlsKey :: string
  fl_insecureSkipVerify :: bool

definition envTruthy :: "environment \<Rightarrow> string \<Rightarrow> bool" where
  "envTruthy env name = (ToLower (TrimSpace (Getenv env name)) \<in> set [''1'', ''t'', ''true'', ''y'', ''yes'', ''on''])"

text \<open>The values of the flags that are not given on the command line.\<close>

definition registerMasqueCLIFlags :: "environment \<Rightarrow> cli_flags" where
  "registerMasqueCLIFlags env =
     \<lparr>fl_legacyDERP = envTruthy env ''TAILCAT_LEGACY_DERP'',
      fl_relayURL = Getenv env ''MASQUECAT_RELAY_URL'',
      fl_directURL = Getenv env ''MASQUECAT_DIRECT_URL'',
      fl_directListen = Getenv env ''MASQUECAT_DIRECT_LISTEN'',
      fl_tlsCert = Getenv env ''MASQUECAT_TLS_CERT'',
      fl_tlsKey = Getenv env ''MASQUECAT_TLS_KEY'',
      fl_insecureSkipVerify = envTruthy env ''MASQUECAT_INSECURE_SKIP_VERIFY''\<rparr>"

definition isMasqueBlob :: "string \<Rightarrow> bool" where "isMasqueBlob blob = HasPrefix blob ''mc''"

definition validCLIConnBlob ::
  "'k node_key_api \<Rightarrow> 'd disco_key_api \<Rightarrow> ('k, 'd) cbor_api \<Rightarrow> 'k \<Rightarrow> 'd \<Rightarrow> string \<Rightarrow> bool" where
  "validCLIConnBlob K D C zeroKey zeroDisco blob =
     (if isMasqueBlob blob then (case ParseMasqueConnBlob K D (zero_info zeroKey zeroDisco) blob of Inr _ \<Rightarrow> True | Inl _ \<Rightarrow> False)
      else (case ParseConnBlob C zeroDisco blob of Inr _ \<Rightarrow> True | Inl _ \<Rightarrow> False))"

section \<open>Keys\<close>

definition keyIsPath :: "string \<Rightarrow> bool" where
  "keyIsPath name \<longleftrightarrow> CHR ''/'' \<in> set name \<or> CHR 0x5C \<in> set name"

text \<open>\<open>join\<close> is \<^verbatim>\<open>filepath.Join\<close> and \<open>confDir\<close> the user's configuration directory.\<close>

definition keyPath :: "(string list \<Rightarrow> string) \<Rightarrow> string \<Rightarrow> string \<Rightarrow> string" where
  "keyPath join confDir name =
     (if keyIsPath name then name else join [confDir, ''tailcat'', ''keys'', name @ ''.private.json''])"

datatype stat_result = StatFound | StatMissing | StatFailed

datatype cli_error =
  NeedsEndpoint | DirectFlagsWithoutURL | NeedsDirectListen | NeedsDirectTLS | BadServeSpec port_error | FilesNeedSSH
| StatDefaultKey | ReadKeyFile | ParseKeyFile | ZeroKeyInFile | LoadDirectTLS | SSHNotSupported | BadAllowKey string | BadFiles
| GenkeyArgs | DeleteNeedsKey | DeletePath | NeedsKeyName | LegacyFlag string | ClientDefaultMistake | KeyExists | WriteKey | MakeKeyDir
| NoSuchKey | NoConfigDir | ReadKeyDir | TokenError blob_error | BadPortArg | BadAddrArg

text \<open>\<open>stat\<close> and \<open>read\<close> ask the file system, \<open>parse_conf\<close> is \<^verbatim>\<open>json.Unmarshal\<close> of a key file, and \<open>fresh\<close> a new key.\<close>

definition loadMasqueServerKey ::
  "(string \<Rightarrow> stat_result) \<Rightarrow> (string \<Rightarrow> bytes option) \<Rightarrow> (bytes \<Rightarrow> 'p option) \<Rightarrow> ('p \<Rightarrow> bool) \<Rightarrow> 'p \<Rightarrow> (string \<Rightarrow> string) \<Rightarrow>
   string \<Rightarrow> cli_error + 'p \<times> string" where
  "loadMasqueServerKey stat read parse_conf privZero fresh path flagKey =
     (let named = (if flagKey = [] then
            (case stat (path ''default'') of StatFound \<Rightarrow> Some ''default'' | StatMissing \<Rightarrow> Some ''new'' | StatFailed \<Rightarrow> None)
          else Some flagKey) in
      case named of
        None \<Rightarrow> Inl StatDefaultKey
      | Some k \<Rightarrow>
          if k = ''new'' then Inr (fresh, ''new'')
          else case read (path k) of
            None \<Rightarrow> Inl ReadKeyFile
          | Some j \<Rightarrow>
              (case parse_conf j of
                 None \<Rightarrow> Inl ParseKeyFile
               | Some priv \<Rightarrow> if privZero priv then Inl ZeroKeyInFile else Inr (priv, k)))"

text \<open>\<^verbatim>\<open>clientKey\<close>; a failure ends the process.\<close>

definition clientKey ::
  "(string \<Rightarrow> stat_result) \<Rightarrow> (string \<Rightarrow> bytes option) \<Rightarrow> (bytes \<Rightarrow> 'p option) \<Rightarrow> 'p \<Rightarrow> (string \<Rightarrow> string) \<Rightarrow> string \<Rightarrow> cli_error + 'p" where
  "clientKey stat read parse_conf fresh path flagKey =
     (if flagKey = [] \<and> stat (path ''client-default'') \<noteq> StatFound then Inr fresh
      else let k = (if flagKey = [] then ''client-default'' else flagKey) in
        if k = ''new'' then Inr fresh
        else case read (path k) of
          None \<Rightarrow> Inl ReadKeyFile
        | Some j \<Rightarrow> (case parse_conf j of None \<Rightarrow> Inl ParseKeyFile | Some priv \<Rightarrow> Inr priv))"

section \<open>The server command\<close>

text \<open>\<open>abs_path\<close> is \<^verbatim>\<open>filepath.Abs\<close> and \<open>is_dir\<close> whether the path is a directory that exists.\<close>

definition parseFilesFlag :: "(string \<Rightarrow> string option) \<Rightarrow> (string \<Rightarrow> bool) \<Rightarrow> string \<Rightarrow> (string \<times> FileServeMode) option" where
  "parseFilesFlag abs_path is_dir v =
     (let (dir, mode) =
            (if snd (CutSuffix v '':ro'') then (fst (CutSuffix v '':ro''), FileServeRO)
             else if snd (CutSuffix v '':rw'') then (fst (CutSuffix v '':rw''), FileServeRW)
             else if snd (CutSuffix v '':wo'') then (fst (CutSuffix v '':wo''), FileServeWO)
             else (v, FileServeRO));
          dir = (if dir = [] then ''.'' else dir) in
      case abs_path dir of
        None \<Rightarrow> None
      | Some a \<Rightarrow> if is_dir a then Some (a, mode) else None)"

datatype cli_handler = SSHHandler bool "(string \<times> FileServeMode) option" | ForwardLocal u16 | ForwardAddr addr_port | StdoutOnce

definition masqueServer_guard :: "cli_flags \<Rightarrow> cli_error option" where
  "masqueServer_guard fl =
     (if fl_relayURL fl = [] \<and> fl_directURL fl = [] then Some NeedsEndpoint
      else if fl_directURL fl = [] \<and> (fl_directListen fl \<noteq> [] \<or> fl_tlsCert fl \<noteq> [] \<or> fl_tlsKey fl \<noteq> []) then Some DirectFlagsWithoutURL
      else if fl_directURL fl \<noteq> [] \<and> fl_directListen fl = [] then Some NeedsDirectListen
      else if fl_directURL fl \<noteq> [] \<and> (fl_tlsCert fl = [] \<or> fl_tlsKey fl = []) then Some NeedsDirectTLS
      else None)"

text \<open>The ports and services after the \<^verbatim>\<open>--files\<close> flag.\<close>

definition served_services :: "bool \<Rightarrow> string \<Rightarrow> string \<Rightarrow> cli_error + u16 set \<times> string set" where
  "served_services ssh files serveSpec =
     (case parsePortSet ssh serveSpec of
        Inl e \<Rightarrow> Inl (BadServeSpec e)
      | Inr (portSet, services) \<Rightarrow>
          if files \<noteq> [] \<and> \<not> ssh then Inl FilesNeedSSH
          else Inr (portSet, if files \<noteq> [] then insert ''files'' services else services))"

definition ssh_services :: "string set \<Rightarrow> bool" where
  "ssh_services services \<longleftrightarrow> ''no-auth-ssh'' \<in> services \<or> ''files'' \<in> services"

text \<open>\<^verbatim>\<open>oneShotStdout\<close>, and \<^verbatim>\<open>s.ServedTCPPorts\<close>, which is nil where it is not set or where there are no ranges.\<close>

definition one_shot :: "u16 set \<Rightarrow> string set \<Rightarrow> bool" where
  "one_shot portSet services \<longleftrightarrow> portSet = {} \<and> services = {}"

definition served_ranges :: "u16 set \<Rightarrow> string set \<Rightarrow> PortRange list option" where
  "served_ranges portSet services =
     (if \<not> one_shot portSet services \<and> ''exit-node'' \<notin> services then
        let ports = sorted_list_of_set portSet;
            ports = (if ssh_services services \<and> 22 \<notin> portSet then 22 # ports else ports);
            rs = portRanges ports
        in if rs = [] then None else Some rs
      else None)"

definition cli_onTCP ::
  "u16 set \<Rightarrow> string set \<Rightarrow> cli_handler option \<Rightarrow> u16 \<Rightarrow> cli_handler option" where
  "cli_onTCP portSet services sshHandler port =
     (if port = 22 \<and> sshHandler \<noteq> None then sshHandler
      else if ''exit-node'' \<in> services then Some (ForwardLocal port)
      else if one_shot portSet services then Some StdoutOnce
      else if port \<notin> portSet then None
      else Some (ForwardLocal port))"

definition cli_onTCPForward :: "string set \<Rightarrow> (addr_port \<Rightarrow> cli_handler option) option" where
  "cli_onTCPForward services = (if ''exit-node'' \<in> services then Some (\<lambda>dst. Some (ForwardAddr dst)) else None)"

text \<open>The keys of \<^verbatim>\<open>--allow\<close>; \<^verbatim>\<open>none\<close> allows only the zero key.\<close>

fun parse_allow :: "'k node_key_api \<Rightarrow> 'k \<Rightarrow> string list \<Rightarrow> 'k list \<Rightarrow> cli_error + 'k list" where
  "parse_allow K zero [] acc = Inr acc"
| "parse_allow K zero (ks # rest) acc =
     (if ks = ''none'' then parse_allow K zero rest (acc @ [zero])
      else case UnmarshalText K ks of
             None \<Rightarrow> Inl (BadAllowKey ks)
           | Some k \<Rightarrow> parse_allow K zero rest (acc @ [k]))"

record ('k, 'p) server_plan =
  pl_key :: 'p
  pl_keyName :: string
  pl_config :: server_config
  pl_insecure :: bool
  pl_allowed :: "'k list"
  pl_served :: "PortRange list option"
  pl_onTCP :: "u16 \<Rightarrow> cli_handler option"
  pl_onTCPForward :: "(addr_port \<Rightarrow> cli_handler option) option"

text \<open>The answers of the platform: whether SSH is built in and supported, and those the other functions take.\<close>

record ('k, 'p) cli_platform =
  cp_ssh :: bool
  cp_sshSupported :: bool
  cp_stat :: "string \<Rightarrow> stat_result"
  cp_read :: "string \<Rightarrow> bytes option"
  cp_parse :: "bytes \<Rightarrow> 'p option"
  cp_privZero :: "'p \<Rightarrow> bool"
  cp_fresh :: 'p
  cp_path :: "string \<Rightarrow> string"
  cp_abs :: "string \<Rightarrow> string option"
  cp_isDir :: "string \<Rightarrow> bool"
  cp_loadTLS :: "string \<Rightarrow> string \<Rightarrow> bool"
  cp_zeroKey :: 'k

text \<open>\<^verbatim>\<open>masqueServer\<close> up to \<^verbatim>\<open>s.Start()\<close>.\<close>

definition masqueServer ::
  "'k node_key_api \<Rightarrow> ('k, 'p) cli_platform \<Rightarrow> environment \<Rightarrow> cli_flags \<Rightarrow> string \<Rightarrow> string \<Rightarrow> string \<Rightarrow> string \<Rightarrow>
   cli_error + ('k, 'p) server_plan" where
  "masqueServer K cp env fl flagKey flagFiles flagAllow serveSpec =
     (case masqueServer_guard fl of
        Some e \<Rightarrow> Inl e
      | None \<Rightarrow>
      case served_services (cp_ssh cp) flagFiles serveSpec of
        Inl e \<Rightarrow> Inl e
      | Inr (portSet, services) \<Rightarrow>
      case loadMasqueServerKey (cp_stat cp) (cp_read cp) (cp_parse cp) (cp_privZero cp) (cp_fresh cp) (cp_path cp) flagKey of
        Inl e \<Rightarrow> Inl e
      | Inr (priv, keyName) \<Rightarrow>
      if fl_directURL fl \<noteq> [] \<and> \<not> cp_loadTLS cp (fl_tlsCert fl) (fl_tlsKey fl) then Inl LoadDirectTLS
      else if ssh_services services \<and> \<not> cp_sshSupported cp then Inl SSHNotSupported
      else case (if flagAllow \<noteq> [] then parse_allow K (cp_zeroKey cp) (split_on CHR '','' flagAllow) [] else Inr []) of
        Inl e \<Rightarrow> Inl e
      | Inr allowed \<Rightarrow>
      case (if \<not> ssh_services services then Inr None
            else if ''files'' \<in> services then
              (case parseFilesFlag (cp_abs cp) (cp_isDir cp) flagFiles of
                 None \<Rightarrow> Inl BadFiles
               | Some fs \<Rightarrow> Inr (Some (SSHHandler (''no-auth-ssh'' \<in> services) (Some fs))))
            else Inr (Some (SSHHandler (''no-auth-ssh'' \<in> services) None))) of
        Inl e \<Rightarrow> Inl e
      | Inr sshHandler \<Rightarrow>
        Inr \<lparr>pl_key = priv, pl_keyName = keyName,
             pl_config = \<lparr>sv_DirectListen = fl_directListen fl, sv_DirectURL = fl_directURL fl,
               sv_hasCertificate = (fl_directURL fl \<noteq> []), sv_RelayURL = fl_relayURL fl,
               sv_AutomaticDirect = envTruthy env autoMasqueDirectMarkerEnv\<rparr>,
             pl_insecure = fl_insecureSkipVerify fl, pl_allowed = allowed,
             pl_served = served_ranges portSet services,
             pl_onTCP = cli_onTCP portSet services sshHandler,
             pl_onTCPForward = cli_onTCPForward services\<rparr>)"


section \<open>Client commands\<close>

text \<open>\<^verbatim>\<open>netip.ParseAddrPort\<close>.\<close>

definition ParseAddrPort :: "string \<Rightarrow> addr_port option" where
  "ParseAddrPort s =
     (case LastIndexByte s CHR '':'' of
        None \<Rightarrow> None
      | Some i \<Rightarrow>
          let ip = take i s; port = drop (Suc i) s in
          if ip = [] \<or> port = [] then None
          else let v6 = (hd ip = CHR ''['') in
            if v6 \<and> (length ip < 2 \<or> last ip \<noteq> CHR '']'') then None
            else case ParseUint16 port of
              None \<Rightarrow> None
            | Some p \<Rightarrow>
                (case ParseAddr (if v6 then slice 1 (length ip - 1) ip else ip) of
                   None \<Rightarrow> None
                 | Some a \<Rightarrow> if (v6 \<and> Is4 a) \<or> (\<not> v6 \<and> Is6 a) then None else Some (a, word_of_nat p)))"

datatype dial_target = DialPort u16 | DialAddr addr_port

text \<open>The destination of \<^verbatim>\<open>masqueClientMode\<close>; \<open>lookupPort\<close> is \<^verbatim>\<open>net.LookupPort\<close>.\<close>

definition masque_dial_target :: "(string \<Rightarrow> int option) \<Rightarrow> string \<Rightarrow> cli_error + dial_target" where
  "masque_dial_target lookupPort optDest =
     (if optDest = [] then Inr (DialPort 1)
      else if CHR '':'' \<notin> set optDest then
        (case lookupPort optDest of
           None \<Rightarrow> Inl BadPortArg
         | Some port \<Rightarrow> if port < 0 \<or> port > 65535 then Inl BadPortArg else Inr (DialPort (word_of_int port)))
      else (case ParseAddrPort optDest of None \<Rightarrow> Inl BadAddrArg | Some ap \<Rightarrow> Inr (DialAddr ap)))"

definition masqueClientResolveMode ::
  "'k node_key_api \<Rightarrow> 'd disco_key_api \<Rightarrow> 'k \<Rightarrow> 'd \<Rightarrow> string \<Rightarrow> blob_error + string" where
  "masqueClientResolveMode K D zeroKey zeroDisco blob =
     (case ParseMasqueConnBlob K D (zero_info zeroKey zeroDisco) blob of Inl e \<Rightarrow> Inl e | Inr _ \<Rightarrow> Inr blob)"

subsection \<open>Pinging until the path is direct\<close>

text \<open>
  One attempt of \<^verbatim>\<open>masqueClientPingMode\<close>: how long the ping took, its outcome with the path, the time from the reading of
  the clock that checks the deadline to the one that computes the pause, and how much longer than asked the process
  slept afterwards.
\<close>

record ping_attempt =
  pa_took :: time
  pa_path :: "path_type option"
  pa_lag :: time
  pa_overslept :: time

datatype ping_outcome = PingDone path_type | PingFailed | NoDirectPath

definition second :: time where "second = 1000000000"

text \<open>The loop from clock \<open>t0\<close> on; \<open>attempts i\<close> is the \<open>i\<close>-th attempt. The result is \<open>None\<close> if the fuel does not suffice.\<close>

fun ping_loop :: "nat \<Rightarrow> bool \<Rightarrow> time \<Rightarrow> (nat \<Rightarrow> ping_attempt) \<Rightarrow> nat \<Rightarrow> time \<Rightarrow> (nat \<times> ping_outcome) option" where
  "ping_loop 0 untilDirect deadline attempts i t0 = None"
| "ping_loop (Suc fuel) untilDirect deadline attempts i t0 =
     (let a = attempts i; now = t0 + pa_took a in
      case pa_path a of
        None \<Rightarrow>
          if \<not> untilDirect then Some (i, PingFailed)
          else let remaining = deadline - now in
            if remaining \<le> 0 then Some (i, NoDirectPath)
            else ping_loop fuel untilDirect deadline attempts (Suc i)
                   (now + pa_lag a + max 0 (min remaining (second - (pa_took a + pa_lag a))) + pa_overslept a)
      | Some path \<Rightarrow>
          if \<not> untilDirect \<or> path = DirectMasque then Some (i, PingDone path)
          else if deadline - now < second div 2 then Some (i, NoDirectPath)
          else ping_loop fuel untilDirect deadline attempts (Suc i)
                 (now + pa_lag a + max 0 (second - (pa_took a + pa_lag a)) + pa_overslept a))"

text \<open>The deadline is computed at clock \<open>now\<close> and the first attempt starts at clock \<open>t0\<close>.\<close>

definition masqueClientPingMode ::
  "nat \<Rightarrow> bool \<Rightarrow> time \<Rightarrow> (nat \<Rightarrow> ping_attempt) \<Rightarrow> time \<Rightarrow> time \<Rightarrow> (nat \<times> ping_outcome) option" where
  "masqueClientPingMode fuel untilDirect timeout attempts now t0 = ping_loop fuel untilDirect (now + timeout) attempts 0 t0"

subsection \<open>SOCKS destinations\<close>

definition normalizeListenAddrPort :: "string \<Rightarrow> string" where
  "normalizeListenAddrPort s =
     (case SplitHostPort s of
        Inr (host, port) \<Rightarrow> JoinHostPort host (if port = [] then ''0'' else port)
      | Inl _ \<Rightarrow>
          (case ParseUint16 s of
             Some port \<Rightarrow> JoinHostPort ''127.0.0.1'' (itoa port)
           | None \<Rightarrow> s @ '':0''))"

datatype socks_target = ToServer u16 | ToBlob string u16 | ToAddr addr_port

datatype socks_error = SocksSplit addr_error | SocksPort | SocksLookup | SocksNoAddrs

text \<open>\<open>valid\<close> is \<^verbatim>\<open>validCLIConnBlob\<close> and \<open>lookup_ip\<close> the resolver.\<close>

definition classifySOCKSAddr ::
  "(string \<Rightarrow> bool) \<Rightarrow> (string \<Rightarrow> addr list option) \<Rightarrow> string \<Rightarrow> socks_error + socks_target" where
  "classifySOCKSAddr valid lookup_ip address =
     (case SplitHostPort address of
        Inl e \<Rightarrow> Inl (SocksSplit e)
      | Inr (host, port) \<Rightarrow>
          (case ParseUint16 port of
             None \<Rightarrow> Inl SocksPort
           | Some n \<Rightarrow>
               let portNum = word_of_nat n in
               if host = ''server.tailcat'' \<or> host = [] then Inr (ToServer portNum)
               else if (HasPrefix host ''tc'' \<or> HasPrefix host ''mc'') \<and> CHR ''.'' \<notin> set host \<and> valid host
                 then Inr (ToBlob host portNum)
               else case ParseAddr host of
                 Some ip \<Rightarrow> Inr (ToAddr (Unmap ip, portNum))
               | None \<Rightarrow>
                   (case lookup_ip host of
                      None \<Rightarrow> Inl SocksLookup
                    | Some [] \<Rightarrow> Inl SocksNoAddrs
                    | Some (ip # ips) \<Rightarrow>
                        let ip = (case find (\<lambda>a. Is4 (Unmap a)) (ip # ips) of Some a \<Rightarrow> a | None \<Rightarrow> ip)
                        in Inr (ToAddr (Unmap ip, portNum)))))"

text \<open>An argument that is an address or a DNS name whose TXT record holds one; \<open>None\<close> is the end of the process.\<close>

definition addrBlobArg :: "(string \<Rightarrow> string list option) \<Rightarrow> string \<Rightarrow> string option" where
  "addrBlobArg lookupTXT arg =
     (if CHR ''.'' \<in> set arg then
        (case lookupTXT arg of
           None \<Rightarrow> None
         | Some txts \<Rightarrow>
             map_option (\<lambda>txt. TrimSpace (fst (CutPrefix txt ''tailcat=''))) (find (\<lambda>txt. snd (CutPrefix txt ''tailcat='')) txts))
      else if \<not> HasPrefix arg ''tc'' \<and> \<not> HasPrefix arg ''mc'' then None
      else Some arg)"

section \<open>Generating keys\<close>

record genkey_flags =
  gk_key :: string
  gk_list :: bool
  gk_delete :: bool
  gk_client :: bool
  gk_force :: bool
  gk_legacySet :: "string list"

datatype genkey_output = KeyNames "string list" | Deleted | ClientPublic string | NoTokenYet | TokenText string

text \<open>
  \<^verbatim>\<open>masqueGenKey\<close>: \<open>confDir\<close> is the configuration directory if there is one, \<open>ents\<close> the names in the key directory (none if the
  directory does not exist, \<open>None\<close> for another error), \<open>pub\<close> and \<open>disco\<close> belong to the new key, \<open>content\<close> is the text of its
  file, and \<open>mkdir\<close> and \<open>w\<close> are the outcomes of those calls.
\<close>

definition masqueGenKey ::
  "'k node_key_api \<Rightarrow> 'd disco_key_api \<Rightarrow> (string list \<Rightarrow> string) \<Rightarrow> string option \<Rightarrow> string list option \<Rightarrow> bool \<Rightarrow> file_write \<Rightarrow>
   environment \<Rightarrow> cli_flags \<Rightarrow> 'k \<Rightarrow> 'd \<Rightarrow> bytes \<Rightarrow> string list \<Rightarrow> genkey_flags \<Rightarrow> file_system \<Rightarrow>
   file_system \<times> (cli_error + genkey_output)" where
  "masqueGenKey K D join confDir ents mkdir w env fl pub disco content args gk fs =
     (if args \<noteq> [] then (fs, Inl GenkeyArgs)
      else case confDir of
        None \<Rightarrow> (fs, Inl NoConfigDir)
      | Some conf \<Rightarrow>
      if gk_list gk then
        (fs, case ents of
               None \<Rightarrow> Inl ReadKeyDir
             | Some es \<Rightarrow>
                 Inr (KeyNames (map (\<lambda>e. fst (CutSuffix e ''.private.json'')) (filter (\<lambda>e. snd (CutSuffix e ''.private.json'')) es))))
      else if gk_delete gk then
        (if gk_key gk = [] then (fs, Inl DeleteNeedsKey)
         else if keyIsPath (gk_key gk) then (fs, Inl DeletePath)
         else let p = keyPath join conf (gk_key gk) in
           if map_of fs p = None then (fs, Inl NoSuchKey) else (AList.delete p fs, Inr Deleted))
      else if gk_key gk = [] then (fs, Inl NeedsKeyName)
      else case find (\<lambda>name. name \<in> set (gk_legacySet gk)) [''region'', ''fixed-region'', ''embed-derp-map''] of
        Some name \<Rightarrow> (fs, Inl (LegacyFlag name))
      | None \<Rightarrow>
          if gk_client gk \<and> gk_key gk = ''default'' then (fs, Inl ClientDefaultMistake)
          else let path = (if keyIsPath (gk_key gk) then gk_key gk else keyPath join conf (gk_key gk)) in
            if \<not> mkdir then (fs, Inl MakeKeyDir)
            else if map_of fs path \<noteq> None \<and> \<not> gk_force gk then (fs, Inl KeyExists)
            else let fs = write_file w path content fs in
              if w \<noteq> Written then (fs, Inl WriteKey)
              else if gk_client gk then (fs, Inr (ClientPublic (KeyString K pub)))
              else if fl_relayURL fl = [] \<and> fl_directURL fl = [] then (fs, Inr NoTokenYet)
              else (fs, case ConnBlob K D \<lparr>ci_Version = 1, ci_ServerPublic = pub, ci_ServerDiscoPublic = disco,
                          ci_DirectURL = fl_directURL fl, ci_RelayURL = fl_relayURL fl,
                          ci_AutomaticDirect = envTruthy env autoMasqueDirectMarkerEnv\<rparr> of
                        Inl e \<Rightarrow> Inl (TokenError e)
                      | Inr blob \<Rightarrow> Inr (TokenText blob)))"

text \<open>A key file that exists is touched only with \<^verbatim>\<open>--force\<close> or \<^verbatim>\<open>--delete\<close>, and no other file ever is.\<close>

lemma genkey_keeps_keys:
  assumes "masqueGenKey K D join (Some conf) ents mkdir w env fl pub disco content args gk fs = (fs', r)" "map_of fs p = Some k"
    "p = keyPath join conf (gk_key gk) \<Longrightarrow> \<not> gk_force gk \<and> \<not> gk_delete gk"
  shows "map_of fs' p = Some k"
  using assms
  by (auto simp: masqueGenKey_def write_file_def keyPath_def Let_def map_of_update delete_conv split: if_splits option.splits file_write.splits)

section \<open>Ports and handlers agree\<close>

lemma served_list_set:
  fixes portSet :: "u16 set"
  shows "set (sorted_list_of_set portSet) = portSet" "no_wrap (sorted_list_of_set portSet)" "no_wrap (22 # sorted_list_of_set portSet)"
proof -
  have fin: "finite portSet" by simp
  then show "set (sorted_list_of_set portSet) = portSet" by simp
  show nw: "no_wrap (sorted_list_of_set portSet)"
    using strict_sorted_list_of_set by (intro ascending_no_wrap) blast
  show "no_wrap (22 # sorted_list_of_set portSet)" using nw by (cases "sorted_list_of_set portSet") simp_all
qed

lemma portRanges_empty: "portRanges ps = [] \<longleftrightarrow> ps = []"
  using portRanges_last [of ps] by (cases "ps = []") auto

lemma served_ranges_handlers:
  assumes "services \<subseteq> {''no-auth-ssh'', ''files'', ''exit-node''}" "sshHandler \<noteq> None \<longleftrightarrow> ssh_services services"
  shows "(case served_ranges portSet services of None \<Rightarrow> True | Some rs \<Rightarrow> ranges_contain rs port) \<longleftrightarrow>
    cli_onTCP portSet services sshHandler port \<noteq> None"
proof (cases "one_shot portSet services \<or> ''exit-node'' \<in> services")
  case True
  then show ?thesis using assms(2) by (auto simp: served_ranges_def cli_onTCP_def)
next
  case False
  let ?ps = "if ssh_services services \<and> 22 \<notin> portSet then 22 # sorted_list_of_set portSet else sorted_list_of_set portSet"
  have in_ps: "set ?ps = portSet \<union> (if ssh_services services then {22} else {})" and nw: "no_wrap ?ps"
    using served_list_set [of portSet] by auto
  have "?ps \<noteq> []"
  proof
    assume "?ps = []"
    then have "portSet = {}" "\<not> ssh_services services" using in_ps by (auto split: if_splits)
    then have "services = {}" using False assms(1) by (auto simp: ssh_services_def)
    with \<open>portSet = {}\<close> False show False by (simp add: one_shot_def)
  qed
  then have "served_ranges portSet services = Some (portRanges ?ps)"
    using False by (simp add: served_ranges_def portRanges_empty Let_def)
  moreover have "ranges_contain (portRanges ?ps) port \<longleftrightarrow> port \<in> portSet \<or> (ssh_services services \<and> port = 22)"
    using portRanges_contain [OF nw] in_ps by auto
  moreover have "cli_onTCP portSet services sshHandler port \<noteq> None \<longleftrightarrow> port \<in> portSet \<or> (ssh_services services \<and> port = 22)"
    using False assms(2) by (auto simp: cli_onTCP_def)
  ultimately show ?thesis by simp
qed

lemma parse_port_item_services:
  assumes "parse_port_item ssh r (ret, sv) = Inr (ret', sv')"
  shows "sv' \<subseteq> sv \<union> {''no-auth-ssh'', ''files'', ''exit-node''}"
  using assms by (auto simp: parse_port_item_def Let_def split: if_splits option.splits prod.splits)

lemma parse_port_items_services:
  assumes "parse_port_items ssh rs (ret, sv) = Inr (ret', sv')"
  shows "sv' \<subseteq> sv \<union> {''no-auth-ssh'', ''files'', ''exit-node''}"
  using assms
proof (induction rs arbitrary: ret sv)
  case (Cons r rs)
  obtain ret1 sv1 where one: "parse_port_item ssh (TrimSpace r) (ret, sv) = Inr (ret1, sv1)"
    "parse_port_items ssh rs (ret1, sv1) = Inr (ret', sv')"
    using Cons.prems by (auto split: sum.splits)
  show ?case using Cons.IH [OF one(2)] parse_port_item_services [OF one(1)] by blast
qed auto

lemma served_services_known:
  "served_services ssh files spec = Inr (portSet, services) \<Longrightarrow> services \<subseteq> {''no-auth-ssh'', ''files'', ''exit-node''}"
  using parse_port_items_services [of ssh _ "{}" "{}"]
  by (fastforce simp: served_services_def parsePortSet_def split: sum.splits if_splits)

text \<open>
  C34: served ports. Whatever the command line says, in the server it configures the ports the packet filter or the core
  admits are exactly those that have a handler: no admitted connection is reset for want of one, and no handler is
  unreachable. With nothing to serve and as an exit node that is every port.
\<close>
theorem cli_ports_have_handlers:
  assumes "masqueServer K cp env fl flagKey flagFiles flagAllow spec = Inr plan"
  shows "(case pl_served plan of None \<Rightarrow> True | Some rs \<Rightarrow> ranges_contain rs port) \<longleftrightarrow> pl_onTCP plan port \<noteq> None"
proof -
  from assms obtain portSet services sshHandler where
    s: "served_services (cp_ssh cp) flagFiles spec = Inr (portSet, services)"
    and p: "pl_served plan = served_ranges portSet services" "pl_onTCP plan = cli_onTCP portSet services sshHandler"
    and h: "sshHandler \<noteq> None \<longleftrightarrow> ssh_services services"
    by (auto simp: masqueServer_def split: option.splits sum.splits if_splits)
  show ?thesis unfolding p by (rule served_ranges_handlers [OF served_services_known [OF s] h])
qed


text \<open>A platform with SSH, no key files and no TLS material.\<close>

definition sample_platform :: "(raw_key, unit) cli_platform" where
  "sample_platform = \<lparr>cp_ssh = True, cp_sshSupported = True, cp_stat = (\<lambda>_. StatMissing), cp_read = (\<lambda>_. None), cp_parse = (\<lambda>_. None),
     cp_privZero = (\<lambda>_. False), cp_fresh = (), cp_path = (\<lambda>n. n), cp_abs = Some, cp_isDir = (\<lambda>_. True), cp_loadTLS = (\<lambda>_ _. False),
     cp_zeroKey = 0\<rparr>"

theorem cli_ports_have_handlers_witness:
  "\<exists>plan. masqueServer raw_keys sample_platform [] (registerMasqueCLIFlags [(''MASQUECAT_RELAY_URL'', ''https://r'')]) [] ''/srv:wo'' []
     (join_items (map item_text [PortSpan 9000 8998])) = Inr plan \<and>
   (case pl_served plan of None \<Rightarrow> True | Some rs \<Rightarrow> ranges_contain rs 9000) \<and> pl_onTCP plan 22 \<noteq> None \<and> pl_onTCP plan 80 = None"
proof -
  let ?fl = "registerMasqueCLIFlags [(''MASQUECAT_RELAY_URL'', ''https://r'')]"
  let ?spec = "join_items (map item_text [PortSpan 9000 8998])"
  have mm: "min 9000 8998 = (8998 :: u16)" "max 9000 8998 = (9000 :: u16)" by (simp_all add: min_def max_def)
  have sv: "served_services True ''/srv:wo'' ?spec = Inr ({8998..9000}, {''files''})"
    using parsePortSet_items [of "[PortSpan 9000 8998]" True] mm by (simp add: served_services_def)
  have f: "fl_directURL ?fl = []" "masqueServer_guard ?fl = None"
    by (simp_all add: masqueServer_guard_def registerMasqueCLIFlags_def Getenv_def)
  have files: "parseFilesFlag Some (\<lambda>_. True) ''/srv:wo'' = Some (''/srv'', FileServeWO)" by code_simp
  have ss: "ssh_services {''files''}" "''no-auth-ssh'' \<notin> {''files''}" by (simp_all add: ssh_services_def)
  obtain plan where p: "masqueServer raw_keys sample_platform [] ?fl [] ''/srv:wo'' [] ?spec = Inr plan"
    "pl_onTCP plan = cli_onTCP {8998..9000} {''files''} (Some (SSHHandler False (Some (''/srv'', FileServeWO))))"
    using sv f files ss by (simp add: masqueServer_def sample_platform_def loadMasqueServerKey_def)
  from cli_ports_have_handlers [OF p(1), of 9000] show ?thesis using p by (auto simp: cli_onTCP_def one_shot_def)
qed

section \<open>The automatic endpoint, end to end\<close>

lemma TrimSpace_one: "TrimSpace ''1'' = ''1''"
  by (rule TrimSpace_graphic) (simp add: graphic_def)

lemma envTruthy_one: "Getenv env name = ''1'' \<Longrightarrow> envTruthy env name"
  by (simp add: envTruthy_def TrimSpace_one ToLower_def lower_def)


text \<open>A host with one private address and certificate functions that always make the same certificate.\<close>

definition sample_x509 :: "(unit, unit, unit) x509_api" where
  "sample_x509 = \<lparr>x_GenerateKey = (\<lambda>_. Some ((), ())), x_RandInt = (\<lambda>_ _. Some 1), x_CreateCertificate = (\<lambda>_ _ _ _. Some [1]),
     x_MarshalPKCS8 = (\<lambda>_. Some [2]), x_PEM = (\<lambda>_ b. b), x_KeyPair = (\<lambda>c k. if c = [1, 2] \<and> k = [1, 2] \<or> c = [1] \<and> k = [2] then Some [[1]] else None)\<rparr>"

lemma x509_laws_sample: "x509_laws sample_x509"
  by (simp add: x509_laws_def sample_x509_def)

definition sample_os :: "unit os_answers" where
  "sample_os = \<lparr>os_interfaces = Some [\<lparr>if_FlagUp = True, if_FlagLoopback = False, if_Addrs = Some [IPNet [192, 168, 0, 2]]\<rparr>],
     os_configDir = Some ''/c'', os_join = (\<lambda>xs. CHR ''/'' # concat xs), os_mkdir = True, os_tmp = ''t'', os_entropy = (), os_now = 0, os_ten_years = 1,
     os_write = \<lparr>wo_create = True, wo_chmod = True, wo_write = None, wo_sync = True, wo_close = True, wo_rename = True\<rparr>,
     os_other = (\<lambda>fs. fs)\<rparr>"

lemma sample_configured: "fst (configureAutoMasqueDirect sample_x509 (\<lambda>_. replicate 32 0) sample_os ([], [])) = None"
proof -
  have ne: "[192, 168, 0, 2] \<noteq> replicate 16 (0 :: 8 word)" by (auto dest: arg_cong [of _ _ length])
  show ?thesis
    by (simp add: configureAutoMasqueDirect_def preferredMasqueDirectAddr_def sample_os_def candidate_addr_def AddrFromSlice_def Unmap_def
      Is4In6_def Is4_def Is6_def IsGlobalUnicast_def IsLoopback_def IsMulticast_def IsLinkLocalUnicast_def IsPrivate_def unmapped_def
      addr_IsValid_def isPublicMasqueDirectAddr_def Let_def ensureAutoMasqueCertificate_def LoadX509KeyPair_def sample_x509_def
      writeAutoMasqueBundle_def autoMasqueDirectURLWithPin_def ne)
qed


section \<open>Pinging ends\<close>

lemma ping_loop_ends:
  assumes att: "\<And>i. 0 \<le> pa_took (attempts i) \<and> 0 \<le> pa_lag (attempts i) \<and> 0 \<le> pa_overslept (attempts i)" and d: "deadline - t0 \<le> second * int n"
  shows "\<exists>j r. ping_loop (Suc n) untilDirect deadline attempts i t0 = Some (j, r) \<and> i \<le> j \<and> j \<le> i + n \<and>
    (case r of PingDone p \<Rightarrow> pa_path (attempts j) = Some p \<and> (untilDirect \<longrightarrow> p = DirectMasque)
     | PingFailed \<Rightarrow> \<not> untilDirect \<and> pa_path (attempts j) = None | NoDirectPath \<Rightarrow> untilDirect)"
  using d
proof (induction n arbitrary: i t0)
  case 0
  have "deadline - (t0 + pa_took (attempts i)) \<le> 0" using 0 att [of i] by simp
  then show ?case by (auto simp: Let_def second_def split: option.splits)
next
  case (Suc n)
  let ?a = "attempts i"
  let ?now = "t0 + pa_took ?a"
  have step: "deadline - t1 \<le> second * int n" if "t1 \<ge> t0 + second \<or> t1 \<ge> deadline" for t1
  proof -
    have "second * int (Suc n) = second * int n + second" by (simp add: algebra_simps)
    moreover have "0 \<le> second * int n" by (simp add: second_def)
    ultimately show ?thesis using that Suc.prems by linarith
  qed
  have next1: "deadline - (?now + pa_lag ?a + max 0 (min (deadline - ?now) (second - (pa_took ?a + pa_lag ?a))) + pa_overslept ?a) \<le> second * int n"
    by (rule step) (use att [of i] in linarith)
  have next2: "deadline - (?now + pa_lag ?a + max 0 (second - (pa_took ?a + pa_lag ?a)) + pa_overslept ?a) \<le> second * int n"
    by (rule step) (use att [of i] in linarith)
  from Suc.IH [OF next1, of "Suc i"] Suc.IH [OF next2, of "Suc i"] show ?case
    by (subst ping_loop.simps) (fastforce simp: Let_def simp del: ping_loop.simps split: option.splits)
qed

lemma ping_loop_mono: "ping_loop f u d a i t = Some x \<Longrightarrow> f \<le> g \<Longrightarrow> ping_loop g u d a i t = Some x"
proof (induction f arbitrary: g u i t)
  case (Suc f)
  then obtain g' where g: "g = Suc g'" "f \<le> g'" by (cases g) auto
  note IH = Suc.IH [OF _ g(2)]
  from Suc.prems(1) show ?case unfolding g(1) by (auto simp: Let_def split: option.splits if_splits intro: IH)
qed simp



end
