(* ===== verification/Relay_Serve.thy ===== *)
theory Relay_Serve
  imports Lifecycle Browser_Control Auto_Direct
begin

text \<open>
  The relay as a program: \<^verbatim>\<open>ServeMasqueRelay\<close> of \<^verbatim>\<open>masquecat_webtransport.go\<close> with its listeners and the routing of requests,
  and the choice of the certificate in \<^verbatim>\<open>cmd/masquecat-relay/main.go\<close>.
\<close>

section \<open>Serving\<close>

datatype relay_serve_error = NilRelay | RelayServe serve_error

text \<open>\<open>wt\<close> is the WebTransport server, which stands where \<^verbatim>\<open>ServeMasque\<close> has its HTTP/3 server.\<close>

definition ServeMasqueRelay ::
  "bool \<Rightarrow> bool \<Rightarrow> string \<Rightarrow> (nat \<times> string) option \<Rightarrow> nat option \<Rightarrow> nat option \<Rightarrow> nat \<Rightarrow> bool \<Rightarrow>
   resource list \<times> resource list \<times> relay_serve_error option" where
  "ServeMasqueRelay hasRelay hasCert address udp h2 tcp wt ended =
     (if \<not> hasRelay then ([], [], Some NilRelay)
      else case ServeMasque hasCert address udp h2 tcp wt ended of (opened, closed, e) \<Rightarrow> (opened, closed, map_option RelayServe e))"

datatype http_version = HTTP2 | HTTP3
datatype relay_handler = BrowserHandler | NativeHandler

text \<open>Browser sessions exist over HTTP/3 only; the HTTP/2 server has the native handler for every path.\<close>

definition relay_mux :: "http_version \<Rightarrow> string \<Rightarrow> relay_handler" where
  "relay_mux v path = (if v = HTTP3 \<and> isMasqueBrowserWebTransportPath path then BrowserHandler else NativeHandler)"

text \<open>However serving ends, every listener and server that was opened is closed, once and in reverse order.\<close>

lemma relay_serve_closes:
  assumes "ServeMasqueRelay hasRelay hasCert address udp h2 tcp wt ended = (opened, closed, e)"
  shows "closed = rev opened"
  using assms by (auto simp: ServeMasqueRelay_def ServeMasque_def split: if_splits option.splits sum.splits prod.splits)

section \<open>The certificate\<close>

definition selfSignedValidity :: time where "selfSignedValidity = 24 * 3600 * 1000000000"

datatype relay_cert_error =
  CertAndKeyTogether | LoadCertFailed | NonInteractive | NoStdin | PromptFailed | CertificateRequired
| RelayKeyFailed | RelaySerialFailed | RelayCreateFailed | RelayMarshalFailed | RelayPairFailed

definition relay_template :: "nat \<Rightarrow> string option \<Rightarrow> time \<Rightarrow> cert_template" where
  "relay_template serial hostname now =
     \<lparr>ct_SerialNumber = serial, ct_CommonName = ''MasqueCat ephemeral relay'',
      ct_NotBefore = now - 60 * 1000000000, ct_NotAfter = now + selfSignedValidity,
      ct_DNSNames = ''localhost'' # (case hostname of Some h \<Rightarrow> if h \<noteq> [] \<and> h \<noteq> ''localhost'' then [h] else [] | None \<Rightarrow> []),
      ct_IPAddresses = [[127, 0, 0, 1], replicate 15 0 @ [1]]\<rparr>"

definition generateSelfSignedCertificate ::
  "('s, 'pub, 'priv) x509_api \<Rightarrow> 's \<Rightarrow> string option \<Rightarrow> time \<Rightarrow> relay_cert_error + bytes list" where
  "generateSelfSignedCertificate X entropy hostname now =
     (case x_GenerateKey X entropy of
        None \<Rightarrow> Inl RelayKeyFailed
      | Some (pub, priv) \<Rightarrow>
          (case x_RandInt X entropy (2 ^ 128) of
             None \<Rightarrow> Inl RelaySerialFailed
           | Some serial \<Rightarrow>
               let tmpl = relay_template serial hostname now in
               (case x_CreateCertificate X tmpl tmpl pub priv of
                  None \<Rightarrow> Inl RelayCreateFailed
                | Some der \<Rightarrow>
                    (case x_MarshalPKCS8 X priv of
                       None \<Rightarrow> Inl RelayMarshalFailed
                     | Some privDER \<Rightarrow>
                         (case x_KeyPair X (x_PEM X ''CERTIFICATE'' der) (x_PEM X ''PRIVATE KEY'' privDER) of
                            None \<Rightarrow> Inl RelayPairFailed
                          | Some chain \<Rightarrow> Inr chain)))))"

text \<open>\<open>input\<close> is the standard input: \<open>None\<close> where there is none, \<open>Some None\<close> where reading fails before the end of a line.\<close>

definition loadOrGenerateCertificate ::
  "('s, 'pub, 'priv) x509_api \<Rightarrow> file_system \<Rightarrow> 's \<Rightarrow> string option \<Rightarrow> time \<Rightarrow> string \<Rightarrow> string \<Rightarrow> string option option \<Rightarrow> bool \<Rightarrow>
   relay_cert_error + bytes list \<times> bool" where
  "loadOrGenerateCertificate X fs entropy hostname now certFile keyFile input interactive =
     (if (certFile = []) \<noteq> (keyFile = []) then Inl CertAndKeyTogether
      else if certFile \<noteq> [] then
        (case LoadX509KeyPair X fs certFile keyFile of None \<Rightarrow> Inl LoadCertFailed | Some chain \<Rightarrow> Inr (chain, False))
      else if \<not> interactive then Inl NonInteractive
      else case input of
        None \<Rightarrow> Inl NoStdin
      | Some None \<Rightarrow> Inl PromptFailed
      | Some (Some text) \<Rightarrow>
          if ToLower (TrimSpace (takeWhile (\<lambda>c. c \<noteq> CHR ''\<newline>'') text)) \<in> set [''y'', ''yes'']
          then (case generateSelfSignedCertificate X entropy hostname now of Inl e \<Rightarrow> Inl e | Inr chain \<Rightarrow> Inr (chain, True))
          else Inl CertificateRequired)"

text \<open>
  A certificate is made up only for an interactive user who named no files and agreed; what is then presented is the
  one that was signed for this host, valid now and for a day.
\<close>

lemma relay_template_valid [simp]:
  "ct_NotBefore (relay_template serial hostname now) < now" "now < ct_NotAfter (relay_template serial hostname now)"
  by (simp_all add: relay_template_def selfSignedValidity_def)

lemma generated_only_when_asked:
  assumes "x509_laws X" "loadOrGenerateCertificate X fs entropy hostname now certFile keyFile input interactive = Inr (chain, True)"
  shows "interactive \<and> certFile = [] \<and> keyFile = [] \<and>
    (\<exists>serial pub priv leaf. chain = [leaf] \<and> x_GenerateKey X entropy = Some (pub, priv) \<and>
       x_CreateCertificate X (relay_template serial hostname now) (relay_template serial hostname now) pub priv = Some leaf \<and>
       ct_NotBefore (relay_template serial hostname now) < now \<and> now < ct_NotAfter (relay_template serial hostname now))"
  using assms
  by (auto simp: loadOrGenerateCertificate_def generateSelfSignedCertificate_def x509_laws_def Let_def
      split: if_splits option.splits sum.splits) blast+

end
