(* ===== verification/Legacy.thy ===== *)
theory Legacy
  imports Meow Browser_Control "HOL-Library.Multiset"
begin

unbundle bit_operations_syntax

text \<open>
  The life of the original transport's server and client (\<^verbatim>\<open>Server\<close>, \<^verbatim>\<open>Client\<close> and \<^verbatim>\<open>locoBackend.Close\<close> of \<^verbatim>\<open>tailcat.go\<close>): what
  starting opens, what every failure and \<^verbatim>\<open>Close\<close> release, the lazy start of clients, and the derivation of disco keys.
  Whether the engine, the network stack and the monitor can be created is an argument.
\<close>

section \<open>Disco keys\<close>

text \<open>\<open>hmac\<close> is HMAC-SHA256 with its key and its message.\<close>

definition disco_label :: bytes where "disco_label = string_bytes ''github.com/tailscale/tailcat disco key v1''"

definition canonical_scalar :: "bytes \<Rightarrow> bytes" where
  "canonical_scalar r = (let r = r[0 := r ! 0 AND 248]; r = r[31 := r ! 31 AND 127] in r[31 := r ! 31 OR 64])"

definition discoPrivateForNode :: "(bytes \<Rightarrow> bytes \<Rightarrow> bytes) \<Rightarrow> bytes \<Rightarrow> bytes" where
  "discoPrivateForNode hmac raw = canonical_scalar (hmac raw disco_label)"

text \<open>The derived key is a canonical scalar: a multiple of eight, with its highest bits 01.\<close>

lemma disco_scalar:
  assumes "\<And>k m. length (hmac k m) = 32"
  shows "discoPrivateForNode hmac raw ! 0 AND 7 = 0" "discoPrivateForNode hmac raw ! 31 AND 192 = 64" "length (discoPrivateForNode hmac raw) = 32"
proof -
  have b: "(x AND 248) AND 7 = (0 :: byte)" "((x AND 127) OR 64) AND 192 = (64 :: byte)" for x
    by (rule bit_word_eqI; simp add: bit_simps; auto simp: numeral_eq_Suc less_Suc_eq)+
  show "discoPrivateForNode hmac raw ! 0 AND 7 = 0" "discoPrivateForNode hmac raw ! 31 AND 192 = 64" "length (discoPrivateForNode hmac raw) = 32"
    using assms [of raw disco_label] b by (simp_all add: discoPrivateForNode_def canonical_scalar_def Let_def)
qed

section \<open>Subsystems\<close>

datatype subsystem = SysBus | SysNetMon | SysDialer | SysEngine | SysNetstack

record system_calls =
  sy_netmon :: bool
  sy_engine :: bool
  sy_netstack :: bool

datatype legacy_error =
  StartedTwice | StartExpand expand_error | MissingRegionID | NetmonFailed | EngineFailed | NetstackFailed | BackendStart
| BadToken tc_error | LacksDiscoKey | NoRegionsInToken

text \<open>The subsystems \<^verbatim>\<open>Start\<close> and \<^verbatim>\<open>initLocked\<close> create, in order, and the failure that ended it, if any.\<close>

definition create_subsystems :: "system_calls \<Rightarrow> subsystem list \<times> legacy_error option" where
  "create_subsystems sy =
     (if \<not> sy_netmon sy then ([SysBus], Some NetmonFailed)
      else if \<not> sy_engine sy then ([SysBus, SysNetMon, SysDialer], Some EngineFailed)
      else if \<not> sy_netstack sy then ([SysBus, SysNetMon, SysDialer, SysEngine], Some NetstackFailed)
      else ([SysBus, SysNetMon, SysDialer, SysEngine, SysNetstack], None))"

text \<open>A backend with its subsystems; \<^verbatim>\<open>Close\<close> closes those that exist, the first time it is called.\<close>

record ('k, 'd) legacy_running =
  rn_backend :: "('k, 'd) locoBackend"
  rn_systems :: "subsystem list"
  rn_closed :: bool

definition closing_order :: "subsystem list \<Rightarrow> subsystem list" where
  "closing_order sys = filter (\<lambda>x. x \<in> set sys) [SysNetstack, SysEngine, SysNetMon, SysDialer, SysBus]"

definition lb_Close :: "('k, 'd) legacy_running \<Rightarrow> ('k, 'd) legacy_running \<times> subsystem list" where
  "lb_Close r = (if rn_closed r then (r, []) else (r\<lparr>rn_closed := True\<rparr>, closing_order (rn_systems r)))"

text \<open>What a backend still has to close.\<close>

definition legacy_held :: "('k, 'd) legacy_running option \<Rightarrow> subsystem list" where
  "legacy_held r = (case r of Some r \<Rightarrow> if rn_closed r then [] else rn_systems r | None \<Rightarrow> [])"

section \<open>The server\<close>

record ('k, 'd) Server =
  sr_pub :: 'k
  sr_disco :: 'd
  sr_Region :: "DERPRegion option"
  sr_RegionID :: int
  sr_AllowedClients :: "'k list"
  sr_lb :: "('k, 'd) legacy_running option"

text \<open>
  \<open>expand\<close> is \<^verbatim>\<open>Expand\<close> with the server's options, \<open>backend_ok\<close> whether \<^verbatim>\<open>locoBackend.Start\<close> can start the network stack and
  configure the engine. The result lists what was opened and what was closed.
\<close>

definition legacy_Start ::
  "'k node_key_api \<Rightarrow> 'k \<Rightarrow> 'd \<Rightarrow> (('k, 'd) ConnInfo \<Rightarrow> ('k, 'd) ConnInfo \<times> expand_error option) \<Rightarrow> system_calls \<Rightarrow> bool \<Rightarrow> ('k, 'd) Server \<Rightarrow>
   (('k, 'd) Server \<times> subsystem list \<times> subsystem list \<times> legacy_error option) option" where
  "legacy_Start K zeroKey zeroDisco expand sy backend_ok s =
     (if sr_lb s \<noteq> None then Some (s, [], [], Some StartedTwice)
      else case (case sr_Region s of
                   Some r \<Rightarrow> Inr [r]
                 | None \<Rightarrow>
                     (case expand \<lparr>t_ServerPublic = zeroKey, t_ServerDiscoPublic = zeroDisco, t_Region = [],
                               t_RegionID = if sr_RegionID s \<noteq> 0 then sr_RegionID s else - 1\<rparr> of
                        (ci, Some e) \<Rightarrow> Inl e
                      | (ci, None) \<Rightarrow> Inr (t_Region ci))) of
        Inl e \<Rightarrow> Some (s, [], [], Some (StartExpand e))
      | Inr [] \<Rightarrow> None
      | Inr (reg # _) \<Rightarrow>
          if dr_RegionID reg = 0 then Some (s, [], [], Some MissingRegionID)
          else let b = (newLocoBackend (sr_pub s) (sr_disco s))\<lparr>lb_dm := [(dr_RegionID reg, reg)],
                 lb_allowedClients := (case sr_AllowedClients s of [] \<Rightarrow> None
                   | ks \<Rightarrow> Some (fold (\<lambda>k. AList.update k True) ks []))\<rparr> in
            (case create_subsystems sy of
               (sys, Some e) \<Rightarrow> Some (s, sys, closing_order sys, Some e)
             | (sys, None) \<Rightarrow>
                 if \<not> backend_ok then Some (s, sys, closing_order sys, Some BackendStart)
                 else (case lb_Start K zeroDisco b of
                         None \<Rightarrow> None
                       | Some b \<Rightarrow> Some (s\<lparr>sr_lb := Some \<lparr>rn_backend = b, rn_systems = sys, rn_closed = False\<rparr>\<rparr>, sys, [], None))))"

definition legacy_server_Close :: "('k, 'd) Server \<Rightarrow> ('k, 'd) Server \<times> subsystem list" where
  "legacy_server_Close s =
     (case sr_lb s of
        None \<Rightarrow> (s, [])
      | Some r \<Rightarrow> (case lb_Close r of (r, closed) \<Rightarrow> (s\<lparr>sr_lb := Some r\<rparr>, closed)))"

definition legacy_AddAllowedClient :: "'k \<Rightarrow> ('k, 'd) Server \<Rightarrow> ('k, 'd) Server" where
  "legacy_AddAllowedClient k s =
     (case sr_lb s of
        None \<Rightarrow> s\<lparr>sr_AllowedClients := sr_AllowedClients s @ [k]\<rparr>
      | Some r \<Rightarrow> s\<lparr>sr_lb := Some (r\<lparr>rn_backend := lb_AddAllowedClient k (rn_backend r)\<rparr>)\<rparr>)"

section \<open>The client\<close>

text \<open>\<open>cl_key\<close> is the effective key once it was resolved, named by its public and disco keys.\<close>

record ('k, 'd) Client =
  cl_Server :: string
  cl_Key :: "('k \<times> 'd) option"
  cl_key :: "('k \<times> 'd) option"
  cl_lb :: "('k, 'd) legacy_running option"
  cl_ci :: "('k, 'd) ConnInfo option"
  cl_started :: bool
  cl_upDone :: bool

definition new_legacy_client :: "string \<Rightarrow> ('k \<times> 'd) option \<Rightarrow> ('k, 'd) Client" where
  "new_legacy_client server k = \<lparr>cl_Server = server, cl_Key = k, cl_key = None, cl_lb = None, cl_ci = None, cl_started = False, cl_upDone = False\<rparr>"

definition nodeKeyLocked :: "'k \<times> 'd \<Rightarrow> ('k, 'd) Client \<Rightarrow> ('k, 'd) Client \<times> 'k \<times> 'd" where
  "nodeKeyLocked fresh c =
     (case cl_key c of
        Some k \<Rightarrow> (c, k)
      | None \<Rightarrow> let k = (case cl_Key c of Some k \<Rightarrow> k | None \<Rightarrow> fresh) in (c\<lparr>cl_key := Some k\<rparr>, k))"

text \<open>\<open>parse_blob\<close> is \<^verbatim>\<open>ParseConnBlob\<close>. The result lists what was opened and what was closed.\<close>

definition initLocked ::
  "(string \<Rightarrow> tc_error + ('k, 'd) ConnInfo) \<Rightarrow> ('d \<Rightarrow> bool) \<Rightarrow> 'k \<times> 'd \<Rightarrow> system_calls \<Rightarrow> ('k, 'd) Client \<Rightarrow>
   ('k, 'd) Client \<times> subsystem list \<times> subsystem list \<times> legacy_error option" where
  "initLocked parse_blob discoZero fresh sy c =
     (if cl_lb c \<noteq> None then (c, [], [], None)
      else case parse_blob (cl_Server c) of
        Inl e \<Rightarrow> (c, [], [], Some (BadToken e))
      | Inr ci \<Rightarrow>
          if discoZero (t_ServerDiscoPublic ci) then (c, [], [], Some LacksDiscoKey)
          else (case nodeKeyLocked fresh c of (c, pub, disco) \<Rightarrow>
            let b = (newLocoBackend pub disco)\<lparr>lb_serverPub := Some (t_ServerPublic ci)\<rparr> in
            (case create_subsystems sy of
               (sys, Some e) \<Rightarrow> (c, sys, closing_order sys, Some e)
             | (sys, None) \<Rightarrow>
                 (c\<lparr>cl_ci := Some ci, cl_lb := Some \<lparr>rn_backend = b, rn_systems = sys, rn_closed = False\<rparr>\<rparr>, sys, [], None))))"

text \<open>\<open>None\<close> is a panic for want of a region.\<close>

definition ensureStarted ::
  "'k node_key_api \<Rightarrow> (string \<Rightarrow> tc_error + ('k, 'd) ConnInfo) \<Rightarrow> ('d \<Rightarrow> bool) \<Rightarrow> 'k \<times> 'd \<Rightarrow> system_calls \<Rightarrow>
   (('k, 'd) ConnInfo \<Rightarrow> ('k, 'd) ConnInfo \<times> expand_error option) \<Rightarrow> bool \<Rightarrow> ('k, 'd) Client \<Rightarrow>
   (('k, 'd) Client \<times> subsystem list \<times> subsystem list \<times> legacy_error option) option" where
  "ensureStarted K parse_blob discoZero fresh sy expand backend_ok c0 =
     (if cl_started c0 then Some (c0, [], [], None)
      else case initLocked parse_blob discoZero fresh sy c0 of
        (c, opened, closed, Some e) \<Rightarrow> Some (c, opened, closed, Some e)
      | (c, opened, closed, None) \<Rightarrow>
          (case (cl_ci c, cl_lb c) of
             (Some ci, Some r) \<Rightarrow>
               (case expand ci of
                  (ci, Some e) \<Rightarrow> Some (c\<lparr>cl_ci := Some ci\<rparr>, opened, closed, Some (StartExpand e))
                | (ci, None) \<Rightarrow>
                    let c = c\<lparr>cl_ci := Some ci\<rparr> in
                    if t_Region ci = [] then Some (c, opened, closed, Some NoRegionsInToken)
                    else let b = (rn_backend r)\<lparr>lb_dm := fold (\<lambda>reg. AList.update (dr_RegionID reg) reg) (t_Region ci) (lb_dm (rn_backend r))\<rparr>;
                             c = c\<lparr>cl_lb := Some (r\<lparr>rn_backend := b\<rparr>)\<rparr> in
                      if \<not> backend_ok then Some (c, opened, closed, Some BackendStart)
                      else (case lb_Start K (t_ServerDiscoPublic ci) b of
                              None \<Rightarrow> None
                            | Some b \<Rightarrow> Some (c\<lparr>cl_lb := Some (r\<lparr>rn_backend := b\<rparr>), cl_started := True\<rparr>, opened, closed, None)))
           | _ \<Rightarrow> None))"

definition client_Close :: "('k, 'd) Client \<Rightarrow> ('k, 'd) Client \<times> subsystem list" where
  "client_Close c =
     (case cl_lb c of
        None \<Rightarrow> (c, [])
      | Some r \<Rightarrow> (case lb_Close r of (r, closed) \<Rightarrow> (c\<lparr>cl_lb := Some r\<rparr>, closed)))"

text \<open>\<^verbatim>\<open>PublicKey\<close> also settles the key, and a ping that was answered is remembered.\<close>

definition legacy_PublicKey :: "'k \<times> 'd \<Rightarrow> ('k, 'd) Client \<Rightarrow> ('k, 'd) Client \<times> 'k" where
  "legacy_PublicKey fresh c = (case nodeKeyLocked fresh c of (c, pub, _) \<Rightarrow> (c, pub))"

definition ping_answered :: "('k, 'd) Client \<Rightarrow> ('k, 'd) Client" where
  "ping_answered c = c\<lparr>cl_upDone := True\<rparr>"

text \<open>Whatever order the operations come in; the lists are everything that was opened and closed so far.\<close>

inductive client_run :: "'k node_key_api \<Rightarrow> string \<Rightarrow> ('k \<times> 'd) option \<Rightarrow> ('k, 'd) Client \<Rightarrow> subsystem list \<Rightarrow> subsystem list \<Rightarrow> bool"
  for K server key where
  run_new: "client_run K server key (new_legacy_client server key) [] []"
| run_start: "client_run K server key c opened closed \<Longrightarrow>
    ensureStarted K parse_blob discoZero fresh sy expand ok c = Some (c', o', x', e) \<Longrightarrow> client_run K server key c' (opened @ o') (closed @ x')"
| run_close: "client_run K server key c opened closed \<Longrightarrow> client_Close c = (c', x') \<Longrightarrow> client_run K server key c' opened (closed @ x')"
| run_key: "client_run K server key c opened closed \<Longrightarrow> legacy_PublicKey fresh c = (c', k) \<Longrightarrow> client_run K server key c' opened closed"
| run_ping: "client_run K server key c opened closed \<Longrightarrow> client_run K server key (ping_answered c) opened closed"

section \<open>The region of a new server key\<close>

text \<open>\<open>contains_fold\<close> is \<^verbatim>\<open>mem.ContainsFold\<close>; the map is visited in some order.\<close>

definition findRegionIDFromSubstring :: "(string \<Rightarrow> string \<Rightarrow> bool) \<Rightarrow> derp_map \<Rightarrow> string \<Rightarrow> int" where
  "findRegionIDFromSubstring contains_fold dm s =
     (if s = ''list'' then 0
      else case find (\<lambda>r. EqualFold (dr_RegionCode r) s) (map snd dm) of
        Some r \<Rightarrow> dr_RegionID r
      | None \<Rightarrow> (case find (\<lambda>r. contains_fold (dr_RegionName r) s) (map snd dm) of Some r \<Rightarrow> dr_RegionID r | None \<Rightarrow> 0))"

datatype genkey_end = MapFetch fetch_error | PickEnd pick_error | NoClosestRegion | RegionsListed | NoRegionMatches | NilRegion

text \<open>
  What \<^verbatim>\<open>genKey\<close> makes of \<^verbatim>\<open>--region\<close> and \<^verbatim>\<open>--embedMap-derp-map\<close>: \<open>fetched\<close> is the DERP map if it can be
  fetched, \<open>pick\<close> is \<^verbatim>\<open>PickBestRegion\<close>. \<open>NilRegion\<close> is the panic of a nil pointer; a map that is not fetched is empty.
\<close>

definition genkey_region ::
  "(string \<Rightarrow> string \<Rightarrow> bool) \<Rightarrow> (string \<Rightarrow> DERPNode) \<Rightarrow> DERPRegion \<Rightarrow> fetch_error + derp_map \<Rightarrow>
   (derp_map \<Rightarrow> pick_error + int) \<Rightarrow> string \<Rightarrow> bool \<Rightarrow> genkey_end + int \<times> DERPRegion list" where
  "genkey_region contains_fold host_node empty_region fetched pick region embedMap =
     (let (rid, regs, match) =
            (if region = ''auto'' then (- 1, [], [])
             else case Atoi region of
               Some n \<Rightarrow> (n, [], [])
             | None \<Rightarrow>
                 if CHR ''.'' \<in> set region then (0, [empty_region\<lparr>dr_Nodes := map host_node (split_on CHR '','' region)\<rparr>], [])
                 else (0, [], region)) in
      case (if match \<noteq> [] \<or> region = [] \<or> embedMap then fetched else Inr []) of
        Inl e \<Rightarrow> Inl (MapFetch e)
      | Inr dm \<Rightarrow>
      case (if region = [] then (case pick dm of Inl e \<Rightarrow> Inl (PickEnd e) | Inr i \<Rightarrow> if i = 0 then Inl NoClosestRegion else Inr i) else Inr rid) of
        Inl e \<Rightarrow> Inl e
      | Inr rid \<Rightarrow>
      case (if match \<noteq> [] then
              let i = findRegionIDFromSubstring contains_fold dm match in
              if i = 0 then Inl (if match = ''list'' then RegionsListed else NoRegionMatches) else Inr i
            else Inr rid) of
        Inl e \<Rightarrow> Inl e
      | Inr rid \<Rightarrow>
          if \<not> embedMap then Inr (rid, regs)
          else case map_of dm rid of
            None \<Rightarrow> Inl NilRegion
          | Some reg \<Rightarrow>
              Inr (0, regs @ [reg\<lparr>dr_Nodes := map (\<lambda>n. n\<lparr>dn_IPv6 := []\<rparr>) (take 2 (dr_Nodes reg))\<rparr>]))"

text \<open>With the default region, embedding the map always dereferences a nil pointer.\<close>

lemma genkey_embed_auto:
  assumes "fetched = Inr dm" "map_of dm (- 1) = None"
  shows "genkey_region contains_fold host_node empty_region fetched pick ''auto'' True = Inl NilRegion"
  using assms by (simp add: genkey_region_def)

text \<open>A region picked by latency or by name can be embedded, if the numbers of the map's regions are their keys.\<close>

lemma genkey_embed_match:
  assumes "\<And>i r. (i, r) \<in> set dm \<Longrightarrow> dr_RegionID r = i" "findRegionIDFromSubstring contains_fold dm s \<noteq> 0"
  shows "map_of dm (findRegionIDFromSubstring contains_fold dm s) \<noteq> None"
proof -
  have mem: "dr_RegionID r \<in> fst ` set dm" if "find P (map snd dm) = Some r" for P r
  proof -
    have "r \<in> set (map snd dm)" using that by (metis find_Some_iff nth_mem)
    then show ?thesis using assms(1) by force
  qed
  have "findRegionIDFromSubstring contains_fold dm s \<in> fst ` set dm"
    using assms(2) mem by (simp add: findRegionIDFromSubstring_def split: if_splits option.splits)
  then show ?thesis by (simp add: map_of_eq_None_iff)
qed

section \<open>Nothing leaks\<close>

definition closable :: "('k, 'd) legacy_running option \<Rightarrow> bool" where
  "closable r \<longleftrightarrow> (case r of Some r \<Rightarrow> mset (closing_order (rn_systems r)) = mset (rn_systems r) | None \<Rightarrow> True)"

lemma created_closable: "create_subsystems sy = (sys, e) \<Longrightarrow> mset (closing_order sys) = mset sys"
  by (auto simp: create_subsystems_def closing_order_def split: if_splits)

lemma lb_Close_held:
  assumes "closable (Some r)" "lb_Close r = (r', closed)"
  shows "mset closed = mset (legacy_held (Some r)) \<and> legacy_held (Some r') = [] \<and> closable (Some r') \<and> rn_backend r' = rn_backend r"
  using assms by (auto simp: lb_Close_def legacy_held_def closable_def split: if_splits)

text \<open>A server that fails to start has closed everything it opened, and one that started closes it when it is closed.\<close>

lemma server_start_no_leak:
  assumes "legacy_Start K zk zd expand sy ok s = Some (s', opened, closed, e)" "sr_lb s = None"
  shows "mset opened = mset closed + mset (legacy_held (sr_lb s'))" "e \<noteq> None \<longleftrightarrow> sr_lb s' = None" "mset (snd (legacy_server_Close s')) = mset (legacy_held (sr_lb s'))"
proof -
  obtain sys x where sys: "create_subsystems sy = (sys, x)" by fastforce
  have perm: "mset (closing_order sys) = mset sys" by (rule created_closable [OF sys])
  show "mset opened = mset closed + mset (legacy_held (sr_lb s'))" "e \<noteq> None \<longleftrightarrow> sr_lb s' = None" "mset (snd (legacy_server_Close s')) = mset (legacy_held (sr_lb s'))"
    using assms sys perm
    by (auto simp: legacy_Start_def Let_def legacy_held_def legacy_server_Close_def lb_Close_def
        split: if_splits option.splits sum.splits list.splits prod.splits)
qed

lemma initLocked_effect:
  assumes "initLocked parse_blob discoZero fresh sy c = (c', opened, closed, e)" "(cl_lb c = None) = (cl_ci c = None)"
    "closable (cl_lb c)" "\<And>r. cl_lb c = Some r \<Longrightarrow> cl_key c = Some (lb_pub (rn_backend r), lb_disco (rn_backend r))"
  shows "mset opened + mset (legacy_held (cl_lb c)) = mset closed + mset (legacy_held (cl_lb c'))" "closable (cl_lb c')"
    "(cl_lb c' = None) = (cl_ci c' = None)" "e = None \<Longrightarrow> cl_lb c' \<noteq> None"
    "\<And>r. cl_lb c' = Some r \<Longrightarrow> cl_key c' = Some (lb_pub (rn_backend r), lb_disco (rn_backend r))"
    "cl_key c = Some k \<Longrightarrow> cl_key c' = Some k"
proof -
  obtain sys x where sys: "create_subsystems sy = (sys, x)" by fastforce
  have perm: "mset (closing_order sys) = mset sys" by (rule created_closable [OF sys])
  note defs = initLocked_def nodeKeyLocked_def newLocoBackend_def Let_def legacy_held_def closable_def
  note cases = if_splits option.splits sum.splits prod.splits
  show "mset opened + mset (legacy_held (cl_lb c)) = mset closed + mset (legacy_held (cl_lb c'))"
    using assms(1) sys perm by (auto simp: defs split: cases)
  show "closable (cl_lb c')" using assms(1,3) sys perm by (auto simp: defs split: cases)
  show "(cl_lb c' = None) = (cl_ci c' = None)" using assms(1,2) sys by (auto simp: defs split: cases)
  show "e = None \<Longrightarrow> cl_lb c' \<noteq> None" using assms(1) sys by (auto simp: defs split: cases)
  show "\<And>r. cl_lb c' = Some r \<Longrightarrow> cl_key c' = Some (lb_pub (rn_backend r), lb_disco (rn_backend r))"
    using assms(1,4) sys by (auto simp: defs split: cases)
  show "cl_key c = Some k \<Longrightarrow> cl_key c' = Some k" using assms(1) sys by (auto simp: defs split: cases)
qed

definition legacy_client_inv :: "('k, 'd) Client \<Rightarrow> subsystem list \<Rightarrow> subsystem list \<Rightarrow> bool" where
  "legacy_client_inv c opened closed \<longleftrightarrow>
     mset opened = mset closed + mset (legacy_held (cl_lb c)) \<and> closable (cl_lb c) \<and> (cl_lb c = None \<longleftrightarrow> cl_ci c = None) \<and>
     (\<forall>r. cl_lb c = Some r \<longrightarrow> cl_key c = Some (lb_pub (rn_backend r), lb_disco (rn_backend r)))"

lemma lb_Start_Some: "lb_dm b \<noteq> [] \<Longrightarrow> \<exists>b'. lb_Start K d b = Some b' \<and> lb_pub b' = lb_pub b \<and> lb_disco b' = lb_disco b"
  by (cases "lb_dm b") (auto simp: lb_Start_def derpRegionID_def)

lemma update_nonempty: "AList.update k v m \<noteq> []"
  by (cases m) auto

lemma regions_nonempty: "rs \<noteq> [] \<Longrightarrow> fold (\<lambda>reg. AList.update (dr_RegionID reg) reg) rs m \<noteq> []"
  by (induction rs rule: rev_induct) (simp_all add: update_nonempty)

lemma ensureStarted_effect:
  assumes "legacy_client_inv c opened closed"
  shows "\<exists>c' o' x' e. ensureStarted K parse_blob discoZero fresh sy expand ok c = Some (c', o', x', e) \<and>
    legacy_client_inv c' (opened @ o') (closed @ x') \<and> (\<forall>k. cl_key c = Some k \<longrightarrow> cl_key c' = Some k)"
proof (cases "cl_started c")
  case False
  obtain c1 o1 x1 e1 where i: "initLocked parse_blob discoZero fresh sy c = (c1, o1, x1, e1)" by (metis prod_cases4)
  note eff = initLocked_effect [OF i]
  have inv: "legacy_client_inv c1 (opened @ o1) (closed @ x1)" "\<forall>k. cl_key c = Some k \<longrightarrow> cl_key c1 = Some k"
    "e1 = None \<Longrightarrow> cl_lb c1 \<noteq> None"
    using eff assms unfolding legacy_client_inv_def by (auto simp: union_assoc ac_simps)
  show ?thesis
  proof (cases e1)
    case (Some e)
    then show ?thesis using False i inv by (simp add: ensureStarted_def)
  next
    case None
    obtain ci r where cr: "cl_ci c1 = Some ci" "cl_lb c1 = Some r" using inv None unfolding legacy_client_inv_def by auto
    obtain ci' x where ex: "expand ci = (ci', x)" by fastforce
    let ?b = "(rn_backend r)\<lparr>lb_dm := fold (\<lambda>reg. AList.update (dr_RegionID reg) reg) (t_Region ci') (lb_dm (rn_backend r))\<rparr>"
    have keep: "legacy_client_inv c2 (opened @ o1) (closed @ x1)"
      if "cl_lb c2 = Some (r\<lparr>rn_backend := b\<rparr>)" "lb_pub b = lb_pub (rn_backend r)" "lb_disco b = lb_disco (rn_backend r)" "cl_key c2 = cl_key c1" "cl_ci c2 \<noteq> None" for c2 b
      using that inv(1) cr unfolding legacy_client_inv_def by (simp add: legacy_held_def closable_def)
    have keep0: "legacy_client_inv (c1\<lparr>cl_ci := Some ci'\<rparr>) (opened @ o1) (closed @ x1)" using inv(1) cr unfolding legacy_client_inv_def by simp
    consider (fails) e where "x = Some e" | (none) "x = None" "t_Region ci' = []" | (runs) "x = None" "t_Region ci' \<noteq> []" by (cases x) auto
    then show ?thesis
    proof cases
      case runs
      obtain b' where b': "lb_Start K (t_ServerDiscoPublic ci') ?b = Some b'" "lb_pub b' = lb_pub (rn_backend r)" "lb_disco b' = lb_disco (rn_backend r)"
        using lb_Start_Some [of ?b K "t_ServerDiscoPublic ci'"] regions_nonempty [OF runs(2)] by auto
      show ?thesis
        using False i None cr ex runs b' inv(2) keep [of "c1\<lparr>cl_ci := Some ci', cl_lb := Some (r\<lparr>rn_backend := ?b\<rparr>)\<rparr>" ?b]
          keep [of "c1\<lparr>cl_ci := Some ci', cl_lb := Some (r\<lparr>rn_backend := b'\<rparr>), cl_started := True\<rparr>" b']
        by (cases ok) (auto simp: ensureStarted_def Let_def)
    qed (use False i None cr ex inv(2) keep0 in \<open>auto simp: ensureStarted_def Let_def\<close>)
  qed
qed (use assms in \<open>simp add: ensureStarted_def\<close>)

lemma client_run_inv: "client_run K server key c opened closed \<Longrightarrow> legacy_client_inv c opened closed"
proof (induction rule: client_run.induct)
  case run_new
  show ?case by (simp add: legacy_client_inv_def new_legacy_client_def legacy_held_def closable_def)
next
  case (run_start c opened closed parse_blob discoZero fresh sy expand ok c' o' x' e)
  then show ?case using ensureStarted_effect [OF run_start.IH, of K parse_blob discoZero fresh sy expand ok] by auto
next
  case (run_close c opened closed c' x')
  show ?case
  proof (cases "cl_lb c")
    case (Some r)
    obtain r' where r: "lb_Close r = (r', x')" "c' = c\<lparr>cl_lb := Some r'\<rparr>" using run_close.hyps(2) Some by (auto simp: client_Close_def split: prod.splits)
    show ?thesis using run_close.IH lb_Close_held [OF _ r(1)] Some r(2) unfolding legacy_client_inv_def by auto
  qed (use run_close in \<open>simp add: client_Close_def\<close>)
next
  case (run_key c opened closed fresh c' k)
  then show ?case by (cases "cl_key c") (auto simp: legacy_PublicKey_def nodeKeyLocked_def legacy_client_inv_def Let_def split: prod.splits option.splits)
qed (simp add: ping_answered_def legacy_client_inv_def)

text \<open>
  The life of a legacy client. Whatever its operations and their failures, each subsystem it ever opened was closed
  exactly once or is still held by its one backend; closing it then closes exactly what is left. Its identity, once
  settled, never changes and is the one its backend uses, and starting it never panics.
\<close>
theorem legacy_client_lifecycle:
  assumes "client_run K server key c opened closed"
  shows "mset opened = mset closed + mset (legacy_held (cl_lb c)) \<and> mset opened = mset (closed @ snd (client_Close c)) \<and>
    (\<forall>r. cl_lb c = Some r \<longrightarrow> cl_key c = Some (lb_pub (rn_backend r), lb_disco (rn_backend r))) \<and>
    (\<forall>parse_blob discoZero fresh sy expand ok. \<exists>c' o' x' e.
       ensureStarted K parse_blob discoZero fresh sy expand ok c = Some (c', o', x', e) \<and> (\<forall>k. cl_key c = Some k \<longrightarrow> cl_key c' = Some k))"
proof (intro conjI allI)
  note inv = client_run_inv [OF assms]
  then show m: "mset opened = mset closed + mset (legacy_held (cl_lb c))" by (simp add: legacy_client_inv_def)
  have "mset (snd (client_Close c)) = mset (legacy_held (cl_lb c))"
  proof (cases "cl_lb c")
    case (Some r)
    obtain r' x where "lb_Close r = (r', x)" by fastforce
    then show ?thesis using lb_Close_held [of r] inv Some by (auto simp: client_Close_def legacy_client_inv_def)
  qed (simp add: client_Close_def legacy_held_def)
  then show "mset opened = mset (closed @ snd (client_Close c))" using m by simp
  show "cl_lb c = Some r \<longrightarrow> cl_key c = Some (lb_pub (rn_backend r), lb_disco (rn_backend r))" for r using inv by (simp add: legacy_client_inv_def)
  show "\<exists>c' o' x' e. ensureStarted K parse_blob discoZero fresh sy expand ok c = Some (c', o', x', e) \<and> (\<forall>k. cl_key c = Some k \<longrightarrow> cl_key c' = Some k)"
    for parse_blob discoZero fresh sy expand ok using ensureStarted_effect [OF inv] by blast
qed

theorem legacy_client_lifecycle_witness:
  "\<exists>c. client_run raw_keys ''tcx'' (Some (1, 2 :: nat)) c [SysBus, SysNetMon, SysDialer] [SysNetMon, SysDialer, SysBus] \<and>
     legacy_held (cl_lb c) = [] \<and> cl_key c = Some (1, 2)"
proof -
  let ?c = "new_legacy_client ''tcx'' (Some (1 :: raw_key, 2 :: nat))"
  let ?sy = "\<lparr>sy_netmon = True, sy_engine = False, sy_netstack = True\<rparr>"
  let ?parse = "\<lambda>_. Inr \<lparr>t_ServerPublic = 5 :: raw_key, t_ServerDiscoPublic = 6 :: nat, t_Region = [], t_RegionID = 1\<rparr>"
  have st: "ensureStarted raw_keys ?parse (\<lambda>d. d = 0) (3, 4) ?sy (\<lambda>ci. (ci, None)) True ?c =
    Some (?c\<lparr>cl_key := Some (1, 2)\<rparr>, [SysBus, SysNetMon, SysDialer], [SysNetMon, SysDialer, SysBus], Some EngineFailed)"
    by (simp add: ensureStarted_def initLocked_def new_legacy_client_def nodeKeyLocked_def create_subsystems_def closing_order_def Let_def)
  have run: "client_run raw_keys ''tcx'' (Some (1, 2)) (?c\<lparr>cl_key := Some (1, 2)\<rparr>) [SysBus, SysNetMon, SysDialer] [SysNetMon, SysDialer, SysBus]"
    using run_start [OF run_new st] by simp
  from legacy_client_lifecycle [OF this] have "mset (legacy_held (cl_lb (?c\<lparr>cl_key := Some (1, 2)\<rparr>))) = {#}" by auto
  then show ?thesis using run by auto
qed

end
